(* ===== verification/Prelude.thy ===== *)
theory Prelude
  imports Main "HOL-Library.Word"
begin

text \<open>
  Shared vocabulary of the development: the result code type of the repository
  (\<open>LCT_ERR_CODE\<close>, an \<open>int32_t\<close>), the faults a C++ expression can end in, the
  fixed-width conversions of signed and unsigned integers, and generic list lemmas.
  Nothing here is specific to one component.
\<close>

unbundle bit_operations_syntax

named_theorems lct_defs \<open>operations of the component at hand, unfolded by its own proofs\<close>

section \<open>Result codes and faults\<close>

text \<open>
  \<open>typedef int32_t LCT_ERR_CODE\<close>: a 32-bit pattern.  Codes such as \<open>0x8000F000\<close> do not
  fit a positive \<open>int32_t\<close>; as words they are just that bit pattern.
\<close>

type_synonym lct_err = "32 word"

text \<open>
  What an expression can do instead of returning: throw one of the standard exceptions the
  code provokes, leave the defined behaviour of C++ (a read or write outside an object), wait
  for something that never happens, or end the process by \<open>std::terminate\<close>.
\<close>

datatype fault = Out_of_range | Invalid_argument | System_error | Undefined | Blocked | Terminated

type_synonym 'a res = "fault + 'a"

definition res_bind :: "'a res \<Rightarrow> ('a \<Rightarrow> 'b res) \<Rightarrow> 'b res" where
  "res_bind m f = (case m of Inl e \<Rightarrow> Inl e | Inr x \<Rightarrow> f x)"

lemma res_bind_simps [simp]:
  "res_bind (Inl e) f = Inl e"
  "res_bind (Inr x) f = f x"
  by (simp_all add: res_bind_def)

lemma res_bind_Inr_iff: "res_bind m f = Inr y \<longleftrightarrow> (\<exists>x. m = Inr x \<and> f x = Inr y)"
  by (cases m) auto

definition res_ok :: "'a res \<Rightarrow> bool" where
  "res_ok m \<longleftrightarrow> (\<exists>x. m = Inr x)"

lemma res_ok_simps [simp]: "res_ok (Inr x)" "\<not> res_ok (Inl e)"
  by (simp_all add: res_ok_def)

section \<open>Integers at their width\<close>

text \<open>
  Values of \<open>int16_t\<close>, \<open>int32_t\<close>, \<open>int64_t\<close> and \<open>uint16_t\<close> are kept as \<open>int\<close>; a conversion
  to the type, and an addition that may leave its range, is written with these functions
  (two's complement, as the compilers of the repository's targets do it).
\<close>

definition to_i16 :: "int \<Rightarrow> int" where "to_i16 = signed_take_bit 15"
definition to_i32 :: "int \<Rightarrow> int" where "to_i32 = signed_take_bit 31"
definition to_i64 :: "int \<Rightarrow> int" where "to_i64 = signed_take_bit 63"
definition to_u16 :: "int \<Rightarrow> int" where "to_u16 = take_bit 16"

definition in_i32 :: "int \<Rightarrow> bool" where "in_i32 k \<longleftrightarrow> - (2 ^ 31) \<le> k \<and> k < 2 ^ 31"
definition in_i64 :: "int \<Rightarrow> bool" where "in_i64 k \<longleftrightarrow> - (2 ^ 63) \<le> k \<and> k < 2 ^ 63"

lemma to_i16_id: "- (2 ^ 15) \<le> k \<Longrightarrow> k < 2 ^ 15 \<Longrightarrow> to_i16 k = k"
  unfolding to_i16_def by (rule signed_take_bit_int_eq_self) simp_all

lemma to_i32_id: "in_i32 k \<Longrightarrow> to_i32 k = k"
  unfolding to_i32_def in_i32_def by (rule signed_take_bit_int_eq_self) simp_all

lemma to_i64_id: "in_i64 k \<Longrightarrow> to_i64 k = k"
  unfolding to_i64_def in_i64_def by (rule signed_take_bit_int_eq_self) simp_all

lemma to_i64_nonneg: "0 \<le> k \<Longrightarrow> k < 2 ^ 63 \<Longrightarrow> to_i64 k = k"
  by (rule to_i64_id) (simp add: in_i64_def)

lemma to_u16_id: "0 \<le> k \<Longrightarrow> k < 2 ^ 16 \<Longrightarrow> to_u16 k = k"
  unfolding to_u16_def by (rule take_bit_int_eq_self) simp_all

lemma to_i32_range: "in_i32 (to_i32 k)"
  unfolding in_i32_def to_i32_def
  using signed_take_bit_int_greater_eq_minus_exp [of 31 k] signed_take_bit_int_less_exp [of 31 k]
  by simp

lemma to_i64_range: "in_i64 (to_i64 k)"
  unfolding in_i64_def to_i64_def
  using signed_take_bit_int_greater_eq_minus_exp [of 63 k] signed_take_bit_int_less_exp [of 63 k]
  by simp

lemma to_u16_range: "0 \<le> to_u16 k \<and> to_u16 k < 2 ^ 16"
  unfolding to_u16_def using take_bit_int_less_exp [of 16 k] by simp

text \<open>Division and remainder of C++ truncate towards zero.\<close>

definition cdiv :: "int \<Rightarrow> int \<Rightarrow> int" where
  "cdiv a b = sgn a * sgn b * (\<bar>a\<bar> div \<bar>b\<bar>)"

definition cmod :: "int \<Rightarrow> int \<Rightarrow> int" where
  "cmod a b = a - b * cdiv a b"

lemma cdiv_nonneg: "0 \<le> a \<Longrightarrow> 0 < b \<Longrightarrow> cdiv a b = a div b"
  by (cases "a = 0") (simp_all add: cdiv_def)

lemma cmod_nonneg: "0 \<le> a \<Longrightarrow> 0 < b \<Longrightarrow> cmod a b = a mod b"
  by (simp add: cmod_def cdiv_nonneg minus_mult_div_eq_mod)

section \<open>Lists\<close>

lemma take_Suc_nth_append: "i < length xs \<Longrightarrow> take (Suc i) xs = take i xs @ [xs ! i]"
  by (simp add: take_Suc_conv_app_nth)

lemma map_upt_shift: "map f [a..<a + n] = map (\<lambda>i. f (a + i)) [0..<n]"
  by (rule nth_equalityI) simp_all

lemma list_all_option_map_the:
  "list_all (\<lambda>x. x \<noteq> None) xs \<Longrightarrow> map Some (map the xs) = xs"
  by (induction xs) auto

text \<open>Small index ranges, one conjunct per index.\<close>

lemma all_less_two: "(\<forall>i < (2::nat). P i) \<longleftrightarrow> P 0 \<and> P 1"
  by (auto simp: numeral_2_eq_2 less_Suc_eq)

lemma all_less_four: "(\<forall>i < (4::nat). P i) \<longleftrightarrow> P 0 \<and> P 1 \<and> P 2 \<and> P 3"
  by (auto simp: numeral_nat less_Suc_eq)

lemma fold_snoc: "fold f (xs @ [x]) s = f x (fold f xs s)"
  by simp

end
