(* ===== verification/Std_String.thy ===== *)
theory Std_String
  imports Prelude
begin

text \<open>
  The members of \<open>std::string\<close> and the conversion functions of the standard library that
  the repository calls, on \<open>char list\<close>s: searching, \<open>substr\<close> with its exception, decimal
  and hexadecimal printing, \<open>std::stoi\<close> / \<open>std::stol\<close>, and the two \<open>getline\<close>s.  A position
  \<open>npos\<close> is \<open>None\<close>.
\<close>

section \<open>Searching and substrings\<close>

text \<open>\<open>s.substr(pos, n)\<close>: throws when \<open>pos > size\<close>, otherwise at most \<open>n\<close> characters.\<close>

definition str_substr :: "string \<Rightarrow> nat \<Rightarrow> nat \<Rightarrow> string res" where
  "str_substr s pos n = (if length s < pos then Inl Out_of_range else Inr (take n (drop pos s)))"

definition str_substr_from :: "string \<Rightarrow> nat \<Rightarrow> string res" where
  "str_substr_from s pos = (if length s < pos then Inl Out_of_range else Inr (drop pos s))"

text \<open>\<open>s.find(d, pos)\<close>: the least index from \<open>pos\<close> on where \<open>d\<close> occurs.\<close>

fun find_in :: "string \<Rightarrow> string \<Rightarrow> nat \<Rightarrow> nat option" where
  "find_in d [] i = (if d = [] then Some i else None)"
| "find_in d (c # cs) i =
     (if take (length d) (c # cs) = d then Some i else find_in d cs (Suc i))"

definition str_find :: "string \<Rightarrow> string \<Rightarrow> nat \<Rightarrow> nat option" where
  "str_find s d pos = (if pos \<le> length s then find_in d (drop pos s) pos else None)"

lemma find_in_Some:
  "find_in d s i = Some j \<Longrightarrow> i \<le> j \<and> j + length d \<le> i + length s \<and> take (length d) (drop (j - i) s) = d"
proof (induction d s i rule: find_in.induct)
  case (1 d i)
  then show ?case by (auto split: if_splits)
next
  case (2 d c cs i)
  show ?case
  proof (cases "take (length d) (c # cs) = d")
    case True
    then have "length d \<le> length (c # cs)" by (metis length_take min.cobounded1)
    with True 2(2) show ?thesis by auto
  next
    case False
    with 2 have "Suc i \<le> j \<and> j + length d \<le> Suc i + length cs \<and> take (length d) (drop (j - Suc i) cs) = d"
      by auto
    then show ?thesis by (auto simp: Suc_diff_Suc drop_Cons')
  qed
qed

lemma find_in_bounds:
  assumes "find_in d s i = Some j"
  shows "i \<le> j \<and> j + length d \<le> i + length s"
  using find_in_Some [OF assms] by blast

lemma find_in_first: "find_in d s i = Some j \<Longrightarrow> i \<le> k \<Longrightarrow> k < j \<Longrightarrow> take (length d) (drop (k - i) s) \<noteq> d"
proof (induction d s i rule: find_in.induct)
  case (1 d i)
  then show ?case by (auto split: if_splits)
next
  case (2 d c cs i)
  show ?case
  proof (cases "k = i")
    case True
    with 2 show ?thesis by (auto split: if_splits)
  next
    case False
    with 2 have "k - i = Suc (k - Suc i)" and "Suc i \<le> k" by auto
    with 2 show ?thesis by (auto split: if_splits)
  qed
qed

lemma str_find_bounds:
  "str_find s d pos = Some j \<Longrightarrow> pos \<le> j \<and> j + length d \<le> length s"
  by (auto simp: str_find_def split: if_splits dest!: find_in_bounds)

text \<open>\<open>find_first_of\<close> of one character, \<open>find_first_not_of\<close> and \<open>find_last_not_of\<close> of a set.\<close>

fun find_char_in :: "char \<Rightarrow> string \<Rightarrow> nat \<Rightarrow> nat option" where
  "find_char_in c [] i = None"
| "find_char_in c (x # xs) i = (if x = c then Some i else find_char_in c xs (Suc i))"

definition str_find_first_of :: "string \<Rightarrow> char \<Rightarrow> nat \<Rightarrow> nat option" where
  "str_find_first_of s c pos = find_char_in c (drop pos s) pos"

fun str_find_first_not_of :: "string \<Rightarrow> string \<Rightarrow> nat option" where
  "str_find_first_not_of [] d = None"
| "str_find_first_not_of (x # xs) d =
     (if x \<in> set d then map_option Suc (str_find_first_not_of xs d) else Some 0)"

fun str_find_last_not_of :: "string \<Rightarrow> string \<Rightarrow> nat option" where
  "str_find_last_not_of [] d = None"
| "str_find_last_not_of (x # xs) d =
     (case str_find_last_not_of xs d of
        Some j \<Rightarrow> Some (Suc j)
      | None \<Rightarrow> if x \<in> set d then None else Some 0)"

lemma find_char_in_Some:
  "find_char_in c s i = Some j \<Longrightarrow> i \<le> j \<and> j < i + length s \<and> s ! (j - i) = c
     \<and> c \<notin> set (take (j - i) s)"
proof (induction s arbitrary: i)
  case Nil
  then show ?case by simp
next
  case (Cons x xs)
  show ?case
  proof (cases "x = c")
    case True
    with Cons.prems show ?thesis by simp
  next
    case False
    with Cons.prems have "find_char_in c xs (Suc i) = Some j" by simp
    note ih = Cons.IH [OF this]
    then have "j - i = Suc (j - Suc i)" by linarith
    with ih False show ?thesis by simp
  qed
qed

lemma find_char_in_None: "find_char_in c s i = None \<longleftrightarrow> c \<notin> set s"
  by (induction s arbitrary: i) auto

lemma first_not_of_None: "str_find_first_not_of s d = None \<longleftrightarrow> set s \<subseteq> set d"
  by (induction s) auto

lemma last_not_of_None: "str_find_last_not_of s d = None \<longleftrightarrow> set s \<subseteq> set d"
  by (induction s) (auto split: option.splits)

lemma first_not_of_dropWhile:
  "str_find_first_not_of s d = Some p \<Longrightarrow> drop p s = dropWhile (\<lambda>c. c \<in> set d) s \<and> p < length s"
  by (induction s arbitrary: p) (auto split: if_splits)

lemma last_not_of_Some:
  "str_find_last_not_of s d = Some j \<Longrightarrow> j < length s \<and> s ! j \<notin> set d \<and> set (drop (Suc j) s) \<subseteq> set d"
  by (induction s arbitrary: j) (auto split: option.splits if_splits simp: last_not_of_None)

lemma first_le_last_not_of:
  "str_find_first_not_of s d = Some p \<Longrightarrow> str_find_last_not_of s d = Some j \<Longrightarrow> p \<le> j"
  by (induction s arbitrary: p j)
     (auto split: option.splits if_splits simp: last_not_of_None first_not_of_None)

section \<open>Printing integers\<close>

fun show_nat :: "nat \<Rightarrow> string" where
  "show_nat n = (if n < 10 then [char_of (48 + n)]
                 else show_nat (n div 10) @ [char_of (48 + n mod 10)])"

declare show_nat.simps [simp del]

text \<open>\<open>std::to_string\<close> and \<open>operator<<\<close> of an integer in decimal.\<close>

definition to_string :: "int \<Rightarrow> string" where
  "to_string k = (if k < 0 then CHR ''-'' # show_nat (nat (- k)) else show_nat (nat k))"

definition hex_digit :: "nat \<Rightarrow> char" where
  "hex_digit n = ''0123456789abcdef'' ! n"

fun show_hex :: "nat \<Rightarrow> string" where
  "show_hex n = (if n < 16 then [hex_digit n] else show_hex (n div 16) @ [hex_digit (n mod 16)])"

declare show_hex.simps [simp del]

definition is_digit :: "char \<Rightarrow> bool" where
  "is_digit c \<longleftrightarrow> 48 \<le> (of_char c :: nat) \<and> (of_char c :: nat) \<le> 57"

definition digit_val :: "char \<Rightarrow> nat" where
  "digit_val c = of_char c - 48"

definition nat_of_digits :: "string \<Rightarrow> nat" where
  "nat_of_digits s = foldl (\<lambda>a c. 10 * a + digit_val c) 0 s"

lemma of_char_digit: "d < 10 \<Longrightarrow> of_char (char_of (48 + d :: nat)) = 48 + d"
  by (simp add: of_char_of)

lemma is_digit_char_of: "d < 10 \<Longrightarrow> is_digit (char_of (48 + d :: nat))"
  by (simp add: is_digit_def of_char_of)

lemma digit_val_char_of: "d < 10 \<Longrightarrow> digit_val (char_of (48 + d :: nat)) = d"
  by (simp add: digit_val_def of_char_of)

lemma nat_of_digits_snoc: "nat_of_digits (s @ [c]) = 10 * nat_of_digits s + digit_val c"
  by (simp add: nat_of_digits_def)

lemma show_nat_digits: "\<forall>c \<in> set (show_nat n). is_digit c"
proof (induction n rule: show_nat.induct)
  case (1 n)
  then show ?case by (subst show_nat.simps) (auto simp: is_digit_char_of)
qed

lemma takeWhile_digit_show_nat [simp]: "takeWhile is_digit (show_nat n) = show_nat n"
  using show_nat_digits by (simp only: takeWhile_eq_all_conv)

lemma show_nat_nonempty [simp]: "show_nat n \<noteq> []"
  by (subst show_nat.simps) simp

lemma nat_of_digits_show_nat [simp]: "nat_of_digits (show_nat n) = n"
proof (induction n rule: show_nat.induct)
  case (1 n)
  show ?case
  proof (cases "n < 10")
    case True
    then show ?thesis
      by (subst show_nat.simps) (simp add: nat_of_digits_def digit_val_char_of)
  next
    case False
    with 1 show ?thesis
      by (subst show_nat.simps) (simp add: nat_of_digits_snoc digit_val_char_of)
  qed
qed

lemma show_nat_inject [simp]: "show_nat m = show_nat n \<longleftrightarrow> m = n"
  by (metis nat_of_digits_show_nat)

lemma nat_of_digits_zeros: "nat_of_digits (replicate k (CHR ''0'') @ s) = nat_of_digits s"
proof (induction k)
  case (Suc k)
  then show ?case by (simp add: nat_of_digits_def digit_val_def)
qed simp

section \<open>Parsing integers\<close>

text \<open>\<open>isspace\<close> of the C locale: space, and the characters 9 to 13.\<close>

definition is_space :: "char \<Rightarrow> bool" where
  "is_space c \<longleftrightarrow> (of_char c :: nat) = 32 \<or> (9 \<le> (of_char c :: nat) \<and> (of_char c :: nat) \<le> 13)"

text \<open>
  \<open>std::stoi\<close> and \<open>std::stol\<close> call \<open>strtol\<close> in base 10: leading white space, an optional
  sign, then the longest run of digits; no digit is \<open>invalid_argument\<close>, a value outside the
  result type is \<open>out_of_range\<close>, and what follows the digits is ignored.
\<close>

definition strtol10 :: "string \<Rightarrow> int option" where
  "strtol10 s =
     (let t = dropWhile is_space s;
          neg = (t \<noteq> [] \<and> hd t = CHR ''-'');
          u = (if t \<noteq> [] \<and> (hd t = CHR ''-'' \<or> hd t = CHR ''+'') then tl t else t);
          ds = takeWhile is_digit u
      in if ds = [] then None
         else Some (if neg then - int (nat_of_digits ds) else int (nat_of_digits ds)))"

definition std_stoi :: "string \<Rightarrow> int res" where
  "std_stoi s = (case strtol10 s of None \<Rightarrow> Inl Invalid_argument
     | Some k \<Rightarrow> if in_i32 k then Inr k else Inl Out_of_range)"

definition std_stol :: "string \<Rightarrow> int res" where
  "std_stol s = (case strtol10 s of None \<Rightarrow> Inl Invalid_argument
     | Some k \<Rightarrow> if in_i64 k then Inr k else Inl Out_of_range)"

lemma digit_not_space: "is_digit c \<Longrightarrow> \<not> is_space c"
  by (auto simp: is_digit_def is_space_def)

lemma digit_not_sign: "is_digit c \<Longrightarrow> c \<noteq> CHR ''-'' \<and> c \<noteq> CHR ''+''"
  by (auto simp: is_digit_def)

lemma strtol10_digits:
  assumes "ds \<noteq> []" "\<forall>c \<in> set ds. is_digit c" "\<And>c cs. rest = c # cs \<Longrightarrow> \<not> is_digit c"
  shows "strtol10 (ds @ rest) = Some (int (nat_of_digits ds))"
proof -
  obtain d ds' where d: "ds = d # ds'" using assms(1) by (cases ds) auto
  have dd: "is_digit d" using assms(2) d by simp
  have "takeWhile is_digit (ds @ rest) = ds"
    using assms(2,3) by (cases rest) (auto simp: takeWhile_append)
  with dd d show ?thesis
    by (simp add: strtol10_def Let_def digit_not_space digit_not_sign)
qed

lemma strtol10_show_nat: "strtol10 (show_nat n) = Some (int n)"
  using strtol10_digits [of "show_nat n" "[]"] show_nat_digits by simp

lemma strtol10_to_string: "strtol10 (to_string k) = Some k"
proof (cases "k < 0")
  case True
  then show ?thesis
    by (simp add: to_string_def strtol10_def Let_def is_space_def)
next
  case False
  then show ?thesis by (simp add: to_string_def strtol10_show_nat)
qed

lemma std_stoi_to_string: "in_i32 k \<Longrightarrow> std_stoi (to_string k) = Inr k"
  by (simp add: std_stoi_def strtol10_to_string)

section \<open>Lines of a stream\<close>

text \<open>
  \<open>std::getline(stream, str, delim)\<close> on a string stream that has not reached its end:
  fails when no character is left, otherwise takes the characters up to \<open>delim\<close>, which is
  extracted too.  The second component is \<open>None\<close> once the end of the stream was reached
  before a delimiter (\<open>eofbit\<close>), so that any further \<open>getline\<close> fails.
\<close>

definition getline_str :: "char \<Rightarrow> string \<Rightarrow> (string \<times> string option) option" where
  "getline_str d s =
     (if s = [] then None
      else let h = takeWhile (\<lambda>c. c \<noteq> d) s; r = dropWhile (\<lambda>c. c \<noteq> d) s
           in Some (h, if r = [] then None else Some (tl r)))"

text \<open>
  \<open>ifs.getline(buf, n)\<close>: stores at most \<open>n - 1\<close> characters.  A longer line sets
  \<open>failbit\<close>, and so does a call with nothing left; a last line without a newline is
  delivered.  \<open>None\<close> is the failed state, which ends the \<open>while\<close> loop around it.
\<close>

definition getline_buf :: "nat \<Rightarrow> string \<Rightarrow> (string \<times> string) option" where
  "getline_buf n s =
     (let h = takeWhile (\<lambda>c. c \<noteq> CHR 0x0A) s; r = dropWhile (\<lambda>c. c \<noteq> CHR 0x0A) s
      in if s = [] \<or> n - 1 < length h then None else Some (h, tl r))"

lemma getline_buf_shorter: "getline_buf n s = Some (l, r) \<Longrightarrow> length r < length s"
proof -
  assume a: "getline_buf n s = Some (l, r)"
  then have r: "r = tl (dropWhile (\<lambda>c. c \<noteq> CHR 0x0A) s)" and s: "s \<noteq> []"
    by (auto simp: getline_buf_def Let_def split: if_splits)
  have "length (dropWhile (\<lambda>c. c \<noteq> CHR 0x0A) s) \<le> length s" by (rule length_dropWhile_le)
  with r s show ?thesis by (cases "dropWhile (\<lambda>c. c \<noteq> CHR 0x0A) s") auto
qed

text \<open>A \<open>char\<close> buffer read back as a C string ends at its first NUL.\<close>

definition c_str :: "string \<Rightarrow> string" where
  "c_str s = takeWhile (\<lambda>c. c \<noteq> CHR 0x00) s"

end
