(* ===== verification/Error_Code.thy ===== *)
theory Error_Code
  imports Std_String
begin

text \<open>
  \<open>common/lct_error_code.h\<close> and \<open>common/detail/lct_error_code.cpp\<close>: every result code of the
  repository with its bit pattern, the table of descriptions, and \<open>ErrCodeFormat\<close>, which
  the log lines are built with.
\<close>

section \<open>The codes\<close>

definition LCT_SUCCESS :: lct_err where [simp]: "LCT_SUCCESS = 0x00000000"
definition LCT_FAIL :: lct_err where [simp]: "LCT_FAIL = 0x00000001"
definition LCT_INVALID_PARAM :: lct_err where [simp]: "LCT_INVALID_PARAM = 0x00000002"
definition LCT_INVALID_POINTER :: lct_err where [simp]: "LCT_INVALID_POINTER = 0x00000003"
definition LCT_DUPLICATE_REQUEST :: lct_err where [simp]: "LCT_DUPLICATE_REQUEST = 0x00000004"
definition LCT_OVERFLOW :: lct_err where [simp]: "LCT_OVERFLOW = 0x00000005"
definition LCT_IMPROPER_STATUS :: lct_err where [simp]: "LCT_IMPROPER_STATUS = 0x00000006"
definition LCT_OUT_OF_BOUNDARY :: lct_err where [simp]: "LCT_OUT_OF_BOUNDARY = 0x00000006"
definition LCT_INVALID_FD :: lct_err where [simp]: "LCT_INVALID_FD = 0x00000007"
definition LCT_TIMEOUT :: lct_err where [simp]: "LCT_TIMEOUT = 0x00000008"
definition LCT_SERVICE_DOWN :: lct_err where [simp]: "LCT_SERVICE_DOWN = 0x00000009"
definition LCT_EVENT_HALT :: lct_err where [simp]: "LCT_EVENT_HALT = 0x00000010"
definition LCT_VERSION_INFO :: lct_err where [simp]: "LCT_VERSION_INFO = 0x8000F000"
definition LCT_EMPTY_RECORD :: lct_err where [simp]: "LCT_EMPTY_RECORD = 0x8000F001"
definition LCT_RECORD_EXISTS :: lct_err where [simp]: "LCT_RECORD_EXISTS = 0x8000F002"
definition LCT_NOT_SUCH_RECORD :: lct_err where [simp]: "LCT_NOT_SUCH_RECORD = 0x8000F003"
definition LCT_UNIMPLEMENTED :: lct_err where [simp]: "LCT_UNIMPLEMENTED = 0x8000F004"
definition LCT_INVALID_BIZ_TYPE :: lct_err where [simp]: "LCT_INVALID_BIZ_TYPE = 0x8000F005"
definition LCT_NOT_INITIATED_YET :: lct_err where [simp]: "LCT_NOT_INITIATED_YET = 0x8000F006"
definition LCT_NON_FEATURE_VERSION :: lct_err where [simp]: "LCT_NON_FEATURE_VERSION = 0x8000F007"
definition LCT_BATCH_SIZE_OVERFLOW :: lct_err where [simp]: "LCT_BATCH_SIZE_OVERFLOW = 0x8000F008"
definition LCT_CASS_NO_HOST :: lct_err where [simp]: "LCT_CASS_NO_HOST = 0x8000F009"
definition LCT_INVALID_STRATEGY :: lct_err where [simp]: "LCT_INVALID_STRATEGY = 0x8000F010"
definition LCT_EVENT_DONE :: lct_err where [simp]: "LCT_EVENT_DONE = 0x8000F011"
definition LCT_INVALID_TASK_STATUS :: lct_err where [simp]: "LCT_INVALID_TASK_STATUS = 0x8000F012"
definition LCT_SYSTEM_ERROR :: lct_err where [simp]: "LCT_SYSTEM_ERROR = 0x8000F101"
definition LCT_INVALID_SOCKET :: lct_err where [simp]: "LCT_INVALID_SOCKET = 0x8000F106"
definition LCT_CREATE_SOCKET_FAIL :: lct_err where [simp]: "LCT_CREATE_SOCKET_FAIL = 0x8000F107"
definition LCT_BIND_SOCKET_FAIL :: lct_err where [simp]: "LCT_BIND_SOCKET_FAIL = 0x8000F108"
definition LCT_LISTEN_SOCKET_FAIL :: lct_err where [simp]: "LCT_LISTEN_SOCKET_FAIL = 0x8000F109"
definition LCT_CONN_SOCKET_FAIL :: lct_err where [simp]: "LCT_CONN_SOCKET_FAIL = 0x8000F110"
definition LCT_ACCEPT_SOCKET_FAIL :: lct_err where [simp]: "LCT_ACCEPT_SOCKET_FAIL = 0x8000F111"
definition LCT_GET_SOCK_NAME_FAIL :: lct_err where [simp]: "LCT_GET_SOCK_NAME_FAIL = 0x8000F116"
definition LCT_GET_SOCK_INFO_FAIL :: lct_err where [simp]: "LCT_GET_SOCK_INFO_FAIL = 0x8000F117"
definition LCT_SET_SOCK_ALIVE_FAIL :: lct_err where [simp]: "LCT_SET_SOCK_ALIVE_FAIL = 0x8000F118"
definition LCT_TCP_PARTIAL_MSG_SENT :: lct_err where [simp]: "LCT_TCP_PARTIAL_MSG_SENT = 0x8000F121"
definition LCT_TCP_SEND_MSG_FAIL :: lct_err where [simp]: "LCT_TCP_SEND_MSG_FAIL = 0x8000F122"
definition LCT_EXTRACT_TCP_MSG_FAIL :: lct_err where [simp]: "LCT_EXTRACT_TCP_MSG_FAIL = 0x8000F126"
definition LCT_TCP_MSG_NOT_READY :: lct_err where [simp]: "LCT_TCP_MSG_NOT_READY = 0x8000F127"
definition LCT_INSUFFICIENT_BUFF_SIZE :: lct_err where [simp]: "LCT_INSUFFICIENT_BUFF_SIZE = 0x8000F128"
definition LCT_PEER_CLOSE_SOCKET :: lct_err where [simp]: "LCT_PEER_CLOSE_SOCKET = 0x8000F129"
definition LCT_FATAL_ERROR_READING :: lct_err where [simp]: "LCT_FATAL_ERROR_READING = 0x8000F130"
definition LCT_TRY_AGAIN_READING :: lct_err where [simp]: "LCT_TRY_AGAIN_READING = 0x8000F131"
definition LCT_READ_EVENT_UNSET :: lct_err where [simp]: "LCT_READ_EVENT_UNSET = 0x8000F130"
definition LCT_UNEXPECTED :: lct_err where [simp]: "LCT_UNEXPECTED = 0x8000FFFF"

section \<open>Descriptions and formatting\<close>

text \<open>
  The \<open>unordered_map\<close> is built from an initializer list, whose first entry for a key wins,
  as \<open>map_of\<close> does.
\<close>

definition LctErrInfoMap :: "(lct_err \<times> string) list" where
  "LctErrInfoMap =
     [(LCT_SUCCESS, ''Success''),
      (LCT_FAIL, ''General Failure''),
      (LCT_INVALID_PARAM, ''Invalid Parameter''),
      (LCT_DUPLICATE_REQUEST, ''Duplicate Request''),
      (LCT_INVALID_POINTER, ''Invalid Pointer''),
      (LCT_OVERFLOW, ''Overflow Error''),
      (LCT_IMPROPER_STATUS, ''Improper status''),
      (LCT_OUT_OF_BOUNDARY, ''Out of Boundary Access''),
      (LCT_INVALID_FD, ''Invalid File Description''),
      (LCT_EMPTY_RECORD, ''Empty Record''),
      (LCT_UNIMPLEMENTED, ''Unimplemented Function''),
      (LCT_UNEXPECTED, ''Unexpected Result'')]"

definition ErrCodeFormat :: "lct_err \<Rightarrow> string" where
  "ErrCodeFormat errCode =
     (case map_of LctErrInfoMap errCode of
        Some desc \<Rightarrow> '' error('' @ desc @ '')''
      | None \<Rightarrow> [])
     @ '' errorCode(0x'' @ show_hex (unat errCode) @ '')''"

section \<open>Formatting is injective\<close>

definition hex_val :: "char \<Rightarrow> nat" where
  "hex_val c = (if is_digit c then of_char c - 48 else of_char c - 87)"

definition nat_of_hex :: "string \<Rightarrow> nat" where
  "nat_of_hex s = foldl (\<lambda>a c. 16 * a + hex_val c) 0 s"

lemma hex_digit_cases:
  assumes "d < 16"
  shows "hex_val (hex_digit d) = d \<and> hex_digit d \<noteq> CHR ''x''"
proof -
  have "d \<in> set [0..<16]" using assms by simp
  moreover have "\<forall>d \<in> set [0..<16]. hex_val (hex_digit d) = d \<and> hex_digit d \<noteq> CHR ''x''"
    by code_simp
  ultimately show ?thesis by blast
qed

lemma nat_of_hex_show_hex [simp]: "nat_of_hex (show_hex n) = n"
proof (induction n rule: show_hex.induct)
  case (1 n)
  then show ?case
    by (subst show_hex.simps) (auto simp: nat_of_hex_def hex_digit_cases)
qed

lemma show_hex_no_x: "CHR ''x'' \<notin> set (show_hex n)"
proof (induction n rule: show_hex.induct)
  case (1 n)
  then show ?case
    by (subst show_hex.simps) (use hex_digit_cases [of "n mod 16"] hex_digit_cases [of n] in auto)
qed

text \<open>The hexadecimal digits can be cut out of a formatted code: they follow its last \<open>x\<close>.\<close>

definition formatted_hex :: "string \<Rightarrow> string" where
  "formatted_hex s = rev (tl (takeWhile (\<lambda>c. c \<noteq> CHR ''x'') (rev s)))"

lemma formatted_hex_format: "formatted_hex (p @ ''0x'' @ show_hex n @ '')'') = show_hex n"
proof -
  have "takeWhile (\<lambda>c. c \<noteq> CHR ''x'') (rev (show_hex n) @ CHR ''x'' # q) = rev (show_hex n)" for q
    using show_hex_no_x [of n] by (subst takeWhile_append2) auto
  then show ?thesis by (simp add: formatted_hex_def)
qed

lemma formatted_hex_ErrCodeFormat: "formatted_hex (ErrCodeFormat e) = show_hex (unat e)"
proof -
  have "\<exists>p. ErrCodeFormat e = p @ ''0x'' @ show_hex (unat e) @ '')''"
    by (rule exI [of _ "(case map_of LctErrInfoMap e of
        Some desc \<Rightarrow> '' error('' @ desc @ '')'' | None \<Rightarrow> []) @ '' errorCode(''"])
       (simp add: ErrCodeFormat_def)
  then show ?thesis using formatted_hex_format by auto
qed

text \<open>
  The formatted text determines the code: two codes with the same log text are equal,
  although several of them have no description and two have the same one.
\<close>

theorem ErrCodeFormat_determines_code: "ErrCodeFormat a = ErrCodeFormat b \<longleftrightarrow> a = b"
proof
  assume "ErrCodeFormat a = ErrCodeFormat b"
  then have "show_hex (unat a) = show_hex (unat b)"
    using formatted_hex_ErrCodeFormat by metis
  then have "unat a = unat b" by (metis nat_of_hex_show_hex)
  then show "a = b" by (simp only: word_unat_eq_iff)
qed simp

text \<open>
  The description of \<open>LCT_OUT_OF_BOUNDARY\<close> is never printed: the code has the value of
  \<open>LCT_IMPROPER_STATUS\<close>, whose entry comes first.
\<close>

lemma ErrCodeFormat_out_of_boundary:
  "ErrCodeFormat LCT_OUT_OF_BOUNDARY = '' error(Improper status) errorCode(0x6)''"
  by code_simp

end
