(* ===== verification/String_Util.thy ===== *)
theory String_Util
  imports Std_String
begin

text \<open>
  \<open>common/detail/lct_string_util.cpp\<close> (repeated in \<open>version/version_manager.cpp\<close>): \<open>Split\<close>,
  \<open>Trim\<close> and \<open>Replace\<close>.  \<open>Split\<close> steps one character past the start of each occurrence of
  the delimiter (\<open>pos = colon + 1\<close>), whatever the delimiter's length, and an empty delimiter
  drives \<open>substr\<close> past the end of the string; the loops are functions with the position as
  their argument and the source's exception as an error value.
\<close>

section \<open>Split\<close>

function Split_loop :: "string \<Rightarrow> string \<Rightarrow> nat \<Rightarrow> string list \<Rightarrow> string list res" where
  "Split_loop str delim pos parsed =
     (case str_find str delim pos of
        None \<Rightarrow> res_bind (str_substr_from str pos) (\<lambda>s. Inr (parsed @ [s]))
      | Some colon \<Rightarrow>
          res_bind (str_substr str pos (colon - pos)) (\<lambda>s.
            Split_loop str delim (colon + 1) (parsed @ [s])))"
  by pat_completeness auto
termination
  by (relation "measure (\<lambda>(str, delim, pos, parsed). Suc (length str) - pos)")
     (auto dest!: str_find_bounds)

declare Split_loop.simps [simp del]

definition Split :: "string \<Rightarrow> string \<Rightarrow> string list res" where
  "Split str delim = Split_loop str delim 0 []"

text \<open>The reference: cut at every occurrence of one character.\<close>

fun split_on :: "char \<Rightarrow> string \<Rightarrow> string list" where
  "split_on d [] = [[]]"
| "split_on d (c # cs) =
     (if c = d then [] # split_on d cs
      else (case split_on d cs of [] \<Rightarrow> [[c]] | p # ps \<Rightarrow> (c # p) # ps))"

fun join_with :: "char \<Rightarrow> string list \<Rightarrow> string" where
  "join_with d [] = []"
| "join_with d [p] = p"
| "join_with d (p # q # ps) = p @ d # join_with d (q # ps)"

lemma split_on_nonempty [simp]: "split_on d s \<noteq> []"
  by (induction s) (auto split: list.splits)

lemma split_on_no_delim: "d \<notin> set s \<Longrightarrow> split_on d s = [s]"
  by (induction s) auto

lemma split_on_at: "d \<notin> set h \<Longrightarrow> split_on d (h @ d # t) = h # split_on d t"
  by (induction h) auto

lemma join_split_on: "join_with d (split_on d s) = s"
proof (induction s)
  case (Cons c cs)
  obtain p ps where "split_on d cs = p # ps" by (cases "split_on d cs") auto
  with Cons show ?case by (cases ps) auto
qed simp

lemma split_on_parts: "p \<in> set (split_on d s) \<Longrightarrow> d \<notin> set p"
  by (induction s arbitrary: p) (auto split: list.splits if_splits)

lemma length_split_on: "length (split_on d s) = Suc (count_list s d)"
  by (induction s) (auto split: list.splits)

lemma find_in_char: "find_in [d] s i = find_char_in d s i"
  by (induction s arbitrary: i) auto

lemma Split_loop_char:
  "pos \<le> length str \<Longrightarrow>
     Split_loop str [d] pos parsed = Inr (parsed @ split_on d (drop pos str))"
proof (induction str "[d]" pos parsed rule: Split_loop.induct)
  case (1 str pos parsed)
  show ?case
  proof (cases "str_find str [d] pos")
    case None
    then have "d \<notin> set (drop pos str)"
      using 1(2) by (simp add: str_find_def find_in_char find_char_in_None)
    then show ?thesis using None 1(2)
      by (subst Split_loop.simps) (simp add: str_substr_from_def split_on_no_delim)
  next
    case (Some colon)
    then have f: "find_char_in d (drop pos str) pos = Some colon"
      using 1(2) by (simp add: str_find_def find_in_char)
    from find_char_in_Some [OF f] 1(2)
    have b: "pos \<le> colon" "colon < length str" "str ! colon = d"
      and h: "d \<notin> set (take (colon - pos) (drop pos str))" by auto
    have "drop pos str = take (colon - pos) (drop pos str) @ drop colon str"
      using b by (metis append_take_drop_id drop_drop le_add_diff_inverse2)
    moreover have "drop colon str = d # drop (Suc colon) str"
      using b by (metis Cons_nth_drop_Suc)
    ultimately have "split_on d (drop pos str)
        = take (colon - pos) (drop pos str) # split_on d (drop (Suc colon) str)"
      using split_on_at [OF h] by metis
    moreover have "Split_loop str [d] (colon + 1) (parsed @ [take (colon - pos) (drop pos str)])
        = Inr ((parsed @ [take (colon - pos) (drop pos str)]) @ split_on d (drop (colon + 1) str))"
      using 1(1) [OF Some] b by (simp add: str_substr_def)
    ultimately show ?thesis using Some b 1(2)
      by (subst Split_loop.simps) (simp add: str_substr_def)
  qed
qed

text \<open>
  With a delimiter of one character \<open>Split\<close> returns, never throws, and cuts the string
  at exactly the occurrences of the delimiter: joining the parts gives the string back, no
  part contains the delimiter, and there is one part more than there are delimiters.
\<close>

theorem Split_single_char:
  "\<exists>parts. Split str [d] = Inr parts \<and> join_with d parts = str
     \<and> list_all (\<lambda>p. d \<notin> set p) parts \<and> length parts = Suc (count_list str d)"
  using split_on_parts [of _ d str]
  by (auto simp: Split_def Split_loop_char join_split_on length_split_on list_all_iff)

text \<open>
  An empty delimiter is found at every position, so the loop runs past the end of the string,
  where \<open>substr\<close> throws.
\<close>

lemma Split_loop_empty_delim:
  "pos \<le> length str \<Longrightarrow> Split_loop str [] pos parsed = Inl Out_of_range"
proof (induction str "[] :: string" pos parsed rule: Split_loop.induct)
  case (1 str pos parsed)
  have found: "str_find str [] pos = Some pos"
    using 1(2) by (cases "drop pos str") (simp_all add: str_find_def)
  show ?case
  proof (cases "pos = length str")
    case True
    have "Split_loop str [] (Suc (length str)) ps = Inl Out_of_range" for ps
      by (subst Split_loop.simps) (simp add: str_find_def str_substr_from_def)
    then show ?thesis using True found
      by (subst Split_loop.simps) (simp add: str_substr_def)
  next
    case False
    then show ?thesis using 1(1) [OF found] 1(2) found
      by (subst Split_loop.simps) (simp add: str_substr_def)
  qed
qed

lemma Split_empty_delim_throws: "Split str [] = Inl Out_of_range"
  by (simp add: Split_def Split_loop_empty_delim)

text \<open>
  With a longer delimiter the rest of the delimiter stays at the head of the following part.
\<close>

lemma Split_two_char_delim: "Split ''a::b'' ''::'' = Inr [''a'', '':b'']"
  by code_simp

section \<open>Trim\<close>

definition default_delc :: string where
  "default_delc = [CHR '' '', CHR 0x09, CHR 0x0D, CHR 0x0A]"

definition Trim :: "string \<Rightarrow> string \<Rightarrow> string" where
  "Trim str delc =
     (case str_find_first_not_of str delc of
        None \<Rightarrow> []
      | Some pos \<Rightarrow>
          (case str_find_last_not_of str delc of
             None \<Rightarrow> drop pos str
           | Some j \<Rightarrow> take (j + 1 - pos) (drop pos str)))"

lemma Trim_decompose:
  "\<exists>l r. str = l @ Trim str delc @ r \<and> set l \<subseteq> set delc \<and> set r \<subseteq> set delc
     \<and> (Trim str delc \<noteq> [] \<longrightarrow> hd (Trim str delc) \<notin> set delc \<and> last (Trim str delc) \<notin> set delc)"
proof (cases "str_find_first_not_of str delc")
  case None
  then have "Trim str delc = []" by (simp add: Trim_def)
  moreover have "set str \<subseteq> set delc" using None by (simp add: first_not_of_None)
  ultimately show ?thesis by (intro exI [of _ str] exI [of _ "[]"]) simp
next
  case (Some p)
  then have "str_find_last_not_of str delc \<noteq> None"
    by (metis first_not_of_None last_not_of_None option.distinct(1))
  then obtain j where j: "str_find_last_not_of str delc = Some j" by blast
  note pd = first_not_of_dropWhile [OF Some] and jd = last_not_of_Some [OF j]
    and pj = first_le_last_not_of [OF Some j]
  have t: "Trim str delc = take (Suc j - p) (drop p str)" using Some j by (simp add: Trim_def)
  have drop: "drop (Suc j - p) (drop p str) = drop (Suc j) str" using pj by simp
  have str: "str = take p str @ Trim str delc @ drop (Suc j) str"
    unfolding t by (metis append_take_drop_id drop)
  have "takeWhile (\<lambda>c. c \<in> set delc) str = take p str"
    using pd by (metis append_eq_append_conv append_take_drop_id length_append add_right_cancel
        takeWhile_dropWhile_id)
  then have l: "set (take p str) \<subseteq> set delc" by (metis set_takeWhileD subsetI)
  have ne: "drop p str \<noteq> []" using conjunct2 [OF pd] by simp
  have "hd (drop p str) \<notin> set delc" using pd ne by (metis hd_dropWhile)
  then have h: "hd (Trim str delc) \<notin> set delc" using ne pj by (simp add: t hd_take)
  have "Trim str delc = map (\<lambda>i. str ! (p + i)) [0..<Suc j - p]"
    unfolding t using jd pj by (intro nth_equalityI) auto
  then have "last (Trim str delc) = str ! j" using pj by (simp add: last_map)
  with jd have "last (Trim str delc) \<notin> set delc" by simp
  with str l h jd show ?thesis by (intro exI [of _ "take p str"] exI [of _ "drop (Suc j) str"]) blast
qed

text \<open>
  \<open>Trim\<close> removes characters of \<open>delc\<close> at both ends and nothing else: the string is the
  result between two runs of \<open>delc\<close>, the result neither starts nor ends with such a
  character, and trimming again changes nothing.
\<close>

theorem Trim_removes_exactly_the_ends:
  "(\<exists>l r. str = l @ Trim str delc @ r \<and> set l \<subseteq> set delc \<and> set r \<subseteq> set delc)
     \<and> (Trim str delc = [] \<or> hd (Trim str delc) \<notin> set delc \<and> last (Trim str delc) \<notin> set delc)
     \<and> Trim (Trim str delc) delc = Trim str delc"
proof (intro conjI)
  let ?t = "Trim str delc"
  show "\<exists>l r. str = l @ ?t @ r \<and> set l \<subseteq> set delc \<and> set r \<subseteq> set delc"
    using Trim_decompose [of str delc] by blast
  show ends: "?t = [] \<or> hd ?t \<notin> set delc \<and> last ?t \<notin> set delc"
    using Trim_decompose [of str delc] by blast
  obtain l r where t: "?t = l @ Trim ?t delc @ r" and lr: "set l \<subseteq> set delc" "set r \<subseteq> set delc"
    using Trim_decompose [of ?t delc] by blast
  show "Trim ?t delc = ?t"
  proof (cases "?t = []")
    case True
    then show ?thesis by (simp add: Trim_def)
  next
    case False
    with ends have h: "hd ?t \<notin> set delc" and e: "last ?t \<notin> set delc" by auto
    have "l = []"
    proof (rule ccontr)
      assume "l \<noteq> []"
      then have "hd ?t = hd l" using t by (metis hd_append2)
      with \<open>l \<noteq> []\<close> lr(1) h show False using hd_in_set by fastforce
    qed
    moreover have "r = []"
    proof (rule ccontr)
      assume "r \<noteq> []"
      then have "last ?t = last r" using t by (metis append_assoc last_appendR)
      with \<open>r \<noteq> []\<close> lr(2) e show False using last_in_set by fastforce
    qed
    ultimately show ?thesis using t by simp
  qed
qed

section \<open>Replace\<close>

text \<open>
  \<open>find_first_of\<close> and the assignment through \<open>at\<close> in turn; the next search starts one
  character after the replaced one, so a \<open>replacer\<close> equal to \<open>pattern\<close> does not loop.
\<close>

function Replace_loop :: "char \<Rightarrow> char \<Rightarrow> string \<Rightarrow> nat \<Rightarrow> string" where
  "Replace_loop pattern replacer result start =
     (case str_find_first_of result pattern start of
        None \<Rightarrow> result
      | Some pos \<Rightarrow> Replace_loop pattern replacer (result[pos := replacer]) (pos + 1))"
  by pat_completeness auto
termination
  by (relation "measure (\<lambda>(p, r, result, start). Suc (length result) - start)")
     (auto simp: str_find_first_of_def dest!: find_char_in_Some)

declare Replace_loop.simps [simp del]

definition Replace :: "string \<Rightarrow> char \<Rightarrow> char \<Rightarrow> string" where
  "Replace str pattern replacer = Replace_loop pattern replacer str 0"

lemma Replace_loop_map:
  "Replace_loop p r result start
     = take start result @ map (\<lambda>c. if c = p then r else c) (drop start result)"
proof (induction p r result start rule: Replace_loop.induct)
  case (1 p r result start)
  show ?case
  proof (cases "str_find_first_of result p start")
    case None
    then have "p \<notin> set (drop start result)"
      by (simp add: str_find_first_of_def find_char_in_None)
    then have "map (\<lambda>c. if c = p then r else c) (drop start result) = drop start result"
      by (intro map_idI) auto
    with None show ?thesis by (subst Replace_loop.simps) simp
  next
    case (Some pos)
    then have f: "find_char_in p (drop start result) start = Some pos"
      by (simp add: str_find_first_of_def)
    from find_char_in_Some [OF f]
    have b: "start \<le> pos" "pos < length result" "result ! pos = p"
      and h: "p \<notin> set (take (pos - start) (drop start result))" by auto
    have split: "drop start result = take (pos - start) (drop start result) @ p # drop (Suc pos) result"
      using b by (metis Cons_nth_drop_Suc append_take_drop_id drop_drop le_add_diff_inverse2)
    have keep: "map (\<lambda>c. if c = p then r else c) (take (pos - start) (drop start result))
        = take (pos - start) (drop start result)" using h by (intro map_idI) auto
    have "take (Suc pos) (result[pos := r]) = take pos result @ [r]"
      using b by (simp add: take_Suc_nth_append)
    moreover have "take pos result = take start result @ take (pos - start) (drop start result)"
      using b by (metis add_diff_inverse_nat leD take_add)
    moreover have "drop (Suc pos) (result[pos := r]) = drop (Suc pos) result"
      by simp
    ultimately have "Replace_loop p r (result[pos := r]) (pos + 1)
        = take start result @ take (pos - start) (drop start result)
          @ r # map (\<lambda>c. if c = p then r else c) (drop (Suc pos) result)"
      using 1 [OF Some] by simp
    moreover have "map (\<lambda>c. if c = p then r else c) (drop start result)
        = take (pos - start) (drop start result)
          @ r # map (\<lambda>c. if c = p then r else c) (drop (Suc pos) result)"
      by (subst split) (simp add: keep)
    ultimately show ?thesis using Some by (subst Replace_loop.simps) simp
  qed
qed

text \<open>
  \<open>Replace\<close> is the map that sends \<open>pattern\<close> to \<open>replacer\<close> and keeps every other
  character, for every pair of characters.
\<close>

theorem Replace_is_map: "Replace str p r = map (\<lambda>c. if c = p then r else c) str"
  by (simp add: Replace_def Replace_loop_map)

end
