(* ===== verification/Fifo_Interface.thy ===== *)
theory Fifo_Interface
  imports Error_Code
begin

text \<open>
  The contract of a bounded first-in first-out container, shared by the ring buffers and the
  blocking queue: what \<open>push\<close> and \<open>pop\<close> do to the sequence of elements held.  The lemmas of
  the locale speak of whole runs of operations; each container interprets it.
\<close>

section \<open>Runs of operations\<close>

text \<open>Push every element in turn, stopping at the first result code that is not success.\<close>

fun push_all :: "('b \<Rightarrow> 'a \<Rightarrow> (lct_err \<times> 'b) res) \<Rightarrow> 'b \<Rightarrow> 'a list \<Rightarrow> (lct_err \<times> 'b) res" where
  "push_all push b [] = Inr (LCT_SUCCESS, b)"
| "push_all push b (x # xs) =
     res_bind (push b x) (\<lambda>(e, b'). if e \<noteq> LCT_SUCCESS then Inr (e, b') else push_all push b' xs)"

text \<open>Pop \<open>n\<close> times, collecting the elements.\<close>

fun pop_all :: "('b \<Rightarrow> (lct_err \<times> 'a option \<times> 'b) res) \<Rightarrow> 'b \<Rightarrow> nat \<Rightarrow> (lct_err \<times> 'a list \<times> 'b) res" where
  "pop_all pop b 0 = Inr (LCT_SUCCESS, [], b)"
| "pop_all pop b (Suc n) =
     res_bind (pop b) (\<lambda>(e, x, b').
       if e \<noteq> LCT_SUCCESS then Inr (e, [], b')
       else res_bind (pop_all pop b' n) (\<lambda>(e', xs, b'').
         Inr (e', (case x of Some y \<Rightarrow> y # xs | None \<Rightarrow> xs), b'')))"

locale bounded_fifo =
  fixes push :: "'b \<Rightarrow> 'a \<Rightarrow> (lct_err \<times> 'b) res"
    and pop :: "'b \<Rightarrow> (lct_err \<times> 'a option \<times> 'b) res"
    and contents :: "'b \<Rightarrow> 'a list"
    and cap :: "'b \<Rightarrow> nat"
    and inv :: "'b \<Rightarrow> bool"
  assumes push_room:
      "inv b \<Longrightarrow> length (contents b) < cap b \<Longrightarrow>
         \<exists>b'. push b x = Inr (LCT_SUCCESS, b') \<and> inv b' \<and> contents b' = contents b @ [x] \<and> cap b' = cap b"
    and pop_some:
      "inv b \<Longrightarrow> contents b = x # xs \<Longrightarrow>
         \<exists>b'. pop b = Inr (LCT_SUCCESS, Some x, b') \<and> inv b' \<and> contents b' = xs \<and> cap b' = cap b"
begin

lemma push_all_room:
  "inv b \<Longrightarrow> length (contents b) + length xs \<le> cap b \<Longrightarrow>
     \<exists>b'. push_all push b xs = Inr (LCT_SUCCESS, b') \<and> inv b' \<and> contents b' = contents b @ xs \<and> cap b' = cap b"
proof (induction xs arbitrary: b)
  case Nil
  then show ?case by simp
next
  case (Cons x xs)
  then obtain b1 where b1: "push b x = Inr (LCT_SUCCESS, b1)" "inv b1"
      "contents b1 = contents b @ [x]" "cap b1 = cap b"
    using push_room [of b x] by auto
  with Cons.prems Cons.IH [of b1] show ?case by auto
qed

lemma pop_all_front:
  "inv b \<Longrightarrow> contents b = xs @ ys \<Longrightarrow>
     \<exists>b'. pop_all pop b (length xs) = Inr (LCT_SUCCESS, xs, b') \<and> inv b' \<and> contents b' = ys \<and> cap b' = cap b"
proof (induction xs arbitrary: b)
  case Nil
  then show ?case by simp
next
  case (Cons x xs)
  then obtain b1 where b1: "pop b = Inr (LCT_SUCCESS, Some x, b1)" "inv b1"
      "contents b1 = xs @ ys" "cap b1 = cap b"
    using pop_some [of b x "xs @ ys"] by auto
  with Cons.IH [of b1] show ?case by auto
qed

lemma fifo_roundtrip:
  assumes "inv b" "length (contents b) + length xs \<le> cap b"
  shows "\<exists>b1 b2. push_all push b xs = Inr (LCT_SUCCESS, b1)
     \<and> pop_all pop b1 (length (contents b) + length xs) = Inr (LCT_SUCCESS, contents b @ xs, b2)
     \<and> inv b2 \<and> contents b2 = [] \<and> cap b2 = cap b"
proof -
  obtain b1 where b1: "push_all push b xs = Inr (LCT_SUCCESS, b1)" "inv b1"
      "contents b1 = contents b @ xs" "cap b1 = cap b"
    using push_all_room [OF assms] by blast
  with pop_all_front [of b1 "contents b @ xs" "[]"] show ?thesis by auto
qed

end

end
