(* ===== verification/Circular_Buffer.thy ===== *)
theory Circular_Buffer
  imports Fifo_Interface
begin

text \<open>
  \<open>common/lct_circular_buffer.h\<close>, \<open>common/detail/lct_circular_buffer.hpp\<close> (the template for
  objects) and \<open>common/detail/lct_circular_buffer.cpp\<close> (the specialisation for \<open>char\<close>).

  The block \<open>[m_begin, m_end)\<close> is the list \<open>cb_mem\<close>; \<open>m_vfirst\<close> and \<open>m_vlast\<close> are offsets into
  it, and \<open>m_end - m_begin\<close> is \<open>m_size\<close>, as every constructor and \<open>reallocate\<close> set it.  A cell is
  \<open>None\<close> where no object lives (template: before placement new and after \<open>~T\<close>; \<open>char\<close>:
  memory \<open>malloc\<close> returned that nothing has written).  Access outside the block, or a read of
  such a cell, is \<open>Undefined\<close>.  \<open>std::size_t\<close> offsets and counts are \<open>nat\<close>: they are bounded by
  the size of an allocated block.
\<close>

section \<open>State and cells\<close>

record 'a cbuf =
  cb_overlap :: bool
  cb_mem :: "'a option list"
  cb_vfirst :: nat
  cb_vlast :: nat
  cb_count :: nat
  cb_size :: nat

type_synonym char_cbuf = "char cbuf"

definition cb_DEFAULT_SIZE :: nat where "cb_DEFAULT_SIZE = 1024"

definition mem_put :: "'a cbuf \<Rightarrow> nat \<Rightarrow> 'a \<Rightarrow> 'a cbuf res" where
  "mem_put b i x =
     (if i < length (cb_mem b) then Inr (b\<lparr>cb_mem := (cb_mem b)[i := Some x]\<rparr>) else Inl Undefined)"

definition mem_get :: "'a cbuf \<Rightarrow> nat \<Rightarrow> 'a res" where
  "mem_get b i =
     (if i < length (cb_mem b)
      then (case cb_mem b ! i of Some x \<Rightarrow> Inr x | None \<Rightarrow> Inl Undefined)
      else Inl Undefined)"

definition mem_put_range :: "'a cbuf \<Rightarrow> nat \<Rightarrow> 'a list \<Rightarrow> 'a cbuf res" where
  "mem_put_range b i xs =
     (if i + length xs \<le> length (cb_mem b)
      then Inr (b\<lparr>cb_mem := take i (cb_mem b) @ map Some xs @ drop (i + length xs) (cb_mem b)\<rparr>)
      else Inl Undefined)"

definition mem_get_range :: "'a cbuf \<Rightarrow> nat \<Rightarrow> nat \<Rightarrow> 'a list res" where
  "mem_get_range b i n =
     (let cells = take n (drop i (cb_mem b))
      in if length cells = n \<and> list_all (\<lambda>c. c \<noteq> None) cells then Inr (map the cells)
         else Inl Undefined)"

section \<open>The template, for objects\<close>

definition cb_increment :: "'a cbuf \<Rightarrow> nat \<Rightarrow> nat" where
  "cb_increment b p = (if p + 1 = cb_size b then 0 else p + 1)"

definition cb_decrement :: "'a cbuf \<Rightarrow> nat \<Rightarrow> nat" where
  "cb_decrement b p = (if p = 0 then cb_size b else p) - 1"

definition cb_empty :: "'a cbuf \<Rightarrow> bool" where
  "cb_empty b \<longleftrightarrow> cb_count b = 0"

definition cb_full :: "'a cbuf \<Rightarrow> bool" where
  "cb_full b \<longleftrightarrow> \<not> cb_overlap b \<and> cb_count b = cb_size b"

definition cb_disableOverlap :: "'a cbuf \<Rightarrow> 'a cbuf" where
  "cb_disableOverlap b = b\<lparr>cb_overlap := False\<rparr>"

definition cb_enableOverlap :: "'a cbuf \<Rightarrow> 'a cbuf" where
  "cb_enableOverlap b = b\<lparr>cb_overlap := True\<rparr>"

text \<open>The constructor: \<open>malloc\<close>, zero bytes, and no object alive in any cell.\<close>

definition cbT_new :: "nat \<Rightarrow> 'a cbuf" where
  "cbT_new sz =
     \<lparr>cb_overlap = False, cb_mem = replicate (max sz 1) None, cb_vfirst = 0, cb_vlast = 0,
      cb_count = 0, cb_size = max sz 1\<rparr>"

text \<open>\<open>append\<close> is called with a pointer to the object just constructed at \<open>m_vlast\<close>.\<close>

definition cbT_append :: "'a cbuf \<Rightarrow> nat \<Rightarrow> lct_err \<times> 'a cbuf" where
  "cbT_append b ptr =
     (if cb_full b then (LCT_FAIL, b)
      else let b1 = b\<lparr>cb_vlast := cb_increment b ptr\<rparr>
           in if cb_count b1 < cb_size b1
              then (LCT_SUCCESS, b1\<lparr>cb_count := cb_count b1 + 1\<rparr>)
              else (LCT_SUCCESS, b1\<lparr>cb_vfirst := cb_increment b1 (cb_vfirst b1)\<rparr>))"

definition cbT_push :: "'a cbuf \<Rightarrow> 'a \<Rightarrow> (lct_err \<times> 'a cbuf) res" where
  "cbT_push b obj =
     res_bind (mem_put b (cb_vlast b) obj) (\<lambda>b1. Inr (cbT_append b1 (cb_vlast b1)))"

text \<open>\<open>emplace(vargs...)\<close> builds the object from its arguments, \<open>emplace(T&&)\<close> by moving.\<close>

definition cbT_emplace :: "'a cbuf \<Rightarrow> ('args \<Rightarrow> 'a) \<Rightarrow> 'args \<Rightarrow> (lct_err \<times> 'a cbuf) res" where
  "cbT_emplace b ctor vargs =
     res_bind (mem_put b (cb_vlast b) (ctor vargs)) (\<lambda>b1. Inr (cbT_append b1 (cb_vlast b1)))"

definition cbT_emplace_move :: "'a cbuf \<Rightarrow> 'a \<Rightarrow> (lct_err \<times> 'a cbuf) res" where
  "cbT_emplace_move b obj =
     res_bind (mem_put b (cb_vlast b) obj) (\<lambda>b1. Inr (cbT_append b1 (cb_vlast b1)))"

text \<open>
  \<open>pushN\<close>: the source array is \<open>None\<close> for a null pointer (then \<open>pBegin + 0\<close> is null and the
  first round fails); reading past the end of the array is undefined.
\<close>

fun cbT_pushN_loop :: "'a cbuf \<Rightarrow> 'a list \<Rightarrow> nat \<Rightarrow> lct_err \<Rightarrow> (lct_err \<times> 'a cbuf) res" where
  "cbT_pushN_loop b src 0 errCode = Inr (errCode, b)"
| "cbT_pushN_loop b src (Suc k) errCode =
     (case src of [] \<Rightarrow> Inl Undefined
      | x # xs \<Rightarrow>
          res_bind (mem_put b (cb_vlast b) x) (\<lambda>b1.
            case cbT_append b1 (cb_vlast b1) of (e, b2) \<Rightarrow>
              if LCT_SUCCESS \<noteq> e then Inr (e, b2) else cbT_pushN_loop b2 xs k e))"

definition cbT_pushN :: "'a cbuf \<Rightarrow> 'a list option \<Rightarrow> nat \<Rightarrow> (lct_err \<times> 'a cbuf) res" where
  "cbT_pushN b pBegin n =
     (case pBegin of
        None \<Rightarrow> Inr (if 0 < n then LCT_FAIL else LCT_SUCCESS, b)
      | Some src \<Rightarrow> cbT_pushN_loop b src n LCT_SUCCESS)"

text \<open>The out parameter is \<open>None\<close> where the method leaves it untouched.\<close>

definition cb_peek :: "'a cbuf \<Rightarrow> (lct_err \<times> 'a option) res" where
  "cb_peek b =
     (if cb_count b = 0 then Inr (LCT_FAIL, None)
      else res_bind (mem_get b (cb_vfirst b)) (\<lambda>x. Inr (LCT_SUCCESS, Some x)))"

definition cbT_pop :: "'a cbuf \<Rightarrow> (lct_err \<times> 'a option \<times> 'a cbuf) res" where
  "cbT_pop b =
     (if cb_count b = 0 then Inr (LCT_FAIL, None, b)
      else res_bind (mem_get b (cb_vfirst b)) (\<lambda>x.
        let curPtr = cb_vfirst b
        in Inr (LCT_SUCCESS, Some x,
             b\<lparr>cb_vfirst := cb_increment b curPtr,
               cb_mem := (cb_mem b)[curPtr := None],
               cb_count := cb_count b - 1\<rparr>)))"

text \<open>
  The \<open>do ... while\<close> of \<open>iterate\<close>, with the callback as a function on its own state; \<open>None\<close>
  is the loop that never meets \<open>m_vlast\<close>.
\<close>

partial_function (option) cb_visit ::
    "'a cbuf \<Rightarrow> ('a \<Rightarrow> 's \<Rightarrow> 's) \<Rightarrow> nat \<Rightarrow> 's \<Rightarrow> 's res option" where
  "cb_visit b fn itRe s =
     (case mem_get b itRe of
        Inl e \<Rightarrow> Some (Inl e)
      | Inr x \<Rightarrow>
          (if cb_increment b itRe \<noteq> cb_vlast b then cb_visit b fn (cb_increment b itRe) (fn x s)
           else Some (Inr (fn x s))))"

definition cb_iterate :: "'a cbuf \<Rightarrow> ('a \<Rightarrow> 's \<Rightarrow> 's) \<Rightarrow> 's \<Rightarrow> (lct_err \<times> 's) res option" where
  "cb_iterate b fn s =
     (if cb_count b = 0 then Some (Inr (LCT_SUCCESS, s))
      else map_option (\<lambda>r. res_bind r (\<lambda>s'. Inr (LCT_SUCCESS, s'))) (cb_visit b fn (cb_vfirst b) s))"

text \<open>
  The destructor calls \<open>~T\<close> from \<open>m_vfirst\<close> while the iterator differs from \<open>m_vlast\<close>; its
  value here is the objects destroyed, in order.
\<close>

partial_function (option) cbT_destroy_from :: "'a cbuf \<Rightarrow> nat \<Rightarrow> 'a list \<Rightarrow> 'a list res option" where
  "cbT_destroy_from b itRe done =
     (if itRe \<noteq> cb_vlast b
      then (case mem_get b itRe of
              Inl e \<Rightarrow> Some (Inl e)
            | Inr x \<Rightarrow> cbT_destroy_from b (cb_increment b itRe) (done @ [x]))
      else Some (Inr done))"

definition cbT_destroy :: "'a cbuf \<Rightarrow> 'a list res option" where
  "cbT_destroy b = cbT_destroy_from b (cb_vfirst b) []"

section \<open>The specialisation for \<open>char\<close>\<close>

definition cbC_new :: "nat \<Rightarrow> char_cbuf" where
  "cbC_new sz =
     \<lparr>cb_overlap = False, cb_mem = replicate (max sz 1) (Some (CHR 0x00)), cb_vfirst = 0,
      cb_vlast = 0, cb_count = 0, cb_size = max sz 1\<rparr>"

text \<open>\<open>data.copy\<close> copies \<open>min(m_size, data.size())\<close> characters; the rest is what \<open>malloc\<close> gave.\<close>

definition cbC_new_string :: "string \<Rightarrow> char_cbuf" where
  "cbC_new_string data =
     (let sz = max (length data) 1
      in \<lparr>cb_overlap = False, cb_mem = map Some data @ replicate (sz - length data) None,
          cb_vfirst = 0, cb_vlast = 0, cb_count = 0, cb_size = sz\<rparr>)"

text \<open>\<open>copy_n(data, m_size, m_begin)\<close> reads \<open>m_size\<close> characters from \<open>data\<close>.\<close>

definition cbC_new_bytes :: "string \<Rightarrow> nat \<Rightarrow> char_cbuf res" where
  "cbC_new_bytes data sz =
     (if length data < max sz 1 then Inl Undefined
      else Inr \<lparr>cb_overlap = False, cb_mem = map Some (take (max sz 1) data), cb_vfirst = 0,
                cb_vlast = 0, cb_count = 0, cb_size = max sz 1\<rparr>)"

text \<open>The destructor frees the block and resets every field.\<close>

definition cbC_destroy :: "char_cbuf \<Rightarrow> char_cbuf" where
  "cbC_destroy b = b\<lparr>cb_mem := [], cb_vfirst := 0, cb_vlast := 0, cb_count := 0, cb_size := 0\<rparr>"

definition cbC_append :: "char_cbuf \<Rightarrow> char \<Rightarrow> (lct_err \<times> char_cbuf) res" where
  "cbC_append b c =
     (if cb_full b then Inr (LCT_FAIL, b)
      else res_bind (mem_put b (cb_vlast b) c) (\<lambda>b1.
        let b2 = b1\<lparr>cb_vlast := cb_increment b1 (cb_vlast b1)\<rparr>
        in if cb_count b2 < cb_size b2
           then Inr (LCT_SUCCESS, b2\<lparr>cb_count := cb_count b2 + 1\<rparr>)
           else Inr (LCT_SUCCESS, b2\<lparr>cb_vfirst := cb_increment b2 (cb_vfirst b2)\<rparr>)))"

definition cbC_emplace :: "char_cbuf \<Rightarrow> char \<Rightarrow> (lct_err \<times> char_cbuf) res" where
  "cbC_emplace b obj = cbC_append b obj"

definition cbC_push :: "char_cbuf \<Rightarrow> char \<Rightarrow> (lct_err \<times> char_cbuf) res" where
  "cbC_push b obj = cbC_append b obj"

text \<open>The overloads that step by \<open>n\<close>: the wrap-around is tested once, after the addition.\<close>

definition cbC_increment_n :: "char_cbuf \<Rightarrow> nat \<Rightarrow> nat \<Rightarrow> nat" where
  "cbC_increment_n b p n = (if p + n = cb_size b then 0 else p + n)"

definition cbC_decrement_n :: "char_cbuf \<Rightarrow> nat \<Rightarrow> nat \<Rightarrow> nat" where
  "cbC_decrement_n b p n = (if p = 0 then cb_size b else p) - n"

definition cbC_space :: "char_cbuf \<Rightarrow> nat" where
  "cbC_space b =
     (if cb_overlap b then cb_size b - cb_vlast b
      else if cb_vlast b > cb_vfirst b then cb_size b - cb_vlast b
      else if cb_vlast b < cb_vfirst b then cb_vfirst b - cb_vlast b
      else if cb_count b > 0 then 0
      else cb_size b - cb_vlast b)"

fun cbC_pushN_loop :: "char_cbuf \<Rightarrow> string \<Rightarrow> nat \<Rightarrow> lct_err \<Rightarrow> (lct_err \<times> char_cbuf) res" where
  "cbC_pushN_loop b src 0 errCode = Inr (errCode, b)"
| "cbC_pushN_loop b src (Suc k) errCode =
     (case src of [] \<Rightarrow> Inl Undefined
      | x # xs \<Rightarrow>
          res_bind (cbC_append b x) (\<lambda>(e, b1).
            if LCT_SUCCESS \<noteq> e then Inr (e, b1) else cbC_pushN_loop b1 xs k e))"

definition cbC_pushN :: "char_cbuf \<Rightarrow> string option \<Rightarrow> nat \<Rightarrow> (lct_err \<times> char_cbuf) res" where
  "cbC_pushN b pBegin n =
     (if n \<le> cbC_space b
      then (case pBegin of
              None \<Rightarrow> if n = 0 then Inr (LCT_SUCCESS, b\<lparr>cb_vlast := cbC_increment_n b (cb_vlast b) 0\<rparr>)
                      else Inl Undefined
            | Some src \<Rightarrow>
                if length src < n then Inl Undefined
                else res_bind (mem_put_range b (cb_vlast b) (take n src)) (\<lambda>b1.
                  Inr (LCT_SUCCESS, b1\<lparr>cb_vlast := cbC_increment_n b1 (cb_vlast b1) n,
                                       cb_count := cb_count b1 + n\<rparr>)))
      else (case pBegin of
              None \<Rightarrow> Inr (LCT_FAIL, b)
            | Some src \<Rightarrow> cbC_pushN_loop b src n LCT_SUCCESS))"

definition cbC_pop_drop :: "char_cbuf \<Rightarrow> lct_err \<times> char_cbuf" where
  "cbC_pop_drop b =
     (if cb_count b = 0 then (LCT_FAIL, b)
      else (LCT_SUCCESS, b\<lparr>cb_vfirst := cb_increment b (cb_vfirst b), cb_count := cb_count b - 1\<rparr>))"

definition cbC_pop :: "char_cbuf \<Rightarrow> (lct_err \<times> char option \<times> char_cbuf) res" where
  "cbC_pop b =
     (if cb_count b = 0 then Inr (LCT_FAIL, None, b)
      else res_bind (mem_get b (cb_vfirst b)) (\<lambda>x.
        case cbC_pop_drop b of (e, b1) \<Rightarrow> Inr (e, Some x, b1)))"

fun cbC_popN_loop :: "char_cbuf \<Rightarrow> nat \<Rightarrow> string \<Rightarrow> lct_err \<Rightarrow> (lct_err \<times> string \<times> char_cbuf) res" where
  "cbC_popN_loop b 0 out errCode = Inr (errCode, out, b)"
| "cbC_popN_loop b (Suc k) out errCode =
     (if cb_count b > 0
      then res_bind (cbC_pop b) (\<lambda>(e, x, b1).
        let out1 = (case x of Some c \<Rightarrow> out @ [c] | None \<Rightarrow> out)
        in if LCT_SUCCESS \<noteq> e then Inr (e, out1, b1) else cbC_popN_loop b1 k out1 e)
      else Inr (errCode, out, b))"

text \<open>\<open>popN\<close> into a buffer of the caller's: the characters written to it are the result.\<close>

definition cbC_popN :: "char_cbuf \<Rightarrow> nat \<Rightarrow> (lct_err \<times> string \<times> char_cbuf) res" where
  "cbC_popN b n =
     (if cb_count b < n then Inr (LCT_FAIL, [], b)
      else if cb_vlast b > cb_vfirst b
      then res_bind (mem_get_range b (cb_vfirst b) n) (\<lambda>out.
        Inr (LCT_SUCCESS, out, b\<lparr>cb_vfirst := cbC_increment_n b (cb_vfirst b) n,
                                cb_count := cb_count b - n\<rparr>))
      else cbC_popN_loop b n [] LCT_SUCCESS)"

fun cbC_popN_drop_loop :: "char_cbuf \<Rightarrow> nat \<Rightarrow> lct_err \<Rightarrow> lct_err \<times> char_cbuf" where
  "cbC_popN_drop_loop b 0 errCode = (errCode, b)"
| "cbC_popN_drop_loop b (Suc k) errCode =
     (if cb_count b > 0
      then (case cbC_pop_drop b of (e, b1) \<Rightarrow>
              if LCT_SUCCESS \<noteq> e then (e, b1) else cbC_popN_drop_loop b1 k e)
      else (errCode, b))"

definition cbC_popN_drop :: "char_cbuf \<Rightarrow> nat \<Rightarrow> lct_err \<times> char_cbuf" where
  "cbC_popN_drop b n =
     (if cb_count b < n then (LCT_FAIL, b)
      else if cb_vlast b > cb_vfirst b
      then (LCT_SUCCESS, b\<lparr>cb_vfirst := cbC_increment_n b (cb_vfirst b) n, cb_count := cb_count b - n\<rparr>)
      else cbC_popN_drop_loop b n LCT_SUCCESS)"

text \<open>\<open>reallocate\<close>: the old block is copied to the front of the new one, the offsets are kept.\<close>

definition cbC_reallocate :: "char_cbuf \<Rightarrow> nat \<Rightarrow> lct_err \<times> char_cbuf" where
  "cbC_reallocate b sz =
     (if sz \<le> cb_size b then (LCT_SUCCESS, b)
      else (LCT_SUCCESS,
            b\<lparr>cb_mem := take (cb_size b) (cb_mem b) @ replicate (sz - cb_size b) (Some (CHR 0x00)),
              cb_size := sz\<rparr>))"

end
