(* ===== verification/Circular_Buffer_Correct.thy ===== *)
theory Circular_Buffer_Correct
  imports Circular_Buffer
begin

text \<open>
  What the circular buffers promise: they hold a sequence (\<open>cb_list\<close>), read off the block by
  counting from \<open>m_vfirst\<close> modulo the size, and every operation is an operation on that
  sequence.  The last section states where the code leaves this contract.
\<close>

section \<open>Abstraction and invariant\<close>

definition cb_slot :: "'a cbuf \<Rightarrow> nat \<Rightarrow> nat" where
  "cb_slot b i = (cb_vfirst b + i) mod cb_size b"

definition cb_list :: "'a cbuf \<Rightarrow> 'a list" where
  "cb_list b = map (\<lambda>i. the (cb_mem b ! cb_slot b i)) [0..<cb_count b]"

definition cb_inv :: "'a cbuf \<Rightarrow> bool" where
  "cb_inv b \<longleftrightarrow> 0 < cb_size b \<and> length (cb_mem b) = cb_size b \<and> cb_vfirst b < cb_size b
     \<and> cb_count b \<le> cb_size b \<and> cb_vlast b = cb_slot b (cb_count b)
     \<and> (\<forall>i < cb_count b. cb_mem b ! cb_slot b i \<noteq> None)"

lemma length_cb_list [simp]: "length (cb_list b) = cb_count b"
  by (simp add: cb_list_def)

lemma cb_list_nth: "i < cb_count b \<Longrightarrow> cb_list b ! i = the (cb_mem b ! cb_slot b i)"
  by (simp add: cb_list_def)

lemma slot_less: "0 < cb_size b \<Longrightarrow> cb_slot b i < cb_size b"
  by (simp add: cb_slot_def)

lemma slot_cases:
  "cb_vfirst b < cb_size b \<Longrightarrow> i \<le> cb_size b \<Longrightarrow>
     cb_slot b i = (if cb_vfirst b + i < cb_size b then cb_vfirst b + i else cb_vfirst b + i - cb_size b)"
  by (auto simp: cb_slot_def le_mod_geq)

lemma slot_inj:
  "cb_vfirst b < cb_size b \<Longrightarrow> i < cb_size b \<Longrightarrow> j < cb_size b \<Longrightarrow> cb_slot b i = cb_slot b j \<longleftrightarrow> i = j"
  by (auto simp: slot_cases split: if_splits)

lemma slot_0 [simp]: "cb_vfirst b < cb_size b \<Longrightarrow> cb_slot b 0 = cb_vfirst b"
  by (simp add: cb_slot_def)

lemma slot_size: "cb_vfirst b < cb_size b \<Longrightarrow> cb_slot b (cb_size b) = cb_vfirst b"
  by (simp add: cb_slot_def)

lemma increment_slot: "0 < cb_size b \<Longrightarrow> cb_increment b (cb_slot b i) = cb_slot b (Suc i)"
  by (auto simp: cb_increment_def cb_slot_def mod_Suc)

lemma increment_vfirst:
  "cb_vfirst b < cb_size b \<Longrightarrow> cb_increment b (cb_vfirst b) = cb_slot b 1"
  using increment_slot [of b 0] by auto

lemma increment_update [simp]:
  "cb_increment (b\<lparr>cb_mem := m\<rparr>) p = cb_increment b p"
  "cb_increment (b\<lparr>cb_vlast := l\<rparr>) p = cb_increment b p"
  by (simp_all add: cb_increment_def)

lemma slot_shift:
  assumes "cb_vfirst b' = cb_slot b 1" "cb_size b' = cb_size b"
  shows "cb_slot b' i = cb_slot b (Suc i)"
  using assms by (simp add: cb_slot_def mod_simps add.commute add.left_commute)

lemma slot_update [simp]:
  "cb_slot (b\<lparr>cb_mem := m\<rparr>) i = cb_slot b i"
  "cb_slot (b\<lparr>cb_vlast := l\<rparr>) i = cb_slot b i"
  "cb_slot (b\<lparr>cb_count := n\<rparr>) i = cb_slot b i"
  by (simp_all add: cb_slot_def)

lemma cb_invD:
  assumes "cb_inv b"
  shows "0 < cb_size b" "length (cb_mem b) = cb_size b" "cb_vfirst b < cb_size b"
    "cb_count b \<le> cb_size b" "cb_vlast b = cb_slot b (cb_count b)" "cb_vlast b < cb_size b"
    "\<And>i. i < cb_count b \<Longrightarrow> cb_mem b ! cb_slot b i \<noteq> None"
  using assms by (auto simp: cb_inv_def slot_less)

section \<open>The three moves on the sequence\<close>

text \<open>
  Each move is given by the fields of the state after it, so that the lemmas apply to the
  record updates of either class.
\<close>

lemma cb_listI:
  assumes "length ys = cb_count b" "\<And>j. j < cb_count b \<Longrightarrow> cb_mem b ! cb_slot b j = Some (ys ! j)"
  shows "cb_list b = ys"
  by (rule nth_equalityI) (use assms in \<open>auto simp: cb_list_nth\<close>)

lemma cb_invI:
  assumes "0 < cb_size b" "length (cb_mem b) = cb_size b" "cb_vfirst b < cb_size b"
    "cb_count b \<le> cb_size b" "cb_vlast b = cb_slot b (cb_count b)"
    "\<And>j. j < cb_count b \<Longrightarrow> cb_mem b ! cb_slot b j = Some (ys ! j)"
  shows "cb_inv b"
  using assms by (auto simp: cb_inv_def)

lemma cb_cell: "cb_inv b \<Longrightarrow> j < cb_count b \<Longrightarrow> cb_mem b ! cb_slot b j = Some (cb_list b ! j)"
  using cb_invD(7) [of b j] by (auto simp: cb_list_nth)

text \<open>Store at \<open>m_vlast\<close> with room left.\<close>

lemma store_room:
  assumes inv: "cb_inv b" and room: "cb_count b < cb_size b"
    and f: "cb_mem b' = (cb_mem b)[cb_vlast b := Some x]" "cb_vlast b' = cb_increment b (cb_vlast b)"
      "cb_count b' = Suc (cb_count b)" "cb_vfirst b' = cb_vfirst b" "cb_size b' = cb_size b"
  shows "cb_inv b'" and "cb_list b' = cb_list b @ [x]"
proof -
  note i = cb_invD [OF inv]
  have s: "cb_slot b' j = cb_slot b j" for j by (simp add: cb_slot_def f)
  have m: "cb_mem b' ! cb_slot b' j = Some ((cb_list b @ [x]) ! j)" if "j < cb_count b'" for j
    using that i(1-6) room cb_cell [OF inv, of j]
    by (auto simp: s f nth_append nth_list_update slot_inj slot_less)
  show "cb_inv b'"
    by (rule cb_invI [OF _ _ _ _ _ m]) (use i room in \<open>simp_all add: f s increment_slot\<close>)
  show "cb_list b' = cb_list b @ [x]"
    by (rule cb_listI [OF _ m]) (simp_all add: f)
qed

text \<open>Store over the oldest element of a full buffer (overlap mode).\<close>

lemma store_over:
  assumes inv: "cb_inv b" and full: "cb_count b = cb_size b"
    and f: "cb_mem b' = (cb_mem b)[cb_vlast b := Some x]" "cb_vlast b' = cb_increment b (cb_vlast b)"
      "cb_count b' = cb_count b" "cb_vfirst b' = cb_increment b (cb_vfirst b)" "cb_size b' = cb_size b"
  shows "cb_inv b'" and "cb_list b' = tl (cb_list b) @ [x]"
proof -
  note i = cb_invD [OF inv]
  have vl: "cb_vlast b = cb_vfirst b" using i full slot_size by metis
  have s: "cb_slot b' j = cb_slot b (Suc j)" for j
    by (rule slot_shift) (simp_all add: f increment_vfirst [OF i(3)])
  have m: "cb_mem b' ! cb_slot b' j = Some ((tl (cb_list b) @ [x]) ! j)" if "j < cb_count b'" for j
  proof (cases "Suc j = cb_size b")
    case True
    then show ?thesis using i(1-3) full by (auto simp: s f vl slot_size nth_append)
  next
    case False
    with that have "Suc j < cb_size b" using f full by simp
    then show ?thesis
      using slot_inj [OF i(3), of "Suc j" 0] i(1-3) cb_cell [OF inv, of "Suc j"] full
      by (auto simp: s f vl nth_append nth_tl)
  qed
  show "cb_inv b'"
  proof (rule cb_invI [OF _ _ _ _ _ m])
    have "cb_slot b (Suc (cb_size b)) = cb_slot b 1"
      by (metis add.commute add.right_neutral add_Suc_right cb_slot_def mod_add_self2 One_nat_def add.assoc)
    then show "cb_vlast b' = cb_slot b' (cb_count b')"
      using increment_vfirst [OF i(3)] by (simp only: s f vl full)
  qed (use i full in \<open>simp_all add: f increment_vfirst slot_less\<close>)
  show "cb_list b' = tl (cb_list b) @ [x]"
    by (rule cb_listI [OF _ m]) (use i full in \<open>simp_all add: f\<close>)
qed

text \<open>Advance \<open>m_vfirst\<close>; what happens to the cell left behind does not matter.\<close>

lemma advance:
  assumes inv: "cb_inv b" and ne: "0 < cb_count b"
    and f: "cb_mem b' = (cb_mem b)[cb_vfirst b := c] \<or> cb_mem b' = cb_mem b"
      "cb_vlast b' = cb_vlast b" "cb_count b' = cb_count b - 1"
      "cb_vfirst b' = cb_increment b (cb_vfirst b)" "cb_size b' = cb_size b"
  shows "cb_inv b'" and "cb_list b' = tl (cb_list b)"
proof -
  note i = cb_invD [OF inv]
  have s: "cb_slot b' j = cb_slot b (Suc j)" for j
    by (rule slot_shift) (simp_all add: f increment_vfirst [OF i(3)])
  have m: "cb_mem b' ! cb_slot b' j = Some (tl (cb_list b) ! j)" if "j < cb_count b'" for j
  proof -
    have j: "Suc j < cb_count b" using that f by simp
    then have "cb_slot b (Suc j) \<noteq> cb_vfirst b" using slot_inj [OF i(3), of "Suc j" 0] i(1-4) by simp
    then show ?thesis using f(1) j cb_cell [OF inv j] by (auto simp: s nth_tl)
  qed
  have "length (cb_mem b') = cb_size b'" using f i(2) by auto
  then show "cb_inv b'"
    by (intro cb_invI [OF _ _ _ _ _ m]) (use i ne in \<open>simp_all add: f s increment_vfirst slot_less\<close>)
  show "cb_list b' = tl (cb_list b)"
    by (rule cb_listI [OF _ m]) (simp_all add: f)
qed

lemma cb_list_front: "cb_inv b \<Longrightarrow> 0 < cb_count b \<Longrightarrow> cb_list b \<noteq> []"
  by (metis length_cb_list length_greater_0_conv)

lemma get_slot: "cb_inv b \<Longrightarrow> j < cb_count b \<Longrightarrow> mem_get b (cb_slot b j) = Inr (cb_list b ! j)"
  using cb_cell [of b j] cb_invD(1,2) [of b] by (simp add: mem_get_def slot_less)

lemma get_front: "cb_inv b \<Longrightarrow> 0 < cb_count b \<Longrightarrow> mem_get b (cb_vfirst b) = Inr (hd (cb_list b))"
  using get_slot [of b 0] cb_invD(3) [of b] by (simp add: cb_list_front hd_conv_nth)

section \<open>The template\<close>

lemma cbT_new_correct: "cb_inv (cbT_new sz) \<and> cb_list (cbT_new sz) = [] \<and> cb_size (cbT_new sz) = max sz 1"
  by (simp add: cbT_new_def cb_inv_def cb_list_def cb_slot_def)

lemma cbT_push_room:
  assumes "cb_inv b" "cb_count b < cb_size b"
  shows "\<exists>b'. cbT_push b x = Inr (LCT_SUCCESS, b') \<and> cb_inv b' \<and> cb_list b' = cb_list b @ [x]
     \<and> cb_size b' = cb_size b"
proof -
  let ?b = "b\<lparr>cb_mem := (cb_mem b)[cb_vlast b := Some x], cb_vlast := cb_increment b (cb_vlast b),
              cb_count := Suc (cb_count b)\<rparr>"
  have "cbT_push b x = Inr (LCT_SUCCESS, ?b)"
    using assms cb_invD [OF assms(1)]
    by (simp add: cbT_push_def mem_put_def cbT_append_def cb_full_def Let_def)
  with store_room [OF assms, of ?b x] show ?thesis by simp
qed

lemma cbT_pop_some:
  assumes "cb_inv b" "cb_list b = x # xs"
  shows "\<exists>b'. cbT_pop b = Inr (LCT_SUCCESS, Some x, b') \<and> cb_inv b' \<and> cb_list b' = xs \<and> cb_size b' = cb_size b"
proof -
  have n: "0 < cb_count b" using assms(2) length_cb_list [of b] by simp
  let ?b = "b\<lparr>cb_vfirst := cb_increment b (cb_vfirst b), cb_mem := (cb_mem b)[cb_vfirst b := None],
              cb_count := cb_count b - 1\<rparr>"
  have "cbT_pop b = Inr (LCT_SUCCESS, Some x, ?b)"
    using n get_front [OF assms(1) n] assms(2) by (simp add: cbT_pop_def Let_def)
  with advance [OF assms(1) n, of ?b None] assms(2) show ?thesis by simp
qed

lemma cbT_pop_empty: "cb_count b = 0 \<Longrightarrow> cbT_pop b = Inr (LCT_FAIL, None, b)"
  by (simp add: cbT_pop_def)

interpretation cbT: bounded_fifo cbT_push cbT_pop cb_list cb_size cb_inv
  using cbT_push_room cbT_pop_some by unfold_locales auto

lemma cb_visit_from:
  assumes inv: "cb_inv b" and "j < cb_count b"
  shows "cb_visit b fn (cb_slot b j) s = Some (Inr (fold fn (drop j (cb_list b)) s))"
  using assms(2)
proof (induction "cb_count b - j" arbitrary: j s)
  case 0
  then show ?case by simp
next
  case (Suc k)
  note i = cb_invD [OF inv]
  have d: "drop j (cb_list b) = cb_list b ! j # drop (Suc j) (cb_list b)"
    using Suc.prems by (metis Cons_nth_drop_Suc length_cb_list)
  have inc: "cb_increment b (cb_slot b j) = cb_slot b (Suc j)" using i(1) by (rule increment_slot)
  have "fold fn (drop j (cb_list b)) s = fold fn (drop (Suc j) (cb_list b)) (fn (cb_list b ! j) s)"
    by (simp add: d)
  note next' = this get_slot [OF inv Suc.prems] inc
  show ?case
  proof (cases "Suc j = cb_count b")
    case True
    then show ?thesis using next' i(5) by (subst cb_visit.simps) simp
  next
    case False
    then have lt: "Suc j < cb_count b" using Suc.prems by simp
    have "cb_slot b (Suc j) \<noteq> cb_vlast b"
    proof (cases "cb_count b = cb_size b")
      case True
      then show ?thesis using i lt slot_inj [OF i(3), of "Suc j" 0] slot_size [OF i(3)] by simp
    next
      case False
      then show ?thesis using i lt slot_inj [OF i(3), of "Suc j" "cb_count b"] by simp
    qed
    then show ?thesis using Suc.hyps(1) [of "Suc j" "fn (cb_list b ! j) s"] Suc.hyps(2) lt next'
      by (subst cb_visit.simps) simp
  qed
qed

text \<open>
  \<open>iterate\<close> terminates on every buffer that satisfies the invariant (also on a full one,
  where its start and end pointers are equal) and applies the callback to the held elements,
  oldest first, each exactly once.
\<close>

theorem iterate_visits_contents:
  "cb_inv b \<Longrightarrow> cb_iterate b fn s = Some (Inr (LCT_SUCCESS, fold fn (cb_list b) s))"
  using cb_visit_from [of b 0 fn s] cb_invD(3) [of b]
  by (cases "cb_count b = 0") (auto simp: cb_iterate_def cb_list_def)

theorem iterate_visits_contents_witness:
  "cb_iterate (cbT_new 2 :: nat cbuf) (\<lambda>x acc. acc @ [x]) [] = Some (Inr (LCT_SUCCESS, []))"
  using iterate_visits_contents [of "cbT_new 2 :: nat cbuf" "\<lambda>x acc. acc @ [x]" "[]"] cbT_new_correct [of 2]
  by (simp add: cbT_new_def cb_list_def)

text \<open>
  On a full buffer without overlap \<open>push\<close> of the template reports \<open>LCT_FAIL\<close>, and yet
  changes the contents: the object is constructed at \<open>m_vlast\<close> before the test, over the
  oldest element, which is lost without its destructor having run.
\<close>

theorem failed_push_overwrites_oldest:
  assumes "cb_inv b" "\<not> cb_overlap b" "cb_list b = y # ys" "cb_count b = cb_size b"
  shows "\<exists>b'. cbT_push b x = Inr (LCT_FAIL, b') \<and> cb_list b' = x # ys"
proof -
  note i = cb_invD [OF assms(1)]
  let ?b = "b\<lparr>cb_mem := (cb_mem b)[cb_vlast b := Some x]\<rparr>"
  have vl: "cb_vlast b = cb_vfirst b" using i(3,5) assms(4) slot_size by metis
  have "cb_list ?b = x # ys"
  proof (rule cb_listI)
    show "length (x # ys) = cb_count ?b" using assms(3) length_cb_list [of b] by simp
    fix j assume "j < cb_count ?b"
    then show "cb_mem ?b ! cb_slot ?b j = Some ((x # ys) ! j)"
      using i(1-4) cb_cell [OF assms(1), of j] assms(3,4) slot_inj [OF i(3), of j 0]
      by (cases j) (auto simp: vl)
  qed
  moreover have "cbT_push b x = Inr (LCT_FAIL, ?b)"
    using i(2,6) assms(2,4) by (simp add: cbT_push_def mem_put_def cbT_append_def cb_full_def)
  ultimately show ?thesis by blast
qed

text \<open>A buffer of one cell that holds \<open>y\<close>, for the closed instances.\<close>

definition one_full :: "'a \<Rightarrow> 'a cbuf" where
  "one_full y = \<lparr>cb_overlap = False, cb_mem = [Some y], cb_vfirst = 0, cb_vlast = 0,
                cb_count = 1, cb_size = 1\<rparr>"

lemma one_full_facts:
  "cb_inv (one_full y)" "\<not> cb_overlap (one_full y)" "cb_list (one_full y) = [y]"
  "cb_count (one_full y) = cb_size (one_full y)" "cb_size (one_full y) = 1"
  by (simp_all add: one_full_def cb_inv_def cb_list_def cb_slot_def)

theorem failed_push_overwrites_oldest_witness:
  "\<exists>b'. cbT_push (one_full (1::nat)) 2 = Inr (LCT_FAIL, b') \<and> cb_list b' = [2]"
  using failed_push_overwrites_oldest [of "one_full 1" "1::nat" "[]" 2] one_full_facts [of "1::nat"]
  by blast

text \<open>
  The destructor of a full buffer destroys nothing: its loop starts at \<open>m_vfirst\<close> and that is
  \<open>m_vlast\<close>.
\<close>

lemma destroy_full_leaks: "cb_inv b \<Longrightarrow> cb_count b = cb_size b \<Longrightarrow> cbT_destroy b = Some (Inr [])"
  using cb_invD(3,5) [of b] slot_size [of b]
  by (simp add: cbT_destroy_def cbT_destroy_from.simps [of b "cb_vfirst b"])

end
