(* ===== verification/Circular_Buffer_Char.thy ===== *)
theory Circular_Buffer_Char
  imports Circular_Buffer_Correct
begin

text \<open>
  The specialisation for \<open>char\<close>: single pushes and pops, the block transfers \<open>pushN\<close> and
  \<open>popN\<close> with their fast paths, \<open>space\<close> and \<open>reallocate\<close>, against the sequence of characters
  held.  In overlap mode the fast path of \<open>pushN\<close> leaves the invariant, and \<open>reallocate\<close>
  loses the order of a buffer that wraps around; both are stated here.
\<close>

section \<open>Construction\<close>

lemma cbC_new_correct:
  "cb_inv (cbC_new sz) \<and> cb_list (cbC_new sz) = [] \<and> cb_size (cbC_new sz) = max sz 1
     \<and> \<not> cb_overlap (cbC_new sz)"
  by (simp add: cbC_new_def cb_inv_def cb_list_def cb_slot_def)

text \<open>
  The two constructors that take data copy it into the block but leave \<open>m_count\<close> at 0 and
  \<open>m_vlast\<close> at the start: the buffer they build is empty.
\<close>

lemma cbC_new_string_is_empty: "cb_list (cbC_new_string data) = [] \<and> cb_inv (cbC_new_string data)"
  by (simp add: cbC_new_string_def Let_def cb_list_def cb_inv_def cb_slot_def)

section \<open>Single characters\<close>

lemma cbC_append_cases:
  assumes inv: "cb_inv b"
  shows "\<exists>b'. cbC_append b c =
       Inr (if cb_count b < cb_size b \<or> cb_overlap b then LCT_SUCCESS else LCT_FAIL, b')
     \<and> cb_inv b' \<and> cb_size b' = cb_size b \<and> cb_overlap b' = cb_overlap b
     \<and> cb_list b' = (if cb_count b < cb_size b then cb_list b @ [c]
                     else if cb_overlap b then tl (cb_list b) @ [c] else cb_list b)"
proof -
  note i = cb_invD [OF inv]
  show ?thesis
  proof (cases "cb_count b < cb_size b")
    case True
    let ?b = "b\<lparr>cb_mem := (cb_mem b)[cb_vlast b := Some c], cb_vlast := cb_increment b (cb_vlast b),
                cb_count := Suc (cb_count b)\<rparr>"
    have "cbC_append b c = Inr (LCT_SUCCESS, ?b)"
      using i True by (simp add: cbC_append_def mem_put_def cb_full_def Let_def)
    with store_room [OF inv True, of ?b c] True show ?thesis by simp
  next
    case False
    then have full: "cb_count b = cb_size b" using i(4) by simp
    let ?b = "b\<lparr>cb_mem := (cb_mem b)[cb_vlast b := Some c], cb_vlast := cb_increment b (cb_vlast b),
                cb_vfirst := cb_increment b (cb_vfirst b)\<rparr>"
    show ?thesis
    proof (cases "cb_overlap b")
      case True
      then have "cbC_append b c = Inr (LCT_SUCCESS, ?b)"
        using i full by (simp add: cbC_append_def mem_put_def cb_full_def Let_def)
      with store_over [OF inv full, of ?b c] True full show ?thesis by simp
    next
      case False
      then show ?thesis using full inv by (simp add: cbC_append_def cb_full_def)
    qed
  qed
qed

text \<open>
  \<open>push\<close> on every branch: with room it appends the character; on a full buffer it drops
  the oldest character in overlap mode, and otherwise reports \<open>LCT_FAIL\<close> and changes nothing.
\<close>

theorem push_on_every_branch:
  assumes "cb_inv b"
  shows "\<exists>b'. cbC_push b c =
       Inr (if cb_count b < cb_size b \<or> cb_overlap b then LCT_SUCCESS else LCT_FAIL, b')
     \<and> cb_inv b' \<and> cb_size b' = cb_size b \<and> cb_overlap b' = cb_overlap b
     \<and> cb_list b' = (if cb_count b < cb_size b then cb_list b @ [c]
                     else if cb_overlap b then tl (cb_list b) @ [c] else cb_list b)"
  using cbC_append_cases [OF assms] by (simp only: cbC_push_def)

theorem push_on_every_branch_witness:
  "\<exists>b'. cbC_push (one_full (CHR ''a'')) (CHR ''b'') = Inr (LCT_FAIL, b') \<and> cb_list b' = ''a''"
  using push_on_every_branch [of "one_full (CHR ''a'')" "CHR ''b''"] one_full_facts [of "CHR ''a''"]
  by auto

lemma pop_drop_correct:
  assumes inv: "cb_inv b" and ne: "0 < cb_count b"
  shows "\<exists>b'. cbC_pop_drop b = (LCT_SUCCESS, b') \<and> cb_inv b' \<and> cb_list b' = tl (cb_list b)
     \<and> cb_size b' = cb_size b \<and> cb_overlap b' = cb_overlap b \<and> cb_count b' = cb_count b - 1"
proof -
  let ?b = "b\<lparr>cb_vfirst := cb_increment b (cb_vfirst b), cb_count := cb_count b - 1\<rparr>"
  have "cbC_pop_drop b = (LCT_SUCCESS, ?b)" using ne by (simp add: cbC_pop_drop_def)
  with advance [OF inv ne, of ?b] show ?thesis by simp
qed

lemma cbC_pop_some:
  assumes inv: "cb_inv b" and l: "cb_list b = x # xs"
  shows "\<exists>b'. cbC_pop b = Inr (LCT_SUCCESS, Some x, b') \<and> cb_inv b' \<and> cb_list b' = xs
     \<and> cb_size b' = cb_size b \<and> cb_overlap b' = cb_overlap b"
proof -
  have ne: "0 < cb_count b" using l length_cb_list [of b] by simp
  then show ?thesis
    using pop_drop_correct [OF inv ne] get_front [OF inv ne] l by (auto simp: cbC_pop_def)
qed

lemma cbC_pop_empty: "cb_count b = 0 \<Longrightarrow> cbC_pop b = Inr (LCT_FAIL, None, b)"
  by (simp add: cbC_pop_def)

interpretation cbC: bounded_fifo cbC_push cbC_pop cb_list cb_size cb_inv
proof unfold_locales
  fix b :: char_cbuf and c
  assume "cb_inv b" "length (cb_list b) < cb_size b"
  then show "\<exists>b'. cbC_push b c = Inr (LCT_SUCCESS, b') \<and> cb_inv b' \<and> cb_list b' = cb_list b @ [c]
      \<and> cb_size b' = cb_size b"
    using cbC_append_cases [of b c] by (auto simp: cbC_push_def)
next
  fix b :: char_cbuf and x xs
  assume "cb_inv b" "cb_list b = x # xs"
  then show "\<exists>b'. cbC_pop b = Inr (LCT_SUCCESS, Some x, b') \<and> cb_inv b' \<and> cb_list b' = xs
      \<and> cb_size b' = cb_size b"
    using cbC_pop_some by blast
qed

text \<open>
  C23: characters pushed into a new buffer of sufficient size come out in the order they went
  in, every operation succeeding, and leave the buffer empty.
\<close>

theorem char_buffer_is_fifo:
  assumes "length cs \<le> max sz 1"
  shows "\<exists>b1 b2. push_all cbC_push (cbC_new sz) cs = Inr (LCT_SUCCESS, b1)
     \<and> pop_all cbC_pop b1 (length cs) = Inr (LCT_SUCCESS, cs, b2) \<and> cb_list b2 = []"
  using cbC.fifo_roundtrip [of "cbC_new sz" cs] cbC_new_correct [of sz] assms by auto

theorem char_buffer_is_fifo_witness:
  "\<exists>b1 b2. push_all cbC_push (cbC_new 3) ''abc'' = Inr (LCT_SUCCESS, b1)
     \<and> pop_all cbC_pop b1 3 = Inr (LCT_SUCCESS, ''abc'', b2) \<and> cb_list b2 = []"
  using char_buffer_is_fifo [of "''abc''" 3] by (simp del: push_all.simps pop_all.simps flip: numeral_3_eq_3)

section \<open>Block transfers\<close>

lemma pushN_loop_correct:
  assumes "cb_inv b" "\<not> cb_overlap b" "n \<le> length src" "e0 = LCT_SUCCESS"
  shows "\<exists>b'. cbC_pushN_loop b src n e0 =
       Inr (if n \<le> cb_size b - cb_count b then LCT_SUCCESS else LCT_FAIL, b')
     \<and> cb_inv b' \<and> cb_size b' = cb_size b \<and> \<not> cb_overlap b'
     \<and> cb_list b' = cb_list b @ take (min n (cb_size b - cb_count b)) src"
  using assms
proof (induction n arbitrary: b src e0)
  case 0
  then show ?case by simp
next
  case (Suc n)
  then obtain x xs where src: "src = x # xs" by (cases src) auto
  show ?case
  proof (cases "cb_count b < cb_size b")
    case True
    with Suc.prems cbC_append_cases [of b x] obtain b1 where
      b1: "cbC_append b x = Inr (LCT_SUCCESS, b1)" "cb_inv b1" "cb_size b1 = cb_size b"
        "\<not> cb_overlap b1" "cb_list b1 = cb_list b @ [x]" by auto
    then have "cb_count b1 = Suc (cb_count b)" by (metis length_append_singleton length_cb_list)
    moreover have "n \<le> length xs" using Suc.prems src by simp
    moreover have "cb_size b - cb_count b = Suc (cb_size b - Suc (cb_count b))" using True by simp
    ultimately show ?thesis using Suc.IH [of b1 xs LCT_SUCCESS] b1 src by auto
  next
    case False
    then have "cb_count b = cb_size b" using cb_invD(4) [OF Suc.prems(1)] by simp
    then show ?thesis using Suc.prems src by (simp add: cbC_append_def cb_full_def)
  qed
qed

text \<open>\<open>space\<close> never promises more than what is free, and what it promises is contiguous.\<close>

lemma space_sound:
  assumes inv: "cb_inv b" and "\<not> cb_overlap b"
  shows "cbC_space b \<le> cb_size b - cb_count b \<and> cb_vlast b + cbC_space b \<le> cb_size b"
proof -
  note i = cb_invD [OF inv]
  have "cb_vlast b = (if cb_vfirst b + cb_count b < cb_size b then cb_vfirst b + cb_count b
      else cb_vfirst b + cb_count b - cb_size b)" using i(3-5) by (simp add: slot_cases)
  then show ?thesis using i(1,3,4,6) assms(2) by (auto simp: cbC_space_def)
qed

lemma pushN_fast_correct:
  assumes inv: "cb_inv b" and n: "n \<le> cb_size b - cb_count b" "cb_vlast b + n \<le> cb_size b"
    and len: "length xs = n"
    and f: "cb_mem b' = take (cb_vlast b) (cb_mem b) @ map Some xs @ drop (cb_vlast b + n) (cb_mem b)"
      "cb_vlast b' = cbC_increment_n b (cb_vlast b) n" "cb_count b' = cb_count b + n"
      "cb_vfirst b' = cb_vfirst b" "cb_size b' = cb_size b"
  shows "cb_inv b'" and "cb_list b' = cb_list b @ xs"
proof -
  note i = cb_invD [OF inv]
  have s: "cb_slot b' j = cb_slot b j" for j by (simp add: cb_slot_def f)
  have app: "cb_slot b (cb_count b + j) = cb_vlast b + j" if "j < n" for j
  proof -
    have "cb_slot b (cb_count b + j) = (cb_vlast b + j) mod cb_size b"
      unfolding i(5) by (simp add: cb_slot_def mod_simps add.assoc)
    then show ?thesis using that n(2) by simp
  qed
  have mem: "cb_mem b' ! k = (if k < cb_vlast b then cb_mem b ! k
      else if k < cb_vlast b + n then Some (xs ! (k - cb_vlast b)) else cb_mem b ! k)"
    if "k < cb_size b" for k
    using that i(2,6) n(2) len by (auto simp: f nth_append)
  have m: "cb_mem b' ! cb_slot b' j = Some ((cb_list b @ xs) ! j)" if "j < cb_count b'" for j
  proof (cases "j < cb_count b")
    case True
    have "\<not> (cb_vlast b \<le> cb_slot b j \<and> cb_slot b j < cb_vlast b + n)"
    proof
      assume c: "cb_vlast b \<le> cb_slot b j \<and> cb_slot b j < cb_vlast b + n"
      define k where "k = cb_slot b j - cb_vlast b"
      have k: "k < n" "cb_slot b j = cb_vlast b + k" using c by (auto simp: k_def)
      then have "cb_slot b j = cb_slot b (cb_count b + k)" using app by simp
      moreover have "cb_count b + k < cb_size b" using k(1) n(1) by linarith
      ultimately show False using slot_inj [OF i(3), of j "cb_count b + k"] True by simp
    qed
    then show ?thesis using True cb_cell [OF inv True] mem [OF slot_less [OF i(1)], of j]
      by (auto simp: s nth_append)
  next
    case False
    define k where "k = j - cb_count b"
    have k: "j = cb_count b + k" "k < n" using False that by (auto simp: k_def f)
    then show ?thesis using mem [of "cb_vlast b + k"] app [of k] n(2) by (simp add: s nth_append)
  qed
  have "cb_slot b (cb_count b + n) = (cb_vlast b + n) mod cb_size b"
    unfolding i(5) by (simp add: cb_slot_def mod_simps add.assoc)
  then have "cb_vlast b' = cb_slot b' (cb_count b')" using n(2) by (auto simp: f s cbC_increment_n_def)
  then show "cb_inv b'"
    by (intro cb_invI [OF _ _ _ _ _ m]) (use i n len in \<open>auto simp: f\<close>)
  show "cb_list b' = cb_list b @ xs" by (rule cb_listI [OF _ m]) (simp_all add: f len)
qed



lemma popN_loop_correct:
  assumes "cb_inv b" "n \<le> cb_count b" "e0 = LCT_SUCCESS"
  shows "\<exists>b'. cbC_popN_loop b n out e0 = Inr (LCT_SUCCESS, out @ take n (cb_list b), b')
     \<and> cb_inv b' \<and> cb_list b' = drop n (cb_list b)"
  using assms
proof (induction n arbitrary: b out e0)
  case 0
  then show ?case by simp
next
  case (Suc n)
  then obtain x xs where l: "cb_list b = x # xs" by (cases "cb_list b") (auto simp flip: length_cb_list)
  then obtain b1 where b1: "cbC_pop b = Inr (LCT_SUCCESS, Some x, b1)" "cb_inv b1" "cb_list b1 = xs"
    using cbC_pop_some [OF Suc.prems(1)] by blast
  moreover have "n \<le> cb_count b1" using Suc.prems(2) l b1(3) by (simp flip: length_cb_list)
  ultimately show ?case using Suc.IH [of b1 LCT_SUCCESS "out @ [x]"] Suc.prems(2) l by simp
qed

lemma popN_fast_correct:
  assumes inv: "cb_inv b" and lt: "cb_vfirst b < cb_vlast b" and n: "n \<le> cb_count b"
    and f: "cb_mem b' = cb_mem b" "cb_vlast b' = cb_vlast b" "cb_count b' = cb_count b - n"
      "cb_vfirst b' = cbC_increment_n b (cb_vfirst b) n" "cb_size b' = cb_size b"
  shows "cb_inv b'" and "cb_list b' = drop n (cb_list b)"
    and "mem_get_range b (cb_vfirst b) n = Inr (take n (cb_list b))"
proof -
  note i = cb_invD [OF inv]
  have c: "cb_vfirst b + cb_count b < cb_size b" and vl: "cb_vlast b = cb_vfirst b + cb_count b"
    using i(3-6) lt by (auto simp: slot_cases split: if_splits)
  have sl: "cb_slot b j = cb_vfirst b + j" if "j \<le> cb_count b" for j
    using that c by (simp add: cb_slot_def)
  have vf: "cb_vfirst b' = cb_vfirst b + n" using n c by (simp add: f cbC_increment_n_def)
  have s: "cb_slot b' j = cb_slot b (n + j)" for j by (simp add: cb_slot_def vf f add.assoc)
  have m: "cb_mem b' ! cb_slot b' j = Some (drop n (cb_list b) ! j)" if "j < cb_count b'" for j
    using that n cb_cell [OF inv, of "n + j"] by (simp add: s f)
  show "cb_inv b'"
    by (rule cb_invI [OF _ _ _ _ _ m]) (use i n c in \<open>simp_all add: f vf [unfolded f] s\<close>)
  show "cb_list b' = drop n (cb_list b)" by (rule cb_listI [OF _ m]) (simp_all add: f)
  have "take n (drop (cb_vfirst b) (cb_mem b)) = map Some (take n (cb_list b))"
    by (rule nth_equalityI) (use n c i(2) cb_cell [OF inv] sl in \<open>auto simp: nth_append\<close>)
  then show "mem_get_range b (cb_vfirst b) n = Inr (take n (cb_list b))"
    using n by (simp add: mem_get_range_def Let_def list_all_iff comp_def)
qed

text \<open>
  C26: \<open>popN\<close> delivers the \<open>n\<close> oldest characters in order and removes exactly these, on the
  block path and on the character-wise path; with fewer than \<open>n\<close> characters it fails and
  changes nothing.
\<close>

theorem popN_delivers_oldest:
  assumes "cb_inv b"
  shows "(n \<le> cb_count b \<longrightarrow> (\<exists>b'. cbC_popN b n = Inr (LCT_SUCCESS, take n (cb_list b), b')
            \<and> cb_inv b' \<and> cb_list b' = drop n (cb_list b)))
     \<and> (cb_count b < n \<longrightarrow> cbC_popN b n = Inr (LCT_FAIL, [], b))"
proof (cases "cb_vfirst b < cb_vlast b")
  case True
  let ?b = "b\<lparr>cb_vfirst := cbC_increment_n b (cb_vfirst b) n, cb_count := cb_count b - n\<rparr>"
  show ?thesis
    using popN_fast_correct [OF assms True, of n ?b] True by (auto simp: cbC_popN_def)
next
  case False
  then show ?thesis using popN_loop_correct [OF assms, of n LCT_SUCCESS "[]"] by (auto simp: cbC_popN_def)
qed

theorem popN_delivers_oldest_witness:
  "\<exists>b'. cbC_popN (one_full (CHR ''a'')) 1 = Inr (LCT_SUCCESS, ''a'', b') \<and> cb_list b' = []"
  using popN_delivers_oldest [of "one_full (CHR ''a'')" 1] one_full_facts [of "CHR ''a''"]
  by (auto simp: one_full_def)

section \<open>Where the contract is left\<close>

text \<open>
  In overlap mode the block path of \<open>pushN\<close> adds \<open>n\<close> to \<open>m_count\<close> without regard to
  what is already held: a full buffer of 4 ends with \<open>size() = 8 > capacity() = 4\<close>, so the
  invariant is broken although the call reports success.
\<close>

theorem pushN_overlap_overcounts:
  "\<exists>b b'. cb_inv b \<and> cb_overlap b \<and> cb_size b = 4
     \<and> cbC_pushN b (Some ''wxyz'') 4 = Inr (LCT_SUCCESS, b') \<and> cb_count b' = 8 \<and> \<not> cb_inv b'"
proof -
  let ?b = "\<lparr>cb_overlap = True, cb_mem = map Some ''abcd'', cb_vfirst = 0, cb_vlast = 0,
             cb_count = 4, cb_size = 4\<rparr> :: char_cbuf"
  have "cb_inv ?b"
    by (simp add: cb_inv_def cb_slot_def all_less_four)
  moreover have "cbC_pushN ?b (Some ''wxyz'') 4 =
      Inr (LCT_SUCCESS, ?b\<lparr>cb_mem := map Some ''wxyz'', cb_count := 8\<rparr>)"
    by (simp add: cbC_pushN_def cbC_space_def mem_put_range_def cbC_increment_n_def)
  ultimately show ?thesis
    by (intro exI [of _ ?b] exI [of _ "?b\<lparr>cb_mem := map Some ''wxyz'', cb_count := 8\<rparr>"])
       (simp add: cb_inv_def)
qed

text \<open>
  \<open>reallocate\<close> keeps the contents of a buffer that does not wrap around (the held
  characters lie between \<open>m_vfirst\<close> and a later \<open>m_vlast\<close>, or there are none), and the
  buffer then has the new capacity.
\<close>

theorem reallocate_keeps_contiguous:
  assumes "cb_inv b" "cb_vfirst b + cb_count b < cb_size b" "cb_size b < sz"
  shows "\<exists>b'. cbC_reallocate b sz = (LCT_SUCCESS, b') \<and> cb_inv b' \<and> cb_size b' = sz
     \<and> cb_list b' = cb_list b"
proof -
  note i = cb_invD [OF assms(1)]
  let ?b = "b\<lparr>cb_mem := take (cb_size b) (cb_mem b) @ replicate (sz - cb_size b) (Some (CHR 0x00)),
              cb_size := sz\<rparr>"
  have s: "cb_slot ?b j = cb_slot b j \<and> cb_slot b j < cb_size b" if "j \<le> cb_count b" for j
    using that assms(2,3) by (simp add: cb_slot_def)
  have m: "cb_mem ?b ! cb_slot ?b j = Some (cb_list b ! j)" if "j < cb_count ?b" for j
    using that cb_cell [OF assms(1), of j] s [of j] i(2) by (simp add: nth_append)
  have "cb_inv ?b" by (rule cb_invI [OF _ _ _ _ _ m]) (use i assms(2,3) s [of "cb_count b"] in auto)
  moreover have "cb_list ?b = cb_list b" by (rule cb_listI [OF _ m]) simp_all
  ultimately show ?thesis using assms(3) by (simp add: cbC_reallocate_def)
qed

theorem reallocate_keeps_contiguous_witness:
  "\<exists>b'. cbC_reallocate (cbC_new 1) 2 = (LCT_SUCCESS, b') \<and> cb_size b' = 2 \<and> cb_list b' = []"
  using reallocate_keeps_contiguous [of "cbC_new 1" 2] cbC_new_correct [of 1]
  by (auto simp: cbC_new_def cb_list_def)

text \<open>
  A buffer that wraps around does not survive \<open>reallocate\<close>: the part stored at the front
  of the old block is not moved behind the rest, so the gap of the new block is read as
  contents.
\<close>

theorem reallocate_corrupts_wrapped:
  "\<exists>b b'. cb_inv b \<and> cb_list b = ''bc'' \<and> cbC_reallocate b 4 = (LCT_SUCCESS, b')
     \<and> cb_list b' \<noteq> cb_list b \<and> \<not> cb_inv b'"
proof -
  let ?b = "\<lparr>cb_overlap = False, cb_mem = [Some (CHR ''c''), Some (CHR ''b'')], cb_vfirst = 1,
             cb_vlast = 1, cb_count = 2, cb_size = 2\<rparr> :: char_cbuf"
  let ?b' = "?b\<lparr>cb_mem := cb_mem ?b @ [Some (CHR 0x00), Some (CHR 0x00)], cb_size := 4\<rparr>"
  have "cb_inv ?b" by (simp add: cb_inv_def cb_slot_def all_less_two)
  moreover have "cb_list ?b = ''bc''" by (simp add: cb_list_def cb_slot_def upt_rec)
  moreover have "cbC_reallocate ?b 4 = (LCT_SUCCESS, ?b')"
    by (simp add: cbC_reallocate_def numeral_eq_Suc)
  moreover have "cb_list ?b' \<noteq> ''bc''" by (simp add: cb_list_def cb_slot_def upt_rec)
  moreover have "\<not> cb_inv ?b'" by (simp add: cb_inv_def cb_slot_def)
  ultimately show ?thesis by (intro exI [of _ ?b] exI [of _ ?b']) simp
qed

end
