(* ===== verification/Id_Engine.thy ===== *)
theory Id_Engine
  imports Std_String Error_Code
begin

text \<open>
  The unique id engine: \<open>service/lct_id_service/id_common_define.h\<close>, \<open>id_engine.h\<close>,
  \<open>id_day_switch_engine.h\<close> and \<open>id_day_switch_engine.cpp\<close>.  An engine hands out the numbers
  below a preallocated valve; the valve and the day are what it keeps in the database.

  The data source and the clock the engine calls are the fields of \<open>id_env\<close>; \<open>'c\<close> is
  everything behind them.  \<open>int64_t\<close> counters are \<open>int\<close>, sums go through \<open>to_i64\<close>.  The
  functions here are one call at a time; \<open>Id_Engine_Threads\<close> interleaves calls.
\<close>

section \<open>Data\<close>

datatype seed_type =
  SEED_TYPE_UNIQUE | SEED_TYPE_DAY_SWITCH | SEED_TYPE_DATE_SWITCH | SEED_TYPE_MONTH_SWITCH

definition seed_type_val :: "seed_type \<Rightarrow> int" where
  "seed_type_val t = (case t of SEED_TYPE_UNIQUE \<Rightarrow> 1 | SEED_TYPE_DAY_SWITCH \<Rightarrow> 2
     | SEED_TYPE_DATE_SWITCH \<Rightarrow> 3 | SEED_TYPE_MONTH_SWITCH \<Rightarrow> 4)"

lemma seed_type_val_inj: "seed_type_val t = seed_type_val u \<longleftrightarrow> t = u"
  by (auto simp: seed_type_val_def split: seed_type.splits)

definition LCT_EVENT_ENGINE_SEED_ID :: int where "LCT_EVENT_ENGINE_SEED_ID = 1001"
definition LCT_TASKS_ENGINE_SEED_ID :: int where "LCT_TASKS_ENGINE_SEED_ID = 1002"
definition LCT_MODEL_ENGINE_SEED_ID :: int where "LCT_MODEL_ENGINE_SEED_ID = 1003"

record engine_info =
  Step :: int
  PreallocSize :: int
  Max_id :: int
  PreallocValve :: int
  CurrentId :: int
  DayStamp :: string

definition new_engine_info :: engine_info where
  "new_engine_info = \<lparr>Step = 1, PreallocSize = 100, Max_id = 2 ^ 63 - 1, PreallocValve = 0,
     CurrentId = 0, DayStamp = []\<rparr>"

record sid_engine =
  m_seedType :: seed_type
  m_seedId :: int
  m_engineInfo :: engine_info

definition new_day_switch_engine :: "int \<Rightarrow> sid_engine" where
  "new_day_switch_engine seedId =
     \<lparr>m_seedType = SEED_TYPE_DAY_SWITCH, m_seedId = seedId, m_engineInfo = new_engine_info\<rparr>"

text \<open>
  What the engine calls: \<open>LctCurrentDay()\<close>, \<open>ID_DATA_SRC->query\<close> (which may fill the engine
  info it is given) and \<open>ID_DATA_SRC->persist\<close>.
\<close>

record 'c id_env =
  now_day :: "'c \<Rightarrow> string \<times> 'c"
  ds_query :: "int \<Rightarrow> seed_type \<Rightarrow> engine_info \<Rightarrow> 'c \<Rightarrow> lct_err \<times> engine_info \<times> 'c"
  ds_persist :: "int \<Rightarrow> seed_type \<Rightarrow> engine_info \<Rightarrow> 'c \<Rightarrow> lct_err \<times> 'c"

section \<open>Operations\<close>

definition readPersistance :: "'c id_env \<Rightarrow> sid_engine \<Rightarrow> 'c \<Rightarrow> lct_err \<times> sid_engine \<times> 'c" where
  "readPersistance env g c =
     (case ds_query env (m_seedId g) (m_seedType g) (m_engineInfo g) c of
        (errCode, i, c1) \<Rightarrow> (errCode, g\<lparr>m_engineInfo := i\<rparr>, c1))"

definition persist :: "'c id_env \<Rightarrow> sid_engine \<Rightarrow> 'c \<Rightarrow> lct_err \<times> 'c" where
  "persist env g c = ds_persist env (m_seedId g) (m_seedType g) (m_engineInfo g) c"

definition daySwitch :: "'c id_env \<Rightarrow> sid_engine \<Rightarrow> 'c \<Rightarrow> lct_err \<times> sid_engine \<times> 'c" where
  "daySwitch env g c =
     (case now_day env c of (d1, c1) \<Rightarrow>
        if d1 \<noteq> DayStamp (m_engineInfo g) then
          (case now_day env c1 of (d2, c2) \<Rightarrow>
             let g1 = g\<lparr>m_engineInfo := (m_engineInfo g)\<lparr>CurrentId := 0, DayStamp := d2,
                          PreallocValve := PreallocSize (m_engineInfo g)\<rparr>\<rparr>
             in case persist env g1 c2 of (errCode, c3) \<Rightarrow> (errCode, g1, c3))
        else (LCT_SUCCESS, g, c1))"

definition reallocValve :: "'c id_env \<Rightarrow> sid_engine \<Rightarrow> 'c \<Rightarrow> lct_err \<times> sid_engine \<times> 'c" where
  "reallocValve env g c =
     (let i = m_engineInfo g in
      if CurrentId i \<ge> PreallocValve i then
        let g1 = g\<lparr>m_engineInfo := i\<lparr>PreallocValve := to_i64 (PreallocValve i + PreallocSize i)\<rparr>\<rparr>
        in case persist env g1 c of (errCode, c1) \<Rightarrow> (errCode, g1, c1)
      else (LCT_SUCCESS, g, c))"

definition engine_init :: "'c id_env \<Rightarrow> sid_engine \<Rightarrow> 'c \<Rightarrow> lct_err \<times> sid_engine \<times> 'c" where
  "engine_init env g c =
     (case readPersistance env g c of (errCode, g1, c1) \<Rightarrow>
        if errCode = LCT_SUCCESS then
          (case now_day env c1 of (d, c2) \<Rightarrow>
             reallocValve env (g1\<lparr>m_engineInfo := (m_engineInfo g1)\<lparr>
               CurrentId := PreallocValve (m_engineInfo g1), DayStamp := d\<rparr>\<rparr>) c2)
        else daySwitch env g1 c1)"

text \<open>
  \<open>spawnId\<close>: the date and number set on the caller's id, \<open>None\<close> where it returns before
  setting them.
\<close>

definition spawnId ::
    "'c id_env \<Rightarrow> sid_engine \<Rightarrow> 'c \<Rightarrow> lct_err \<times> (string \<times> int) option \<times> sid_engine \<times> 'c" where
  "spawnId env g c =
     (case now_day env c of (d, c1) \<Rightarrow>
      case (if d \<noteq> DayStamp (m_engineInfo g) then daySwitch env g c1 else (LCT_SUCCESS, g, c1)) of
        (errCode, g1, c2) \<Rightarrow>
          if LCT_SUCCESS \<noteq> errCode then (errCode, None, g1, c2)
          else
            let nextId = CurrentId (m_engineInfo g1);
                g2 = g1\<lparr>m_engineInfo := (m_engineInfo g1)\<lparr>
                        CurrentId := to_i64 (nextId + Step (m_engineInfo g1))\<rparr>\<rparr>
            in if nextId < PreallocValve (m_engineInfo g2)
               then (errCode, Some (DayStamp (m_engineInfo g2), nextId), g2, c2)
               else (case reallocValve env g2 c2 of (errCode2, g3, c3) \<Rightarrow>
                  if LCT_SUCCESS \<noteq> errCode2 then (errCode2, None, g3, c3)
                  else if nextId < PreallocValve (m_engineInfo g3)
                  then (errCode2, Some (DayStamp (m_engineInfo g3), nextId), g3, c3)
                  else (LCT_FAIL, None, g3, c3)))"

text \<open>A run of calls, one after the other: the ids handed out and whether every call succeeded.\<close>

fun spawn_run :: "'c id_env \<Rightarrow> nat \<Rightarrow> sid_engine \<Rightarrow> 'c \<Rightarrow> (string \<times> int) list \<times> bool \<times> sid_engine \<times> 'c" where
  "spawn_run env 0 g c = ([], True, g, c)"
| "spawn_run env (Suc n) g c =
     (case spawnId env g c of (e, r, g1, c1) \<Rightarrow>
      case spawn_run env n g1 c1 of (ids, ok, g2, c2) \<Rightarrow>
        (case r of None \<Rightarrow> ids | Some x \<Rightarrow> x # ids, e = LCT_SUCCESS \<and> ok, g2, c2))"

section \<open>Well-formed engines\<close>

definition engine_wf :: "sid_engine \<Rightarrow> bool" where
  "engine_wf g \<longleftrightarrow> 0 < Step (m_engineInfo g) \<and> 0 < PreallocSize (m_engineInfo g)
     \<and> 0 \<le> CurrentId (m_engineInfo g) \<and> PreallocSize (m_engineInfo g) \<le> PreallocValve (m_engineInfo g)"

text \<open>Room for \<open>n\<close> more calls before a counter leaves \<open>int64_t\<close>.\<close>

definition engine_room :: "sid_engine \<Rightarrow> nat \<Rightarrow> bool" where
  "engine_room g n \<longleftrightarrow> CurrentId (m_engineInfo g) + int n * Step (m_engineInfo g) < 2 ^ 63
     \<and> PreallocValve (m_engineInfo g) + int n * PreallocSize (m_engineInfo g) < 2 ^ 63"

definition same_setup :: "sid_engine \<Rightarrow> sid_engine \<Rightarrow> bool" where
  "same_setup g g' \<longleftrightarrow> m_seedId g' = m_seedId g \<and> m_seedType g' = m_seedType g
     \<and> Step (m_engineInfo g') = Step (m_engineInfo g)
     \<and> PreallocSize (m_engineInfo g') = PreallocSize (m_engineInfo g)
     \<and> Max_id (m_engineInfo g') = Max_id (m_engineInfo g)"

lemma same_setup_trans: "same_setup g g1 \<Longrightarrow> same_setup g1 g2 \<Longrightarrow> same_setup g g2"
  by (simp add: same_setup_def)

lemma engine_room_add:
  assumes "engine_wf g" "engine_room g (Suc n)"
  shows "to_i64 (CurrentId (m_engineInfo g) + Step (m_engineInfo g))
           = CurrentId (m_engineInfo g) + Step (m_engineInfo g)"
    "to_i64 (PreallocValve (m_engineInfo g) + PreallocSize (m_engineInfo g))
           = PreallocValve (m_engineInfo g) + PreallocSize (m_engineInfo g)"
proof -
  have n: "0 \<le> int n * Step (m_engineInfo g)" "0 \<le> int n * PreallocSize (m_engineInfo g)"
    using assms(1) by (simp_all add: engine_wf_def)
  have r: "CurrentId (m_engineInfo g) + Step (m_engineInfo g) + int n * Step (m_engineInfo g) < 2 ^ 63"
    "PreallocValve (m_engineInfo g) + PreallocSize (m_engineInfo g)
       + int n * PreallocSize (m_engineInfo g) < 2 ^ 63"
    using assms(2) by (simp_all add: engine_room_def algebra_simps)
  have w: "0 \<le> CurrentId (m_engineInfo g) + Step (m_engineInfo g)"
    "0 \<le> PreallocValve (m_engineInfo g) + PreallocSize (m_engineInfo g)"
    using assms(1) by (simp_all add: engine_wf_def)
  show "to_i64 (CurrentId (m_engineInfo g) + Step (m_engineInfo g))
           = CurrentId (m_engineInfo g) + Step (m_engineInfo g)"
    by (rule to_i64_nonneg [OF w(1)]) (use n(1) r(1) in linarith)
  show "to_i64 (PreallocValve (m_engineInfo g) + PreallocSize (m_engineInfo g))
           = PreallocValve (m_engineInfo g) + PreallocSize (m_engineInfo g)"
    by (rule to_i64_nonneg [OF w(2)]) (use n(2) r(2) in linarith)
qed

text \<open>What the day test at the head of \<open>spawnId\<close> leaves: either nothing changed, or a fresh day.\<close>

definition day_checked :: "'c id_env \<Rightarrow> sid_engine \<Rightarrow> 'c \<Rightarrow> lct_err \<times> sid_engine \<times> 'c" where
  "day_checked env g c = (case now_day env c of (d, c1) \<Rightarrow>
      if d \<noteq> DayStamp (m_engineInfo g) then daySwitch env g c1 else (LCT_SUCCESS, g, c1))"

definition fetched :: "sid_engine \<Rightarrow> sid_engine" where
  "fetched g = g\<lparr>m_engineInfo := (m_engineInfo g)\<lparr>
     CurrentId := to_i64 (CurrentId (m_engineInfo g) + Step (m_engineInfo g))\<rparr>\<rparr>"

lemma spawnId_unfold:
  "spawnId env g c =
     (case day_checked env g c of (errCode, g1, c2) \<Rightarrow>
        if LCT_SUCCESS \<noteq> errCode then (errCode, None, g1, c2)
        else let nextId = CurrentId (m_engineInfo g1) in
          if nextId < PreallocValve (m_engineInfo g1)
          then (LCT_SUCCESS, Some (DayStamp (m_engineInfo g1), nextId), fetched g1, c2)
          else (case reallocValve env (fetched g1) c2 of (errCode2, g3, c3) \<Rightarrow>
             if LCT_SUCCESS \<noteq> errCode2 then (errCode2, None, g3, c3)
             else if nextId < PreallocValve (m_engineInfo g3)
             then (LCT_SUCCESS, Some (DayStamp (m_engineInfo g3), nextId), g3, c3)
             else (LCT_FAIL, None, g3, c3)))"
  by (simp add: spawnId_def day_checked_def fetched_def Let_def split: prod.splits if_splits)

end
