(* ===== verification/Id_Engine_Correct.thy ===== *)
theory Id_Engine_Correct
  imports Id_Engine
begin

text \<open>
  What the engine promises: no pair of date and number is handed out twice, within one life of
  the process and across a restart, and calls succeed as long as the data source does.  What
  the engine needs of its clock and of its data source is stated as two locales.
\<close>

section \<open>The interfaces\<close>

text \<open>The clock: days are numbered, time does not run backwards, distinct days have distinct names.\<close>

locale day_clock =
  fixes env :: "'c id_env" and idx :: "'c \<Rightarrow> nat" and day :: "nat \<Rightarrow> string"
  assumes day_inj: "day i = day j \<longleftrightarrow> i = j"
    and day_nonempty: "day i \<noteq> []"
    and now_day_at: "now_day env c = (d, c') \<Longrightarrow> d = day (idx c') \<and> idx c \<le> idx c'"
    and persist_later: "ds_persist env s t info c = (e, c') \<Longrightarrow> idx c \<le> idx c'"
    and query_later: "ds_query env s t info c = (e, info', c') \<Longrightarrow> idx c \<le> idx c'"

text \<open>The numbers handed out so far, against the counter and the day of the engine.\<close>

definition issued_ok :: "(nat \<Rightarrow> string) \<Rightarrow> nat \<Rightarrow> sid_engine \<Rightarrow> (string \<times> int) list \<Rightarrow> bool" where
  "issued_ok day k g L \<longleftrightarrow> DayStamp (m_engineInfo g) = day k
     \<and> (\<forall>(d, i) \<in> set L. \<exists>j \<le> k. d = day j \<and> (j = k \<longrightarrow> i < CurrentId (m_engineInfo g)))"

lemma issued_okD: "issued_ok day k g L \<Longrightarrow> (d, i) \<in> set L \<Longrightarrow>
    \<exists>j \<le> k. d = day j \<and> (j = k \<longrightarrow> i < CurrentId (m_engineInfo g))"
  by (auto simp: issued_ok_def)

lemma issued_okI:
  assumes "DayStamp (m_engineInfo g) = day k"
    "\<And>d i. (d, i) \<in> set L \<Longrightarrow> \<exists>j \<le> k. d = day j \<and> (j = k \<longrightarrow> i < CurrentId (m_engineInfo g))"
  shows "issued_ok day k g L"
  using assms by (auto simp: issued_ok_def)

lemma issued_ok_new_day:
  assumes "issued_ok day k g L" "k < k1" "DayStamp (m_engineInfo g1) = day k1"
  shows "issued_ok day k1 g1 L"
proof (rule issued_okI)
  show "DayStamp (m_engineInfo g1) = day k1" by (rule assms(3))
  fix d i assume "(d, i) \<in> set L"
  then obtain j where "j \<le> k" "d = day j" using issued_okD [OF assms(1)] by blast
  then show "\<exists>j \<le> k1. d = day j \<and> (j = k1 \<longrightarrow> i < CurrentId (m_engineInfo g1))"
    using assms(2) by (intro exI [of _ j]) auto
qed

lemma issued_ok_mono:
  assumes "issued_ok day k g L" "DayStamp (m_engineInfo g1) = DayStamp (m_engineInfo g)"
    "CurrentId (m_engineInfo g) \<le> CurrentId (m_engineInfo g1)"
  shows "issued_ok day k g1 L"
proof (rule issued_okI)
  show "DayStamp (m_engineInfo g1) = day k" using assms by (simp add: issued_ok_def)
  fix d i assume "(d, i) \<in> set L"
  then show "\<exists>j \<le> k. d = day j \<and> (j = k \<longrightarrow> i < CurrentId (m_engineInfo g1))"
    using issued_okD [OF assms(1)] assms(3) by fastforce
qed

lemma issued_ok_snoc:
  "issued_ok day k g L \<Longrightarrow> i < CurrentId (m_engineInfo g) \<Longrightarrow> issued_ok day k g (L @ [(day k, i)])"
  by (auto simp: issued_ok_def)

definition below_valve :: "(nat \<Rightarrow> string) \<Rightarrow> nat \<Rightarrow> sid_engine \<Rightarrow> (string \<times> int) list \<Rightarrow> bool" where
  "below_valve day k g L \<longleftrightarrow> (\<forall>(d, i) \<in> set L. d = day k \<longrightarrow> i < PreallocValve (m_engineInfo g))"

definition add_id :: "(string \<times> int) option \<Rightarrow> (string \<times> int) list \<Rightarrow> (string \<times> int) list" where
  "add_id r L = (case r of None \<Rightarrow> L | Some x \<Rightarrow> L @ [x])"

lemma add_id_simps [simp]: "add_id None L = L" "add_id (Some x) L = L @ [x]"
  by (simp_all add: add_id_def)

section \<open>Local facts of the operations\<close>

lemma reallocValve_facts:
  assumes "reallocValve env g c = (e, g1, c1)" "engine_wf g" "engine_room g (Suc n)"
  shows "same_setup g g1" "DayStamp (m_engineInfo g1) = DayStamp (m_engineInfo g)"
    "CurrentId (m_engineInfo g1) = CurrentId (m_engineInfo g)"
    "PreallocValve (m_engineInfo g) \<le> PreallocValve (m_engineInfo g1)" "engine_wf g1"
    "PreallocValve (m_engineInfo g1) \<le> PreallocValve (m_engineInfo g) + PreallocSize (m_engineInfo g)"
    "CurrentId (m_engineInfo g) < PreallocValve (m_engineInfo g) + PreallocSize (m_engineInfo g)
       \<Longrightarrow> CurrentId (m_engineInfo g) < PreallocValve (m_engineInfo g1)"
  using assms(1) engine_room_add(2) [OF assms(2,3)] assms(2)
  by (auto simp: reallocValve_def Let_def same_setup_def engine_wf_def split: if_splits prod.splits)

lemma fetched_facts:
  assumes "engine_wf g" "engine_room g (Suc n)"
  shows "same_setup g (fetched g)" "DayStamp (m_engineInfo (fetched g)) = DayStamp (m_engineInfo g)"
    "PreallocValve (m_engineInfo (fetched g)) = PreallocValve (m_engineInfo g)"
    "CurrentId (m_engineInfo (fetched g)) = CurrentId (m_engineInfo g) + Step (m_engineInfo g)"
    "engine_wf (fetched g)"
  using assms(1) engine_room_add(1) [OF assms]
  by (auto simp: fetched_def same_setup_def engine_wf_def)

lemma room_after:
  assumes "engine_wf g" "engine_room g (Suc n)" "same_setup g g1"
    "CurrentId (m_engineInfo g1) \<le> CurrentId (m_engineInfo g) + Step (m_engineInfo g)"
    "PreallocValve (m_engineInfo g1) \<le> PreallocValve (m_engineInfo g) + PreallocSize (m_engineInfo g)"
  shows "engine_room g1 n"
  using assms by (auto simp: engine_room_def same_setup_def algebra_simps)

lemma reallocValve_setup: "reallocValve env g c = (e, g1, c1) \<Longrightarrow> same_setup g g1"
  by (auto simp: reallocValve_def Let_def same_setup_def split: if_splits prod.splits)

lemma day_checked_setup: "day_checked env g c = (e, g1, c1) \<Longrightarrow> same_setup g g1"
  by (auto simp: day_checked_def daySwitch_def Let_def same_setup_def split: if_splits prod.splits)

lemma fetched_setup: "same_setup g (fetched g)"
  by (simp add: fetched_def same_setup_def)

text \<open>The second half of \<open>spawnId\<close>, after the day test.\<close>

definition take_number ::
    "'c id_env \<Rightarrow> sid_engine \<Rightarrow> 'c \<Rightarrow> lct_err \<times> (string \<times> int) option \<times> sid_engine \<times> 'c" where
  "take_number env g c =
     (if CurrentId (m_engineInfo g) < PreallocValve (m_engineInfo g)
      then (LCT_SUCCESS, Some (DayStamp (m_engineInfo g), CurrentId (m_engineInfo g)), fetched g, c)
      else (case reallocValve env (fetched g) c of (e, g3, c3) \<Rightarrow>
             if LCT_SUCCESS \<noteq> e then (e, None, g3, c3)
             else if CurrentId (m_engineInfo g) < PreallocValve (m_engineInfo g3)
             then (LCT_SUCCESS, Some (DayStamp (m_engineInfo g3), CurrentId (m_engineInfo g)), g3, c3)
             else (LCT_FAIL, None, g3, c3)))"

lemma spawnId_parts:
  "spawnId env g c = (case day_checked env g c of (e, g1, c1) \<Rightarrow>
     if LCT_SUCCESS \<noteq> e then (e, None, g1, c1) else take_number env g1 c1)"
  by (auto simp: spawnId_unfold take_number_def Let_def split: prod.splits)

lemma take_number_setup: "take_number env g c = (e, r, g1, c1) \<Longrightarrow> same_setup g g1"
  by (auto simp: take_number_def fetched_setup split: if_splits prod.splits
        intro: same_setup_trans [OF fetched_setup] dest: reallocValve_setup)

lemma spawnId_setup: "spawnId env g c = (e, r, g1, c1) \<Longrightarrow> same_setup g g1"
  by (auto simp: spawnId_parts split: if_splits prod.splits
        dest: day_checked_setup take_number_setup intro: same_setup_trans)

lemma take_number_facts:
  assumes t: "take_number env g c = (e, r, g1, c1)" and wf: "engine_wf g" and room: "engine_room g (Suc n)"
  shows "same_setup g g1" "DayStamp (m_engineInfo g1) = DayStamp (m_engineInfo g)" "engine_wf g1"
    "CurrentId (m_engineInfo g1) = CurrentId (m_engineInfo g) + Step (m_engineInfo g)"
    "PreallocValve (m_engineInfo g) \<le> PreallocValve (m_engineInfo g1)"
    "PreallocValve (m_engineInfo g1) \<le> PreallocValve (m_engineInfo g) + PreallocSize (m_engineInfo g)"
    "r = None \<or> r = Some (DayStamp (m_engineInfo g), CurrentId (m_engineInfo g))
       \<and> CurrentId (m_engineInfo g) < PreallocValve (m_engineInfo g1)"
proof -
  note f = fetched_facts [OF wf room]
  have "same_setup g g1 \<and> DayStamp (m_engineInfo g1) = DayStamp (m_engineInfo g) \<and> engine_wf g1
    \<and> CurrentId (m_engineInfo g1) = CurrentId (m_engineInfo g) + Step (m_engineInfo g)
    \<and> PreallocValve (m_engineInfo g) \<le> PreallocValve (m_engineInfo g1)
    \<and> PreallocValve (m_engineInfo g1) \<le> PreallocValve (m_engineInfo g) + PreallocSize (m_engineInfo g)
    \<and> (r = None \<or> r = Some (DayStamp (m_engineInfo g), CurrentId (m_engineInfo g))
       \<and> CurrentId (m_engineInfo g) < PreallocValve (m_engineInfo g1))"
  proof (cases "CurrentId (m_engineInfo g) < PreallocValve (m_engineInfo g)")
    case True
    then show ?thesis using t f wf by (auto simp: take_number_def engine_wf_def)
  next
    case False
    have ov: "to_i64 (PreallocValve (m_engineInfo (fetched g)) + PreallocSize (m_engineInfo (fetched g)))
        = PreallocValve (m_engineInfo g) + PreallocSize (m_engineInfo g)"
      using engine_room_add(2) [OF wf room] by (simp add: fetched_def)
    show ?thesis
      using False t f wf ov
      by (auto simp: take_number_def reallocValve_def Let_def same_setup_def engine_wf_def
            split: prod.splits if_splits)
  qed
  then show "same_setup g g1" "DayStamp (m_engineInfo g1) = DayStamp (m_engineInfo g)" "engine_wf g1"
    "CurrentId (m_engineInfo g1) = CurrentId (m_engineInfo g) + Step (m_engineInfo g)"
    "PreallocValve (m_engineInfo g) \<le> PreallocValve (m_engineInfo g1)"
    "PreallocValve (m_engineInfo g1) \<le> PreallocValve (m_engineInfo g) + PreallocSize (m_engineInfo g)"
    "r = None \<or> r = Some (DayStamp (m_engineInfo g), CurrentId (m_engineInfo g))
       \<and> CurrentId (m_engineInfo g) < PreallocValve (m_engineInfo g1)"
    by blast+
qed

section \<open>One life of the process\<close>

context day_clock
begin

lemma day_checked_ok:
  assumes d: "day_checked env g c = (e, g1, c1)" and wf: "engine_wf g" and k: "k \<le> idx c"
    and L: "issued_ok day k g L"
  shows "\<exists>k1. k1 \<le> idx c1 \<and> issued_ok day k1 g1 L \<and> engine_wf g1 \<and> same_setup g g1
     \<and> (engine_room g n \<longrightarrow> engine_room g1 n)
     \<and> (k1 = k \<and> g1 = g \<or> k < k1 \<and> (e = LCT_SUCCESS \<longrightarrow>
          (\<exists>c2. persist env g1 c2 = (LCT_SUCCESS, c1))))"
proof -
  obtain d1 ca where ca: "now_day env c = (d1, ca)" by fastforce
  have a: "d1 = day (idx ca)" "k \<le> idx ca" using now_day_at [OF ca] k by auto
  have st: "DayStamp (m_engineInfo g) = day k" using L by (simp add: issued_ok_def)
  show ?thesis
  proof (cases "d1 = DayStamp (m_engineInfo g)")
    case True
    then show ?thesis using d ca wf a L by (intro exI [of _ k]) (auto simp: day_checked_def same_setup_def)
  next
    case False
    then have lt: "k < idx ca" using a st by (metis le_neq_implies_less)
    obtain d2 cb where cb: "now_day env ca = (d2, cb)" by fastforce
    obtain d3 cc where cc: "now_day env cb = (d3, cc)" by fastforce
    have b: "d2 = day (idx cb)" "k < idx cb" "d3 = day (idx cc)" "k < idx cc"
      using now_day_at [OF cb] now_day_at [OF cc] lt by auto
    have ne: "d2 \<noteq> DayStamp (m_engineInfo g)" using b st day_inj by auto
    let ?g = "g\<lparr>m_engineInfo := (m_engineInfo g)\<lparr>CurrentId := 0, DayStamp := d3,
                PreallocValve := PreallocSize (m_engineInfo g)\<rparr>\<rparr>"
    have p: "persist env ?g cc = (e, c1)" and g1: "g1 = ?g"
      using d ca cb cc False ne by (auto simp: day_checked_def daySwitch_def Let_def split: prod.splits)
    have "idx cc \<le> idx c1" using p persist_later by (auto simp: persist_def)
    moreover have "issued_ok day (idx cc) g1 L"
      by (rule issued_ok_new_day [OF L b(4)]) (simp add: g1 b)
    moreover have "engine_room g n \<longrightarrow> engine_room g1 n"
      using wf by (auto simp: engine_room_def engine_wf_def g1)
    ultimately show ?thesis
      using wf b p by (intro exI [of _ "idx cc"]) (auto simp: engine_wf_def same_setup_def g1)
  qed
qed

lemma reallocValve_later: "reallocValve env g c = (e, g1, c1) \<Longrightarrow> idx c \<le> idx c1"
  by (auto simp: reallocValve_def persist_def Let_def split: if_splits prod.splits dest: persist_later)

lemma take_number_later: "take_number env g c = (e, r, g1, c1) \<Longrightarrow> idx c \<le> idx c1"
  by (auto simp: take_number_def split: if_splits prod.splits dest: reallocValve_later)

lemma take_number_fresh:
  assumes t: "take_number env g c = (e, r, g1, c1)" and wf: "engine_wf g" and room: "engine_room g (Suc n)"
    and L: "issued_ok day k g L"
  shows "issued_ok day k g1 (add_id r L) \<and> (\<forall>x. r = Some x \<longrightarrow> x \<notin> set L)"
proof -
  note f = take_number_facts [OF t wf room]
  have s: "0 < Step (m_engineInfo g)" using wf by (simp add: engine_wf_def)
  have stamp: "DayStamp (m_engineInfo g) = day k" using L by (simp add: issued_ok_def)
  have ok: "issued_ok day k g1 L" using issued_ok_mono [OF L f(2)] f(4) s by simp
  show ?thesis
  proof (cases r)
    case None
    then show ?thesis using ok by simp
  next
    case (Some x)
    then have x: "x = (day k, CurrentId (m_engineInfo g))" using f(7) stamp by simp
    have "x \<notin> set L"
    proof
      assume "x \<in> set L"
      then obtain j where "day k = day j" "j = k \<longrightarrow> CurrentId (m_engineInfo g) < CurrentId (m_engineInfo g)"
        using issued_okD [OF L, of "day k" "CurrentId (m_engineInfo g)"] x by auto
      then show False using day_inj by auto
    qed
    then show ?thesis using Some x issued_ok_snoc [OF ok] f(4) s by simp
  qed
qed

lemma spawnId_fresh:
  assumes s: "spawnId env g c = (e, r, g1, c1)" and wf: "engine_wf g" and room: "engine_room g (Suc n)"
    and k: "k \<le> idx c" and L: "issued_ok day k g L"
  shows "\<exists>k1 \<le> idx c1. issued_ok day k1 g1 (add_id r L) \<and> engine_wf g1 \<and> engine_room g1 n
     \<and> (\<forall>x. r = Some x \<longrightarrow> x \<notin> set L)"
proof -
  obtain e0 g0 c0 where d: "day_checked env g c = (e0, g0, c0)" by (cases "day_checked env g c") auto
  obtain k1 where k1: "k1 \<le> idx c0" "issued_ok day k1 g0 L" "engine_wf g0" "engine_room g0 (Suc n)"
    using day_checked_ok [OF d wf k L, of "Suc n"] room by blast
  show ?thesis
  proof (cases "e0 = LCT_SUCCESS")
    case False
    have "engine_room g0 n" using k1(3,4) by (auto simp: engine_room_def engine_wf_def algebra_simps)
    then show ?thesis using False s d k1 by (auto simp: spawnId_parts)
  next
    case True
    then have t: "take_number env g0 c0 = (e, r, g1, c1)" using s d by (simp add: spawnId_parts)
    note f = take_number_facts [OF t k1(3,4)]
    show ?thesis
      using take_number_fresh [OF t k1(3,4,2)] take_number_later [OF t] k1(1) f(3)
        room_after [OF k1(3,4) f(1) _ f(6)] f(4) by (intro exI [of _ k1]) auto
  qed
qed

lemma spawn_run_fresh:
  assumes "spawn_run env n g c = (ids, ok, g1, c1)" "engine_wf g" "engine_room g n"
    "k \<le> idx c" "issued_ok day k g L" "distinct L"
  shows "distinct (L @ ids)"
  using assms
proof (induction n arbitrary: g c k L ids ok)
  case 0
  then show ?case by simp
next
  case (Suc n)
  obtain e r ga ca where s: "spawnId env g c = (e, r, ga, ca)" by (metis prod_cases4)
  obtain ids' ok' gb cb where n: "spawn_run env n ga ca = (ids', ok', gb, cb)" by (metis prod_cases4)
  obtain k1 where k1: "k1 \<le> idx ca" "issued_ok day k1 ga (add_id r L)" "engine_wf ga" "engine_room ga n"
    "\<forall>x. r = Some x \<longrightarrow> x \<notin> set L"
    using spawnId_fresh [OF s Suc.prems(2,3,4,5)] by blast
  have e: "L @ ids = add_id r L @ ids'" using Suc.prems(1) s n by (cases r) auto
  have "gb = g1" "cb = c1" using Suc.prems(1) s n by auto
  then show ?case unfolding e
    using Suc.IH [OF n [unfolded \<open>gb = g1\<close> \<open>cb = c1\<close>] k1(3,4,1,2)] Suc.prems(6) k1(5)
    by (cases r) auto
qed

end

section \<open>Across a restart\<close>

text \<open>
  The data source keeps, per seed, the valve last saved: a \<open>persist\<close> that reports success has
  saved it, and a \<open>query\<close> that reports success reads it.  Nothing is said of failing calls.
\<close>

locale id_table = day_clock env idx day
  for env :: "'c id_env" and idx :: "'c \<Rightarrow> nat" and day :: "nat \<Rightarrow> string" +
  fixes row :: "'c \<Rightarrow> int \<Rightarrow> seed_type \<Rightarrow> int option"
  assumes day_row: "now_day env c = (d, c') \<Longrightarrow> row c' = row c"
    and persist_saves: "ds_persist env s t info c = (LCT_SUCCESS, c') \<Longrightarrow> DayStamp info = day k
        \<Longrightarrow> row c' s t = Some (PreallocValve info)"
    and query_reads: "ds_query env s t info c = (LCT_SUCCESS, info', c') \<Longrightarrow> row c s t = Some v
        \<Longrightarrow> PreallocValve info' = v"
    and query_fails: "ds_query env s t info c = (e, info', c') \<Longrightarrow> e \<noteq> LCT_SUCCESS \<Longrightarrow> info' = info"
begin

definition persisted :: "sid_engine \<Rightarrow> 'c \<Rightarrow> bool" where
  "persisted g c \<longleftrightarrow> row c (m_seedId g) (m_seedType g) = Some (PreallocValve (m_engineInfo g))"

lemma persist_persisted:
  "persist env g c = (LCT_SUCCESS, c') \<Longrightarrow> DayStamp (m_engineInfo g) = day k \<Longrightarrow> persisted g c'"
  by (auto simp: persist_def persisted_def dest: persist_saves [simplified])

lemma reallocValve_persisted:
  "reallocValve env g c = (LCT_SUCCESS, g1, c1) \<Longrightarrow> DayStamp (m_engineInfo g) = day k
     \<Longrightarrow> persisted g c \<or> PreallocValve (m_engineInfo g) \<le> CurrentId (m_engineInfo g) \<Longrightarrow> persisted g1 c1"
  by (auto simp: reallocValve_def Let_def split: if_splits prod.splits
        intro: persist_persisted [simplified])

lemma fetched_same: "persisted (fetched g) c = persisted g c"
    "DayStamp (m_engineInfo (fetched g)) = DayStamp (m_engineInfo g)"
  by (simp_all add: persisted_def fetched_def)

lemma take_number_persisted:
  assumes "take_number env g c = (LCT_SUCCESS, r, g1, c1)" "DayStamp (m_engineInfo g) = day k" "persisted g c"
  shows "persisted g1 c1"
proof (cases "CurrentId (m_engineInfo g) < PreallocValve (m_engineInfo g)")
  case True
  then show ?thesis using assms(1,3) by (auto simp: take_number_def fetched_same)
next
  case False
  then have "reallocValve env (fetched g) c = (LCT_SUCCESS, g1, c1)"
    using assms(1) by (auto simp: take_number_def split: prod.splits if_splits)
  then show ?thesis using reallocValve_persisted assms(2,3) by (simp add: fetched_same)
qed

lemma day_checked_persisted:
  assumes "day_checked env g c = (LCT_SUCCESS, g1, c1)" "DayStamp (m_engineInfo g) = day k" "persisted g c"
  shows "persisted g1 c1 \<and> (\<exists>k1. DayStamp (m_engineInfo g1) = day k1)"
proof -
  obtain d ca where ca: "now_day env c = (d, ca)" by fastforce
  obtain d2 cb where cb: "now_day env ca = (d2, cb)" by fastforce
  obtain d3 cc where cc: "now_day env cb = (d3, cc)" by fastforce
  have r: "row cb = row c" "row ca = row c" using day_row [OF ca] day_row [OF cb] by simp_all
  have d3: "d3 = day (idx cc)" using now_day_at [OF cc] by simp
  show ?thesis
  proof (cases "d = DayStamp (m_engineInfo g) \<or> d2 = DayStamp (m_engineInfo g)")
    case True
    then have "g1 = g" "c1 = ca \<or> c1 = cb"
      using assms(1) ca cb by (auto simp: day_checked_def daySwitch_def split: if_splits prod.splits)
    then show ?thesis using assms(2,3) r by (auto simp: persisted_def)
  next
    case False
    then have "persist env g1 cc = (LCT_SUCCESS, c1)" "DayStamp (m_engineInfo g1) = d3"
      using assms(1) ca cb cc by (auto simp: day_checked_def daySwitch_def Let_def split: if_splits prod.splits)
    then show ?thesis using persist_persisted d3 by blast
  qed
qed

lemma spawnId_persisted:
  assumes "spawnId env g c = (LCT_SUCCESS, r, g1, c1)" "DayStamp (m_engineInfo g) = day k" "persisted g c"
  shows "persisted g1 c1"
proof -
  obtain e0 g0 c0 where d: "day_checked env g c = (e0, g0, c0)" by (cases "day_checked env g c") auto
  have "e0 = LCT_SUCCESS" using assms(1) d by (auto simp: spawnId_parts split: if_splits)
  then have t: "take_number env g0 c0 = (LCT_SUCCESS, r, g1, c1)" and d': "day_checked env g c = (LCT_SUCCESS, g0, c0)"
    using assms(1) d by (auto simp: spawnId_parts split: if_splits)
  then show ?thesis using day_checked_persisted [OF d' assms(2,3)] take_number_persisted by blast
qed

lemma spawnId_below:
  assumes s: "spawnId env g c = (e, r, g1, c1)" and wf: "engine_wf g" and room: "engine_room g (Suc n)"
    and k: "k \<le> idx c" and L: "issued_ok day k g L" "below_valve day k g L"
  shows "\<exists>k1 \<le> idx c1. issued_ok day k1 g1 (add_id r L) \<and> below_valve day k1 g1 (add_id r L)"
proof -
  obtain e0 g0 c0 where d: "day_checked env g c = (e0, g0, c0)" by (cases "day_checked env g c") auto
  obtain k1 where k1: "k1 \<le> idx c0" "issued_ok day k1 g0 L" "engine_wf g0" "engine_room g0 (Suc n)"
    and or: "k1 = k \<and> g0 = g \<or> k < k1"
    using day_checked_ok [OF d wf k L(1), of "Suc n"] room by blast
  have b: "below_valve day k1 g0 L" using or
  proof (elim disjE)
    assume lt: "k < k1"
    have "d' \<noteq> day k1" if di: "(d', i) \<in> set L" for d' i
      using issued_okD [OF L(1) di] lt day_inj by auto
    then show ?thesis by (auto simp: below_valve_def)
  qed (use L(2) in simp)
  show ?thesis
  proof (cases "e0 = LCT_SUCCESS")
    case False
    then show ?thesis using s d k1 b by (auto simp: spawnId_parts)
  next
    case True
    then have t: "take_number env g0 c0 = (e, r, g1, c1)" using s d by (simp add: spawnId_parts)
    note f = take_number_facts [OF t k1(3,4)]
    have "below_valve day k1 g1 (add_id r L)"
      using b f(5,7) by (cases r) (auto simp: below_valve_def intro: less_le_trans)
    then show ?thesis
      using take_number_fresh [OF t k1(3,4,2)] take_number_later [OF t] k1(1)
      by (intro exI [of _ k1]) auto
  qed
qed

lemma spawn_run_persisted:
  assumes "spawn_run env n g c = (ids, True, g1, c1)" "engine_wf g" "engine_room g n"
    "k \<le> idx c" "issued_ok day k g L" "below_valve day k g L" "persisted g c" "distinct L"
  shows "\<exists>k1 \<le> idx c1. issued_ok day k1 g1 (L @ ids) \<and> below_valve day k1 g1 (L @ ids)
     \<and> persisted g1 c1 \<and> same_setup g g1 \<and> distinct (L @ ids)"
  using assms
proof (induction n arbitrary: g c k L ids)
  case 0
  then show ?case by (auto simp: same_setup_def)
next
  case (Suc n)
  obtain e r ga ca where s: "spawnId env g c = (e, r, ga, ca)" by (metis prod_cases4)
  obtain ids' ok' gb cb where n: "spawn_run env n ga ca = (ids', ok', gb, cb)" by (metis prod_cases4)
  have q: "gb = g1" "cb = c1" "ok' = True" "e = LCT_SUCCESS" using Suc.prems(1) s n by auto
  obtain k1 where k1: "k1 \<le> idx ca" "issued_ok day k1 ga (add_id r L)" "below_valve day k1 ga (add_id r L)"
    using spawnId_below [OF s Suc.prems(2-6)] by blast
  obtain k2 where k2: "engine_wf ga" "engine_room ga n" "\<forall>x. r = Some x \<longrightarrow> x \<notin> set L"
    using spawnId_fresh [OF s Suc.prems(2-5)] by blast
  have su: "same_setup g ga" using spawnId_setup [OF s] .
  have st: "DayStamp (m_engineInfo g) = day k" using Suc.prems(5) by (simp add: issued_ok_def)
  have e: "L @ ids = add_id r L @ ids'" using Suc.prems(1) s n by (cases r) auto
  have d: "distinct (add_id r L)" using k2(3) Suc.prems(8) by (cases r) auto
  show ?case unfolding e
    using Suc.IH [OF n [unfolded q] k2(1,2) k1 spawnId_persisted [OF s [unfolded q] st Suc.prems(7)] d]
      same_setup_trans [OF su] by blast
qed

lemma engine_init_ok:
  assumes "engine_init env (new_day_switch_engine s) c = (LCT_SUCCESS, g1, c1)"
  shows "\<exists>k \<le> idx c1. issued_ok day k g1 [] \<and> persisted g1 c1 \<and> m_seedId g1 = s
     \<and> m_seedType g1 = SEED_TYPE_DAY_SWITCH"
proof -
  let ?g = "new_day_switch_engine s"
  obtain e i ca where q: "ds_query env s SEED_TYPE_DAY_SWITCH new_engine_info c = (e, i, ca)"
    by (metis prod_cases3)
  have r: "readPersistance env ?g c = (e, ?g\<lparr>m_engineInfo := i\<rparr>, ca)"
    using q by (simp add: readPersistance_def new_day_switch_engine_def)
  show ?thesis
  proof (cases "e = LCT_SUCCESS")
    case True
    obtain d cb where d: "now_day env ca = (d, cb)" by fastforce
    let ?h = "?g\<lparr>m_engineInfo := i\<lparr>CurrentId := PreallocValve i, DayStamp := d\<rparr>\<rparr>"
    have v: "reallocValve env ?h cb = (LCT_SUCCESS, g1, c1)"
      using assms r d True by (simp add: engine_init_def)
    have "persisted g1 c1" using reallocValve_persisted [OF v, of "idx cb"] now_day_at [OF d] by simp
    moreover have "DayStamp (m_engineInfo g1) = day (idx cb) \<and> m_seedId g1 = s
        \<and> m_seedType g1 = SEED_TYPE_DAY_SWITCH"
      using v now_day_at [OF d]
      by (auto simp: reallocValve_def Let_def new_day_switch_engine_def split: if_splits prod.splits)
    ultimately show ?thesis using reallocValve_later [OF v] by (auto simp: issued_ok_def)
  next
    case False
    then have w: "daySwitch env (?g\<lparr>m_engineInfo := i\<rparr>) ca = (LCT_SUCCESS, g1, c1)"
      using assms r by (simp add: engine_init_def)
    have i: "i = new_engine_info" using query_fails [OF q False] .
    obtain d1 cb where cb: "now_day env ca = (d1, cb)" by fastforce
    obtain d2 cc where cc: "now_day env cb = (d2, cc)" by fastforce
    have ne: "d1 \<noteq> []" using now_day_at [OF cb] day_nonempty by auto
    let ?h = "?g\<lparr>m_engineInfo := i\<lparr>CurrentId := 0, DayStamp := d2, PreallocValve := PreallocSize i\<rparr>\<rparr>"
    have "persist env ?h cc = (LCT_SUCCESS, c1)" and g1: "g1 = ?h"
      using w cb cc ne by (auto simp: daySwitch_def Let_def i new_engine_info_def split: prod.splits)
    then have "persisted g1 c1" "idx cc \<le> idx c1"
      using persist_persisted [of ?h cc c1 "idx cc"] now_day_at [OF cc] persist_later by (auto simp: persist_def)
    then show ?thesis using now_day_at [OF cc]
      by (intro exI [of _ "idx cc"]) (auto simp: issued_ok_def g1 new_day_switch_engine_def)
  qed
qed

lemma restart_fresh:
  assumes first: "engine_init env (new_day_switch_engine s) c0 = (LCT_SUCCESS, g1, c1)"
      "engine_wf g1" "engine_room g1 m" "spawn_run env m g1 c1 = (ids1, True, g2, c2)"
    and restart: "ds_query env s SEED_TYPE_DAY_SWITCH new_engine_info c2 = (LCT_SUCCESS, i, c3)"
      "engine_init env (new_day_switch_engine s) c2 = (e, g3, c4)"
      "engine_wf g3" "engine_room g3 n" "spawn_run env n g3 c4 = (ids2, ok, g4, c5)"
  shows "distinct (ids1 @ ids2)"
proof -
  obtain k1 where k1: "k1 \<le> idx c1" "issued_ok day k1 g1 []" "persisted g1 c1" "m_seedId g1 = s"
    "m_seedType g1 = SEED_TYPE_DAY_SWITCH" using engine_init_ok [OF first(1)] by blast
  obtain k2 where k2: "k2 \<le> idx c2" "issued_ok day k2 g2 ids1" "below_valve day k2 g2 ids1"
    "persisted g2 c2" "same_setup g1 g2" "distinct ids1"
    using spawn_run_persisted [OF first(4,2,3) k1(1,2) _ k1(3)] by (auto simp: below_valve_def)
  have "row c2 s SEED_TYPE_DAY_SWITCH = Some (PreallocValve (m_engineInfo g2))"
    using k2(4,5) k1(4,5) by (simp add: persisted_def same_setup_def)
  then have v: "PreallocValve i = PreallocValve (m_engineInfo g2)" using query_reads [OF restart(1)] by simp
  obtain d cb where cb: "now_day env c3 = (d, cb)" by fastforce
  let ?h = "(new_day_switch_engine s)\<lparr>m_engineInfo := i\<lparr>CurrentId := PreallocValve i, DayStamp := d\<rparr>\<rparr>"
  have r: "reallocValve env ?h cb = (e, g3, c4)"
    using restart(1,2) cb by (simp add: engine_init_def readPersistance_def new_day_switch_engine_def)
  have g3: "DayStamp (m_engineInfo g3) = day (idx cb)"
    "CurrentId (m_engineInfo g3) = PreallocValve (m_engineInfo g2)"
    using r v now_day_at [OF cb] by (auto simp: reallocValve_def Let_def split: if_splits prod.splits)
  have le: "k2 \<le> idx cb" "idx cb \<le> idx c4"
    using k2(1) query_later [OF restart(1)] now_day_at [OF cb] reallocValve_later [OF r] by auto
  have "issued_ok day (idx cb) g3 ids1"
  proof (rule issued_okI)
    fix d' n' assume di: "(d', n') \<in> set ids1"
    then obtain j where j: "j \<le> k2" "d' = day j" using issued_okD [OF k2(2)] by blast
    have "j = idx cb \<longrightarrow> n' < CurrentId (m_engineInfo g3)"
    proof
      assume "j = idx cb"
      then have "d' = day k2" using j le(1) by simp
      then show "n' < CurrentId (m_engineInfo g3)" using di k2(3) g3(2) by (auto simp: below_valve_def)
    qed
    then show "\<exists>j \<le> idx cb. d' = day j \<and> (j = idx cb \<longrightarrow> n' < CurrentId (m_engineInfo g3))"
      using j le(1) by (intro exI [of _ j]) auto
  qed (rule g3(1))
  then show ?thesis using spawn_run_fresh [OF restart(5,3,4) le(2) _ k2(6)] by blast
qed

end

text \<open>
  Availability: with a data source whose saves succeed, a step no larger than the preallocated
  block, and the counter at most one step past the valve, every call of a run succeeds.
\<close>

definition engine_tight :: "sid_engine \<Rightarrow> bool" where
  "engine_tight g \<longleftrightarrow> engine_wf g \<and> Step (m_engineInfo g) \<le> PreallocSize (m_engineInfo g)
     \<and> CurrentId (m_engineInfo g) < PreallocValve (m_engineInfo g) + Step (m_engineInfo g)"

lemma spawnId_succeeds:
  assumes p: "\<And>s t info c. fst (ds_persist env s t info c) = LCT_SUCCESS"
    and tight: "engine_tight g" and room: "engine_room g (Suc n)" and s: "spawnId env g c = (e, r, g1, c1)"
  shows "e = LCT_SUCCESS \<and> r \<noteq> None \<and> engine_tight g1 \<and> engine_room g1 n"
proof -
  obtain e0 g0 c0 where d: "day_checked env g c = (e0, g0, c0)" by (cases "day_checked env g c") auto
  have "e0 = LCT_SUCCESS \<and> engine_tight g0 \<and> engine_room g0 (Suc n)"
    using d p tight room
    by (auto simp: day_checked_def daySwitch_def Let_def persist_def engine_tight_def engine_wf_def engine_room_def
          split: prod.splits if_splits) (metis fst_conv)+
  then have g0: "e0 = LCT_SUCCESS" "engine_tight g0" "engine_room g0 (Suc n)" "engine_wf g0"
    by (simp_all add: engine_tight_def)
  have t: "take_number env g0 c0 = (e, r, g1, c1)" using s d g0(1) by (simp add: spawnId_parts)
  note f = take_number_facts [OF t g0(4,3)] and fe = fetched_facts [OF g0(4,3)]
  have "e = LCT_SUCCESS \<and> r \<noteq> None"
  proof (cases "CurrentId (m_engineInfo g0) < PreallocValve (m_engineInfo g0)")
    case True
    then show ?thesis using t by (auto simp: take_number_def)
  next
    case False
    obtain er gr cr where q: "reallocValve env (fetched g0) c0 = (er, gr, cr)"
      by (cases "reallocValve env (fetched g0) c0") auto
    have v: "to_i64 (PreallocValve (m_engineInfo (fetched g0)) + PreallocSize (m_engineInfo (fetched g0)))
        = PreallocValve (m_engineInfo g0) + PreallocSize (m_engineInfo g0)"
      using engine_room_add(2) [OF g0(4,3)] by (simp add: fetched_def)
    have ge: "PreallocValve (m_engineInfo (fetched g0)) \<le> CurrentId (m_engineInfo (fetched g0))"
      using False fe(3,4) g0(4) by (simp add: engine_wf_def)
    have "er = LCT_SUCCESS" using q p ge
      by (auto simp: reallocValve_def Let_def persist_def split: prod.splits) (metis fst_conv)
    moreover have "PreallocValve (m_engineInfo gr) = PreallocValve (m_engineInfo g0) + PreallocSize (m_engineInfo g0)"
      using q ge v by (auto simp: reallocValve_def Let_def split: prod.splits)
    moreover have "CurrentId (m_engineInfo g0) < PreallocValve (m_engineInfo g0) + PreallocSize (m_engineInfo g0)"
      using g0(2) by (simp add: engine_tight_def)
    ultimately show ?thesis using t q False by (auto simp: take_number_def)
  qed
  moreover have "engine_tight g1" using f(1,3,4,7) calculation by (auto simp: engine_tight_def same_setup_def g0(2) engine_wf_def)
      (use g0(2) in \<open>auto simp: engine_tight_def\<close>)
  moreover have "engine_room g1 n" by (rule room_after [OF g0(4,3) f(1) _ f(6)]) (simp add: f(4))
  ultimately show ?thesis by blast
qed

end
