(* ===== verification/Id_Engine_Threads.thy ===== *)
theory Id_Engine_Threads
  imports Id_Engine_Correct
begin

text \<open>
  The id engine under the threads of the RPC server (\<open>id_day_switch_engine.h/.cpp\<close>): every
  thread runs \<open>spawnId\<close>, one shared access per step.  \<open>daySwitch\<close> and \<open>reallocValve\<close> hold
  \<open>m_mutex\<close>; the day test, the \<open>fetch_add\<close>, the two valve tests and the reading of
  \<open>DayStamp\<close> do not.  (The unlocked reads of \<open>DayStamp\<close> and \<open>PreallocValve\<close> race with the
  writes under the lock; here a read sees the old or the new value.)
\<close>

section \<open>Program counters and steps\<close>

datatype sid_pc =
  P_idle
| P_switch_lock | P_switch_test | P_switch_zero | P_switch_stamp | P_switch_valve | P_switch_persist
| P_switch_unlock lct_err
| P_fetch
| P_test int
| P_realloc_lock int | P_realloc_test int | P_realloc_add int | P_realloc_persist int
| P_realloc_unlock int lct_err
| P_retest int
| P_date int
| P_number string int
| P_done lct_err "(string \<times> int) option"

record 'c sid_sys =
  ss_engine :: sid_engine
  ss_store :: 'c
  ss_lock :: "nat option"
  ss_pc :: "nat \<Rightarrow> sid_pc"
  ss_out :: "(string \<times> int) list"

definition info :: "'c sid_sys \<Rightarrow> engine_info" where
  "info S = m_engineInfo (ss_engine S)"

definition goto :: "nat \<Rightarrow> sid_pc \<Rightarrow> 'c sid_sys \<Rightarrow> 'c sid_sys" where
  "goto t p S = S\<lparr>ss_pc := (ss_pc S)(t := p)\<rparr>"

definition set_info :: "engine_info \<Rightarrow> 'c sid_sys \<Rightarrow> 'c sid_sys" where
  "set_info i S = S\<lparr>ss_engine := (ss_engine S)\<lparr>m_engineInfo := i\<rparr>\<rparr>"

text \<open>One step of thread \<open>t\<close>; \<open>None\<close> where it waits for the mutex.\<close>

definition sid_thread_step :: "'c id_env \<Rightarrow> nat \<Rightarrow> 'c sid_sys \<Rightarrow> 'c sid_sys option" where
  "sid_thread_step env t S = (case ss_pc S t of
     P_idle \<Rightarrow> (case now_day env (ss_store S) of (d, c) \<Rightarrow>
       Some (goto t (if d \<noteq> DayStamp (info S) then P_switch_lock else P_fetch) (S\<lparr>ss_store := c\<rparr>)))
   | P_switch_lock \<Rightarrow>
       (if ss_lock S = None then Some (goto t P_switch_test (S\<lparr>ss_lock := Some t\<rparr>)) else None)
   | P_switch_test \<Rightarrow> (case now_day env (ss_store S) of (d, c) \<Rightarrow>
       Some (goto t (if d \<noteq> DayStamp (info S) then P_switch_zero else P_switch_unlock LCT_SUCCESS)
         (S\<lparr>ss_store := c\<rparr>)))
   | P_switch_zero \<Rightarrow> Some (goto t P_switch_stamp (set_info ((info S)\<lparr>CurrentId := 0\<rparr>) S))
   | P_switch_stamp \<Rightarrow> (case now_day env (ss_store S) of (d, c) \<Rightarrow>
       Some (goto t P_switch_valve (set_info ((info S)\<lparr>DayStamp := d\<rparr>) (S\<lparr>ss_store := c\<rparr>))))
   | P_switch_valve \<Rightarrow>
       Some (goto t P_switch_persist (set_info ((info S)\<lparr>PreallocValve := PreallocSize (info S)\<rparr>) S))
   | P_switch_persist \<Rightarrow> (case persist env (ss_engine S) (ss_store S) of (e, c) \<Rightarrow>
       Some (goto t (P_switch_unlock e) (S\<lparr>ss_store := c\<rparr>)))
   | P_switch_unlock e \<Rightarrow>
       Some (goto t (if LCT_SUCCESS \<noteq> e then P_done e None else P_fetch) (S\<lparr>ss_lock := None\<rparr>))
   | P_fetch \<Rightarrow> Some (goto t (P_test (CurrentId (info S)))
       (set_info ((info S)\<lparr>CurrentId := to_i64 (CurrentId (info S) + Step (info S))\<rparr>) S))
   | P_test n \<Rightarrow> Some (goto t (if n < PreallocValve (info S) then P_date n else P_realloc_lock n) S)
   | P_realloc_lock n \<Rightarrow>
       (if ss_lock S = None then Some (goto t (P_realloc_test n) (S\<lparr>ss_lock := Some t\<rparr>)) else None)
   | P_realloc_test n \<Rightarrow> Some (goto t (if CurrentId (info S) \<ge> PreallocValve (info S) then P_realloc_add n
       else P_realloc_unlock n LCT_SUCCESS) S)
   | P_realloc_add n \<Rightarrow> Some (goto t (P_realloc_persist n)
       (set_info ((info S)\<lparr>PreallocValve := to_i64 (PreallocValve (info S) + PreallocSize (info S))\<rparr>) S))
   | P_realloc_persist n \<Rightarrow> (case persist env (ss_engine S) (ss_store S) of (e, c) \<Rightarrow>
       Some (goto t (P_realloc_unlock n e) (S\<lparr>ss_store := c\<rparr>)))
   | P_realloc_unlock n e \<Rightarrow>
       Some (goto t (if LCT_SUCCESS \<noteq> e then P_done e None else P_retest n) (S\<lparr>ss_lock := None\<rparr>))
   | P_retest n \<Rightarrow> Some (goto t (if n < PreallocValve (info S) then P_date n else P_done LCT_FAIL None) S)
   | P_date n \<Rightarrow> Some (goto t (P_number (DayStamp (info S)) n) S)
   | P_number d n \<Rightarrow> Some (goto t (P_done LCT_SUCCESS (Some (d, n))) (S\<lparr>ss_out := ss_out S @ [(d, n)]\<rparr>))
   | P_done e r \<Rightarrow> Some (goto t P_idle S))"

text \<open>Runs of any number of threads in any order, and the run a schedule gives.\<close>

inductive sid_run :: "'c id_env \<Rightarrow> 'c sid_sys \<Rightarrow> nat \<Rightarrow> 'c sid_sys \<Rightarrow> bool" for env S0 where
  start: "sid_run env S0 0 S0"
| step: "sid_run env S0 n S \<Longrightarrow> sid_thread_step env t S = Some S' \<Longrightarrow> sid_run env S0 (Suc n) S'"

fun sid_schedule :: "'c id_env \<Rightarrow> nat list \<Rightarrow> 'c sid_sys \<Rightarrow> 'c sid_sys option" where
  "sid_schedule env [] S = Some S"
| "sid_schedule env (t # ts) S = (case sid_thread_step env t S of None \<Rightarrow> None | Some S1 \<Rightarrow> sid_schedule env ts S1)"

lemma goto_simps [simp]:
  "ss_engine (goto t p S) = ss_engine S" "ss_store (goto t p S) = ss_store S" "ss_lock (goto t p S) = ss_lock S"
  "ss_out (goto t p S) = ss_out S" "ss_pc (goto t p S) = (ss_pc S)(t := p)" "info (goto t p S) = info S"
  "info (set_info i S) = i" "ss_pc (set_info i S) = ss_pc S" "ss_out (set_info i S) = ss_out S"
  "ss_lock (set_info i S) = ss_lock S" "ss_store (set_info i S) = ss_store S"
  "info (S\<lparr>ss_store := c\<rparr>) = info S" "info (S\<lparr>ss_lock := l\<rparr>) = info S" "info (S\<lparr>ss_out := x\<rparr>) = info S"
  by (simp_all add: goto_def set_info_def info_def)

section \<open>Mutual exclusion\<close>

fun in_lock :: "sid_pc \<Rightarrow> bool" where
  "in_lock P_switch_test = True"
| "in_lock P_switch_zero = True"
| "in_lock P_switch_stamp = True"
| "in_lock P_switch_valve = True"
| "in_lock P_switch_persist = True"
| "in_lock (P_switch_unlock e) = True"
| "in_lock (P_realloc_test n) = True"
| "in_lock (P_realloc_add n) = True"
| "in_lock (P_realloc_persist n) = True"
| "in_lock (P_realloc_unlock n e) = True"
| "in_lock _ = False"

definition lock_inv :: "'c sid_sys \<Rightarrow> bool" where
  "lock_inv S \<longleftrightarrow> (\<forall>t. in_lock (ss_pc S t) \<longleftrightarrow> ss_lock S = Some t)"

lemma lock_inv_step:
  assumes "lock_inv S" "sid_thread_step env t S = Some S'"
  shows "lock_inv S'"
proof -
  have t: "in_lock (ss_pc S t) \<longleftrightarrow> ss_lock S = Some t" using assms(1) by (simp add: lock_inv_def)
  have "ss_pc S' = (ss_pc S)(t := ss_pc S' t) \<and> (in_lock (ss_pc S' t) \<longleftrightarrow> ss_lock S' = Some t)
     \<and> (ss_lock S' = ss_lock S \<or> ss_lock S = None \<and> ss_lock S' = Some t \<or> ss_lock S = Some t \<and> ss_lock S' = None)"
    using assms(2) t by (cases "ss_pc S t") (auto simp: sid_thread_step_def split: prod.splits if_splits)
  then have s: "ss_pc S' = (ss_pc S)(t := ss_pc S' t)" "in_lock (ss_pc S' t) \<longleftrightarrow> ss_lock S' = Some t"
    "ss_lock S' = ss_lock S \<or> ss_lock S = None \<and> ss_lock S' = Some t \<or> ss_lock S = Some t \<and> ss_lock S' = None"
    by blast+
  have "in_lock (ss_pc S' u) \<longleftrightarrow> ss_lock S' = Some u" for u
  proof (cases "u = t")
    case True
    then show ?thesis using s(2) by simp
  next
    case False
    then have "ss_pc S' u = ss_pc S u" using s(1) by (metis fun_upd_other)
    moreover have "in_lock (ss_pc S u) \<longleftrightarrow> ss_lock S = Some u" using assms(1) by (simp add: lock_inv_def)
    ultimately show ?thesis using s(3) False by auto
  qed
  then show ?thesis by (simp add: lock_inv_def)
qed

definition idle_start :: "'c sid_sys \<Rightarrow> bool" where
  "idle_start S \<longleftrightarrow> (\<forall>t. ss_pc S t = P_idle) \<and> ss_lock S = None \<and> ss_out S = []"

lemma sid_run_lock_inv: "sid_run env S0 n S \<Longrightarrow> lock_inv S0 \<Longrightarrow> lock_inv S"
  by (induction rule: sid_run.induct) (auto intro: lock_inv_step)

section \<open>Uniqueness within a day\<close>

fun holds :: "sid_pc \<Rightarrow> int option" where
  "holds (P_test n) = Some n"
| "holds (P_realloc_lock n) = Some n"
| "holds (P_realloc_test n) = Some n"
| "holds (P_realloc_add n) = Some n"
| "holds (P_realloc_persist n) = Some n"
| "holds (P_realloc_unlock n e) = Some n"
| "holds (P_retest n) = Some n"
| "holds (P_date n) = Some n"
| "holds (P_number d n) = Some n"
| "holds _ = None"

fun switching :: "sid_pc \<Rightarrow> bool" where
  "switching P_switch_lock = True"
| "switching P_switch_test = True"
| "switching P_switch_zero = True"
| "switching P_switch_stamp = True"
| "switching P_switch_valve = True"
| "switching P_switch_persist = True"
| "switching (P_switch_unlock e) = True"
| "switching _ = False"

definition same_day :: "'c id_env \<Rightarrow> string \<Rightarrow> bool" where
  "same_day env today \<longleftrightarrow> (\<forall>c. fst (now_day env c) = today)"

definition unique_inv :: "string \<Rightarrow> int \<Rightarrow> 'c sid_sys \<Rightarrow> bool" where
  "unique_inv today s S \<longleftrightarrow> DayStamp (info S) = today \<and> Step (info S) = s
     \<and> (\<forall>t. \<not> switching (ss_pc S t))
     \<and> (\<forall>t n. holds (ss_pc S t) = Some n \<longrightarrow> n < CurrentId (info S) \<and> (today, n) \<notin> set (ss_out S))
     \<and> (\<forall>t u n. holds (ss_pc S t) = Some n \<longrightarrow> holds (ss_pc S u) = Some n \<longrightarrow> t = u)
     \<and> (\<forall>t d n. ss_pc S t = P_number d n \<longrightarrow> d = today)
     \<and> (\<forall>(d, n) \<in> set (ss_out S). d = today \<and> n < CurrentId (info S))
     \<and> distinct (ss_out S)"

lemma unique_invD:
  assumes "unique_inv today s S"
  shows "DayStamp (info S) = today" "Step (info S) = s" "\<not> switching (ss_pc S t)"
    "holds (ss_pc S t) = Some n \<Longrightarrow> n < CurrentId (info S)"
    "holds (ss_pc S t) = Some n \<Longrightarrow> (today, n) \<notin> set (ss_out S)"
    "holds (ss_pc S t) = Some n \<Longrightarrow> holds (ss_pc S u) = Some n \<Longrightarrow> t = u"
    "ss_pc S t = P_number d n \<Longrightarrow> d = today"
    "(d, n) \<in> set (ss_out S) \<Longrightarrow> d = today \<and> n < CurrentId (info S)"
    "distinct (ss_out S)"
  using assms unfolding unique_inv_def by blast+

text \<open>A step that keeps day, counter and output and what the thread holds.\<close>

lemma unique_inv_quiet:
  assumes inv: "unique_inv today s S" and p: "\<not> switching p" "holds p = holds (ss_pc S t) \<or> holds p = None"
    "\<And>d n. p = P_number d n \<Longrightarrow> d = today"
    and f: "ss_pc S' = (ss_pc S)(t := p)" "ss_out S' = ss_out S" "DayStamp (info S') = DayStamp (info S)"
    "Step (info S') = Step (info S)" "CurrentId (info S') = CurrentId (info S)"
  shows "unique_inv today s S'"
proof -
  note i = unique_invD [OF inv]
  have h: "holds (ss_pc S u) = Some n" if "holds (ss_pc S' u) = Some n" for u n
    using that p(2) by (auto simp: f split: if_splits)
  show ?thesis unfolding unique_inv_def
  proof (intro conjI allI impI)
    show "distinct (ss_out S')" using i(9) by (simp add: f)
    show "\<forall>(d, n) \<in> set (ss_out S'). d = today \<and> n < CurrentId (info S')" using i(8) by (auto simp: f)
    fix u v n assume "holds (ss_pc S' u) = Some n" "holds (ss_pc S' v) = Some n"
    then show "u = v" using h i(6) by blast
  next
    fix u n assume "holds (ss_pc S' u) = Some n"
    then show "n < CurrentId (info S')" "(today, n) \<notin> set (ss_out S')" using h [of u n] i(4,5) [of u n] by (simp_all add: f)
  qed (use i(1,2,3,7) p(1,3) in \<open>auto simp: f split: if_splits\<close>)
qed

lemma unique_inv_fetch:
  assumes inv: "unique_inv today s S" and s: "0 < s"
    and f: "CurrentId (info S') = CurrentId (info S) + s"
    "ss_pc S' = (ss_pc S)(t := P_test (CurrentId (info S)))" "ss_out S' = ss_out S"
    "DayStamp (info S') = DayStamp (info S)" "Step (info S') = Step (info S)"
  shows "unique_inv today s S'"
proof -
  note i = unique_invD [OF inv]
  have h: "if u = t then n = CurrentId (info S) else holds (ss_pc S u) = Some n"
    if "holds (ss_pc S' u) = Some n" for u n using that by (auto simp: f split: if_splits)
  show ?thesis unfolding unique_inv_def
  proof (intro conjI allI impI)
    show "distinct (ss_out S')" using i(9) by (simp add: f)
    show "\<forall>(d, n) \<in> set (ss_out S'). d = today \<and> n < CurrentId (info S')" using i(8) s by (fastforce simp: f)
    fix u v n assume "holds (ss_pc S' u) = Some n" "holds (ss_pc S' v) = Some n"
    then show "u = v" using h [of u n] h [of v n] i(4) [of _ n] i(6) [of u n v] by (auto split: if_splits)
  next
    fix u n assume a: "holds (ss_pc S' u) = Some n"
    show "n < CurrentId (info S')" using h [OF a] i(4) [of u n] s by (auto simp: f split: if_splits)
    show "(today, n) \<notin> set (ss_out S')" using h [OF a] i(5) [of u n] i(8) [of today n] by (auto simp: f split: if_splits)
  qed (use i(1,2,3,7) in \<open>auto simp: f split: if_splits\<close>)
qed

lemma unique_inv_publish:
  assumes inv: "unique_inv today s S" and pc: "ss_pc S t = P_number d n"
    and f: "ss_pc S' = (ss_pc S)(t := P_done LCT_SUCCESS (Some (d, n)))" "ss_out S' = ss_out S @ [(d, n)]"
      "info S' = info S"
  shows "unique_inv today s S'"
proof -
  note i = unique_invD [OF inv]
  have d: "d = today" and n: "holds (ss_pc S t) = Some n" using i(7) [OF pc] pc by auto
  have h: "u \<noteq> t \<and> holds (ss_pc S u) = Some m" if "holds (ss_pc S' u) = Some m" for u m
    using that by (auto simp: f split: if_splits)
  show ?thesis unfolding unique_inv_def
  proof (intro conjI allI impI)
    show "distinct (ss_out S')" using i(9) i(5) [OF n] by (simp add: f d)
    show "\<forall>(d, n) \<in> set (ss_out S'). d = today \<and> n < CurrentId (info S')"
      using i(8) i(4) [OF n] by (auto simp: f d)
    fix u v m assume "holds (ss_pc S' u) = Some m" "holds (ss_pc S' v) = Some m"
    then show "u = v" using h i(6) by blast
  next
    fix u m assume a: "holds (ss_pc S' u) = Some m"
    show "m < CurrentId (info S')" using h [OF a] i(4) [of u m] by (simp add: f)
    have "m \<noteq> n" using h [OF a] i(6) [OF n, of u] by auto
    then show "(today, m) \<notin> set (ss_out S')" using h [OF a] i(5) [of u m] by (simp add: f)
  qed (use i(1,2,3,7) in \<open>auto simp: f split: if_splits\<close>)
qed

lemma quiet_step:
  assumes "sid_thread_step env t S = Some S'" "\<not> switching (ss_pc S t)"
    "ss_pc S t \<noteq> P_idle" "ss_pc S t \<noteq> P_fetch" "\<And>d n. ss_pc S t \<noteq> P_number d n" "\<And>n. ss_pc S t \<noteq> P_date n"
  shows "\<exists>p. ss_pc S' = (ss_pc S)(t := p) \<and> \<not> switching p \<and> (holds p = holds (ss_pc S t) \<or> holds p = None)
     \<and> (\<forall>d n. p \<noteq> P_number d n) \<and> ss_out S' = ss_out S \<and> DayStamp (info S') = DayStamp (info S)
     \<and> Step (info S') = Step (info S) \<and> CurrentId (info S') = CurrentId (info S)"
proof -
  have "ss_pc S' = (ss_pc S)(t := ss_pc S' t) \<and> \<not> switching (ss_pc S' t)
     \<and> (holds (ss_pc S' t) = holds (ss_pc S t) \<or> holds (ss_pc S' t) = None)
     \<and> (\<forall>d n. ss_pc S' t \<noteq> P_number d n) \<and> ss_out S' = ss_out S \<and> DayStamp (info S') = DayStamp (info S)
     \<and> Step (info S') = Step (info S) \<and> CurrentId (info S') = CurrentId (info S)"
    using assms by (cases "ss_pc S t") (auto simp: sid_thread_step_def split: prod.splits if_splits)
  then show ?thesis by blast
qed

lemma unique_inv_step:
  assumes inv: "unique_inv today s S" and s: "0 < s" and day: "same_day env today"
    and room: "0 \<le> CurrentId (info S)" "CurrentId (info S) + s < 2 ^ 63"
    and step: "sid_thread_step env t S = Some S'"
  shows "unique_inv today s S' \<and> CurrentId (info S) \<le> CurrentId (info S') \<and> CurrentId (info S') \<le> CurrentId (info S) + s"
proof -
  note i = unique_invD [OF inv]
  consider (idle) "ss_pc S t = P_idle" | (fetch) "ss_pc S t = P_fetch" | (num) d n where "ss_pc S t = P_number d n"
    | (date) n where "ss_pc S t = P_date n"
    | (quiet) "ss_pc S t \<noteq> P_idle" "ss_pc S t \<noteq> P_fetch" "\<And>d n. ss_pc S t \<noteq> P_number d n" "\<And>n. ss_pc S t \<noteq> P_date n"
    by blast
  then show ?thesis
  proof cases
    case idle
    have "fst (now_day env (ss_store S)) = DayStamp (info S)" using day i(1) by (simp add: same_day_def)
    then show ?thesis using unique_inv_quiet [OF inv, of P_fetch t S'] step s idle
      by (auto simp: sid_thread_step_def split: prod.splits)
  next
    case fetch
    have "to_i64 (CurrentId (info S) + s) = CurrentId (info S) + s" using room s by (intro to_i64_nonneg) auto
    then show ?thesis using unique_inv_fetch [OF inv s, of S' t] step s fetch i(2) by (auto simp: sid_thread_step_def)
  next
    case num
    then show ?thesis using unique_inv_publish [OF inv num, of S'] step s by (auto simp: sid_thread_step_def)
  next
    case date
    then show ?thesis using unique_inv_quiet [OF inv, of "P_number today n" t S'] step s i(1)
      by (auto simp: sid_thread_step_def)
  next
    case quiet
    then obtain p where p: "ss_pc S' = (ss_pc S)(t := p)" "\<not> switching p" "holds p = holds (ss_pc S t) \<or> holds p = None"
      "\<forall>d n. p \<noteq> P_number d n" "ss_out S' = ss_out S" "DayStamp (info S') = DayStamp (info S)"
      "Step (info S') = Step (info S)" "CurrentId (info S') = CurrentId (info S)"
      using quiet_step [OF step i(3)] by blast
    then show ?thesis using unique_inv_quiet [OF inv p(2,3) _ p(1,5-8)] s by auto
  qed
qed

lemma sid_run_unique_inv:
  assumes "sid_run env S0 n S" "idle_start S0" "same_day env today" "DayStamp (info S0) = today"
    "0 < Step (info S0)" "0 \<le> CurrentId (info S0)" "CurrentId (info S0) + int n * Step (info S0) < 2 ^ 63"
  shows "unique_inv today (Step (info S0)) S \<and> CurrentId (info S0) \<le> CurrentId (info S)
     \<and> CurrentId (info S) \<le> CurrentId (info S0) + int n * Step (info S0)"
  using assms
proof (induction rule: sid_run.induct)
  case start
  then show ?case by (auto simp: unique_inv_def idle_start_def)
next
  case (step n S t S')
  let ?s = "Step (info S0)"
  have n: "CurrentId (info S0) + int n * ?s + ?s < 2 ^ 63"
    using step.prems(6) by (simp add: algebra_simps)
  then have IH: "unique_inv today ?s S" "CurrentId (info S0) \<le> CurrentId (info S)"
    "CurrentId (info S) \<le> CurrentId (info S0) + int n * ?s"
    using step.IH step.prems by auto
  show ?case
    using unique_inv_step [OF IH(1) step.prems(4,2) _ _ step.hyps(2)] IH step.prems(4,5) n
    by (auto simp: algebra_simps)
qed

end
