(* ===== verification/Cass_Conn_Pool.thy ===== *)
theory Cass_Conn_Pool
  imports Std_String Error_Code
begin

text \<open>
  The Cassandra driver as the wrapper sees it, and the pool of sessions
  (\<open>wrapper/cassandra/detail/lct_cass_common_define.h\<close>, \<open>lct_cass_conn_pool.h/.inl/.cpp\<close>).

  The DataStax driver is not part of the repository: a value of \<open>cass_driver\<close> stands for it,
  one field per driver call the wrapper makes, \<open>'w\<close> being everything behind it (cluster,
  network, clock).  \<open>'s\<close> is a session, \<open>'f\<close> a future, \<open>'r\<close> a row, \<open>'p\<close> a paging state.  Here
  sessions and clusters are values; \<open>Cass_Objects\<close> has the pointers, their owners and their release.
\<close>

section \<open>The driver\<close>

text \<open>The error codes the wrapper tells apart; all others are \<open>CASS_ERROR_OTHER\<close>.\<close>

datatype cass_error =
  CASS_OK | CASS_ERROR_SERVER_ALREADY_EXISTS | CASS_ERROR_SERVER_INVALID_QUERY
| CASS_ERROR_LIB_NO_HOSTS_AVAILABLE | CASS_ERROR_OTHER int

record 'p cass_statement =
  st_cql :: string
  st_page_size :: "int option"
  st_paging_state :: "'p option"

record ('r, 'p) cass_result =
  res_rows :: "'r list"
  res_more_pages :: bool
  res_paging_state :: 'p

record cass_cluster =
  cl_num_threads_io :: int
  cl_queue_size_io :: int
  cl_pending_low :: int
  cl_pending_high :: int
  cl_core_connections :: int
  cl_max_connections :: int
  cl_requests_per_flush :: int
  cl_contact_points :: string
  cl_port :: int

record ('s, 'f, 'r, 'p, 'w) cass_driver =
  drv_connect :: "cass_cluster \<Rightarrow> 'w \<Rightarrow> cass_error \<times> 's \<times> 'w"
  drv_execute :: "'s \<Rightarrow> 'p cass_statement \<Rightarrow> 'w \<Rightarrow> cass_error \<times> ('r, 'p) cass_result \<times> 'w"
  drv_execute_async :: "'s \<Rightarrow> 'p cass_statement \<Rightarrow> 'w \<Rightarrow> 'f \<times> 'w"
  drv_wait_timed :: "'f \<Rightarrow> 'w \<Rightarrow> bool \<times> 'w"
  drv_future_result :: "'f \<Rightarrow> 'w \<Rightarrow> cass_error \<times> ('r, 'p) cass_result"
  drv_batch_add :: "string list \<Rightarrow> string \<Rightarrow> cass_error"
  drv_execute_batch :: "'s \<Rightarrow> string list \<Rightarrow> 'w \<Rightarrow> cass_error \<times> 'w"
  drv_set_paging_size :: "int \<Rightarrow> cass_error"
  drv_set_paging_state :: "'p \<Rightarrow> cass_error"
  drv_now_millis :: "'w \<Rightarrow> int \<times> 'w"

text \<open>\<open>cass_statement_new(cql.c_str(), 0)\<close>: the text up to the first NUL.\<close>

definition cass_statement_new :: "string \<Rightarrow> 'p cass_statement" where
  "cass_statement_new cql = \<lparr>st_cql = c_str cql, st_page_size = None, st_paging_state = None\<rparr>"

section \<open>The pool\<close>

record 's conn_pool =
  m_dbPort :: int
  m_dbHost :: string
  m_sessionMap :: "string \<Rightarrow> 's option"
  m_clusterMap :: "string \<Rightarrow> cass_cluster option"

definition new_conn_pool :: "int \<Rightarrow> string \<Rightarrow> 's conn_pool" where
  "new_conn_pool dbPort dbHost =
     \<lparr>m_dbPort = dbPort, m_dbHost = dbHost, m_sessionMap = Map.empty, m_clusterMap = Map.empty\<rparr>"

definition LctCreateCluster :: cass_cluster where
  "LctCreateCluster =
     \<lparr>cl_num_threads_io = 4, cl_queue_size_io = 50000, cl_pending_low = 30000, cl_pending_high = 50000,
      cl_core_connections = 2, cl_max_connections = 3, cl_requests_per_flush = 30000,
      cl_contact_points = [], cl_port = 9042\<rparr>"

definition retrieveSession :: "string \<Rightarrow> 's conn_pool \<Rightarrow> lct_err \<times> 's option" where
  "retrieveSession keyspace p =
     (case m_sessionMap p keyspace of
        None \<Rightarrow> (LCT_NOT_SUCH_RECORD, None)
      | Some s \<Rightarrow> (LCT_SUCCESS, Some s))"

definition pool_release :: "string \<Rightarrow> 's conn_pool \<Rightarrow> lct_err \<times> 's conn_pool" where
  "pool_release keyspace p =
     (LCT_SUCCESS, p\<lparr>m_sessionMap := (m_sessionMap p)(keyspace := None),
                     m_clusterMap := (m_clusterMap p)(keyspace := None)\<rparr>)"

definition appendSession :: "string \<Rightarrow> 's \<Rightarrow> 's conn_pool \<Rightarrow> lct_err \<times> 's conn_pool" where
  "appendSession keyspace s p =
     (LCT_SUCCESS, p\<lparr>m_sessionMap := (m_sessionMap p)(keyspace \<mapsto> s)\<rparr>)"

definition appendCluster :: "string \<Rightarrow> cass_cluster \<Rightarrow> 's conn_pool \<Rightarrow> lct_err \<times> 's conn_pool" where
  "appendCluster keyspace cl p =
     (LCT_SUCCESS, p\<lparr>m_clusterMap := (m_clusterMap p)(keyspace \<mapsto> cl)\<rparr>)"

definition pool_connect ::
    "('s, 'f, 'r, 'p, 'w) cass_driver \<Rightarrow> string \<Rightarrow> 's conn_pool \<Rightarrow> 'w \<Rightarrow> lct_err \<times> 's conn_pool \<times> 'w" where
  "pool_connect drv keyspace p w =
     (let cluster = LctCreateCluster\<lparr>cl_contact_points := c_str (m_dbHost p), cl_port := m_dbPort p\<rparr>
      in case drv_connect drv cluster w of (csErr, s, w1) \<Rightarrow>
        if CASS_OK \<noteq> csErr then (LCT_FAIL, p, w1)
        else (case appendSession keyspace s p of (errCode, p1) \<Rightarrow>
          if LCT_SUCCESS \<noteq> errCode then (errCode, p1, w1)
          else (case appendCluster keyspace cluster p1 of (errCode2, p2) \<Rightarrow> (errCode2, p2, w1))))"

definition pool_session ::
    "('s, 'f, 'r, 'p, 'w) cass_driver \<Rightarrow> string \<Rightarrow> 's conn_pool \<Rightarrow> 'w \<Rightarrow> lct_err \<times> 's option \<times> 's conn_pool \<times> 'w" where
  "pool_session drv keyspace p w =
     (case retrieveSession keyspace p of (errCode, s) \<Rightarrow>
        if LCT_SUCCESS \<noteq> errCode then
          (case pool_connect drv keyspace p w of (errCode2, p1, w1) \<Rightarrow>
             if LCT_SUCCESS \<noteq> errCode2 then (errCode2, None, p1, w1)
             else (case retrieveSession keyspace p1 of (errCode3, s1) \<Rightarrow> (errCode3, s1, p1, w1)))
        else (errCode, s, p, w))"

definition pool_close :: "'s conn_pool \<Rightarrow> lct_err \<times> 's conn_pool" where
  "pool_close p = (LCT_SUCCESS, p\<lparr>m_sessionMap := Map.empty, m_clusterMap := Map.empty\<rparr>)"

section \<open>What the pool promises\<close>

definition conn_pool_inv :: "'s conn_pool \<Rightarrow> bool" where
  "conn_pool_inv p \<longleftrightarrow> dom (m_sessionMap p) = dom (m_clusterMap p)
     \<and> (\<forall>cl \<in> ran (m_clusterMap p). cl_contact_points cl = c_str (m_dbHost p) \<and> cl_port cl = m_dbPort p)"

lemma pool_session_cases:
  "pool_session drv keyspace p w =
     (case m_sessionMap p keyspace of
        Some s \<Rightarrow> (LCT_SUCCESS, Some s, p, w)
      | None \<Rightarrow>
          (let cluster = LctCreateCluster\<lparr>cl_contact_points := c_str (m_dbHost p), cl_port := m_dbPort p\<rparr>
           in case drv_connect drv cluster w of (csErr, s, w1) \<Rightarrow>
             if csErr = CASS_OK
             then (LCT_SUCCESS, Some s, p\<lparr>m_sessionMap := (m_sessionMap p)(keyspace \<mapsto> s),
                      m_clusterMap := (m_clusterMap p)(keyspace \<mapsto> cluster)\<rparr>, w1)
             else (LCT_FAIL, None, p, w1)))"
  by (auto simp: pool_session_def retrieveSession_def pool_connect_def appendSession_def
        appendCluster_def Let_def split: option.splits prod.splits)

lemma pool_session_inv:
  assumes "conn_pool_inv p" "pool_session drv keyspace p w = (errCode, s, p', w')"
  shows "conn_pool_inv p'"
proof (cases "m_sessionMap p keyspace")
  case (Some x)
  then show ?thesis using assms by (simp add: pool_session_cases)
next
  case None
  let ?cl = "LctCreateCluster\<lparr>cl_contact_points := c_str (m_dbHost p), cl_port := m_dbPort p\<rparr>"
  have "ran ((m_clusterMap p)(keyspace \<mapsto> ?cl)) \<subseteq> insert ?cl (ran (m_clusterMap p))"
    by (auto simp: ran_def split: if_splits)
  then have "conn_pool_inv (p\<lparr>m_sessionMap := (m_sessionMap p)(keyspace \<mapsto> x),
      m_clusterMap := (m_clusterMap p)(keyspace \<mapsto> ?cl)\<rparr>)" for x
    using assms(1) by (auto simp: conn_pool_inv_def)
  then show ?thesis using assms None by (auto simp: pool_session_cases Let_def split: prod.splits if_splits)
qed

text \<open>
  \<open>session\<close> either hands out a session that the pool now holds for the keyspace, so that the
  next call for it returns the same session without connecting again, or it fails and leaves
  the pool as it was; sessions of other keyspaces are untouched and the two maps stay in step.
\<close>

theorem session_is_pooled:
  assumes "conn_pool_inv p" "pool_session drv keyspace p w = (errCode, s, p', w')"
  shows "conn_pool_inv p' \<and> (\<forall>k. k \<noteq> keyspace \<longrightarrow> m_sessionMap p' k = m_sessionMap p k)
    \<and> (if errCode = LCT_SUCCESS
       then s \<noteq> None \<and> (\<forall>w2. pool_session drv keyspace p' w2 = (LCT_SUCCESS, s, p', w2))
       else errCode = LCT_FAIL \<and> s = None \<and> p' = p)"
proof (cases "m_sessionMap p keyspace")
  case (Some x)
  then have "errCode = LCT_SUCCESS" "s = Some x" "p' = p" using assms(2) by (simp_all add: pool_session_cases)
  then show ?thesis using assms(1) Some by (simp add: pool_session_cases)
next
  case None
  obtain e x w1 where c: "drv_connect drv (LctCreateCluster\<lparr>cl_contact_points := c_str (m_dbHost p), cl_port := m_dbPort p\<rparr>) w = (e, x, w1)"
    by (metis prod_cases3)
  show ?thesis using pool_session_inv [OF assms] assms(2) None c
    by (cases "e = CASS_OK") (auto simp: pool_session_cases Let_def)
qed

end
