(* ===== verification/Cass_Helper.thy ===== *)
theory Cass_Helper
  imports Cass_Conn_Pool
begin

text \<open>
  \<open>wrapper/cassandra/lct_cassandra_helper.h\<close>, \<open>detail/lct_cassandra_helper.hpp/.inl/.cpp\<close> and the
  store of paging states \<open>detail/lct_cass_page_state_vessel.h/.cpp\<close>, over the driver and the
  pool of \<open>Cass_Conn_Pool\<close>.  A call is one atomic step of one thread.  \<open>CassAutoFlowControl\<close>, at
  its place in each call, sees the limit and the number of calls that other threads have under way:
  without room the call waits, which is the fault \<open>Blocked\<close> (\<open>Cass_Restrain\<close> has the threads that
  enter, wait and leave).  The helper's connection pool is a pointer that is null until \<open>init\<close>:
  following it then is \<open>Undefined\<close>.
\<close>

section \<open>Paging states\<close>

record ('r, 'p) page_info =
  pi_statement :: "'p cass_statement"
  pi_result :: "('r, 'p) cass_result"
  pi_timestamp :: int

type_synonym ('r, 'p) page_map = "string \<Rightarrow> ('r, 'p) page_info option"

definition PAGE_STATE_OBSOLETE_DURATION :: int where
  "PAGE_STATE_OBSOLETE_DURATION = 24 * 60 * 60 * 1000"

definition new_page_info :: "'p cass_statement \<Rightarrow> ('r, 'p) cass_result \<Rightarrow> ('r, 'p) page_info" where
  "new_page_info cs cr = \<lparr>pi_statement = cs, pi_result = cr, pi_timestamp = 0\<rparr>"

definition vessel_tidy :: "int \<Rightarrow> ('r, 'p) page_map \<Rightarrow> ('r, 'p) page_map" where
  "vessel_tidy nowTime m = (\<lambda>cql. case m cql of
     None \<Rightarrow> None
   | Some i \<Rightarrow> if nowTime - PAGE_STATE_OBSOLETE_DURATION > pi_timestamp i then None else Some i)"

definition vessel_save ::
    "('s, 'f, 'r, 'p, 'w) cass_driver \<Rightarrow> string \<Rightarrow> ('r, 'p) page_info \<Rightarrow> ('r, 'p) page_map \<Rightarrow> 'w
       \<Rightarrow> lct_err \<times> ('r, 'p) page_map \<times> 'w" where
  "vessel_save drv cql info m w =
     (case drv_now_millis drv w of (t1, w1) \<Rightarrow>
      case drv_now_millis drv w1 of (t2, w2) \<Rightarrow>
        (LCT_SUCCESS, (vessel_tidy t1 m)(cql \<mapsto> info\<lparr>pi_timestamp := t2\<rparr>), w2))"

definition vessel_remove :: "string \<Rightarrow> ('r, 'p) page_map \<Rightarrow> lct_err \<times> ('r, 'p) page_map" where
  "vessel_remove cql m =
     (case m cql of None \<Rightarrow> (LCT_NOT_SUCH_RECORD, m) | Some _ \<Rightarrow> (LCT_SUCCESS, m(cql := None)))"

definition vessel_retrieve ::
    "('s, 'f, 'r, 'p, 'w) cass_driver \<Rightarrow> string \<Rightarrow> ('r, 'p) page_map \<Rightarrow> 'w
       \<Rightarrow> lct_err \<times> ('r, 'p) page_info option \<times> ('r, 'p) page_map \<times> 'w" where
  "vessel_retrieve drv cql m w =
     (case drv_now_millis drv w of (t1, w1) \<Rightarrow>
        let m1 = vessel_tidy t1 m
        in case m1 cql of
             None \<Rightarrow> (LCT_NOT_SUCH_RECORD, None, m1, w1)
           | Some i \<Rightarrow> (LCT_SUCCESS, Some i, m1, w1))"

section \<open>The helper\<close>

definition CASSANDRA_MAX_LIMIT_DEFAULT_SIZE :: nat where "CASSANDRA_MAX_LIMIT_DEFAULT_SIZE = 20"
definition CASSANDRA_BATCH_CHUNK_DEFAULT_SIZE :: nat where
  "CASSANDRA_BATCH_CHUNK_DEFAULT_SIZE = 50 * 1024"

record ('s, 'r, 'p, 'w) cass_helper =
  h_ready :: bool
  h_chunk :: nat
  h_vessel :: "('r, 'p) page_map"
  h_pool :: "'s conn_pool option"
  h_limit :: nat
  h_concurrent :: nat
  h_world :: 'w

definition new_cass_helper :: "'w \<Rightarrow> ('s, 'r, 'p, 'w) cass_helper" where
  "new_cass_helper w =
     \<lparr>h_ready = False, h_chunk = CASSANDRA_BATCH_CHUNK_DEFAULT_SIZE, h_vessel = Map.empty, h_pool = None,
      h_limit = CASSANDRA_MAX_LIMIT_DEFAULT_SIZE, h_concurrent = 0, h_world = w\<rparr>"

text \<open>
  The guard of a call: \<open>s_limit\<close> is \<open>h_limit\<close>, and \<open>s_concurrent\<close> as a call finds it is
  \<open>h_concurrent\<close>, the calls of other threads; the guard counts the call itself and its destructor
  takes it off again.  \<open>Blocked\<close> is the wait, which only ends when another call does or the limit is
  raised.
\<close>

definition CassAutoFlowControl :: "('s, 'r, 'p, 'w) cass_helper \<Rightarrow> unit res" where
  "CassAutoFlowControl h = (if h_concurrent h \<ge> h_limit h then Inl Blocked else Inr ())"

lemma flow_control [simp]:
  "h_concurrent h < h_limit h \<Longrightarrow> CassAutoFlowControl h = Inr ()"
  "h_limit h \<le> h_concurrent h \<Longrightarrow> CassAutoFlowControl h = Inl Blocked"
  by (simp_all add: CassAutoFlowControl_def)

definition setRequestMax :: "nat \<Rightarrow> ('s, 'r, 'p, 'w) cass_helper \<Rightarrow> lct_err \<times> ('s, 'r, 'p, 'w) cass_helper" where
  "setRequestMax limit h = (if \<not> h_ready h then (LCT_FAIL, h) else (LCT_SUCCESS, h\<lparr>h_limit := limit\<rparr>))"

definition requestMax :: "('s, 'r, 'p, 'w) cass_helper \<Rightarrow> nat" where
  "requestMax h = (if \<not> h_ready h then 0 else h_limit h)"

definition setChunkSize :: "nat \<Rightarrow> ('s, 'r, 'p, 'w) cass_helper \<Rightarrow> lct_err \<times> ('s, 'r, 'p, 'w) cass_helper" where
  "setChunkSize sz h = (LCT_SUCCESS, h\<lparr>h_chunk := sz\<rparr>)"

definition helper_init ::
    "int \<Rightarrow> string \<Rightarrow> ('s, 'r, 'p, 'w) cass_helper \<Rightarrow> lct_err \<times> ('s, 'r, 'p, 'w) cass_helper" where
  "helper_init dbPort dbHost h =
     (let h1 = h\<lparr>h_pool := Some (new_conn_pool dbPort dbHost), h_ready := True\<rparr>;
          hostCount = count_list dbHost (CHR '';'')
      in (LCT_SUCCESS,
          if hostCount > 0 then snd (setRequestMax (CASSANDRA_MAX_LIMIT_DEFAULT_SIZE * hostCount) h1) else h1))"

definition helper_close :: "('s, 'r, 'p, 'w) cass_helper \<Rightarrow> (lct_err \<times> ('s, 'r, 'p, 'w) cass_helper) res" where
  "helper_close h =
     (if \<not> h_ready h then Inr (LCT_SUCCESS, h)
      else (case h_pool h of
              None \<Rightarrow> Inl Undefined
            | Some p \<Rightarrow> (case pool_close p of (e, p1) \<Rightarrow> Inr (e, h\<lparr>h_ready := False, h_pool := Some p1\<rparr>))))"

text \<open>\<open>m_connPool->session(keyspace, cassSession)\<close>.\<close>

definition get_session ::
    "('s, 'f, 'r, 'p, 'w) cass_driver \<Rightarrow> string \<Rightarrow> ('s, 'r, 'p, 'w) cass_helper
       \<Rightarrow> ('s option \<times> lct_err \<times> ('s, 'r, 'p, 'w) cass_helper) res" where
  "get_session drv keyspace h =
     (case h_pool h of
        None \<Rightarrow> Inl Undefined
      | Some p \<Rightarrow> (case pool_session drv keyspace p (h_world h) of
          (e, s, p1, w1) \<Rightarrow> Inr (if e = LCT_SUCCESS then s else None, e, h\<lparr>h_pool := Some p1, h_world := w1\<rparr>)))"

definition helper_execute ::
    "('s, 'f, 'r, 'p, 'w) cass_driver \<Rightarrow> string \<Rightarrow> string \<Rightarrow> ('s, 'r, 'p, 'w) cass_helper
       \<Rightarrow> (lct_err \<times> ('r, 'p) cass_result option \<times> ('s, 'r, 'p, 'w) cass_helper) res" where
  "helper_execute drv keyspace cql h =
     (if \<not> h_ready h then Inr (LCT_NOT_INITIATED_YET, None, h)
      else res_bind (CassAutoFlowControl h) (\<lambda>_.
        res_bind (get_session drv keyspace h) (\<lambda>(so, e, h1).
          case so of
            None \<Rightarrow> Inr (e, None, h1)
          | Some s \<Rightarrow>
              (case drv_execute drv s (cass_statement_new cql) (h_world h1) of (csErr, res, w2) \<Rightarrow>
                 let h2 = h1\<lparr>h_world := w2\<rparr> in
                 if CASS_OK \<noteq> csErr
                 then Inr (if CASS_ERROR_SERVER_ALREADY_EXISTS = csErr then LCT_RECORD_EXISTS else LCT_FAIL, None, h2)
                 else Inr (LCT_SUCCESS, Some res, h2)))))"

definition cass_createTable ::
    "('s, 'f, 'r, 'p, 'w) cass_driver \<Rightarrow> string \<Rightarrow> string \<Rightarrow> ('s, 'r, 'p, 'w) cass_helper
       \<Rightarrow> (lct_err \<times> ('s, 'r, 'p, 'w) cass_helper) res" where
  "cass_createTable drv keyspace cql h =
     res_bind (helper_execute drv keyspace cql h) (\<lambda>(e, r, h1).
       Inr (if LCT_SUCCESS \<noteq> e then (if LCT_RECORD_EXISTS = e then LCT_SUCCESS else e) else e, h1))"

definition cass_insert ::
    "('s, 'f, 'r, 'p, 'w) cass_driver \<Rightarrow> string \<Rightarrow> string \<Rightarrow> ('s, 'r, 'p, 'w) cass_helper
       \<Rightarrow> (lct_err \<times> ('s, 'r, 'p, 'w) cass_helper) res" where
  "cass_insert drv keyspace cql h = res_bind (helper_execute drv keyspace cql h) (\<lambda>(e, r, h1). Inr (e, h1))"

definition cass_update ::
    "('s, 'f, 'r, 'p, 'w) cass_driver \<Rightarrow> string \<Rightarrow> string \<Rightarrow> ('s, 'r, 'p, 'w) cass_helper
       \<Rightarrow> (lct_err \<times> ('s, 'r, 'p, 'w) cass_helper) res" where
  "cass_update drv keyspace cql h = res_bind (helper_execute drv keyspace cql h) (\<lambda>(e, r, h1). Inr (e, h1))"

definition cass_remove ::
    "('s, 'f, 'r, 'p, 'w) cass_driver \<Rightarrow> string \<Rightarrow> string \<Rightarrow> ('s, 'r, 'p, 'w) cass_helper
       \<Rightarrow> (lct_err \<times> ('s, 'r, 'p, 'w) cass_helper) res" where
  "cass_remove drv keyspace cql h = res_bind (helper_execute drv keyspace cql h) (\<lambda>(e, r, h1). Inr (e, h1))"

definition createKeyspace_cql :: "string \<Rightarrow> int \<Rightarrow> string" where
  "createKeyspace_cql keyspace replicFactor =
     '' CREATE KEYSPACE IF NOT EXISTS '' @ keyspace
     @ '' WITH replication = {'' @ [CHR 0x27] @ ''class'' @ [CHR 0x27] @ '':'' @ [CHR 0x27]
     @ ''SimpleStrategy'' @ [CHR 0x27] @ '', '' @ [CHR 0x27] @ ''replication_factor'' @ [CHR 0x27] @ '':''
     @ to_string replicFactor @ '' };''"

definition createKeyspace ::
    "('s, 'f, 'r, 'p, 'w) cass_driver \<Rightarrow> string \<Rightarrow> int \<Rightarrow> ('s, 'r, 'p, 'w) cass_helper
       \<Rightarrow> (lct_err \<times> ('s, 'r, 'p, 'w) cass_helper) res" where
  "createKeyspace drv keyspace replicFactor h =
     res_bind (helper_execute drv keyspace (createKeyspace_cql keyspace replicFactor) h) (\<lambda>(e, r, h1).
       Inr (if LCT_SUCCESS \<noteq> e then (if LCT_RECORD_EXISTS = e then LCT_SUCCESS else e) else e, h1))"

text \<open>\<open>query\<close>: the callback sees every row, in order.\<close>

definition cass_query ::
    "('s, 'f, 'r, 'p, 'w) cass_driver \<Rightarrow> string \<Rightarrow> string \<Rightarrow> ('r \<Rightarrow> 'a \<Rightarrow> 'a) \<Rightarrow> 'a
       \<Rightarrow> ('s, 'r, 'p, 'w) cass_helper \<Rightarrow> (lct_err \<times> 'a \<times> ('s, 'r, 'p, 'w) cass_helper) res" where
  "cass_query drv keyspace cql fn a h =
     res_bind (helper_execute drv keyspace cql h) (\<lambda>(e, r, h1).
       if LCT_SUCCESS \<noteq> e then Inr (e, a, h1)
       else (case r of
               None \<Rightarrow> Inl Undefined
             | Some res \<Rightarrow> Inr (e, fold fn (res_rows res) a, h1)))"

section \<open>Batches\<close>

definition exec_batch ::
    "('s, 'f, 'r, 'p, 'w) cass_driver \<Rightarrow> string \<Rightarrow> string list \<Rightarrow> ('s, 'r, 'p, 'w) cass_helper
       \<Rightarrow> (lct_err \<times> ('s, 'r, 'p, 'w) cass_helper) res" where
  "exec_batch drv keyspace batch h =
     res_bind (CassAutoFlowControl h) (\<lambda>_.
       res_bind (get_session drv keyspace h) (\<lambda>(so, e, h1).
         case so of
           None \<Rightarrow> Inr (e, h1)
         | Some s \<Rightarrow>
             (case drv_execute_batch drv s batch (h_world h1) of (csErr, w2) \<Rightarrow>
                Inr (case csErr of
                       CASS_OK \<Rightarrow> LCT_SUCCESS
                     | CASS_ERROR_SERVER_INVALID_QUERY \<Rightarrow> LCT_BATCH_SIZE_OVERFLOW
                     | CASS_ERROR_LIB_NO_HOSTS_AVAILABLE \<Rightarrow> LCT_CASS_NO_HOST
                     | _ \<Rightarrow> LCT_FAIL,
                     h1\<lparr>h_world := w2\<rparr>))))"

text \<open>
  The loop of the public \<open>batchExec\<close>: the statements from \<open>itRe\<close> on, the batch built so far and
  its \<open>byteSize\<close>.  After the last statement the iterator is already at the end when the batch is
  sent; if \<open>byteSize\<close> is still 0 there (only empty statements), the code inserts the last one
  and steps past the end.
\<close>

function batchExec_loop ::
    "('s, 'f, 'r, 'p, 'w) cass_driver \<Rightarrow> string \<Rightarrow> string list \<Rightarrow> string list \<Rightarrow> nat
       \<Rightarrow> ('s, 'r, 'p, 'w) cass_helper \<Rightarrow> (lct_err \<times> ('s, 'r, 'p, 'w) cass_helper) res" where
  "batchExec_loop drv keyspace [] batch byteSize h = Inr (LCT_SUCCESS, h)"
| "batchExec_loop drv keyspace (cql # rest) batch byteSize h =
     (if byteSize + length cql < h_chunk h then
        (if CASS_OK \<noteq> drv_batch_add drv batch (c_str cql) then Inr (LCT_FAIL, h)
         else
           let byteSize1 = byteSize + length cql; batch1 = batch @ [c_str cql]
           in if rest \<noteq> [] then batchExec_loop drv keyspace rest batch1 byteSize1 h
              else if byteSize1 = 0 then
                res_bind (cass_insert drv keyspace cql h) (\<lambda>(e, h1).
                  if LCT_SUCCESS \<noteq> e then Inr (e, h1) else Inl Undefined)
              else exec_batch drv keyspace batch1 h)
      else if byteSize = 0 then
        res_bind (cass_insert drv keyspace cql h) (\<lambda>(e, h1).
          if LCT_SUCCESS \<noteq> e then Inr (e, h1) else batchExec_loop drv keyspace rest batch byteSize h1)
      else
        res_bind (exec_batch drv keyspace batch h) (\<lambda>(e, h1).
          if LCT_SUCCESS \<noteq> e then Inr (e, h1) else batchExec_loop drv keyspace (cql # rest) [] 0 h1))"
  by pat_completeness auto

termination
  by (relation "measures [\<lambda>(_, _, cqls, _, _, _). length cqls, \<lambda>(_, _, _, _, byteSize, _). byteSize]") auto

definition batchExec ::
    "('s, 'f, 'r, 'p, 'w) cass_driver \<Rightarrow> string \<Rightarrow> string list \<Rightarrow> ('s, 'r, 'p, 'w) cass_helper
       \<Rightarrow> (lct_err \<times> ('s, 'r, 'p, 'w) cass_helper) res" where
  "batchExec drv keyspace cqlStatements h =
     (if length cqlStatements = 0 then Inr (LCT_SUCCESS, h)
      else batchExec_loop drv keyspace cqlStatements [] 0 h)"

end
