(* ===== verification/Cass_Query.thy ===== *)
theory Cass_Query
  imports Cass_Helper
begin

text \<open>
  Paging and parallel queries of the Cassandra helper (\<open>pageQuery\<close>, \<open>queryFirstPage\<close>,
  \<open>queryRestPage\<close>, \<open>multiQuery\<close> of \<open>lct_cassandra_helper.hpp\<close>).  The callback is a function
  on an accumulator of the caller's.
\<close>

section \<open>Pages\<close>

text \<open>The row loop: it stops at the first row the callback refuses.\<close>

fun page_rows :: "('r \<Rightarrow> 'a \<Rightarrow> lct_err \<times> 'a) \<Rightarrow> 'r list \<Rightarrow> 'a \<Rightarrow> lct_err \<times> 'a" where
  "page_rows fn [] a = (LCT_SUCCESS, a)"
| "page_rows fn (r # rs) a =
     (case fn r a of (e, a1) \<Rightarrow> if LCT_SUCCESS \<noteq> e then (e, a1) else page_rows fn rs a1)"

definition queryFirstPage ::
    "('s, 'f, 'r, 'p, 'w) cass_driver \<Rightarrow> string \<Rightarrow> string \<Rightarrow> int \<Rightarrow> ('r \<Rightarrow> 'a \<Rightarrow> lct_err \<times> 'a) \<Rightarrow> 'a
       \<Rightarrow> ('s, 'r, 'p, 'w) cass_helper \<Rightarrow> (lct_err \<times> 'a \<times> ('s, 'r, 'p, 'w) cass_helper) res" where
  "queryFirstPage drv keyspace cql pageSize fn a h =
     (if \<not> h_ready h then Inr (LCT_NOT_INITIATED_YET, a, h)
      else
        let statement = (cass_statement_new cql)\<lparr>st_page_size := Some pageSize\<rparr>
        in if CASS_OK \<noteq> drv_set_paging_size drv pageSize then Inr (LCT_SUCCESS, a, h)
        else res_bind (CassAutoFlowControl h) (\<lambda>_. res_bind (get_session drv keyspace h) (\<lambda>(so, e, h1).
          case so of
            None \<Rightarrow> Inr (e, a, h1)
          | Some s \<Rightarrow>
              (case drv_execute drv s statement (h_world h1) of (csErr, cassResult, w2) \<Rightarrow>
                 let h2 = h1\<lparr>h_world := w2\<rparr> in
                 if CASS_OK \<noteq> csErr then Inr (LCT_FAIL, a, h2)
                 else (case page_rows fn (res_rows cassResult) a of (e2, a2) \<Rightarrow>
                   if LCT_SUCCESS \<noteq> e2 then Inr (e2, a2, h2)
                   else if res_more_pages cassResult then
                     (case vessel_save drv cql (new_page_info statement cassResult) (h_vessel h2) (h_world h2) of
                        (e3, m, w3) \<Rightarrow> Inr (e3, a2, h2\<lparr>h_vessel := m, h_world := w3\<rparr>))
                   else Inr (e2, a2, h2))))))"

definition queryRestPage ::
    "('s, 'f, 'r, 'p, 'w) cass_driver \<Rightarrow> string \<Rightarrow> string \<Rightarrow> int \<Rightarrow> ('r \<Rightarrow> 'a \<Rightarrow> lct_err \<times> 'a) \<Rightarrow> 'a
       \<Rightarrow> ('s, 'r, 'p, 'w) cass_helper \<Rightarrow> (lct_err \<times> 'a \<times> ('s, 'r, 'p, 'w) cass_helper) res" where
  "queryRestPage drv keyspace cql pageSize fn a h =
     (if \<not> h_ready h then Inr (LCT_NOT_INITIATED_YET, a, h)
      else (case vessel_retrieve drv cql (h_vessel h) (h_world h) of (e0, info, m0, w0) \<Rightarrow>
        let h0 = h\<lparr>h_vessel := m0, h_world := w0\<rparr> in
        case info of
          None \<Rightarrow> Inr (e0, a, h0)
        | Some i \<Rightarrow>
            let statement = (pi_statement i)\<lparr>st_paging_state := Some (res_paging_state (pi_result i))\<rparr>
            in if CASS_OK \<noteq> drv_set_paging_state drv (res_paging_state (pi_result i)) then Inr (LCT_FAIL, a, h0)
            else res_bind (CassAutoFlowControl h0) (\<lambda>_. res_bind (get_session drv keyspace h0) (\<lambda>(so, e, h1).
              case so of
                None \<Rightarrow> Inr (e, a, h1)
              | Some s \<Rightarrow>
                  (case drv_execute drv s statement (h_world h1) of (csErr, cassResult, w2) \<Rightarrow>
                     let h2 = h1\<lparr>h_world := w2\<rparr> in
                     if CASS_OK \<noteq> csErr then Inr (LCT_FAIL, a, h2)
                     else (case page_rows fn (res_rows cassResult) a of (e2, a2) \<Rightarrow>
                       if LCT_SUCCESS \<noteq> e2 then Inr (e2, a2, h2)
                       else if res_more_pages cassResult then
                         (case vessel_save drv cql (new_page_info statement cassResult) (h_vessel h2) (h_world h2) of
                            (e3, m, w3) \<Rightarrow> Inr (e3, a2, h2\<lparr>h_vessel := m, h_world := w3\<rparr>))
                       else (case vessel_remove cql (h_vessel h2) of
                            (e3, m) \<Rightarrow> Inr (e3, a2, h2\<lparr>h_vessel := m\<rparr>))))))))"

definition pageQuery ::
    "('s, 'f, 'r, 'p, 'w) cass_driver \<Rightarrow> string \<Rightarrow> string \<Rightarrow> bool \<Rightarrow> int \<Rightarrow> ('r \<Rightarrow> 'a \<Rightarrow> lct_err \<times> 'a) \<Rightarrow> 'a
       \<Rightarrow> ('s, 'r, 'p, 'w) cass_helper \<Rightarrow> (lct_err \<times> 'a \<times> ('s, 'r, 'p, 'w) cass_helper) res" where
  "pageQuery drv keyspace cql isFirst pageSize fn a h =
     (if isFirst then queryFirstPage drv keyspace cql pageSize fn a h
      else queryRestPage drv keyspace cql pageSize fn a h)"

section \<open>Parallel queries\<close>

text \<open>The private \<open>execute\<close> for many statements: one future per statement.\<close>

fun start_all :: "('s, 'f, 'r, 'p, 'w) cass_driver \<Rightarrow> 's \<Rightarrow> string list \<Rightarrow> 'f list \<Rightarrow> 'w \<Rightarrow> 'f list \<times> 'w" where
  "start_all drv s [] futs w = (futs, w)"
| "start_all drv s (cql # cqls) futs w =
     (case drv_execute_async drv s (cass_statement_new cql) w of (f, w1) \<Rightarrow>
        start_all drv s cqls (futs @ [f]) w1)"

definition execute_all ::
    "('s, 'f, 'r, 'p, 'w) cass_driver \<Rightarrow> string \<Rightarrow> string list \<Rightarrow> ('s, 'r, 'p, 'w) cass_helper
       \<Rightarrow> (lct_err \<times> 'f list \<times> ('s, 'r, 'p, 'w) cass_helper) res" where
  "execute_all drv keyspace cqls h =
     (if \<not> h_ready h then Inr (LCT_NOT_INITIATED_YET, [], h)
      else res_bind (CassAutoFlowControl h) (\<lambda>_. res_bind (get_session drv keyspace h) (\<lambda>(so, e, h1).
        case so of
          None \<Rightarrow> Inr (e, [], h1)
        | Some s \<Rightarrow> (case start_all drv s cqls [] (h_world h1) of
            (futs, w2) \<Rightarrow> Inr (LCT_SUCCESS, futs, h1\<lparr>h_world := w2\<rparr>)))))"

text \<open>
  One pass over the pending futures: a ready one hands its rows to the callback (or its error
  to the log) and is erased.
\<close>

fun poll_pass :: "('s, 'f, 'r, 'p, 'w) cass_driver \<Rightarrow> ('r \<Rightarrow> 'a \<Rightarrow> 'a) \<Rightarrow> 'f list \<Rightarrow> 'a \<Rightarrow> 'w \<Rightarrow> 'f list \<times> 'a \<times> 'w" where
  "poll_pass drv fn [] a w = ([], a, w)"
| "poll_pass drv fn (f # fs) a w =
     (case drv_wait_timed drv f w of (ready, w1) \<Rightarrow>
        if ready then
          (case drv_future_result drv f w1 of (csErr, res) \<Rightarrow>
             poll_pass drv fn fs (if CASS_OK \<noteq> csErr then a else fold fn (res_rows res) a) w1)
        else (case poll_pass drv fn fs a w1 of (rest, a2, w2) \<Rightarrow> (f # rest, a2, w2)))"

text \<open>The outer loop waits for every future: \<open>None\<close> is a future that never gets ready.\<close>

partial_function (option) poll_all ::
    "('s, 'f, 'r, 'p, 'w) cass_driver \<Rightarrow> ('r \<Rightarrow> 'a \<Rightarrow> 'a) \<Rightarrow> 'f list \<Rightarrow> 'a \<Rightarrow> 'w \<Rightarrow> ('a \<times> 'w) option" where
  "poll_all drv fn futs a w =
     (if futs = [] then Some (a, w)
      else (case poll_pass drv fn futs a w of (rest, a1, w1) \<Rightarrow> poll_all drv fn rest a1 w1))"

definition multiQuery ::
    "('s, 'f, 'r, 'p, 'w) cass_driver \<Rightarrow> string \<Rightarrow> string list \<Rightarrow> ('r \<Rightarrow> 'a \<Rightarrow> 'a) \<Rightarrow> 'a
       \<Rightarrow> ('s, 'r, 'p, 'w) cass_helper \<Rightarrow> (lct_err \<times> 'a \<times> ('s, 'r, 'p, 'w) cass_helper) res option" where
  "multiQuery drv keyspace cqls fn a h =
     (case execute_all drv keyspace cqls h of
        Inl e \<Rightarrow> Some (Inl e)
      | Inr (e, futs, h1) \<Rightarrow>
          (if LCT_SUCCESS \<noteq> e then Some (Inr (e, a, h1))
           else map_option (\<lambda>(a2, w2). Inr (e, a2, h1\<lparr>h_world := w2\<rparr>)) (poll_all drv fn futs a (h_world h1))))"

end
