(* ===== verification/Cass_Batch_Correct.thy ===== *)
theory Cass_Batch_Correct
  imports Cass_Query
begin

text \<open>
  \<open>batchExec\<close> against the list of statement groups a server acknowledges: every statement is
  executed once, in order, in groups below the chunk size, and on an error what was executed is
  a prefix.  The locale says what is assumed of the driver: it acknowledges what it is given.
\<close>

section \<open>Drivers that record\<close>

locale recording_driver =
  fixes drv :: "('s, 'f, 'r, 'p, 'w) cass_driver" and trace :: "'w \<Rightarrow> string list list"
  assumes connect_trace: "drv_connect drv cl w = (e, s, w') \<Longrightarrow> trace w' = trace w"
    and execute_trace: "drv_execute drv s st w = (e, r, w')
        \<Longrightarrow> trace w' = (if e = CASS_OK then trace w @ [[st_cql st]] else trace w)"
    and batch_trace: "drv_execute_batch drv s b w = (e, w')
        \<Longrightarrow> trace w' = (if e = CASS_OK then trace w @ [b] else trace w)"

text \<open>A helper that is ready, with room for a call below the limit of concurrent requests.\<close>

definition helper_ok :: "('s, 'r, 'p, 'w) cass_helper \<Rightarrow> bool" where
  "helper_ok h \<longleftrightarrow> h_ready h \<and> h_pool h \<noteq> None \<and> h_concurrent h < h_limit h"

lemma helper_ok_flow: "helper_ok h \<Longrightarrow> CassAutoFlowControl h = Inr ()"
  by (simp add: helper_ok_def)

definition plain_cql :: "string \<Rightarrow> bool" where
  "plain_cql s \<longleftrightarrow> s \<noteq> [] \<and> CHR 0x00 \<notin> set s"

lemma c_str_plain: "plain_cql s \<Longrightarrow> c_str s = s"
  by (auto simp: plain_cql_def c_str_def takeWhile_eq_all_conv)

definition total_size :: "string list \<Rightarrow> nat" where
  "total_size b = sum_list (map length b)"

lemma total_size_simps [simp]:
  "total_size [] = 0" "total_size (b @ c) = total_size b + total_size c" "total_size [s] = length s"
  by (simp_all add: total_size_def)

lemma total_size_pos: "\<forall>s \<in> set b. plain_cql s \<Longrightarrow> total_size b = 0 \<longleftrightarrow> b = []"
  by (cases b) (auto simp: total_size_def plain_cql_def)

text \<open>The groups executed: a cut of the statements into non-empty groups of bounded size.\<close>

definition groups_ok :: "nat \<Rightarrow> string list list \<Rightarrow> bool" where
  "groups_ok chunk G \<longleftrightarrow> (\<forall>g \<in> set G. g \<noteq> [] \<and> (length g = 1 \<or> total_size g < chunk))"

context recording_driver
begin

lemma get_session_trace:
  assumes "helper_ok h"
  shows "\<exists>so e h'. get_session drv ks h = Inr (so, e, h') \<and> helper_ok h' \<and> h_chunk h' = h_chunk h
     \<and> trace (h_world h') = trace (h_world h) \<and> (so = None \<longleftrightarrow> e \<noteq> LCT_SUCCESS)"
proof -
  obtain p where p: "h_pool h = Some p" using assms by (auto simp: helper_ok_def)
  obtain e s p1 w1 where q: "pool_session drv ks p (h_world h) = (e, s, p1, w1)" by (metis prod_cases4)
  have "trace w1 = trace (h_world h) \<and> (e = LCT_SUCCESS \<longrightarrow> s \<noteq> None)"
    using q connect_trace
    by (cases "m_sessionMap p ks") (auto simp: pool_session_cases Let_def split: prod.splits if_splits dest!: sym [of "Some _"])
  then show ?thesis using p q assms by (auto simp: get_session_def helper_ok_def)
qed

lemma exec_batch_trace:
  assumes "helper_ok h"
  shows "\<exists>e h'. exec_batch drv ks b h = Inr (e, h') \<and> helper_ok h' \<and> h_chunk h' = h_chunk h
     \<and> trace (h_world h') = (if e = LCT_SUCCESS then trace (h_world h) @ [b] else trace (h_world h))"
proof -
  obtain so e h1 where s: "get_session drv ks h = Inr (so, e, h1)" "helper_ok h1"
    "h_chunk h1 = h_chunk h" "trace (h_world h1) = trace (h_world h)" "so = None \<longleftrightarrow> e \<noteq> LCT_SUCCESS"
    using get_session_trace [OF assms] by blast
  show ?thesis
  proof (cases so)
    case None
    then show ?thesis using s helper_ok_flow [OF assms] by (simp add: exec_batch_def)
  next
    case (Some x)
    obtain ce w2 where b: "drv_execute_batch drv x b (h_world h1) = (ce, w2)" by fastforce
    show ?thesis
      using s Some b batch_trace [OF b] helper_ok_flow [OF assms]
      by (cases ce) (auto simp: exec_batch_def helper_ok_def)
  qed
qed

lemma insert_trace:
  assumes "helper_ok h"
  shows "\<exists>e h'. cass_insert drv ks cql h = Inr (e, h') \<and> helper_ok h' \<and> h_chunk h' = h_chunk h
     \<and> trace (h_world h') = (if e = LCT_SUCCESS then trace (h_world h) @ [[c_str cql]] else trace (h_world h))"
proof -
  obtain so e h1 where s: "get_session drv ks h = Inr (so, e, h1)" "helper_ok h1"
    "h_chunk h1 = h_chunk h" "trace (h_world h1) = trace (h_world h)" "so = None \<longleftrightarrow> e \<noteq> LCT_SUCCESS"
    using get_session_trace [OF assms] by blast
  show ?thesis
  proof (cases so)
    case None
    then show ?thesis using s assms by (simp add: cass_insert_def helper_execute_def helper_ok_def)
  next
    case (Some x)
    obtain ce r w2 where b: "drv_execute drv x (cass_statement_new cql) (h_world h1) = (ce, r, w2)"
      by (metis prod_cases3)
    show ?thesis
      using s Some b execute_trace [OF b] assms
      by (cases ce) (auto simp: cass_insert_def helper_execute_def helper_ok_def cass_statement_new_def Let_def)
  qed
qed

text \<open>What the loop leaves, from a batch of \<open>byteSize\<close> bytes and the statements to come.\<close>

definition batch_result :: "string list \<Rightarrow> nat \<Rightarrow> 'w \<Rightarrow> (lct_err \<times> ('s, 'r, 'p, 'w) cass_helper) res \<Rightarrow> bool" where
  "batch_result cqls chunk w m \<longleftrightarrow> (\<exists>e h' G k. m = Inr (e, h') \<and> trace (h_world h') = trace w @ G
     \<and> groups_ok chunk G \<and> concat G = take k cqls \<and> (e = LCT_SUCCESS \<longrightarrow> concat G = cqls))"

lemma batch_result_none: "e \<noteq> LCT_SUCCESS \<Longrightarrow> trace (h_world h) = trace w \<Longrightarrow> batch_result cqls chunk w (Inr (e, h))"
  unfolding batch_result_def
  by (intro exI [of _ e] exI [of _ h] exI [of _ "[]"] exI [of _ 0]) (simp add: groups_ok_def)

lemma batch_result_one:
  assumes "trace (h_world h) = trace w @ [g]" "groups_ok chunk [g]"
  shows "batch_result g chunk w (Inr (LCT_SUCCESS, h))"
  using assms unfolding batch_result_def
  by (intro exI [of _ LCT_SUCCESS] exI [of _ h] exI [of _ "[g]"] exI [of _ "length g"]) simp

lemma batch_result_cons:
  assumes "batch_result cqls chunk w1 m" "trace w1 = trace w @ [g]" "groups_ok chunk [g]"
  shows "batch_result (g @ cqls) chunk w m"
proof -
  obtain e h' G k where r: "m = Inr (e, h')" "trace (h_world h') = trace w1 @ G" "groups_ok chunk G"
    "concat G = take k cqls" "e = LCT_SUCCESS \<longrightarrow> concat G = cqls"
    using assms(1) unfolding batch_result_def by blast
  show ?thesis unfolding batch_result_def
    using r assms(2,3)
    by (intro exI [of _ e] exI [of _ h'] exI [of _ "g # G"] exI [of _ "length g + k"])
       (simp add: groups_ok_def)
qed

lemma batchExec_loop_groups:
  assumes "d = drv" "helper_ok h" "\<forall>s \<in> set (batch @ cqls). plain_cql s" "byteSize = total_size batch"
    "batch = [] \<or> total_size batch < h_chunk h" "cqls = [] \<longrightarrow> batch = []"
  shows "batch_result (batch @ cqls) (h_chunk h) (h_world h) (batchExec_loop d ks cqls batch byteSize h)"
  using assms
proof (induction d ks cqls batch byteSize h rule: batchExec_loop.induct)
  case (1 d ks batch byteSize h)
  then show ?case unfolding batch_result_def
    by (intro exI [of _ LCT_SUCCESS] exI [of _ h] exI [of _ "[]"] exI [of _ 0]) (simp add: groups_ok_def)
next
  case (2 d ks cql rest batch byteSize h)
  have d: "d = drv" and ok: "helper_ok h" and bs: "byteSize = total_size batch" by fact+
  have cql: "plain_cql cql" "c_str cql = cql" "cql \<noteq> []" and rest: "\<forall>s \<in> set rest. plain_cql s"
    and bt: "\<forall>s \<in> set batch. plain_cql s"
    using "2.prems"(3) c_str_plain [of cql] plain_cql_def [of cql] by auto
  have zero: "byteSize = 0 \<longleftrightarrow> batch = []" using total_size_pos [OF bt] bs by simp
  consider (refused) "byteSize + length cql < h_chunk h" "drv_batch_add d batch (c_str cql) \<noteq> CASS_OK"
    | (more) "byteSize + length cql < h_chunk h" "drv_batch_add d batch (c_str cql) = CASS_OK" "rest \<noteq> []"
    | (last) "byteSize + length cql < h_chunk h" "drv_batch_add d batch (c_str cql) = CASS_OK" "rest = []"
    | (big) "\<not> byteSize + length cql < h_chunk h" "byteSize = 0"
    | (full) "\<not> byteSize + length cql < h_chunk h" "byteSize \<noteq> 0" by blast
  then show ?case
  proof cases
    case refused
    then show ?thesis by (simp add: batch_result_none)
  next
    case more
    then show ?thesis
      using "2.IH"(1) [OF more(1) _ refl refl more(3) d ok] cql bs rest bt "2.prems"(3) by auto
  next
    case last
    obtain e h' where b: "exec_batch drv ks (batch @ [cql]) h = Inr (e, h')"
      "trace (h_world h') = (if e = LCT_SUCCESS then trace (h_world h) @ [batch @ [cql]] else trace (h_world h))"
      using exec_batch_trace [OF ok] by blast
    have l: "batchExec_loop d ks (cql # rest) batch byteSize h = Inr (e, h')"
      using last cql b(1) d by simp
    have g: "groups_ok (h_chunk h) [batch @ [cql]]" using last(1) bs by (simp add: groups_ok_def)
    show ?thesis
    proof (cases "e = LCT_SUCCESS")
      case True
      then have "trace (h_world h') = trace (h_world h) @ [batch @ [cql]]" using b(2) by simp
      then show ?thesis using batch_result_one [OF _ g, of h' "h_world h"] last(3) l True by simp
    next
      case False
      then show ?thesis unfolding l using b(2) by (intro batch_result_none) simp_all
    qed
  next
    case big
    obtain e h' where b: "cass_insert drv ks cql h = Inr (e, h')" "helper_ok h'" "h_chunk h' = h_chunk h"
      "trace (h_world h') = (if e = LCT_SUCCESS then trace (h_world h) @ [[c_str cql]] else trace (h_world h))"
      using insert_trace [OF ok] by blast
    have nil: "batch = []" using big(2) zero by simp
    show ?thesis
    proof (cases "e = LCT_SUCCESS")
      case False
      then have "batchExec_loop d ks (cql # rest) batch byteSize h = Inr (e, h')" using big b(1) d by simp
      then show ?thesis using batch_result_none [OF False] b(4) False by simp
    next
      case True
      have l: "batchExec_loop d ks (cql # rest) batch byteSize h = batchExec_loop d ks rest [] 0 h'"
        using big b(1) d True nil by simp
      have "batch_result ([] @ rest) (h_chunk h') (h_world h') (batchExec_loop d ks rest [] 0 h')"
        using "2.IH"(2) [OF big(1,2), of e h'] b d True rest nil big(2) by simp
      then have "batch_result ([cql] @ rest) (h_chunk h) (h_world h) (batchExec_loop d ks rest [] 0 h')"
        using batch_result_cons [of rest "h_chunk h" "h_world h'" _ "h_world h" "[cql]"] b(3,4) True cql(2)
        by (simp add: groups_ok_def)
      then show ?thesis unfolding l using nil by simp
    qed
  next
    case full
    obtain e h' where b: "exec_batch drv ks batch h = Inr (e, h')" "helper_ok h'" "h_chunk h' = h_chunk h"
      "trace (h_world h') = (if e = LCT_SUCCESS then trace (h_world h) @ [batch] else trace (h_world h))"
      using exec_batch_trace [OF ok] by blast
    show ?thesis
    proof (cases "e = LCT_SUCCESS")
      case False
      then have "batchExec_loop d ks (cql # rest) batch byteSize h = Inr (e, h')" using full b(1) d by simp
      then show ?thesis using batch_result_none [OF False] b(4) False by simp
    next
      case True
      have l: "batchExec_loop d ks (cql # rest) batch byteSize h = batchExec_loop d ks (cql # rest) [] 0 h'"
        using full b(1) d True by simp
      have "batch_result ([] @ cql # rest) (h_chunk h') (h_world h') (batchExec_loop d ks (cql # rest) [] 0 h')"
        using "2.IH"(3) [OF full, of e h'] b d True rest cql(1) by simp
      moreover have "groups_ok (h_chunk h) [batch]" using full(2) zero "2.prems"(5) by (auto simp: groups_ok_def)
      ultimately have "batch_result (batch @ cql # rest) (h_chunk h) (h_world h)
          (batchExec_loop d ks (cql # rest) [] 0 h')"
        using batch_result_cons [of "cql # rest" "h_chunk h" "h_world h'" _ "h_world h" batch] b(3,4) True by simp
      then show ?thesis unfolding l .
    qed
  qed
qed

lemma batchExec_groups:
  assumes "helper_ok h" "\<forall>s \<in> set cqls. plain_cql s"
  shows "\<exists>e h' G k. batchExec drv ks cqls h = Inr (e, h') \<and> trace (h_world h') = trace (h_world h) @ G
     \<and> groups_ok (h_chunk h) G \<and> concat G = take k cqls \<and> (e = LCT_SUCCESS \<longrightarrow> concat G = cqls)"
proof (cases "cqls = []")
  case True
  then show ?thesis
    by (intro exI [of _ LCT_SUCCESS] exI [of _ h] exI [of _ "[]"] exI [of _ 0])
       (simp add: batchExec_def groups_ok_def)
next
  case False
  then have "batch_result cqls (h_chunk h) (h_world h) (batchExec drv ks cqls h)"
    using batchExec_loop_groups [OF refl assms(1), of "[]" cqls 0 ks] assms(2) by (simp add: batchExec_def)
  then show ?thesis unfolding batch_result_def by blast
qed

end

text \<open>
  C9: \<open>batchExec\<close> on a helper that is ready and has room below its request limit, with non-empty statements, returns; the groups the
  server acknowledged are non-empty, of one statement or below the chunk size in total, and in
  order they make up a prefix of the statements, all of them when the call reports success.
\<close>

theorem batchExec_executes_in_order:
  assumes "recording_driver drv trace" "helper_ok h" "\<forall>s \<in> set cqls. plain_cql s"
  shows "\<exists>e h' G k. batchExec drv ks cqls h = Inr (e, h') \<and> trace (h_world h') = trace (h_world h) @ G
     \<and> groups_ok (h_chunk h) G \<and> concat G = take k cqls \<and> (e = LCT_SUCCESS \<longrightarrow> concat G = cqls)"
  by (rule recording_driver.batchExec_groups [OF assms])

end
