(* ===== verification/Cass_Page_Correct.thy ===== *)
theory Cass_Page_Correct
  imports Cass_Query
begin

text \<open>
  Paging: asking for the first page and then for the rest delivers every row of the result
  once, in order, and leaves no paging state behind.  The locale states what the driver does
  for one query: executing it with a paging state gives the page at that state, and the clock
  stays within the day for which a paging state is kept.
\<close>

locale paged_query =
  fixes drv :: "('s, 'f, 'r, 'p, 'w) cass_driver" and cql :: string and pageSize :: int
    and pg :: "'p option \<Rightarrow> ('r, 'p) cass_result" and t0 :: int
  assumes connects: "\<exists>s w'. drv_connect drv cl w = (CASS_OK, s, w')"
    and executes: "\<exists>w'. drv_execute drv s \<lparr>st_cql = c_str cql, st_page_size = Some pageSize, st_paging_state = ps\<rparr> w
        = (CASS_OK, pg ps, w')"
    and paging_size: "drv_set_paging_size drv pageSize = CASS_OK"
    and paging_state: "drv_set_paging_state drv p = CASS_OK"
    and clock: "drv_now_millis drv w = (t, w') \<Longrightarrow> t0 \<le> t \<and> t < t0 + PAGE_STATE_OBSOLETE_DURATION"

definition next_state :: "('r, 'p) cass_result \<Rightarrow> 'p option" where
  "next_state r = Some (res_paging_state r)"

text \<open>The pages from a paging state on, \<open>k\<close> of them after the first.\<close>

fun pages :: "('p option \<Rightarrow> ('r, 'p) cass_result) \<Rightarrow> nat \<Rightarrow> 'p option \<Rightarrow> ('r, 'p) cass_result list" where
  "pages pg 0 ps = [pg ps]"
| "pages pg (Suc k) ps = pg ps # pages pg k (next_state (pg ps))"

text \<open>All but the last announce more.\<close>

fun pages_end :: "('r, 'p) cass_result list \<Rightarrow> bool" where
  "pages_end [] = False"
| "pages_end [r] = (\<not> res_more_pages r)"
| "pages_end (r # s # rs) = (res_more_pages r \<and> pages_end (s # rs))"

text \<open>A caller that collects the rows, asking for the rest \<open>k\<close> times.\<close>

definition collect :: "'r \<Rightarrow> 'r list \<Rightarrow> lct_err \<times> 'r list" where
  "collect r a = (LCT_SUCCESS, a @ [r])"

fun rest_calls ::
    "('s, 'f, 'r, 'p, 'w) cass_driver \<Rightarrow> string \<Rightarrow> string \<Rightarrow> int \<Rightarrow> nat \<Rightarrow> 'r list
       \<Rightarrow> ('s, 'r, 'p, 'w) cass_helper \<Rightarrow> (lct_err \<times> 'r list \<times> ('s, 'r, 'p, 'w) cass_helper) res" where
  "rest_calls drv ks cql n 0 a h = Inr (LCT_SUCCESS, a, h)"
| "rest_calls drv ks cql n (Suc k) a h =
     res_bind (pageQuery drv ks cql False n collect a h) (\<lambda>(e, a1, h1).
       if LCT_SUCCESS \<noteq> e then Inr (e, a1, h1) else rest_calls drv ks cql n k a1 h1)"

definition all_pages ::
    "('s, 'f, 'r, 'p, 'w) cass_driver \<Rightarrow> string \<Rightarrow> string \<Rightarrow> int \<Rightarrow> nat
       \<Rightarrow> ('s, 'r, 'p, 'w) cass_helper \<Rightarrow> (lct_err \<times> 'r list \<times> ('s, 'r, 'p, 'w) cass_helper) res" where
  "all_pages drv ks cql n k h =
     res_bind (pageQuery drv ks cql True n collect [] h) (\<lambda>(e, a1, h1).
       if LCT_SUCCESS \<noteq> e then Inr (e, a1, h1) else rest_calls drv ks cql n k a1 h1)"

lemma page_rows_collect: "page_rows collect rs a = (LCT_SUCCESS, a @ rs)"
  by (induction rs arbitrary: a) (auto simp: collect_def)

lemma pages_not_Nil: "pages pg k ps \<noteq> []"
  by (cases k) auto

lemma pages_end_Cons:
  "pages_end (pages pg (Suc k) ps) \<longleftrightarrow> res_more_pages (pg ps) \<and> pages_end (pages pg k (next_state (pg ps)))"
  by (cases "pages pg k (next_state (pg ps))") (auto simp: pages_not_Nil)

text \<open>The paging state kept for \<open>cql\<close> is the page \<open>r\<close>, saved within the day.\<close>

definition waiting_at :: "string \<Rightarrow> int \<Rightarrow> int \<Rightarrow> ('r, 'p) cass_result \<Rightarrow> ('s, 'r, 'p, 'w) cass_helper \<Rightarrow> bool" where
  "waiting_at cql pageSize t0 r h \<longleftrightarrow> h_ready h \<and> h_pool h \<noteq> None \<and> h_concurrent h < h_limit h \<and> (\<exists>i. h_vessel h cql = Some i
     \<and> pi_result i = r \<and> t0 \<le> pi_timestamp i
     \<and> st_cql (pi_statement i) = c_str cql \<and> st_page_size (pi_statement i) = Some pageSize)"

context paged_query
begin

lemma session_ok:
  assumes "h_pool h \<noteq> None"
  shows "\<exists>s h'. get_session drv ks h = Inr (Some s, LCT_SUCCESS, h') \<and> h_pool h' \<noteq> None
     \<and> h_ready h' = h_ready h \<and> h_vessel h' = h_vessel h \<and> h_limit h' = h_limit h \<and> h_concurrent h' = h_concurrent h"
proof -
  obtain p where p: "h_pool h = Some p" using assms by blast
  let ?cl = "LctCreateCluster\<lparr>cl_contact_points := c_str (m_dbHost p), cl_port := m_dbPort p\<rparr>"
  obtain s w' where "drv_connect drv ?cl (h_world h) = (CASS_OK, s, w')" using connects by blast
  then show ?thesis using p
    by (cases "m_sessionMap p ks") (auto simp: get_session_def pool_session_cases)
qed

lemma save_page:
  "\<exists>i m w'. vessel_save drv cql (new_page_info st r) m0 w = (LCT_SUCCESS, m, w') \<and> m cql = Some i
     \<and> pi_result i = r \<and> t0 \<le> pi_timestamp i \<and> pi_statement i = st"
proof -
  obtain t1 w1 where 1: "drv_now_millis drv w = (t1, w1)" by fastforce
  obtain t2 w2 where 2: "drv_now_millis drv w1 = (t2, w2)" by fastforce
  show ?thesis using 1 2 clock [OF 2] by (simp add: vessel_save_def new_page_info_def)
qed

lemma retrieve_page:
  assumes "m cql = Some i" "t0 \<le> pi_timestamp i"
  shows "\<exists>m' w'. vessel_retrieve drv cql m w = (LCT_SUCCESS, Some i, m', w') \<and> m' cql = Some i"
proof -
  obtain t1 w1 where 1: "drv_now_millis drv w = (t1, w1)" by fastforce
  have "vessel_tidy t1 m cql = Some i" using clock [OF 1] assms by (simp add: vessel_tidy_def)
  then show ?thesis using 1 by (simp add: vessel_retrieve_def)
qed

lemma first_page:
  assumes "h_ready h" "h_pool h \<noteq> None" "h_concurrent h < h_limit h"
  shows "\<exists>h'. pageQuery drv ks cql True pageSize collect [] h = Inr (LCT_SUCCESS, res_rows (pg None), h')
     \<and> (if res_more_pages (pg None) then waiting_at cql pageSize t0 (pg None) h' else h_vessel h' = h_vessel h)"
proof -
  let ?st = "(cass_statement_new cql)\<lparr>st_page_size := Some pageSize\<rparr>"
  obtain s h1 where s: "get_session drv ks h = Inr (Some s, LCT_SUCCESS, h1)" "h_pool h1 \<noteq> None"
    "h_ready h1 = h_ready h" "h_vessel h1 = h_vessel h" "h_limit h1 = h_limit h" "h_concurrent h1 = h_concurrent h" using session_ok [OF assms(2)] by blast
  obtain w2 where x: "drv_execute drv s ?st (h_world h1) = (CASS_OK, pg None, w2)"
    using executes [of s None] by (auto simp: cass_statement_new_def)
  obtain i m w3 where v: "vessel_save drv cql (new_page_info ?st (pg None)) (h_vessel h1) w2 = (LCT_SUCCESS, m, w3)"
    "m cql = Some i" "pi_result i = pg None" "t0 \<le> pi_timestamp i" "pi_statement i = ?st"
    using save_page by blast
  show ?thesis using assms s x v paging_size
    by (auto simp: pageQuery_def queryFirstPage_def Let_def page_rows_collect waiting_at_def cass_statement_new_def)
qed

lemma next_page:
  assumes "waiting_at cql pageSize t0 r h"
  shows "\<exists>h'. pageQuery drv ks cql False pageSize collect a h
       = Inr (LCT_SUCCESS, a @ res_rows (pg (next_state r)), h')
     \<and> (if res_more_pages (pg (next_state r)) then waiting_at cql pageSize t0 (pg (next_state r)) h'
        else h_vessel h' cql = None)"
proof -
  obtain i where i: "h_ready h" "h_pool h \<noteq> None \<and> h_concurrent h < h_limit h" "h_vessel h cql = Some i" "pi_result i = r"
    "t0 \<le> pi_timestamp i" "st_cql (pi_statement i) = c_str cql" "st_page_size (pi_statement i) = Some pageSize"
    using assms by (auto simp: waiting_at_def)
  obtain m0 w0 where v: "vessel_retrieve drv cql (h_vessel h) (h_world h) = (LCT_SUCCESS, Some i, m0, w0)"
    "m0 cql = Some i" using retrieve_page [of "h_vessel h" i] i(3,5) by blast
  let ?st = "(pi_statement i)\<lparr>st_paging_state := Some (res_paging_state r)\<rparr>"
  let ?h0 = "h\<lparr>h_vessel := m0, h_world := w0\<rparr>"
  obtain s h1 where s: "get_session drv ks ?h0 = Inr (Some s, LCT_SUCCESS, h1)" "h_pool h1 \<noteq> None"
    "h_ready h1 = h_ready ?h0" "h_vessel h1 = m0" "h_limit h1 = h_limit h" "h_concurrent h1 = h_concurrent h" using session_ok [of ?h0 ks] i(2) by auto
  have "?st = \<lparr>st_cql = c_str cql, st_page_size = Some pageSize, st_paging_state = next_state r\<rparr>"
    using i(6,7) by (simp add: next_state_def)
  then obtain w2 where x: "drv_execute drv s ?st (h_world h1) = (CASS_OK, pg (next_state r), w2)"
    using executes by metis
  obtain j m w3 where v2: "vessel_save drv cql (new_page_info ?st (pg (next_state r))) m0 w2 = (LCT_SUCCESS, m, w3)"
    "m cql = Some j" "pi_result j = pg (next_state r)" "t0 \<le> pi_timestamp j" "pi_statement j = ?st"
    using save_page by blast
  show ?thesis using i v s x v2 paging_state
    by (auto simp: pageQuery_def queryRestPage_def Let_def page_rows_collect waiting_at_def vessel_remove_def)
qed

lemma rest_pages:
  assumes "waiting_at cql pageSize t0 r h" "pages_end (pages pg k (next_state r))"
  shows "\<exists>h'. rest_calls drv ks cql pageSize (Suc k) a h
       = Inr (LCT_SUCCESS, a @ concat (map res_rows (pages pg k (next_state r))), h') \<and> h_vessel h' cql = None"
  using assms
proof (induction k arbitrary: r h a)
  case 0
  then show ?case using next_page [OF 0(1), of ks a] by auto
next
  case (Suc k)
  have more: "res_more_pages (pg (next_state r))" and e: "pages_end (pages pg k (next_state (pg (next_state r))))"
    using Suc.prems(2) by (simp_all only: pages_end_Cons)
  obtain h1 where h1: "pageQuery drv ks cql False pageSize collect a h
       = Inr (LCT_SUCCESS, a @ res_rows (pg (next_state r)), h1)" "waiting_at cql pageSize t0 (pg (next_state r)) h1"
    using next_page [OF Suc.prems(1), of ks a] more by auto
  show ?case using Suc.IH [OF h1(2) e, of "a @ res_rows (pg (next_state r))"] h1(1) by auto
qed

lemma all_rows:
  assumes "h_ready h" "h_pool h \<noteq> None" "h_concurrent h < h_limit h" "h_vessel h cql = None" "pages_end (pages pg k None)"
  shows "\<exists>h'. all_pages drv ks cql pageSize k h
       = Inr (LCT_SUCCESS, concat (map res_rows (pages pg k None)), h') \<and> h_vessel h' cql = None"
proof (cases k)
  case 0
  then show ?thesis using first_page [OF assms(1-3), of ks] assms(4,5) by (auto simp: all_pages_def)
next
  case (Suc j)
  have more: "res_more_pages (pg None)" and e: "pages_end (pages pg j (next_state (pg None)))"
    using assms(5) unfolding Suc by (simp_all only: pages_end_Cons)
  obtain h1 where h1: "pageQuery drv ks cql True pageSize collect [] h = Inr (LCT_SUCCESS, res_rows (pg None), h1)"
    "waiting_at cql pageSize t0 (pg None) h1" using first_page [OF assms(1-3), of ks] more by auto
  show ?thesis using rest_pages [OF h1(2) e, of ks "res_rows (pg None)"] h1(1) Suc by (auto simp: all_pages_def)
qed

end

text \<open>
  C10: on a ready helper with room below its request limit and no paging state for the query, the first page and the rest, asked
  for as often as there are pages, deliver all rows of all pages in order, every call
  succeeding, and the paging state is gone afterwards.
\<close>

theorem paging_delivers_all_rows:
  assumes "paged_query drv cql pageSize pg t0" "h_ready h" "h_pool h \<noteq> None" "h_concurrent h < h_limit h" "h_vessel h cql = None"
    "pages_end (pages pg k None)"
  shows "\<exists>h'. all_pages drv ks cql pageSize k h
       = Inr (LCT_SUCCESS, concat (map res_rows (pages pg k None)), h') \<and> h_vessel h' cql = None"
  by (rule paged_query.all_rows [OF assms])

end
