(* ===== verification/Cass_Reference.thy ===== *)
theory Cass_Reference
  imports Cass_Batch_Correct Cass_Page_Correct
begin

text \<open>
  Two reference servers for the driver parameter, on which the interfaces of the Cassandra
  helper are interpreted and its theorems applied: one executes statements on a table and can
  be scripted to fail, the other serves one fixed result in pages.
\<close>

section \<open>A scripted server\<close>

text \<open>
  \<open>rw_script\<close> holds the outcomes of the calls to come (success once it is used up), \<open>rw_ticks\<close>
  the days that pass at each reading of the clock.
\<close>

record 'tbl ref_world =
  rw_log :: "string list list"
  rw_now :: int
  rw_script :: "cass_error list"
  rw_table :: 'tbl
  rw_day :: nat
  rw_ticks :: "nat list"

definition ref_world_of :: "'tbl \<Rightarrow> cass_error list \<Rightarrow> nat list \<Rightarrow> 'tbl ref_world" where
  "ref_world_of t script ticks = \<lparr>rw_log = [], rw_now = 0, rw_script = script, rw_table = t, rw_day = 0,
     rw_ticks = ticks\<rparr>"

definition next_outcome :: "'tbl ref_world \<Rightarrow> cass_error \<times> 'tbl ref_world" where
  "next_outcome w = (case rw_script w of [] \<Rightarrow> (CASS_OK, w) | e # es \<Rightarrow> (e, w\<lparr>rw_script := es\<rparr>))"

definition no_result :: "('r, nat) cass_result" where
  "no_result = \<lparr>res_rows = [], res_more_pages = False, res_paging_state = 0\<rparr>"

type_synonym ('r, 'tbl) cql_exec = "string \<Rightarrow> 'tbl \<Rightarrow> ('r list \<times> 'tbl) option"

definition ref_execute ::
    "('r, 'tbl) cql_exec \<Rightarrow> string \<Rightarrow> 'tbl ref_world \<Rightarrow> cass_error \<times> ('r, nat) cass_result \<times> 'tbl ref_world" where
  "ref_execute exec cql w =
     (case next_outcome w of (e, w1) \<Rightarrow>
        if e \<noteq> CASS_OK then (e, no_result, w1)
        else (case exec cql (rw_table w1) of
                None \<Rightarrow> (CASS_ERROR_SERVER_INVALID_QUERY, no_result, w1)
              | Some (rows, t) \<Rightarrow> (CASS_OK, no_result\<lparr>res_rows := rows\<rparr>,
                  w1\<lparr>rw_table := t, rw_log := rw_log w1 @ [[cql]]\<rparr>)))"

fun run_batch :: "('r, 'tbl) cql_exec \<Rightarrow> string list \<Rightarrow> 'tbl \<Rightarrow> 'tbl option" where
  "run_batch exec [] t = Some t"
| "run_batch exec (c # cs) t = (case exec c t of None \<Rightarrow> None | Some (rows, t1) \<Rightarrow> run_batch exec cs t1)"

definition ref_execute_batch ::
    "('r, 'tbl) cql_exec \<Rightarrow> string list \<Rightarrow> 'tbl ref_world \<Rightarrow> cass_error \<times> 'tbl ref_world" where
  "ref_execute_batch exec b w =
     (case next_outcome w of (e, w1) \<Rightarrow>
        if e \<noteq> CASS_OK then (e, w1)
        else (case run_batch exec b (rw_table w1) of
                None \<Rightarrow> (CASS_ERROR_SERVER_INVALID_QUERY, w1)
              | Some t \<Rightarrow> (CASS_OK, w1\<lparr>rw_table := t, rw_log := rw_log w1 @ [b]\<rparr>)))"

definition ref_driver ::
    "('r, 'tbl) cql_exec \<Rightarrow> (unit, cass_error \<times> ('r, nat) cass_result, 'r, nat, 'tbl ref_world) cass_driver" where
  "ref_driver exec =
     \<lparr>drv_connect = \<lambda>cl w. (CASS_OK, (), w),
      drv_execute = \<lambda>s st w. ref_execute exec (st_cql st) w,
      drv_execute_async = \<lambda>s st w. (case ref_execute exec (st_cql st) w of (e, r, w1) \<Rightarrow> ((e, r), w1)),
      drv_wait_timed = \<lambda>f w. (True, w),
      drv_future_result = \<lambda>f w. f,
      drv_batch_add = \<lambda>b c. CASS_OK,
      drv_execute_batch = \<lambda>s b w. ref_execute_batch exec b w,
      drv_set_paging_size = \<lambda>n. CASS_OK,
      drv_set_paging_state = \<lambda>p. CASS_OK,
      drv_now_millis = \<lambda>w. (rw_now w, w)\<rparr>"

lemma next_outcome_keeps:
  "next_outcome w = (e, w1) \<Longrightarrow> rw_log w1 = rw_log w \<and> rw_table w1 = rw_table w \<and> rw_day w1 = rw_day w
     \<and> rw_ticks w1 = rw_ticks w"
  by (auto simp: next_outcome_def split: list.splits)

interpretation ref: recording_driver "ref_driver exec" rw_log for exec :: "('r, 'tbl) cql_exec"
proof unfold_locales
  fix cl e s and w w' :: "'tbl ref_world"
  assume "drv_connect (ref_driver exec) cl w = (e, s, w')"
  then show "rw_log w' = rw_log w" by (simp add: ref_driver_def)
next
  fix s st e r and w w' :: "'tbl ref_world"
  assume "drv_execute (ref_driver exec) s st w = (e, r, w')"
  then show "rw_log w' = (if e = CASS_OK then rw_log w @ [[st_cql st]] else rw_log w)"
    by (auto simp: ref_driver_def ref_execute_def split: prod.splits option.splits if_splits
        dest!: next_outcome_keeps)
next
  fix s b e and w w' :: "'tbl ref_world"
  assume "drv_execute_batch (ref_driver exec) s b w = (e, w')"
  then show "rw_log w' = (if e = CASS_OK then rw_log w @ [b] else rw_log w)"
    by (auto simp: ref_driver_def ref_execute_batch_def split: prod.splits option.splits if_splits
        dest!: next_outcome_keeps)
qed

text \<open>A server that accepts every statement.\<close>

definition accept_all :: "(unit, unit) cql_exec" where
  "accept_all cql t = Some ([], ())"

definition ready_helper :: "'w \<Rightarrow> (unit, 'r, nat, 'w) cass_helper" where
  "ready_helper w = snd (helper_init 9042 ''db'' (new_cass_helper w))"

lemma ready_helper_ok: "helper_ok (ready_helper w)" "h_chunk (ready_helper w) = 51200"
    "h_world (ready_helper w) = w" "h_ready (ready_helper w)" "h_pool (ready_helper w) \<noteq> None"
    "h_vessel (ready_helper w) = Map.empty" "h_concurrent (ready_helper w) < h_limit (ready_helper w)"
  by (simp_all add: ready_helper_def helper_init_def new_cass_helper_def helper_ok_def Let_def
        CASSANDRA_BATCH_CHUNK_DEFAULT_SIZE_def CASSANDRA_MAX_LIMIT_DEFAULT_SIZE_def)

text \<open>The batch theorem at three statements.\<close>

theorem batchExec_executes_in_order_witness:
  "\<exists>e h' G k. batchExec (ref_driver accept_all) ''ks'' [''abc'', ''de'', ''f'']
       (ready_helper (ref_world_of () [] [])) = Inr (e, h')
     \<and> rw_log (h_world h') = G \<and> concat G = take k [''abc'', ''de'', ''f'']"
  using batchExec_executes_in_order [OF ref.recording_driver_axioms,
      of "ready_helper (ref_world_of () [] [])" "[''abc'', ''de'', ''f'']" accept_all "''ks''"]
  by (simp add: plain_cql_def ready_helper_ok) (auto simp: ref_world_of_def)

text \<open>The session theorem on a fresh pool.\<close>

theorem session_is_pooled_witness:
  "\<exists>p'. pool_session (ref_driver accept_all) ''ks'' (new_conn_pool 9042 ''db'') (ref_world_of () [] [])
       = (LCT_SUCCESS, Some (), p', ref_world_of () [] []) \<and> conn_pool_inv p'"
proof -
  have inv: "conn_pool_inv (new_conn_pool 9042 ''db'' :: unit conn_pool)"
    by (simp add: conn_pool_inv_def new_conn_pool_def)
  obtain p' where p: "pool_session (ref_driver accept_all) ''ks'' (new_conn_pool 9042 ''db'')
      (ref_world_of () [] []) = (LCT_SUCCESS, Some (), p', ref_world_of () [] [])"
    by (simp add: pool_session_cases new_conn_pool_def ref_driver_def Let_def)
  have "conn_pool_inv p'" using session_is_pooled [OF inv p] by blast
  then show ?thesis using p by blast
qed

section \<open>A server of pages\<close>

definition page_of :: "'r list \<Rightarrow> nat \<Rightarrow> nat option \<Rightarrow> ('r, nat) cass_result" where
  "page_of rows n ps =
     (let off = (case ps of None \<Rightarrow> 0 | Some p \<Rightarrow> p)
      in \<lparr>res_rows = take n (drop off rows), res_more_pages = off + n < length rows, res_paging_state = off + n\<rparr>)"

definition page_server :: "'r list \<Rightarrow> nat \<Rightarrow> (unit, unit, 'r, nat, unit) cass_driver" where
  "page_server rows n =
     \<lparr>drv_connect = \<lambda>cl w. (CASS_OK, (), w),
      drv_execute = \<lambda>s st w. (CASS_OK, page_of rows n (st_paging_state st), w),
      drv_execute_async = \<lambda>s st w. ((), w),
      drv_wait_timed = \<lambda>f w. (True, w),
      drv_future_result = \<lambda>f w. (CASS_OK, page_of rows n None),
      drv_batch_add = \<lambda>b c. CASS_OK,
      drv_execute_batch = \<lambda>s b w. (CASS_OK, w),
      drv_set_paging_size = \<lambda>n. CASS_OK,
      drv_set_paging_state = \<lambda>p. CASS_OK,
      drv_now_millis = \<lambda>w. (0, w)\<rparr>"

interpretation ps: paged_query "page_server rows n" cql "int n" "page_of rows n" 0 for rows n cql
  by unfold_locales (auto simp: page_server_def PAGE_STATE_OBSOLETE_DURATION_def)

theorem paging_delivers_all_rows_witness:
  "\<exists>h'. all_pages (page_server [10, 20, 30, 40, 50::nat] 2) ''ks'' ''q'' 2 2 (ready_helper ())
     = Inr (LCT_SUCCESS, [10, 20, 30, 40, 50], h')"
proof -
  have e: "pages_end (pages (page_of [10, 20, 30, 40, 50::nat] 2) 2 None)"
    and r: "concat (map res_rows (pages (page_of [10, 20, 30, 40, 50::nat] 2) 2 None)) = [10, 20, 30, 40, 50]"
    by (simp_all add: numeral_2_eq_2 page_of_def next_state_def)
  show ?thesis
    using paging_delivers_all_rows [OF ps.paged_query_axioms [where rows = "[10, 20, 30, 40, 50::nat]"
          and n = 2 and cql = "''q''"] ready_helper_ok(4) [of "()"] ready_helper_ok(5) [of "()"] ready_helper_ok(7) [of "()"] _ e,
        where ks = "''ks''"] r by (simp add: ready_helper_ok(6)) blast
qed

end
