(* ===== verification/Id_Data_Source.thy ===== *)
theory Id_Data_Source
  imports Id_Engine_Correct Cass_Reference
begin

text \<open>
  \<open>service/lct_id_service/id_data_source.h/.cpp\<close>: the CQL the id service sends through the
  Cassandra helper, and the engine's environment made of it.  A column that is null in the
  database leaves the variable it is read into at its initial 0 (the driver reports the null
  by a code nobody looks at).  The second half interprets the engine's locales on these
  operations, over the scripted reference server holding the id table.
\<close>

section \<open>The data source\<close>

record sid_data_source =
  ds_dbPort :: int
  ds_dbHosts :: string
  ds_keyspace :: string
  ds_idTable :: string

definition new_data_source :: sid_data_source where
  "new_data_source = \<lparr>ds_dbPort = 0, ds_dbHosts = [], ds_keyspace = [], ds_idTable = []\<rparr>"

record id_row =
  col_id_max :: "int option"
  col_seed_step :: "int option"
  col_prealloc_valve :: "int option"
  col_prealloc_size :: "int option"
  col_prealloc_time :: "string option"

definition data_source_init ::
    "int \<Rightarrow> string \<Rightarrow> string \<Rightarrow> string \<Rightarrow> sid_data_source \<Rightarrow> ('s, 'r, 'p, 'w) cass_helper
       \<Rightarrow> lct_err \<times> sid_data_source \<times> ('s, 'r, 'p, 'w) cass_helper" where
  "data_source_init dbPort dbHosts keyspace idTable ds h =
     (let ds1 = ds\<lparr>ds_keyspace := keyspace, ds_dbPort := dbPort, ds_dbHosts := dbHosts, ds_idTable := idTable\<rparr>
      in case helper_init dbPort dbHosts h of (errCode, h1) \<Rightarrow> (errCode, ds1, h1))"

definition data_source_close ::
    "('s, 'r, 'p, 'w) cass_helper \<Rightarrow> (lct_err \<times> ('s, 'r, 'p, 'w) cass_helper) res" where
  "data_source_close h = helper_close h"

definition id_select_cql :: "sid_data_source \<Rightarrow> int \<Rightarrow> seed_type \<Rightarrow> string" where
  "id_select_cql ds seedId seedType =
     '' SELECT id_max, seed_step, prealloc_valve, prealloc_size, prealloc_time ''
     @ '' FROM '' @ ds_keyspace ds @ ''.'' @ ds_idTable ds
     @ '' WHERE seed_id = '' @ to_string seedId
     @ '' AND seed_type = '' @ to_string (seed_type_val seedType)"

definition id_update_cql :: "sid_data_source \<Rightarrow> int \<Rightarrow> seed_type \<Rightarrow> engine_info \<Rightarrow> string" where
  "id_update_cql ds seedId seedType info =
     '' UPDATE '' @ ds_keyspace ds @ ''.'' @ ds_idTable ds @ '' SET ''
     @ '' prealloc_valve =  '' @ to_string (PreallocValve info) @ '' , ''
     @ '' prealloc_time  = '' @ [CHR 0x27] @ DayStamp info @ [CHR 0x27] @ ''  ''
     @ '' WHERE seed_id  =  '' @ to_string seedId
     @ '' AND seed_type  = '' @ to_string (seed_type_val seedType)"

text \<open>The row callback of \<open>query\<close>.\<close>

definition read_id_row :: "id_row \<Rightarrow> engine_info \<Rightarrow> engine_info" where
  "read_id_row row info =
     (let col = (\<lambda>c. case c of Some v \<Rightarrow> v | None \<Rightarrow> (0::int))
      in info\<lparr>Max_id := col (col_id_max row), Step := col (col_seed_step row),
              PreallocValve := col (col_prealloc_valve row), PreallocSize := col (col_prealloc_size row),
              DayStamp := (case col_prealloc_time row of Some s \<Rightarrow> s | None \<Rightarrow> [])\<rparr>)"

definition data_source_query ::
    "('s, 'f, id_row, 'p, 'w) cass_driver \<Rightarrow> sid_data_source \<Rightarrow> int \<Rightarrow> seed_type \<Rightarrow> engine_info
       \<Rightarrow> ('s, id_row, 'p, 'w) cass_helper
       \<Rightarrow> (lct_err \<times> engine_info \<times> ('s, id_row, 'p, 'w) cass_helper) res" where
  "data_source_query drv ds seedId seedType info h =
     cass_query drv (ds_keyspace ds) (id_select_cql ds seedId seedType) read_id_row info h"

definition data_source_persist ::
    "('s, 'f, id_row, 'p, 'w) cass_driver \<Rightarrow> sid_data_source \<Rightarrow> int \<Rightarrow> seed_type \<Rightarrow> engine_info
       \<Rightarrow> ('s, id_row, 'p, 'w) cass_helper \<Rightarrow> (lct_err \<times> ('s, id_row, 'p, 'w) cass_helper) res" where
  "data_source_persist drv ds seedId seedType info h =
     cass_update drv (ds_keyspace ds) (id_update_cql ds seedId seedType info) h"

text \<open>
  The environment of the engines.  The helper only faults when it is ready without a pool, which
  \<open>init\<close> excludes, or has no room for the call below its limit, which does not happen while the
  service makes one call at a time: its helper starts with a limit of 20, and nobody but \<open>init\<close>
  changes it (\<open>pool_ready\<close> in \<open>Id_Service_Correct\<close> is kept by every call).  The engine's view of
  these cases is an error code.
\<close>

definition sid_env ::
    "('s, 'f, id_row, 'p, 'w) cass_driver \<Rightarrow> ('w \<Rightarrow> string \<times> 'w) \<Rightarrow> sid_data_source
       \<Rightarrow> ('s, id_row, 'p, 'w) cass_helper id_env" where
  "sid_env drv clock ds =
     \<lparr>now_day = (\<lambda>h. case clock (h_world h) of (d, w) \<Rightarrow> (d, h\<lparr>h_world := w\<rparr>)),
      ds_query = (\<lambda>s t info h. case data_source_query drv ds s t info h of
         Inr x \<Rightarrow> x | Inl _ \<Rightarrow> (LCT_UNEXPECTED, info, h)),
      ds_persist = (\<lambda>s t info h. case data_source_persist drv ds s t info h of
         Inr x \<Rightarrow> x | Inl _ \<Rightarrow> (LCT_UNEXPECTED, h))\<rparr>"

lemma data_source_no_fault:
  assumes "h_ready h \<longrightarrow> h_pool h \<noteq> None \<and> h_concurrent h < h_limit h"
  shows "res_ok (data_source_query drv ds s t info h)" "res_ok (data_source_persist drv ds s t info h)"
proof -
  have "res_ok (helper_execute drv ks cql h)
     \<and> (\<forall>e r h1. helper_execute drv ks cql h = Inr (e, r, h1) \<longrightarrow> e = LCT_SUCCESS \<longrightarrow> r \<noteq> None)" for ks cql
  proof (cases "h_ready h")
    case True
    then obtain p where p: "h_pool h = Some p" "CassAutoFlowControl h = Inr ()" using assms by auto
    obtain e so p1 w1 where q: "pool_session drv ks p (h_world h) = (e, so, p1, w1)" by (metis prod_cases4)
    show ?thesis
    proof (cases so)
      case None
      then have "e \<noteq> LCT_SUCCESS" using q
        by (cases "m_sessionMap p ks") (auto simp: pool_session_cases Let_def split: prod.splits if_splits)
      then show ?thesis using None p q True by (auto simp: helper_execute_def get_session_def)
    next
      case (Some x)
      then show ?thesis using p q True
        by (auto simp: helper_execute_def get_session_def Let_def split: prod.splits)
    qed
  qed (simp add: helper_execute_def)
  note x = this
  show "res_ok (data_source_query drv ds s t info h)"
    using x [of "ds_keyspace ds" "id_select_cql ds s t"]
    by (auto simp: data_source_query_def cass_query_def res_ok_def)
  show "res_ok (data_source_persist drv ds s t info h)"
    using x [of "ds_keyspace ds" "id_update_cql ds s t info"]
    by (auto simp: data_source_persist_def cass_update_def res_ok_def)
qed

section \<open>Reading the statements back\<close>

text \<open>The words of a text, separated by spaces; \<open>w\<close> is the word begun.\<close>

fun words_from :: "string \<Rightarrow> string \<Rightarrow> string list" where
  "words_from w [] = (if w = [] then [] else [w])"
| "words_from w (c # s) =
     (if c = CHR '' '' then (if w = [] then words_from [] s else w # words_from [] s)
      else words_from (w @ [c]) s)"

lemma words_from_clean: "CHR '' '' \<notin> set a \<Longrightarrow> words_from w (a @ s) = words_from (w @ a) s"
  by (induction a arbitrary: w) auto

definition clean_word :: "string \<Rightarrow> bool" where
  "clean_word s \<longleftrightarrow> CHR '' '' \<notin> set s \<and> CHR 0x00 \<notin> set s"

lemma clean_to_string: "clean_word (to_string k)"
proof -
  have "\<forall>c \<in> set (show_nat n). c \<noteq> CHR '' '' \<and> c \<noteq> CHR 0x00" for n
    using show_nat_digits [of n] by (auto simp: is_digit_def)
  then show ?thesis by (auto simp: clean_word_def to_string_def)
qed

lemma to_string_nonempty [simp]: "to_string k \<noteq> []"
  by (simp add: to_string_def)

lemma c_str_append_clean: "CHR 0x00 \<notin> set a \<Longrightarrow> c_str (a @ b) = a @ c_str b"
  by (induction a) (auto simp: c_str_def)

lemma c_str_id: "CHR 0x00 \<notin> set a \<Longrightarrow> c_str a = a"
  using c_str_append_clean [of a "[]"] by (simp add: c_str_def)

definition plain_source :: "sid_data_source \<Rightarrow> bool" where
  "plain_source ds \<longleftrightarrow> clean_word (ds_keyspace ds) \<and> clean_word (ds_idTable ds)"

definition select_words :: "sid_data_source \<Rightarrow> int \<Rightarrow> seed_type \<Rightarrow> string list" where
  "select_words ds s t =
     [''SELECT'', ''id_max,'', ''seed_step,'', ''prealloc_valve,'', ''prealloc_size,'', ''prealloc_time'', ''FROM'',
      ds_keyspace ds @ ''.'' @ ds_idTable ds, ''WHERE'', ''seed_id'', ''='', to_string s, ''AND'', ''seed_type'',
      ''='', to_string (seed_type_val t)]"

definition update_words :: "sid_data_source \<Rightarrow> int \<Rightarrow> seed_type \<Rightarrow> engine_info \<Rightarrow> string list" where
  "update_words ds s t info =
     [''UPDATE'', ds_keyspace ds @ ''.'' @ ds_idTable ds, ''SET'', ''prealloc_valve'', ''='',
      to_string (PreallocValve info), '','', ''prealloc_time'', ''='',
      [CHR 0x27] @ DayStamp info @ [CHR 0x27], ''WHERE'', ''seed_id'', ''='', to_string s, ''AND'', ''seed_type'',
      ''='', to_string (seed_type_val t)]"

lemma words_select:
  assumes "plain_source ds"
  shows "words_from [] (c_str (id_select_cql ds s t)) = select_words ds s t"
proof -
  have c: "CHR '' '' \<notin> set (ds_keyspace ds)" "CHR '' '' \<notin> set (ds_idTable ds)"
    "CHR 0x00 \<notin> set (ds_keyspace ds)" "CHR 0x00 \<notin> set (ds_idTable ds)"
    "CHR '' '' \<notin> set (to_string k)" "CHR 0x00 \<notin> set (to_string k)" for k
    using assms clean_to_string by (auto simp: plain_source_def clean_word_def)
  have "c_str (id_select_cql ds s t) = id_select_cql ds s t"
    by (rule c_str_id) (simp add: id_select_cql_def c)
  moreover have "words_from w (to_string k) = words_from (w @ to_string k) []" for w k
    using words_from_clean [of "to_string k" w "[]"] c(5) by simp
  ultimately show ?thesis by (simp add: id_select_cql_def select_words_def words_from_clean c)
qed

lemma words_update:
  assumes "plain_source ds" "clean_word (DayStamp info)"
  shows "words_from [] (c_str (id_update_cql ds s t info)) = update_words ds s t info"
proof -
  have c: "CHR '' '' \<notin> set (ds_keyspace ds)" "CHR '' '' \<notin> set (ds_idTable ds)"
    "CHR 0x00 \<notin> set (ds_keyspace ds)" "CHR 0x00 \<notin> set (ds_idTable ds)"
    "CHR '' '' \<notin> set (to_string k)" "CHR 0x00 \<notin> set (to_string k)"
    "CHR '' '' \<notin> set (DayStamp info)" "CHR 0x00 \<notin> set (DayStamp info)" for k
    using assms clean_to_string by (auto simp: plain_source_def clean_word_def)
  have "c_str (id_update_cql ds s t info) = id_update_cql ds s t info"
    by (rule c_str_id) (simp add: id_update_cql_def c)
  moreover have "words_from w (to_string k) = words_from (w @ to_string k) []" for w k
    using words_from_clean [of "to_string k" w "[]"] c(5) by simp
  ultimately show ?thesis by (simp add: id_update_cql_def update_words_def words_from_clean c)
qed

text \<open>
  The statements determine what they say: over plain keyspace and table names, two updates
  with plain day stamps have the same text only if they save the same valve and day for the
  same seed.
\<close>

theorem update_statement_determines_row:
  assumes "plain_source ds" "clean_word (DayStamp i)" "clean_word (DayStamp j)"
    "id_update_cql ds s t i = id_update_cql ds s' t' j"
  shows "PreallocValve i = PreallocValve j \<and> DayStamp i = DayStamp j \<and> s = s' \<and> t = t'"
proof -
  have inj: "to_string a = to_string b \<longleftrightarrow> a = b" for a b
    by (metis option.inject strtol10_to_string)
  have "update_words ds s t i = update_words ds s' t' j"
    using words_update [OF assms(1,2), of s t] words_update [OF assms(1,3), of s' t'] assms(4) by simp
  then show ?thesis by (simp add: update_words_def inj seed_type_val_inj)
qed

theorem update_statement_determines_row_witness:
  "let ds = new_data_source\<lparr>ds_keyspace := ''ks'', ds_idTable := ''ids''\<rparr>;
       i = new_engine_info\<lparr>PreallocValve := 7, DayStamp := ''171103''\<rparr>
   in id_update_cql ds 1001 SEED_TYPE_DAY_SWITCH i = id_update_cql ds 1001 SEED_TYPE_DAY_SWITCH i
     \<and> PreallocValve i = 7"
  using update_statement_determines_row [of "new_data_source\<lparr>ds_keyspace := ''ks'', ds_idTable := ''ids''\<rparr>"
      "new_engine_info\<lparr>PreallocValve := 7, DayStamp := ''171103''\<rparr>"
      "new_engine_info\<lparr>PreallocValve := 7, DayStamp := ''171103''\<rparr>" 1001 SEED_TYPE_DAY_SWITCH 1001 SEED_TYPE_DAY_SWITCH]
  by (simp add: plain_source_def clean_word_def new_data_source_def Let_def)

section \<open>The id table on the reference server\<close>

type_synonym id_tbl = "int \<times> int \<Rightarrow> id_row option"

definition null_row :: id_row where
  "null_row = \<lparr>col_id_max = None, col_seed_step = None, col_prealloc_valve = None,
     col_prealloc_size = None, col_prealloc_time = None\<rparr>"

definition id_exec :: "(id_row, id_tbl) cql_exec" where
  "id_exec cql t =
     (let ws = words_from [] cql in
      if length ws = 16 \<and> ws ! 0 = ''SELECT'' then
        (case (strtol10 (ws ! 11), strtol10 (ws ! 15)) of
           (Some s, Some ty) \<Rightarrow> Some (case t (s, ty) of None \<Rightarrow> [] | Some r \<Rightarrow> [r], t)
         | _ \<Rightarrow> None)
      else if length ws = 18 \<and> ws ! 0 = ''UPDATE'' then
        (case (strtol10 (ws ! 5), strtol10 (ws ! 13), strtol10 (ws ! 17)) of
           (Some v, Some s, Some ty) \<Rightarrow>
             Some ([], t((s, ty) \<mapsto> (case t (s, ty) of None \<Rightarrow> null_row | Some r \<Rightarrow> r)
               \<lparr>col_prealloc_valve := Some v, col_prealloc_time := Some (butlast (tl (ws ! 9)))\<rparr>))
         | _ \<Rightarrow> None)
      else None)"

lemma id_exec_select:
  "plain_source ds \<Longrightarrow> id_exec (c_str (id_select_cql ds s t)) tbl
     = Some (case tbl (s, seed_type_val t) of None \<Rightarrow> [] | Some r \<Rightarrow> [r], tbl)"
  by (simp add: id_exec_def words_select select_words_def strtol10_to_string)

lemma id_exec_update:
  "plain_source ds \<Longrightarrow> clean_word (DayStamp info) \<Longrightarrow> id_exec (c_str (id_update_cql ds s t info)) tbl
     = Some ([], tbl((s, seed_type_val t) \<mapsto> (case tbl (s, seed_type_val t) of None \<Rightarrow> null_row | Some r \<Rightarrow> r)
         \<lparr>col_prealloc_valve := Some (PreallocValve info), col_prealloc_time := Some (DayStamp info)\<rparr>))"
  by (simp add: id_exec_def words_update update_words_def strtol10_to_string)

definition ref_clock :: "'tbl ref_world \<Rightarrow> string \<times> 'tbl ref_world" where
  "ref_clock w = (let w1 = (case rw_ticks w of [] \<Rightarrow> w | n # ns \<Rightarrow> w\<lparr>rw_day := rw_day w + n, rw_ticks := ns\<rparr>)
     in (show_nat (rw_day w1), w1))"

definition ref_source :: sid_data_source where
  "ref_source = \<lparr>ds_dbPort = 9042, ds_dbHosts = ''db'', ds_keyspace = ''ks'', ds_idTable = ''ids''\<rparr>"

definition ref_env :: "(unit, id_row, nat, id_tbl ref_world) cass_helper id_env" where
  "ref_env = sid_env (ref_driver id_exec) ref_clock ref_source"

definition ref_row :: "(unit, id_row, nat, id_tbl ref_world) cass_helper \<Rightarrow> int \<Rightarrow> seed_type \<Rightarrow> int option" where
  "ref_row h s t = (case rw_table (h_world h) (s, seed_type_val t) of None \<Rightarrow> None | Some r \<Rightarrow> col_prealloc_valve r)"

lemma plain_ref_source: "plain_source ref_source"
  by (simp add: plain_source_def ref_source_def clean_word_def)

lemma clean_show_nat: "clean_word (show_nat n)"
  using clean_to_string [of "int n"] by (simp add: to_string_def)

text \<open>A call of the helper on the reference server, in one step.\<close>

lemma ref_helper_execute:
  "helper_execute (ref_driver exec) ks cql h = Inr (e, r, h1) \<Longrightarrow>
     (case (e = LCT_SUCCESS, exec (c_str cql) (rw_table (h_world h))) of
        (True, Some (rows, t)) \<Rightarrow> r = Some (no_result\<lparr>res_rows := rows\<rparr>) \<and> rw_table (h_world h1) = t
      | (True, None) \<Rightarrow> False
      | (False, _) \<Rightarrow> True) \<and> rw_day (h_world h1) = rw_day (h_world h)"
  by (auto simp: helper_execute_def get_session_def pool_session_cases ref_driver_def ref_execute_def
        cass_statement_new_def Let_def CassAutoFlowControl_def
      split: if_splits option.splits prod.splits dest!: next_outcome_keeps)

lemma ref_query:
  assumes "ds_query ref_env s t info c = (e, info', c')"
  shows "rw_day (h_world c') = rw_day (h_world c)"
    "e \<noteq> LCT_SUCCESS \<Longrightarrow> info' = info"
    "e = LCT_SUCCESS \<Longrightarrow> info' = (case rw_table (h_world c) (s, seed_type_val t) of
        None \<Rightarrow> info | Some r \<Rightarrow> read_id_row r info)"
proof -
  let ?cql = "id_select_cql ref_source s t"
  consider (fault) f where "helper_execute (ref_driver id_exec) (ds_keyspace ref_source) ?cql c = Inl f"
    | (ok) e1 r h1 where "helper_execute (ref_driver id_exec) (ds_keyspace ref_source) ?cql c = Inr (e1, r, h1)"
    by (metis prod_cases3 old.sum.exhaust)
  then have "rw_day (h_world c') = rw_day (h_world c) \<and> (e \<noteq> LCT_SUCCESS \<longrightarrow> info' = info)
    \<and> (e = LCT_SUCCESS \<longrightarrow> info' = (case rw_table (h_world c) (s, seed_type_val t) of
        None \<Rightarrow> info | Some r \<Rightarrow> read_id_row r info))"
  proof cases
    case fault
    then show ?thesis using assms
      by (simp add: ref_env_def sid_env_def data_source_query_def cass_query_def)
  next
    case ok
    then show ?thesis using assms ref_helper_execute [OF ok] id_exec_select [OF plain_ref_source, of s t]
      by (auto simp: ref_env_def sid_env_def data_source_query_def cass_query_def
            split: option.splits if_splits)
  qed
  then show "rw_day (h_world c') = rw_day (h_world c)" "e \<noteq> LCT_SUCCESS \<Longrightarrow> info' = info"
    "e = LCT_SUCCESS \<Longrightarrow> info' = (case rw_table (h_world c) (s, seed_type_val t) of
        None \<Rightarrow> info | Some r \<Rightarrow> read_id_row r info)" by simp_all
qed

lemma ref_persist:
  assumes "ds_persist ref_env s t info c = (e, c')"
  shows "rw_day (h_world c') = rw_day (h_world c)"
    "e = LCT_SUCCESS \<Longrightarrow> DayStamp info = show_nat k \<Longrightarrow> ref_row c' s t = Some (PreallocValve info)"
proof -
  let ?cql = "id_update_cql ref_source s t info"
  consider (fault) f where "helper_execute (ref_driver id_exec) (ds_keyspace ref_source) ?cql c = Inl f"
    | (ok) e1 r h1 where "helper_execute (ref_driver id_exec) (ds_keyspace ref_source) ?cql c = Inr (e1, r, h1)"
    by (metis prod_cases3 old.sum.exhaust)
  then have "rw_day (h_world c') = rw_day (h_world c)
    \<and> (e = LCT_SUCCESS \<longrightarrow> DayStamp info = show_nat k \<longrightarrow> ref_row c' s t = Some (PreallocValve info))"
  proof cases
    case fault
    then show ?thesis using assms
      by (simp add: ref_env_def sid_env_def data_source_persist_def cass_update_def)
  next
    case ok
    have "DayStamp info = show_nat k \<Longrightarrow> clean_word (DayStamp info)" using clean_show_nat by simp
    then show ?thesis using assms ref_helper_execute [OF ok] id_exec_update [OF plain_ref_source, of info s t] ok
      by (auto simp: ref_env_def sid_env_def data_source_persist_def cass_update_def ref_row_def
            split: option.splits if_splits)
  qed
  then show "rw_day (h_world c') = rw_day (h_world c)"
    "e = LCT_SUCCESS \<Longrightarrow> DayStamp info = show_nat k \<Longrightarrow> ref_row c' s t = Some (PreallocValve info)" by simp_all
qed

lemma ref_now_day:
  "now_day ref_env c = (d, c') \<Longrightarrow> d = show_nat (rw_day (h_world c')) \<and> rw_day (h_world c) \<le> rw_day (h_world c')
     \<and> ref_row c' = ref_row c"
  by (auto simp: ref_env_def sid_env_def ref_clock_def Let_def ref_row_def fun_eq_iff split: list.splits)

interpretation idt: id_table ref_env "\<lambda>c. rw_day (h_world c)" show_nat ref_row
proof unfold_locales
  show "show_nat i = show_nat j \<longleftrightarrow> i = j" "show_nat i \<noteq> []" for i j by simp_all
next
  fix c d c' assume "now_day ref_env c = (d, c')"
  then show "d = show_nat (rw_day (h_world c')) \<and> rw_day (h_world c) \<le> rw_day (h_world c')"
    "ref_row c' = ref_row c" using ref_now_day by blast+
next
  fix s t info c e c' assume "ds_persist ref_env s t info c = (e, c')"
  then show "rw_day (h_world c) \<le> rw_day (h_world c')" using ref_persist(1) by simp
next
  fix s t info c e info' c' assume "ds_query ref_env s t info c = (e, info', c')"
  then show "rw_day (h_world c) \<le> rw_day (h_world c')" "e \<noteq> LCT_SUCCESS \<Longrightarrow> info' = info"
    using ref_query by simp_all
next
  fix s t info c c' k assume "ds_persist ref_env s t info c = (LCT_SUCCESS, c')" "DayStamp info = show_nat k"
  then show "ref_row c' s t = Some (PreallocValve info)" using ref_persist(2) by blast
next
  fix s t info c info' c' v
  assume "ds_query ref_env s t info c = (LCT_SUCCESS, info', c')" "ref_row c s t = Some v"
  then show "PreallocValve info' = v" using ref_query(3) [of s t info c LCT_SUCCESS info' c']
    by (auto simp: ref_row_def read_id_row_def Let_def split: option.splits)
qed

end
