(* ===== verification/Id_Unique.thy ===== *)
theory Id_Unique
  imports Id_Data_Source
begin

text \<open>
  The properties of the id engine: uniqueness of what it hands out, availability, and the ways
  in which uniqueness across restarts is lost: a query that fails at start, and a valve that
  could not be saved.  Concrete runs use a table in memory as data source.
\<close>

section \<open>A data source in memory\<close>

text \<open>
  \<open>mw_rows\<close> gives step, valve and block size per seed; \<open>mw_script\<close> the codes of the data source
  calls to come, success once it is used up; \<open>mw_ticks\<close> the days passing at each clock reading.
\<close>

record mem_world =
  mw_rows :: "int \<times> seed_type \<Rightarrow> (int \<times> int \<times> int) option"
  mw_script :: "lct_err list"
  mw_day :: nat
  mw_ticks :: "nat list"

definition mem_outcome :: "mem_world \<Rightarrow> lct_err \<times> mem_world" where
  "mem_outcome w = (case mw_script w of [] \<Rightarrow> (LCT_SUCCESS, w) | e # es \<Rightarrow> (e, w\<lparr>mw_script := es\<rparr>))"

definition mem_now :: "mem_world \<Rightarrow> string \<times> mem_world" where
  "mem_now w = (let w1 = (case mw_ticks w of [] \<Rightarrow> w | n # ns \<Rightarrow> w\<lparr>mw_day := mw_day w + n, mw_ticks := ns\<rparr>)
     in (show_nat (mw_day w1), w1))"

definition mem_query :: "int \<Rightarrow> seed_type \<Rightarrow> engine_info \<Rightarrow> mem_world \<Rightarrow> lct_err \<times> engine_info \<times> mem_world" where
  "mem_query s t info w = (case mem_outcome w of (e, w1) \<Rightarrow>
     (e, if e \<noteq> LCT_SUCCESS then info
         else (case mw_rows w (s, t) of None \<Rightarrow> info
               | Some (st, v, sz) \<Rightarrow> info\<lparr>Step := st, PreallocValve := v, PreallocSize := sz\<rparr>), w1))"

definition mem_persist :: "int \<Rightarrow> seed_type \<Rightarrow> engine_info \<Rightarrow> mem_world \<Rightarrow> lct_err \<times> mem_world" where
  "mem_persist s t info w = (case mem_outcome w of (e, w1) \<Rightarrow>
     (e, if e \<noteq> LCT_SUCCESS then w1
         else w1\<lparr>mw_rows := (mw_rows w1)((s, t) \<mapsto>
                (case mw_rows w1 (s, t) of None \<Rightarrow> (0, PreallocValve info, 0) | Some (st, v, sz) \<Rightarrow> (st, PreallocValve info, sz)))\<rparr>))"

definition mem_env :: "mem_world id_env" where
  "mem_env = \<lparr>now_day = mem_now, ds_query = mem_query, ds_persist = mem_persist\<rparr>"

definition mem_row :: "mem_world \<Rightarrow> int \<Rightarrow> seed_type \<Rightarrow> int option" where
  "mem_row w s t = (case mw_rows w (s, t) of None \<Rightarrow> None | Some (st, v, sz) \<Rightarrow> Some v)"

definition mem_start :: "lct_err list \<Rightarrow> nat list \<Rightarrow> mem_world" where
  "mem_start script ticks = \<lparr>mw_rows = [(1001, SEED_TYPE_DAY_SWITCH) \<mapsto> (1, 0, 2)], mw_script = script,
     mw_day = 0, mw_ticks = ticks\<rparr>"

lemma mem_outcome_keeps: "mem_outcome w = (e, w1) \<Longrightarrow> mw_rows w1 = mw_rows w \<and> mw_day w1 = mw_day w"
  by (auto simp: mem_outcome_def split: list.splits)

interpretation mem: id_table mem_env mw_day show_nat mem_row
proof unfold_locales
  show "show_nat i = show_nat j \<longleftrightarrow> i = j" "show_nat i \<noteq> []" for i j by simp_all
qed (auto simp: mem_env_def mem_now_def mem_persist_def mem_query_def mem_row_def Let_def fun_eq_iff
      split: list.splits prod.splits option.splits if_splits dest!: mem_outcome_keeps)

lemma show_nat_0: "show_nat 0 = ''0''"
  by code_simp

lemma spawn_run_numeral:
  "spawn_run env (numeral k) g c =
     (case spawnId env g c of (e, r, g1, c1) \<Rightarrow>
      case spawn_run env (pred_numeral k) g1 c1 of (ids, ok, g2, c2) \<Rightarrow>
        (case r of None \<Rightarrow> ids | Some x \<Rightarrow> x # ids, e = LCT_SUCCESS \<and> ok, g2, c2))"
  unfolding numeral_eq_Suc by (rule spawn_run.simps)

lemmas mem_eval = mem_env_def mem_now_def mem_persist_def mem_query_def mem_outcome_def mem_start_def
  engine_init_def readPersistance_def persist_def daySwitch_def reallocValve_def spawnId_def Let_def
  new_day_switch_engine_def new_engine_info_def to_i64_nonneg show_nat_0 spawn_run_numeral

text \<open>One life of a process with one engine: \<open>init\<close>, then \<open>n\<close> calls.\<close>

definition sid_process ::
    "'c id_env \<Rightarrow> int \<Rightarrow> nat \<Rightarrow> 'c \<Rightarrow> lct_err \<times> (string \<times> int) list \<times> bool \<times> 'c" where
  "sid_process env s n c = (case engine_init env (new_day_switch_engine s) c of (e, g, c1) \<Rightarrow>
     case spawn_run env n g c1 of (ids, ok, g2, c2) \<Rightarrow> (e, ids, ok, c2))"

definition demo_engine :: "int \<Rightarrow> int \<Rightarrow> sid_engine" where
  "demo_engine v cur = \<lparr>m_seedType = SEED_TYPE_DAY_SWITCH, m_seedId = 1001, m_engineInfo =
     \<lparr>Step = 1, PreallocSize = 2, Max_id = 9223372036854775807, PreallocValve = v, CurrentId = cur, DayStamp = ''0''\<rparr>\<rparr>"

lemma demo_engine_ok: "engine_wf (demo_engine 2 0)" "engine_room (demo_engine 2 0) 5"
    "engine_wf (demo_engine 4 2)" "engine_room (demo_engine 4 2) 5" "engine_tight (demo_engine 2 0)"
    "DayStamp (m_engineInfo (demo_engine v cur)) = show_nat 0"
  by (simp_all add: demo_engine_def engine_wf_def engine_room_def engine_tight_def show_nat_0)

section \<open>Uniqueness\<close>

text \<open>
  C1: within one life of the process, whatever the data source answers, successive calls never
  hand out the same pair of date and number, across changes of the day.
\<close>

theorem ids_unique:
  assumes "day_clock env idx day" "engine_wf g" "engine_room g n"
    "DayStamp (m_engineInfo g) = day k" "k \<le> idx c" "spawn_run env n g c = (ids, ok, g1, c1)"
  shows "distinct ids"
  using day_clock.spawn_run_fresh [OF assms(1,6,2,3,5), of "[]"] assms(4) by (simp add: issued_ok_def)

theorem ids_unique_witness:
  "\<exists>ids ok g1 c1. spawn_run mem_env 5 (demo_engine 2 0) (mem_start [] [0, 0, 1]) = (ids, ok, g1, c1)
     \<and> distinct ids"
proof -
  obtain ids ok g1 c1 where
    r: "spawn_run mem_env 5 (demo_engine 2 0) (mem_start [] [0, 0, 1]) = (ids, ok, g1, c1)"
    by (metis prod_cases4)
  have "distinct ids"
    by (rule ids_unique [OF mem.day_clock_axioms demo_engine_ok(1,2) demo_engine_ok(6) _ r]) simp
  then show ?thesis using r by blast
qed



text \<open>
  C14: with saves that succeed, a step no larger than the preallocated block and a counter at most
  one step past the valve, every one of \<open>n\<close> calls succeeds with an id.
\<close>

theorem spawn_run_succeeds:
  assumes "\<And>s t info c. fst (ds_persist env s t info c) = LCT_SUCCESS" "engine_tight g" "engine_room g n"
    "spawn_run env n g c = (ids, ok, g1, c1)"
  shows "ok \<and> length ids = n"
  using assms(2-)
proof (induction n arbitrary: g c ids ok)
  case 0
  then show ?case by simp
next
  case (Suc n)
  obtain e r ga ca where s: "spawnId env g c = (e, r, ga, ca)" by (metis prod_cases4)
  obtain ids' ok' gb cb where n: "spawn_run env n ga ca = (ids', ok', gb, cb)" by (metis prod_cases4)
  have "e = LCT_SUCCESS \<and> r \<noteq> None \<and> engine_tight ga \<and> engine_room ga n"
    by (rule spawnId_succeeds [OF assms(1) Suc.prems(1,2) s])
  then show ?case using Suc.IH [of ga ca ids' ok'] Suc.prems(3) s n by auto
qed

theorem spawn_run_succeeds_witness:
  "\<exists>ids g1 c1. spawn_run (mem_env\<lparr>ds_persist := \<lambda>s t i c. (LCT_SUCCESS, c)\<rparr>) 5 (demo_engine 2 0) (mem_start [] [])
       = (ids, True, g1, c1) \<and> length ids = 5"
proof -
  let ?env = "mem_env\<lparr>ds_persist := \<lambda>s t i c. (LCT_SUCCESS, c)\<rparr>"
  obtain ids ok g1 c1 where r: "spawn_run ?env 5 (demo_engine 2 0) (mem_start [] []) = (ids, ok, g1, c1)"
    by (metis prod_cases4)
  have "ok \<and> length ids = 5"
    by (rule spawn_run_succeeds [OF _ demo_engine_ok(5,2) r]) simp
  then show ?thesis using r by auto
qed

section \<open>Where uniqueness is lost\<close>

text \<open>
  A query that fails at start is taken for a fresh table: \<open>init\<close> starts the day at 0 and
  reports success, so a number of the same day handed out before the restart is repeated.
\<close>

theorem failed_query_at_start_repeats_ids:
  "\<exists>w0 w1 w2. sid_process mem_env 1001 1 w0 = (LCT_SUCCESS, [(''0'', 0)], True, w1)
     \<and> sid_process mem_env 1001 1 (w1\<lparr>mw_script := [LCT_FAIL]\<rparr>) = (LCT_SUCCESS, [(''0'', 0)], True, w2)"
proof -
  let ?w1 = "(mem_start [] [])\<lparr>mw_rows := [(1001, SEED_TYPE_DAY_SWITCH) \<mapsto> (1, 2, 2)]\<rparr>"
  have "sid_process mem_env 1001 1 (mem_start [] []) = (LCT_SUCCESS, [(''0'', 0)], True, ?w1)"
    by (simp add: sid_process_def mem_eval)
  moreover have "\<exists>w2. sid_process mem_env 1001 1 (?w1\<lparr>mw_script := [LCT_FAIL]\<rparr>)
      = (LCT_SUCCESS, [(''0'', 0)], True, w2)"
    by (simp add: sid_process_def mem_eval)
  ultimately show ?thesis by blast
qed

text \<open>
  \<open>reallocValve\<close> advances the valve before it is saved and does not take it back when the
  save fails: the next call hands out a number above the saved valve, and the restarted
  process hands it out again.
\<close>

theorem failed_save_repeats_ids:
  "\<exists>w0 w1 w2. sid_process mem_env 1001 4 w0 = (LCT_SUCCESS, [(''0'', 0), (''0'', 1), (''0'', 3)], False, w1)
     \<and> sid_process mem_env 1001 2 w1 = (LCT_SUCCESS, [(''0'', 2), (''0'', 3)], True, w2)"
proof -
  let ?w1 = "(mem_start [] [])\<lparr>mw_rows := [(1001, SEED_TYPE_DAY_SWITCH) \<mapsto> (1, 2, 2)]\<rparr>"
  have "sid_process mem_env 1001 4 (mem_start [LCT_SUCCESS, LCT_SUCCESS, LCT_FAIL] [])
      = (LCT_SUCCESS, [(''0'', 0), (''0'', 1), (''0'', 3)], False, ?w1)"
    by (simp add: sid_process_def mem_eval)
  moreover have "\<exists>w2. sid_process mem_env 1001 2 ?w1 = (LCT_SUCCESS, [(''0'', 2), (''0'', 3)], True, w2)"
    by (simp add: sid_process_def mem_eval)
  ultimately show ?thesis by blast
qed

text \<open>
  Without a row in the table the first start succeeds and its save creates a row that has
  only valve and day; the next start reads step and block size as 0, and no call succeeds.
\<close>

theorem missing_row_blocks_next_start:
  "\<exists>w0 w1 w2. mw_rows w0 = Map.empty \<and> sid_process mem_env 1001 1 w0 = (LCT_SUCCESS, [(''0'', 0)], True, w1)
     \<and> sid_process mem_env 1001 3 w1 = (LCT_SUCCESS, [], False, w2)"
proof -
  let ?w0 = "(mem_start [] [])\<lparr>mw_rows := Map.empty\<rparr>"
  let ?w1 = "?w0\<lparr>mw_rows := [(1001, SEED_TYPE_DAY_SWITCH) \<mapsto> (0, 100, 0)]\<rparr>"
  have "sid_process mem_env 1001 1 ?w0 = (LCT_SUCCESS, [(''0'', 0)], True, ?w1)"
    by (simp add: sid_process_def mem_eval)
  moreover have "\<exists>w2. sid_process mem_env 1001 3 ?w1 = (LCT_SUCCESS, [], False, w2)"
    by (simp add: sid_process_def mem_eval)
  moreover have "mw_rows ?w0 = Map.empty" by simp
  ultimately show ?thesis by blast
qed

end
