(* ===== verification/Id_Threads_Correct.thy ===== *)
theory Id_Threads_Correct
  imports Id_Engine_Threads Id_Unique
begin

text \<open>
  The engine under threads: mutual exclusion of the two critical sections, uniqueness of the
  numbers within a day for any interleaving, agreement of a thread that runs alone with
  \<open>spawnId\<close>, and two interleavings in which the engine breaks its promise.
\<close>

section \<open>Safety\<close>

text \<open>
  C22: no two threads are ever inside the critical sections of \<open>daySwitch\<close> and \<open>reallocValve\<close>.
\<close>

theorem critical_sections_exclude:
  assumes "sid_run env S0 n S" "idle_start S0" "in_lock (ss_pc S t)" "in_lock (ss_pc S u)"
  shows "t = u"
proof -
  have "lock_inv S0" using assms(2) by (simp add: idle_start_def lock_inv_def)
  then have "lock_inv S" using sid_run_lock_inv [OF assms(1)] by blast
  then show ?thesis using assms(3,4) by (auto simp: lock_inv_def)
qed

definition demo_sys :: "int \<Rightarrow> int \<Rightarrow> nat list \<Rightarrow> mem_world sid_sys" where
  "demo_sys v cur ticks = \<lparr>ss_engine = demo_engine v cur, ss_store = (mem_start [] ticks)\<lparr>mw_rows := [(1001, SEED_TYPE_DAY_SWITCH) \<mapsto> (1, v, 2)]\<rparr>, ss_lock = None,
     ss_pc = (\<lambda>t. P_idle), ss_out = []\<rparr>"

lemma demo_sys_idle: "idle_start (demo_sys v cur ticks)"
  by (simp add: demo_sys_def idle_start_def)

lemma sid_schedule_run: "sid_schedule env ts S = Some S' \<Longrightarrow> sid_run env S0 n S \<Longrightarrow> sid_run env S0 (n + length ts) S'"
proof (induction ts arbitrary: S n)
  case (Cons t ts)
  then obtain S1 where S1: "sid_thread_step env t S = Some S1" "sid_schedule env ts S1 = Some S'"
    by (auto split: option.splits)
  show ?case using Cons.IH [OF S1(2) sid_run.step [OF Cons.prems(2) S1(1)]] by simp
qed simp

lemmas sid_eval = sid_thread_step_def goto_def set_info_def info_def demo_sys_def demo_engine_def mem_eval

theorem critical_sections_exclude_witness:
  "\<exists>S. sid_run mem_env (demo_sys 2 2 []) 4 S \<and> in_lock (ss_pc S 0) \<and> (\<forall>u. u \<noteq> 0 \<longrightarrow> \<not> in_lock (ss_pc S u))"
proof -
  obtain S where S: "sid_schedule mem_env [0, 0, 0, 0] (demo_sys 2 2 []) = Some S" "in_lock (ss_pc S 0)"
    by (simp add: sid_eval)
  have r: "sid_run mem_env (demo_sys 2 2 []) 4 S" using sid_schedule_run [OF S(1) sid_run.start] by (simp add: numeral_eq_Suc)
  then show ?thesis using critical_sections_exclude [OF r demo_sys_idle S(2)] S(2) by blast
qed

text \<open>
  As long as the clock stays within one day, no interleaving of any number of threads hands
  out a number twice, whatever the data source answers.
\<close>

theorem threads_unique_within_day:
  assumes "sid_run env S0 n S" "idle_start S0" "same_day env today" "DayStamp (info S0) = today"
    "0 < Step (info S0)" "0 \<le> CurrentId (info S0)" "CurrentId (info S0) + int n * Step (info S0) < 2 ^ 63"
  shows "distinct (ss_out S)"
  using sid_run_unique_inv [OF assms] unique_invD(9) by blast

theorem threads_unique_within_day_witness:
  "\<exists>S. sid_run (mem_env\<lparr>now_day := \<lambda>c. (''0'', c)\<rparr>) (demo_sys 2 0 []) 10 S \<and> ss_out S = [(''0'', 1), (''0'', 0)]
     \<and> distinct (ss_out S)"
proof -
  let ?env = "mem_env\<lparr>now_day := \<lambda>c. (''0'', c)\<rparr>"
  obtain S where S: "sid_schedule ?env [0, 0, 0, 1, 1, 1, 1, 1, 0, 0] (demo_sys 2 0 []) = Some S"
    "ss_out S = [(''0'', 1), (''0'', 0)]" by (simp add: sid_eval)
  have r: "sid_run ?env (demo_sys 2 0 []) 10 S" using sid_schedule_run [OF S(1) sid_run.start] by (simp add: numeral_eq_Suc)
  have "distinct (ss_out S)"
    by (rule threads_unique_within_day [OF r demo_sys_idle, of "''0''"])
       (simp_all add: same_day_def info_def demo_sys_def demo_engine_def)
  then show ?thesis using r S(2) by blast
qed

section \<open>A thread alone is \<open>spawnId\<close>\<close>

text \<open>\<open>k\<close> steps of thread \<open>t\<close>, none of them after the end of its call.\<close>

fun is_done :: "sid_pc \<Rightarrow> bool" where
  "is_done (P_done e r) = True"
| "is_done _ = False"

fun run_call :: "'c id_env \<Rightarrow> nat \<Rightarrow> nat \<Rightarrow> 'c sid_sys \<Rightarrow> 'c sid_sys option" where
  "run_call env t 0 S = Some S"
| "run_call env t (Suc k) S = (if is_done (ss_pc S t) then None
     else case sid_thread_step env t S of None \<Rightarrow> None | Some S1 \<Rightarrow> run_call env t k S1)"

lemma run_call_add:
  "run_call env t (j + k) S = (case run_call env t j S of None \<Rightarrow> None | Some S1 \<Rightarrow> run_call env t k S1)"
  by (induction j arbitrary: S) (auto split: option.splits)

definition solo :: "'c id_env \<Rightarrow> nat \<Rightarrow> 'c sid_sys \<Rightarrow> 'c sid_sys \<Rightarrow> bool" where
  "solo env t S S' \<longleftrightarrow> (\<exists>k. run_call env t k S = Some S')"

lemma solo_trans: "solo env t S S1 \<Longrightarrow> solo env t S1 S2 \<Longrightarrow> solo env t S S2"
  unfolding solo_def using run_call_add by (metis option.simps(5))

lemma solo_then: "solo env t S S1 \<Longrightarrow> \<exists>S'. solo env t S1 S' \<and> P S' \<Longrightarrow> \<exists>S'. solo env t S S' \<and> P S'"
  using solo_trans by metis

definition at_pc :: "nat \<Rightarrow> sid_pc \<Rightarrow> sid_engine \<Rightarrow> 'c \<Rightarrow> 'c sid_sys \<Rightarrow> bool" where
  "at_pc t p g c S \<longleftrightarrow> ss_pc S t = p \<and> ss_engine S = g \<and> ss_store S = c \<and> ss_lock S = None"

lemma solo_day:
  assumes "at_pc t P_idle g c S" "day_checked env g c = (e, g1, c1)"
  shows "\<exists>S'. solo env t S S' \<and> at_pc t (if e = LCT_SUCCESS then P_fetch else P_done e None) g1 c1 S'"
proof -
  obtain d ca where ca: "now_day env c = (d, ca)" by fastforce
  obtain d2 cb where cb: "now_day env ca = (d2, cb)" by fastforce
  obtain d3 cc where cc: "now_day env cb = (d3, cc)" by fastforce
  note st = assms(1) [unfolded at_pc_def]
  consider (same) "d = DayStamp (m_engineInfo g)"
    | (same2) "d \<noteq> DayStamp (m_engineInfo g)" "d2 = DayStamp (m_engineInfo g)"
    | (new) "d \<noteq> DayStamp (m_engineInfo g)" "d2 \<noteq> DayStamp (m_engineInfo g)" by blast
  then show ?thesis
  proof cases
    case same
    then have "\<exists>S'. run_call env t 1 S = Some S'
        \<and> at_pc t (if e = LCT_SUCCESS then P_fetch else P_done e None) g1 c1 S'"
      using assms(2) ca st by (auto simp: day_checked_def sid_thread_step_def info_def goto_def at_pc_def)
    then show ?thesis unfolding solo_def by blast
  next
    case same2
    then have "\<exists>S'. run_call env t 4 S = Some S'
        \<and> at_pc t (if e = LCT_SUCCESS then P_fetch else P_done e None) g1 c1 S'"
      using assms(2) ca cb st
      by (auto simp: day_checked_def daySwitch_def sid_thread_step_def info_def goto_def at_pc_def numeral_eq_Suc)
    then show ?thesis unfolding solo_def by blast
  next
    case new
    let ?g = "g\<lparr>m_engineInfo := (m_engineInfo g)\<lparr>CurrentId := 0, DayStamp := d3,
                PreallocValve := PreallocSize (m_engineInfo g)\<rparr>\<rparr>"
    have p: "persist env ?g cc = (e, c1)" "g1 = ?g"
      using assms(2) ca cb cc new by (auto simp: day_checked_def daySwitch_def Let_def split: prod.splits)
    have "\<exists>S'. run_call env t 8 S = Some S'
        \<and> at_pc t (if e = LCT_SUCCESS then P_fetch else P_done e None) g1 c1 S'"
      using p ca cb cc new st
      by (simp add: sid_thread_step_def info_def goto_def set_info_def at_pc_def numeral_eq_Suc)
    then show ?thesis unfolding solo_def by blast
  qed
qed

lemma solo_realloc:
  assumes "at_pc t (P_realloc_lock n) g c S" "reallocValve env g c = (e, g1, c1)"
  shows "\<exists>S'. solo env t S S' \<and> at_pc t (if e = LCT_SUCCESS then P_retest n else P_done e None) g1 c1 S'"
proof (cases "CurrentId (m_engineInfo g) \<ge> PreallocValve (m_engineInfo g)")
  case True
  let ?g = "g\<lparr>m_engineInfo := (m_engineInfo g)\<lparr>PreallocValve :=
      to_i64 (PreallocValve (m_engineInfo g) + PreallocSize (m_engineInfo g))\<rparr>\<rparr>"
  have p: "persist env ?g c = (e, c1)" "g1 = ?g"
    using assms(2) True by (auto simp: reallocValve_def Let_def split: prod.splits)
  have "\<exists>S'. run_call env t 5 S = Some S'
      \<and> at_pc t (if e = LCT_SUCCESS then P_retest n else P_done e None) g1 c1 S'"
    using p True assms(1)
    by (simp add: sid_thread_step_def info_def goto_def set_info_def at_pc_def numeral_eq_Suc)
  then show ?thesis unfolding solo_def by blast
next
  case False
  then have "\<exists>S'. run_call env t 3 S = Some S'
      \<and> at_pc t (if e = LCT_SUCCESS then P_retest n else P_done e None) g1 c1 S'"
    using assms
    by (simp add: reallocValve_def sid_thread_step_def info_def goto_def at_pc_def numeral_eq_Suc)
  then show ?thesis unfolding solo_def by blast
qed

lemma solo_publish:
  assumes "at_pc t (P_date n) g c S"
  shows "\<exists>S'. solo env t S S' \<and> at_pc t (P_done LCT_SUCCESS (Some (DayStamp (m_engineInfo g), n))) g c S'"
proof -
  have "\<exists>S'. run_call env t 2 S = Some S'
      \<and> at_pc t (P_done LCT_SUCCESS (Some (DayStamp (m_engineInfo g), n))) g c S'"
    using assms by (simp add: sid_thread_step_def info_def goto_def at_pc_def numeral_eq_Suc)
  then show ?thesis unfolding solo_def by blast
qed

lemma solo_take:
  assumes a: "at_pc t P_fetch g c S" and n: "take_number env g c = (e, r, g1, c1)"
  shows "\<exists>S'. solo env t S S' \<and> at_pc t (P_done e r) g1 c1 S'"
proof -
  let ?n = "CurrentId (m_engineInfo g)"
  have "\<exists>S1. run_call env t 2 S = Some S1
      \<and> at_pc t (if ?n < PreallocValve (m_engineInfo g) then P_date ?n else P_realloc_lock ?n) (fetched g) c S1"
    using a by (simp add: sid_thread_step_def info_def goto_def set_info_def at_pc_def numeral_eq_Suc fetched_def)
  then obtain S1 where S1: "solo env t S S1"
    "at_pc t (if ?n < PreallocValve (m_engineInfo g) then P_date ?n else P_realloc_lock ?n) (fetched g) c S1"
    unfolding solo_def by blast
  show ?thesis
  proof (cases "?n < PreallocValve (m_engineInfo g)")
    case True
    then have q: "e = LCT_SUCCESS" "r = Some (DayStamp (m_engineInfo (fetched g)), ?n)" "g1 = fetched g" "c1 = c"
      using n by (auto simp: take_number_def fetched_def)
    have "at_pc t (P_date ?n) (fetched g) c S1" using S1(2) True by simp
    then show ?thesis unfolding q by (intro solo_then [OF S1(1)] solo_publish)
  next
    case False
    obtain e2 g2 c2 where v: "reallocValve env (fetched g) c = (e2, g2, c2)"
      by (cases "reallocValve env (fetched g) c") auto
    have "at_pc t (P_realloc_lock ?n) (fetched g) c S1" using S1(2) False by simp
    then obtain S2 where S2: "solo env t S1 S2"
      "at_pc t (if e2 = LCT_SUCCESS then P_retest ?n else P_done e2 None) g2 c2 S2"
      using solo_realloc [OF _ v] by blast
    have S02: "solo env t S S2" by (rule solo_trans [OF S1(1) S2(1)])
    show ?thesis
    proof (cases "e2 = LCT_SUCCESS")
      case False
      then have "e = e2" "r = None" "g1 = g2" "c1 = c2"
        using n v \<open>\<not> ?n < PreallocValve (m_engineInfo g)\<close> by (auto simp: take_number_def)
      then show ?thesis using S2(2) S02 False by auto
    next
      case True
      have "\<exists>S3. run_call env t 1 S2 = Some S3
          \<and> at_pc t (if ?n < PreallocValve (m_engineInfo g2) then P_date ?n else P_done LCT_FAIL None) g2 c2 S3"
        using S2(2) True by (simp add: sid_thread_step_def info_def goto_def at_pc_def)
      then obtain S3 where S3: "solo env t S2 S3"
        "at_pc t (if ?n < PreallocValve (m_engineInfo g2) then P_date ?n else P_done LCT_FAIL None) g2 c2 S3"
        unfolding solo_def by blast
      have S03: "solo env t S S3" by (rule solo_trans [OF S02 S3(1)])
      show ?thesis
      proof (cases "?n < PreallocValve (m_engineInfo g2)")
        case False
        then have "e = LCT_FAIL" "r = None" "g1 = g2" "c1 = c2"
          using n v True \<open>\<not> ?n < PreallocValve (m_engineInfo g)\<close> by (auto simp: take_number_def)
        then show ?thesis using S3(2) S03 False by auto
      next
        case lt: True
        then have q: "e = LCT_SUCCESS" "r = Some (DayStamp (m_engineInfo g2), ?n)" "g1 = g2" "c1 = c2"
          using n v True \<open>\<not> ?n < PreallocValve (m_engineInfo g)\<close> by (auto simp: take_number_def)
        have "at_pc t (P_date ?n) g2 c2 S3" using S3(2) lt by simp
        then show ?thesis unfolding q by (intro solo_then [OF S03] solo_publish)
      qed
    qed
  qed
qed

text \<open>
  A thread that is not interrupted does exactly one call of \<open>spawnId\<close>: it comes to its end
  with the same result, the same engine and the same store, and the mutex free.
\<close>

lemma thread_alone_is_spawnId:
  assumes "ss_pc S t = P_idle" "ss_lock S = None"
    "spawnId env (ss_engine S) (ss_store S) = (e, r, g1, c1)"
  shows "\<exists>k S'. run_call env t k S = Some S' \<and> ss_pc S' t = P_done e r
     \<and> ss_engine S' = g1 \<and> ss_store S' = c1 \<and> ss_lock S' = None"
proof -
  have a: "at_pc t P_idle (ss_engine S) (ss_store S) S" using assms(1,2) by (simp add: at_pc_def)
  obtain e0 g0 c0 where d: "day_checked env (ss_engine S) (ss_store S) = (e0, g0, c0)"
    by (cases "day_checked env (ss_engine S) (ss_store S)") auto
  obtain S1 where S1: "solo env t S S1" "at_pc t (if e0 = LCT_SUCCESS then P_fetch else P_done e0 None) g0 c0 S1"
    using solo_day [OF a d] by blast
  have "\<exists>S'. solo env t S S' \<and> at_pc t (P_done e r) g1 c1 S'"
  proof (cases "e0 = LCT_SUCCESS")
    case True
    then have n: "take_number env g0 c0 = (e, r, g1, c1)" using assms(3) d by (simp add: spawnId_parts)
    have "at_pc t P_fetch g0 c0 S1" using S1(2) True by simp
    then show ?thesis by (intro solo_then [OF S1(1)] solo_take [OF _ n])
  next
    case False
    then have "e = e0" "r = None" "g1 = g0" "c1 = c0" using assms(3) d by (auto simp: spawnId_parts)
    then show ?thesis using S1 False by auto
  qed
  then show ?thesis unfolding solo_def at_pc_def by blast
qed

section \<open>Two bad interleavings\<close>

text \<open>
  A thread that took its number before the day changed and reads \<open>DayStamp\<close> afterwards
  reports the old number under the new day, where another thread hands it out too.
\<close>

theorem day_switch_race_repeats_id:
  "\<exists>ts S. sid_schedule mem_env ts (demo_sys 2 0 [0, 1]) = Some S \<and> ss_out S = [(show_nat 1, 0), (show_nat 1, 0)]"
proof -
  let ?ts = "[0, 0, 0, 1, 1, 1, 1, 1, 1, 1, 1, 1, 1, 1, 1, 0, 0]"
  have "show_nat 1 \<noteq> ''0''" by (metis show_nat_0 show_nat_inject zero_neq_one)
  then have "\<exists>S. sid_schedule mem_env ?ts (demo_sys 2 0 [0, 1]) = Some S
      \<and> ss_out S = [(show_nat 1, 0), (show_nat 1, 0)]" by (simp add: sid_eval)
  then show ?thesis by blast
qed

text \<open>
  The valve is visible to other threads before it is saved: a thread hands out number 3
  while the table still says that only the numbers below 2 are in use, and a process that
  restarts at this moment will hand out 3 again.
\<close>

theorem valve_visible_before_saved:
  "\<exists>ts S. sid_schedule mem_env ts (demo_sys 2 2 []) = Some S \<and> ss_out S = [(''0'', 3)]
     \<and> mem_row (ss_store S) 1001 SEED_TYPE_DAY_SWITCH = Some 2"
proof -
  let ?ts = "[0, 0, 0, 0, 0, 0, 1, 1, 1, 1, 1]"
  have "\<exists>S. sid_schedule mem_env ?ts (demo_sys 2 2 []) = Some S \<and> ss_out S = [(''0'', 3)]
      \<and> mem_row (ss_store S) 1001 SEED_TYPE_DAY_SWITCH = Some 2" by (simp add: sid_eval mem_row_def)
  then show ?thesis by blast
qed

end
