(* ===== verification/Id_Manager.thy ===== *)
theory Id_Manager
  imports Id_Unique
begin

text \<open>
  \<open>service/lct_id_service/id_manager.h/.hpp\<close> and \<open>id_service.h/.cpp\<close>: the engines by seed, and
  the two remote procedures in front of them.  The environment of the engines is the one of
  \<open>Id_Engine\<close>.  Requests are handled one at a time here; requests served side by side are
  the subject of \<open>Id_Requests\<close>.  Log lines are left out.
\<close>

section \<open>The manager\<close>

text \<open>
  \<open>m_idEngineTuple\<close>: a map from seed to engine for every engine class; the program has one class.
\<close>

type_synonym engine_map = "int \<Rightarrow> sid_engine option"
type_synonym id_manager = "engine_map list"

definition new_id_manager :: id_manager where "new_id_manager = [Map.empty]"

definition appendEngine :: "sid_engine \<Rightarrow> id_manager \<Rightarrow> lct_err \<times> id_manager" where
  "appendEngine idEngine m =
     (LCT_SUCCESS, case m of [] \<Rightarrow> [] | mmap # rest \<Rightarrow> mmap(m_seedId idEngine \<mapsto> idEngine) # rest)"

text \<open>One block of \<open>init\<close>: make an engine, initialise it, append it.\<close>

definition mgr_start_engine :: "'c id_env \<Rightarrow> int \<Rightarrow> id_manager \<Rightarrow> 'c \<Rightarrow> lct_err \<times> id_manager \<times> 'c" where
  "mgr_start_engine env seedId m c =
     (case engine_init env (new_day_switch_engine seedId) c of (errCode, g, c1) \<Rightarrow>
       if LCT_SUCCESS \<noteq> errCode then (errCode, m, c1)
       else case appendEngine g m of (errCode2, m1) \<Rightarrow> (errCode2, m1, c1))"

definition mgr_init :: "'c id_env \<Rightarrow> id_manager \<Rightarrow> 'c \<Rightarrow> lct_err \<times> id_manager \<times> 'c" where
  "mgr_init env m c =
     (case mgr_start_engine env LCT_EVENT_ENGINE_SEED_ID m c of (e1, m1, c1) \<Rightarrow>
       if LCT_SUCCESS \<noteq> e1 then (e1, m1, c1)
       else case mgr_start_engine env LCT_TASKS_ENGINE_SEED_ID m1 c1 of (e2, m2, c2) \<Rightarrow>
         if LCT_SUCCESS \<noteq> e2 then (e2, m2, c2)
         else mgr_start_engine env LCT_MODEL_ENGINE_SEED_ID m2 c2)"

text \<open>The recursion of \<open>fetchId\<close> over the tuple; the engine found keeps its new state.\<close>

fun fetchId_from ::
    "'c id_env \<Rightarrow> int \<Rightarrow> id_manager \<Rightarrow> 'c \<Rightarrow> lct_err \<times> (string \<times> int) option \<times> id_manager \<times> 'c" where
  "fetchId_from env seedId [] c = (LCT_INVALID_BIZ_TYPE, None, [], c)"
| "fetchId_from env seedId (mmap # rest) c =
     (case mmap seedId of
        Some g \<Rightarrow> (case spawnId env g c of (errCode, r, g1, c1) \<Rightarrow> (errCode, r, mmap(seedId \<mapsto> g1) # rest, c1))
      | None \<Rightarrow> (case fetchId_from env seedId rest c of (errCode, r, rest1, c1) \<Rightarrow> (errCode, r, mmap # rest1, c1)))"

definition mgr_fetchId ::
    "'c id_env \<Rightarrow> int \<Rightarrow> id_manager \<Rightarrow> 'c \<Rightarrow> lct_err \<times> (string \<times> int) option \<times> id_manager \<times> 'c" where
  "mgr_fetchId env seedId m c = fetchId_from env seedId m c"

section \<open>The remote procedures\<close>

datatype grpc_status = OK | CANCELLED

text \<open>A response: the id set on it, and the code of its result once one is attached.\<close>

record id_response =
  resp_id :: "(string \<times> int) option"
  resp_code :: "int option"

definition empty_response :: id_response where "empty_response = \<lparr>resp_id = None, resp_code = None\<rparr>"

text \<open>A pointer argument is \<open>None\<close> when it is null.\<close>

definition LoadSeed :: "unit option \<Rightarrow> unit option \<Rightarrow> int option option \<Rightarrow> grpc_status \<times> int option option" where
  "LoadSeed context request response =
     (if context = None then (CANCELLED, response)
      else if request = None then (CANCELLED, response)
      else case response of
        None \<Rightarrow> (CANCELLED, response)
      | Some _ \<Rightarrow> (OK, Some (Some (sint LCT_SUCCESS))))"

definition FetchId ::
    "'c id_env \<Rightarrow> unit option \<Rightarrow> int option \<Rightarrow> id_response option \<Rightarrow> id_manager \<Rightarrow> 'c
       \<Rightarrow> grpc_status \<times> id_response option \<times> id_manager \<times> 'c" where
  "FetchId env context request response m c =
     (case context of
        None \<Rightarrow> (CANCELLED, response, m, c)
      | Some _ \<Rightarrow> (case request of
          None \<Rightarrow> (CANCELLED, response, m, c)
        | Some seedid \<Rightarrow> (case response of
            None \<Rightarrow> (CANCELLED, response, m, c)
          | Some resp \<Rightarrow> (case mgr_fetchId env seedid m c of (errCode, r, m1, c1) \<Rightarrow>
              let resp1 = (case r of None \<Rightarrow> resp | Some x \<Rightarrow> resp\<lparr>resp_id := Some x\<rparr>)
              in (OK, Some (resp1\<lparr>resp_code := Some (sint errCode)\<rparr>), m1, c1)))))"

text \<open>The requests of the clients, one after the other, each with a fresh response.\<close>

fun answer_all :: "'c id_env \<Rightarrow> int list \<Rightarrow> id_manager \<Rightarrow> 'c \<Rightarrow> (int \<times> id_response) list \<times> id_manager \<times> 'c" where
  "answer_all env [] m c = ([], m, c)"
| "answer_all env (seed # seeds) m c =
     (case FetchId env (Some ()) (Some seed) (Some empty_response) m c of (st, resp, m1, c1) \<Rightarrow>
      case answer_all env seeds m1 c1 of (rs, m2, c2) \<Rightarrow>
        (case resp of None \<Rightarrow> rs | Some r \<Rightarrow> (seed, r) # rs, m2, c2))"

section \<open>What the clients get\<close>

text \<open>The ids handed out, with their seeds.\<close>

definition handed :: "(int \<times> id_response) list \<Rightarrow> (int \<times> string \<times> int) list" where
  "handed rs = concat (map (\<lambda>(seed, r). case resp_id r of Some (d, i) \<Rightarrow> [(seed, d, i)] | None \<Rightarrow> []) rs)"

definition ids_of_seed :: "int \<Rightarrow> (int \<times> string \<times> int) list \<Rightarrow> (string \<times> int) list" where
  "ids_of_seed s L = map snd (filter (\<lambda>x. fst x = s) L)"

lemma ids_of_seed_snoc:
  "ids_of_seed s (L @ [(s', x)]) = (if s = s' then ids_of_seed s L @ [x] else ids_of_seed s L)"
  by (auto simp: ids_of_seed_def)

lemma distinct_by_seed: "x \<notin> set (ids_of_seed s L) \<Longrightarrow> (s, x) \<notin> set L"
  by (force simp: ids_of_seed_def)

definition engines_wf :: "nat \<Rightarrow> id_manager \<Rightarrow> bool" where
  "engines_wf n m \<longleftrightarrow> (\<forall>mmap \<in> set m. \<forall>g \<in> ran mmap. engine_wf g \<and> engine_room g n)"

lemma engine_room_less: "engine_wf g \<Longrightarrow> engine_room g (Suc n) \<Longrightarrow> engine_room g n"
  by (auto simp: engine_room_def engine_wf_def algebra_simps)

text \<open>Success, and only success, comes with an id.\<close>

lemma take_number_result: "take_number env g c = (e, r, g1, c1) \<Longrightarrow> e = LCT_SUCCESS \<longleftrightarrow> r \<noteq> None"
  by (auto simp: take_number_def split: if_splits prod.splits)

lemma spawnId_result:
  assumes "spawnId env g c = (e, r, g1, c1)"
  shows "e = LCT_SUCCESS \<longleftrightarrow> r \<noteq> None"
proof -
  obtain e0 g0 c0 where "day_checked env g c = (e0, g0, c0)" by (metis prod_cases3)
  then show ?thesis
    using assms take_number_result [of env g0 c0 e r g1 c1] by (simp add: spawnId_parts split: if_splits)
qed

lemma fetchId_result: "fetchId_from env s m c = (e, r, m1, c1) \<Longrightarrow> e = LCT_SUCCESS \<longleftrightarrow> r \<noteq> None"
proof (induction m arbitrary: e r m1 c1)
  case Nil
  then show ?case by auto
next
  case (Cons mmap rest)
  show ?case
  proof (cases "mmap s")
    case None
    obtain e2 r2 m2 c2 where "fetchId_from env s rest c = (e2, r2, m2, c2)" by (metis prod_cases4)
    then show ?thesis using Cons.IH [of e2 r2 m2 c2] Cons.prems None by simp
  next
    case (Some g)
    obtain e2 r2 g2 c2 where "spawnId env g c = (e2, r2, g2, c2)" by (metis prod_cases4)
    then show ?thesis using spawnId_result [of env g c e2 r2 g2 c2] Cons.prems Some by simp
  qed
qed

lemma FetchId_result:
  assumes "FetchId env (Some ()) (Some s) (Some empty_response) m c = (st, resp, m1, c1)"
  shows "\<exists>e r. fetchId_from env s m c = (e, r, m1, c1) \<and> st = OK
     \<and> resp = Some \<lparr>resp_id = r, resp_code = Some (sint e)\<rparr>"
  using assms by (auto simp: FetchId_def mgr_fetchId_def empty_response_def Let_def split: prod.splits option.splits)

context day_clock
begin

lemma now_day_later: "now_day env c = (d, c1) \<Longrightarrow> idx c \<le> idx c1"
  using now_day_at by blast

lemma daySwitch_later: "daySwitch env g c = (e, g1, c1) \<Longrightarrow> idx c \<le> idx c1"
  unfolding daySwitch_def persist_def Let_def
  by (auto split: if_splits prod.splits dest!: now_day_later persist_later)

lemma day_checked_later:
  assumes "day_checked env g c = (e, g1, c1)"
  shows "idx c \<le> idx c1"
proof -
  obtain d c2 where d: "now_day env c = (d, c2)" by fastforce
  have "idx c2 \<le> idx c1"
    using assms d daySwitch_later [of g c2 e g1 c1] by (simp add: day_checked_def split: if_splits)
  then show ?thesis using now_day_later [OF d] by simp
qed

lemma spawnId_later:
  assumes "spawnId env g c = (e, r, g1, c1)"
  shows "idx c \<le> idx c1"
proof -
  obtain e0 g0 c0 where d: "day_checked env g c = (e0, g0, c0)" by (metis prod_cases3)
  have "idx c0 \<le> idx c1"
    using assms d take_number_later [of g0 c0 e r g1 c1] by (simp add: spawnId_parts split: if_splits)
  then show ?thesis using day_checked_later [OF d] by simp
qed

text \<open>The invariant of the manager: every engine of seed \<open>s\<close> accounts for the ids of \<open>s\<close> in \<open>L\<close>.\<close>

definition mgr_ok :: "nat \<Rightarrow> (int \<times> string \<times> int) list \<Rightarrow> id_manager \<Rightarrow> 'c \<Rightarrow> bool" where
  "mgr_ok n L m c \<longleftrightarrow> (\<exists>mmap. m = [mmap] \<and> (\<forall>s g. mmap s = Some g \<longrightarrow>
     engine_wf g \<and> engine_room g n \<and> (\<exists>k \<le> idx c. issued_ok day k g (ids_of_seed s L))))"

lemma fetchId_keeps:
  assumes f: "fetchId_from env s m c = (e, r, m1, c1)" and m: "mgr_ok (Suc n) L m c"
  shows "mgr_ok n (case r of None \<Rightarrow> L | Some x \<Rightarrow> L @ [(s, x)]) m1 c1 \<and> (\<forall>x. r = Some x \<longrightarrow> (s, x) \<notin> set L)"
proof -
  obtain mmap where mm: "m = [mmap]" "\<And>s g. mmap s = Some g \<Longrightarrow>
      engine_wf g \<and> engine_room g (Suc n) \<and> (\<exists>k \<le> idx c. issued_ok day k g (ids_of_seed s L))"
    using m by (auto simp: mgr_ok_def)
  show ?thesis
  proof (cases "mmap s")
    case None
    then show ?thesis using f mm by (auto simp: mgr_ok_def engine_room_less)
  next
    case (Some g)
    obtain k where k: "k \<le> idx c" "issued_ok day k g (ids_of_seed s L)" using mm(2) [OF Some] by blast
    obtain g1 where sp: "spawnId env g c = (e, r, g1, c1)" and m1: "m1 = [mmap(s \<mapsto> g1)]"
      using f Some mm(1) by (auto split: prod.splits)
    obtain k1 where k1: "k1 \<le> idx c1" "issued_ok day k1 g1 (add_id r (ids_of_seed s L))" "engine_wf g1" "engine_room g1 n"
      "\<forall>x. r = Some x \<longrightarrow> x \<notin> set (ids_of_seed s L)"
      using spawnId_fresh [OF sp _ _ k] mm(2) [OF Some] by blast
    have le: "idx c \<le> idx c1" by (rule spawnId_later [OF sp])
    let ?L = "case r of None \<Rightarrow> L | Some x \<Rightarrow> L @ [(s, x)]"
    have own: "ids_of_seed s ?L = add_id r (ids_of_seed s L)"
      by (cases r) (simp_all add: ids_of_seed_snoc)
    have other: "s' \<noteq> s \<Longrightarrow> ids_of_seed s' ?L = ids_of_seed s' L" for s'
      by (cases r) (simp_all add: ids_of_seed_snoc)
    have "\<exists>k \<le> idx c1. issued_ok day k g' (ids_of_seed s' ?L)" if "(mmap(s \<mapsto> g1)) s' = Some g'" for s' g'
      using that k1(1,2) mm(2) [of s' g'] le own other [of s'] by (cases "s' = s") (auto intro: order_trans)
    then have "mgr_ok n ?L m1 c1"
      using k1(3,4) mm(2) by (auto simp: mgr_ok_def m1 engine_room_less split: if_splits)
    then show ?thesis using k1(5) distinct_by_seed by blast
  qed
qed

lemma answer_all_keeps:
  assumes "answer_all env seeds m c = (rs, m1, c1)" "mgr_ok (length seeds) L m c" "distinct L"
  shows "distinct (L @ handed rs)"
  using assms
proof (induction seeds arbitrary: m c L rs)
  case Nil
  then show ?case by (simp add: handed_def)
next
  case (Cons s seeds)
  obtain st resp ma ca where F: "FetchId env (Some ()) (Some s) (Some empty_response) m c = (st, resp, ma, ca)"
    by (metis prod_cases4)
  obtain e r where f: "fetchId_from env s m c = (e, r, ma, ca)"
    and resp: "resp = Some \<lparr>resp_id = r, resp_code = Some (sint e)\<rparr>" using FetchId_result [OF F] by blast
  obtain rs' mb cb where A: "answer_all env seeds ma ca = (rs', mb, cb)" by (metis prod_cases3)
  let ?L = "case r of None \<Rightarrow> L | Some x \<Rightarrow> L @ [(s, x)]"
  have ok: "mgr_ok (length seeds) ?L ma ca" "distinct ?L"
    using fetchId_keeps [OF f, of "length seeds" L] Cons.prems(2,3) by (auto split: option.splits)
  have "rs = (s, \<lparr>resp_id = r, resp_code = Some (sint e)\<rparr>) # rs'" "mb = m1" "cb = c1"
    using Cons.prems(1) F A resp by auto
  then have "L @ handed rs = ?L @ handed rs'" by (auto simp: handed_def split: option.splits prod.splits)
  then show ?case using Cons.IH [OF _ ok] A \<open>mb = m1\<close> \<open>cb = c1\<close> by simp
qed

end

context id_table
begin

lemma start_engine_keeps:
  assumes "mgr_start_engine env s m c = (LCT_SUCCESS, m1, c1)"
    "m = [mmap]" "\<And>s' g. mmap s' = Some g \<Longrightarrow> \<exists>k \<le> idx c. issued_ok day k g []"
  shows "\<exists>g. m1 = [mmap(s \<mapsto> g)] \<and> (\<forall>s' g'. (mmap(s \<mapsto> g)) s' = Some g' \<longrightarrow> (\<exists>k \<le> idx c1. issued_ok day k g' []))"
proof -
  obtain g where i: "engine_init env (new_day_switch_engine s) c = (LCT_SUCCESS, g, c1)"
    and m1: "m1 = [mmap(m_seedId g \<mapsto> g)]"
    using assms(1,2) by (auto simp: mgr_start_engine_def appendEngine_def split: prod.splits if_splits)
  obtain k where k: "k \<le> idx c1" "issued_ok day k g []" "m_seedId g = s" using engine_init_ok [OF i] by blast
  have le: "idx c \<le> idx c1"
  proof -
    obtain e ga ca where r: "readPersistance env (new_day_switch_engine s) c = (e, ga, ca)" by (metis prod_cases3)
    have "idx c \<le> idx ca" using r query_later by (auto simp: readPersistance_def split: prod.splits)
    moreover have "idx ca \<le> idx c1"
      using i r by (auto simp: engine_init_def split: prod.splits if_splits
            dest!: now_day_later reallocValve_later daySwitch_later)
    ultimately show ?thesis by simp
  qed
  have "\<exists>k \<le> idx c1. issued_ok day k g' []" if "(mmap(s \<mapsto> g)) s' = Some g'" for s' g'
    using that k(1,2) assms(3) [of s' g'] le by (auto split: if_splits intro: order_trans)
  then show ?thesis using m1 k(3) by blast
qed

lemma mgr_init_ok:
  assumes "mgr_init env new_id_manager c = (LCT_SUCCESS, m, c1)" "engines_wf n m"
  shows "mgr_ok n [] m c1"
proof -
  obtain m1 c2 m2 c3 where i: "mgr_start_engine env LCT_EVENT_ENGINE_SEED_ID new_id_manager c = (LCT_SUCCESS, m1, c2)"
    "mgr_start_engine env LCT_TASKS_ENGINE_SEED_ID m1 c2 = (LCT_SUCCESS, m2, c3)"
    "mgr_start_engine env LCT_MODEL_ENGINE_SEED_ID m2 c3 = (LCT_SUCCESS, m, c1)"
    using assms(1) by (auto simp: mgr_init_def split: prod.splits if_splits)
  obtain g1 where 1: "m1 = [Map.empty(LCT_EVENT_ENGINE_SEED_ID \<mapsto> g1)]"
    "\<forall>s' g'. (Map.empty(LCT_EVENT_ENGINE_SEED_ID \<mapsto> g1)) s' = Some g' \<longrightarrow> (\<exists>k \<le> idx c2. issued_ok day k g' [])"
    using start_engine_keeps [OF i(1), of Map.empty] by (auto simp: new_id_manager_def)
  obtain g2 where 2: "m2 = [Map.empty(LCT_EVENT_ENGINE_SEED_ID \<mapsto> g1, LCT_TASKS_ENGINE_SEED_ID \<mapsto> g2)]"
    "\<forall>s' g'. (Map.empty(LCT_EVENT_ENGINE_SEED_ID \<mapsto> g1, LCT_TASKS_ENGINE_SEED_ID \<mapsto> g2)) s' = Some g'
       \<longrightarrow> (\<exists>k \<le> idx c3. issued_ok day k g' [])"
    using start_engine_keeps [OF i(2) 1(1)] 1(2) by blast
  obtain g3 where 3: "m = [Map.empty(LCT_EVENT_ENGINE_SEED_ID \<mapsto> g1, LCT_TASKS_ENGINE_SEED_ID \<mapsto> g2, LCT_MODEL_ENGINE_SEED_ID \<mapsto> g3)]"
    "\<forall>s' g'. (Map.empty(LCT_EVENT_ENGINE_SEED_ID \<mapsto> g1, LCT_TASKS_ENGINE_SEED_ID \<mapsto> g2, LCT_MODEL_ENGINE_SEED_ID \<mapsto> g3)) s' = Some g'
       \<longrightarrow> (\<exists>k \<le> idx c1. issued_ok day k g' [])"
    using start_engine_keeps [OF i(3) 2(1)] 2(2) by blast
  have e: "ids_of_seed s [] = []" for s by (simp add: ids_of_seed_def)
  let ?m = "Map.empty(LCT_EVENT_ENGINE_SEED_ID \<mapsto> g1, LCT_TASKS_ENGINE_SEED_ID \<mapsto> g2, LCT_MODEL_ENGINE_SEED_ID \<mapsto> g3)"
  have "engine_wf g' \<and> engine_room g' n" if "?m s' = Some g'" for s' g'
    using assms(2) that ranI [of ?m s' g'] unfolding engines_wf_def 3(1) by simp
  then show ?thesis unfolding mgr_ok_def e 3(1) using 3(2) by blast
qed

end

text \<open>The seeds served never change.\<close>

lemma fetchId_doms: "fetchId_from env s m c = (e, r, m1, c1) \<Longrightarrow> map dom m1 = map dom m"
proof (induction m arbitrary: e r m1 c1)
  case Nil
  then show ?case by auto
next
  case (Cons mmap rest)
  show ?case
  proof (cases "mmap s")
    case None
    obtain e2 r2 m2 c2 where "fetchId_from env s rest c = (e2, r2, m2, c2)" by (metis prod_cases4)
    then show ?thesis using Cons.IH [of e2 r2 m2 c2] Cons.prems None by auto
  next
    case (Some g)
    then show ?thesis using Cons.prems by (auto split: prod.splits)
  qed
qed

lemma fetchId_unknown:
  "\<forall>mmap \<in> set m. s \<notin> dom mmap \<Longrightarrow> fetchId_from env s m c = (LCT_INVALID_BIZ_TYPE, None, m, c)"
  by (induction m) (auto simp: domIff)

lemma engine_init_seed:
  assumes "engine_init env g0 c = (e, g, c1)"
  shows "m_seedId g = m_seedId g0"
proof -
  obtain er gr cr where r: "readPersistance env g0 c = (er, gr, cr)" by (metis prod_cases3)
  have "m_seedId gr = m_seedId g0" using r by (auto simp: readPersistance_def split: prod.splits)
  moreover have "m_seedId g = m_seedId gr"
    using assms r by (auto simp: engine_init_def daySwitch_def reallocValve_def Let_def split: prod.splits if_splits)
  ultimately show ?thesis by simp
qed

lemma start_engine_dom:
  assumes "mgr_start_engine env s [mmap] c = (LCT_SUCCESS, m1, c1)"
  shows "\<exists>g. m1 = [mmap(s \<mapsto> g)]"
proof -
  obtain e g c2 where i: "engine_init env (new_day_switch_engine s) c = (e, g, c2)" by (metis prod_cases3)
  have "m_seedId g = s" using engine_init_seed [OF i] by (simp add: new_day_switch_engine_def)
  then show ?thesis using assms i by (auto simp: mgr_start_engine_def appendEngine_def split: if_splits)
qed

definition served_seeds :: "int set" where
  "served_seeds = {LCT_EVENT_ENGINE_SEED_ID, LCT_TASKS_ENGINE_SEED_ID, LCT_MODEL_ENGINE_SEED_ID}"

lemma mgr_init_doms:
  assumes "mgr_init env new_id_manager c = (LCT_SUCCESS, m, c1)"
  shows "map dom m = [served_seeds]"
proof -
  obtain m1 c2 m2 c3 where i: "mgr_start_engine env LCT_EVENT_ENGINE_SEED_ID [Map.empty] c = (LCT_SUCCESS, m1, c2)"
    "mgr_start_engine env LCT_TASKS_ENGINE_SEED_ID m1 c2 = (LCT_SUCCESS, m2, c3)"
    "mgr_start_engine env LCT_MODEL_ENGINE_SEED_ID m2 c3 = (LCT_SUCCESS, m, c1)"
    using assms by (auto simp: mgr_init_def new_id_manager_def split: prod.splits if_splits)
  obtain g1 where 1: "m1 = [Map.empty(LCT_EVENT_ENGINE_SEED_ID \<mapsto> g1)]"
    using start_engine_dom [OF i(1)] by blast
  obtain g2 where 2: "m2 = [Map.empty(LCT_EVENT_ENGINE_SEED_ID \<mapsto> g1, LCT_TASKS_ENGINE_SEED_ID \<mapsto> g2)]"
    using start_engine_dom [OF i(2) [unfolded 1]] by blast
  obtain g3 where "m = [Map.empty(LCT_EVENT_ENGINE_SEED_ID \<mapsto> g1, LCT_TASKS_ENGINE_SEED_ID \<mapsto> g2, LCT_MODEL_ENGINE_SEED_ID \<mapsto> g3)]"
    using start_engine_dom [OF i(3) [unfolded 2]] by blast
  then show ?thesis by (auto simp: served_seeds_def)
qed

lemma sint_code_0: "sint (e :: lct_err) = 0 \<longleftrightarrow> e = LCT_SUCCESS"
  by (simp add: signed_eq_0_iff)

lemma answer_all_codes:
  assumes "answer_all env seeds m c = (rs, m1, c1)" "map dom m = [D]"
  shows "map fst rs = seeds \<and> list_all (\<lambda>(s, r). (resp_code r = Some 0) = (resp_id r \<noteq> None)
     \<and> (s \<in> D \<or> resp_code r = Some (sint LCT_INVALID_BIZ_TYPE))) rs"
  using assms
proof (induction seeds arbitrary: m c rs)
  case Nil
  then show ?case by simp
next
  case (Cons s seeds)
  obtain st resp ma ca where F: "FetchId env (Some ()) (Some s) (Some empty_response) m c = (st, resp, ma, ca)"
    by (metis prod_cases4)
  obtain e r where f: "fetchId_from env s m c = (e, r, ma, ca)"
    and resp: "resp = Some \<lparr>resp_id = r, resp_code = Some (sint e)\<rparr>" using FetchId_result [OF F] by blast
  obtain rs' mb cb where A: "answer_all env seeds ma ca = (rs', mb, cb)" by (metis prod_cases3)
  have d: "map dom ma = [D]" using fetchId_doms [OF f] Cons.prems(2) by simp
  have rs: "rs = (s, \<lparr>resp_id = r, resp_code = Some (sint e)\<rparr>) # rs'" using Cons.prems(1) F A resp by auto
  have "s \<in> D \<or> sint e = sint LCT_INVALID_BIZ_TYPE"
    using fetchId_unknown [of m s env c] f Cons.prems(2) by (cases m) auto
  moreover have "sint e = 0 \<longleftrightarrow> r \<noteq> None"
    using fetchId_result [OF f] unfolding sint_code_0 .
  ultimately show ?case
    using Cons.IH [of ma ca rs'] Cons.prems(1) A F d unfolding rs by auto
qed


lemma mem_mgr_starts: "\<exists>m c. mgr_init mem_env new_id_manager (mem_start [] []) = (LCT_SUCCESS, m, c) \<and> engines_wf 4 m"
proof -
  let ?e = "\<lambda>s. \<lparr>m_seedType = SEED_TYPE_DAY_SWITCH, m_seedId = s, m_engineInfo =
     \<lparr>Step = 1, PreallocSize = 100, Max_id = 9223372036854775807, PreallocValve = 100, CurrentId = 0, DayStamp = ''0''\<rparr>\<rparr>"
  have "\<exists>c. mgr_init mem_env new_id_manager (mem_start [] []) =
    (LCT_SUCCESS, [Map.empty(1001 \<mapsto> demo_engine 2 0, 1002 \<mapsto> ?e 1002, 1003 \<mapsto> ?e 1003)], c)"
    by (simp add: mgr_init_def mgr_start_engine_def appendEngine_def new_id_manager_def mem_eval demo_engine_def
       LCT_EVENT_ENGINE_SEED_ID_def LCT_TASKS_ENGINE_SEED_ID_def LCT_MODEL_ENGINE_SEED_ID_def fun_eq_iff)
  moreover have "engines_wf 4 [Map.empty(1001 \<mapsto> demo_engine 2 0, 1002 \<mapsto> ?e 1002, 1003 \<mapsto> ?e 1003)]"
    by (auto simp: engines_wf_def ran_def demo_engine_def engine_wf_def engine_room_def split: if_splits)
  ultimately show ?thesis by blast
qed


end
