(* ===== verification/Id_Requests.thy ===== *)
theory Id_Requests
  imports Id_Threads_Correct Id_Manager
begin

text \<open>
  The id service under concurrent requests (\<open>id_service.cpp\<close>, \<open>id_manager.hpp\<close>,
  \<open>id_day_switch_engine.h/.cpp\<close>): the threads of the RPC server run \<open>FetchId\<close> side by side, each
  request goes to the engine of its seed, the engines run \<open>spawnId\<close> step by step as in
  \<open>Id_Engine_Threads\<close> and share one data source.  The server passes \<open>FetchId\<close> a context, a
  request and a response (never null), and \<open>m_idEngineTuple\<close> is not written after \<open>init\<close>.
\<close>

section \<open>Threads that serve requests\<close>

text \<open>Where a thread of the server is: the request's seed, then the result of \<open>spawnId\<close>.\<close>

datatype svc_pc =
  V_free
| V_find int
| V_spawn int
| V_answer int lct_err "(string \<times> int) option"

record 'c svc_sys =
  vs_engines :: "int \<Rightarrow> 'c sid_sys option"
  vs_store :: 'c
  vs_pc :: "nat \<Rightarrow> svc_pc"
  vs_replies :: "(int \<times> id_response) list"

definition svc_goto :: "nat \<Rightarrow> svc_pc \<Rightarrow> 'c svc_sys \<Rightarrow> 'c svc_sys" where
  "svc_goto t p V = V\<lparr>vs_pc := (vs_pc V)(t := p)\<rparr>"

definition fetch_reply :: "lct_err \<Rightarrow> (string \<times> int) option \<Rightarrow> id_response" where
  "fetch_reply errCode r =
     (case r of None \<Rightarrow> empty_response | Some x \<Rightarrow> empty_response\<lparr>resp_id := Some x\<rparr>)\<lparr>resp_code := Some (sint errCode)\<rparr>"

text \<open>
  One step of thread \<open>t\<close>; a free thread takes a request for \<open>seed\<close>, \<open>None\<close> where it waits for a
  mutex.  The step of an engine works on the shared store.
\<close>

definition svc_thread_step :: "'c id_env \<Rightarrow> nat \<Rightarrow> int \<Rightarrow> 'c svc_sys \<Rightarrow> 'c svc_sys option" where
  "svc_thread_step env t seed V = (case vs_pc V t of
     V_free \<Rightarrow> Some (svc_goto t (V_find seed) V)
   | V_find s \<Rightarrow> Some (svc_goto t
       (case vs_engines V s of None \<Rightarrow> V_answer s LCT_INVALID_BIZ_TYPE None | Some _ \<Rightarrow> V_spawn s) V)
   | V_spawn s \<Rightarrow> (case vs_engines V s of
       None \<Rightarrow> None
     | Some S \<Rightarrow> (case sid_thread_step env t (S\<lparr>ss_store := vs_store V\<rparr>) of
         None \<Rightarrow> None
       | Some S1 \<Rightarrow> Some (svc_goto t (case ss_pc S t of P_done e r \<Rightarrow> V_answer s e r | _ \<Rightarrow> V_spawn s)
           (V\<lparr>vs_engines := (vs_engines V)(s \<mapsto> S1), vs_store := ss_store S1\<rparr>))))
   | V_answer s e r \<Rightarrow> Some (svc_goto t V_free (V\<lparr>vs_replies := vs_replies V @ [(s, fetch_reply e r)]\<rparr>)))"

inductive svc_run :: "'c id_env \<Rightarrow> 'c svc_sys \<Rightarrow> nat \<Rightarrow> 'c svc_sys \<Rightarrow> bool" for env V0 where
  start: "svc_run env V0 0 V0"
| step: "svc_run env V0 n V \<Longrightarrow> svc_thread_step env t seed V = Some V' \<Longrightarrow> svc_run env V0 (Suc n) V'"

fun svc_schedule :: "'c id_env \<Rightarrow> (nat \<times> int) list \<Rightarrow> 'c svc_sys \<Rightarrow> 'c svc_sys option" where
  "svc_schedule env [] V = Some V"
| "svc_schedule env ((t, seed) # ts) V =
     (case svc_thread_step env t seed V of None \<Rightarrow> None | Some V1 \<Rightarrow> svc_schedule env ts V1)"

text \<open>The service right after the manager's \<open>init\<close>: every engine idle, no request.\<close>

definition idle_sys :: "sid_engine \<Rightarrow> 'c \<Rightarrow> 'c sid_sys" where
  "idle_sys g c = \<lparr>ss_engine = g, ss_store = c, ss_lock = None, ss_pc = (\<lambda>t. P_idle), ss_out = []\<rparr>"

definition serving :: "engine_map \<Rightarrow> 'c \<Rightarrow> 'c svc_sys" where
  "serving mmap c = \<lparr>vs_engines = (\<lambda>s. map_option (\<lambda>g. idle_sys g c) (mmap s)), vs_store = c,
     vs_pc = (\<lambda>t. V_free), vs_replies = []\<rparr>"

lemma svc_goto_simps [simp]:
  "vs_engines (svc_goto t p V) = vs_engines V" "vs_store (svc_goto t p V) = vs_store V"
  "vs_replies (svc_goto t p V) = vs_replies V" "vs_pc (svc_goto t p V) = (vs_pc V)(t := p)"
  by (simp_all add: svc_goto_def)

text \<open>The reply is the response that \<open>FetchId\<close> fills in.\<close>

lemma fetch_reply_simps [simp]: "fetch_reply e r = \<lparr>resp_id = r, resp_code = Some (sint e)\<rparr>"
  by (cases r) (simp_all add: fetch_reply_def empty_response_def)

lemma svc_schedule_append:
  "svc_schedule env (ts @ us) V = (case svc_schedule env ts V of None \<Rightarrow> None | Some V1 \<Rightarrow> svc_schedule env us V1)"
  by (induction ts arbitrary: V) (auto split: option.splits)

lemma svc_schedule_run: "svc_schedule env ts V = Some V' \<Longrightarrow> svc_run env V0 n V \<Longrightarrow> svc_run env V0 (n + length ts) V'"
proof (induction ts arbitrary: V n)
  case (Cons a ts)
  obtain t seed where a: "a = (t, seed)" by fastforce
  then obtain V1 where V1: "svc_thread_step env t seed V = Some V1" "svc_schedule env ts V1 = Some V'"
    using Cons.prems(1) by (auto split: option.splits)
  show ?case using Cons.IH [OF V1(2) svc_run.step [OF Cons.prems(2) V1(1)]] by simp
qed simp

text \<open>The ways a service step can go.\<close>

lemma svc_step_cases:
  assumes "svc_thread_step env t seed V = Some V'"
  obtains (take) "vs_pc V t = V_free" "V' = svc_goto t (V_find seed) V"
  | (unknown) s where "vs_pc V t = V_find s" "vs_engines V s = None"
      "V' = svc_goto t (V_answer s LCT_INVALID_BIZ_TYPE None) V"
  | (known) s S where "vs_pc V t = V_find s" "vs_engines V s = Some S" "V' = svc_goto t (V_spawn s) V"
  | (engine) s S S1 where "vs_pc V t = V_spawn s" "vs_engines V s = Some S"
      "sid_thread_step env t (S\<lparr>ss_store := vs_store V\<rparr>) = Some S1"
      "V' = svc_goto t (case ss_pc S t of P_done e r \<Rightarrow> V_answer s e r | _ \<Rightarrow> V_spawn s)
         (V\<lparr>vs_engines := (vs_engines V)(s \<mapsto> S1), vs_store := ss_store S1\<rparr>)"
  | (reply) s e r where "vs_pc V t = V_answer s e r"
      "V' = svc_goto t V_free (V\<lparr>vs_replies := vs_replies V @ [(s, fetch_reply e r)]\<rparr>)"
  using assms by (cases "vs_pc V t") (auto simp del: fetch_reply_simps simp: svc_thread_step_def split: option.splits)

section \<open>Every request goes to the engine of its seed\<close>

definition route_inv :: "'c svc_sys \<Rightarrow> bool" where
  "route_inv V \<longleftrightarrow> (\<forall>t s. vs_pc V t = V_spawn s \<longrightarrow> vs_engines V s \<noteq> None)
     \<and> (\<forall>s S t. vs_engines V s = Some S \<longrightarrow> vs_pc V t \<noteq> V_spawn s \<longrightarrow> ss_pc S t = P_idle)"

text \<open>What a step of an engine does to its program counters and to the ids it gave out.\<close>

fun result_of :: "sid_pc \<Rightarrow> (string \<times> int) option" where
  "result_of (P_done e r) = r"
| "result_of _ = None"

fun done_ok :: "sid_pc \<Rightarrow> bool" where
  "done_ok (P_done e r) = (e = LCT_SUCCESS \<longleftrightarrow> r \<noteq> None)"
| "done_ok _ = True"

lemma sid_step_pc:
  assumes "sid_thread_step env t S = Some S'"
  shows "ss_pc S' = (ss_pc S)(t := ss_pc S' t)" "done_ok (ss_pc S' t)"
    "ss_pc S t = P_done e r \<Longrightarrow> ss_pc S' t = P_idle \<and> ss_out S' = ss_out S"
    "\<forall>e r. ss_pc S t \<noteq> P_done e r \<Longrightarrow> ss_pc S' t \<noteq> P_idle"
  using assms by (cases "ss_pc S t"; auto simp: sid_thread_step_def split: prod.splits if_splits)+

lemma sid_step_out:
  assumes "sid_thread_step env t S = Some S'"
  shows "ss_out S' = ss_out S \<and> result_of (ss_pc S' t) = None
     \<or> (\<exists>d n. ss_pc S t = P_number d n \<and> ss_pc S' t = P_done LCT_SUCCESS (Some (d, n)) \<and> ss_out S' = ss_out S @ [(d, n)])"
  using assms by (cases "ss_pc S t") (auto simp: sid_thread_step_def split: prod.splits if_splits)

lemma route_inv_step:
  assumes inv: "route_inv V" and step: "svc_thread_step env t seed V = Some V'"
  shows "route_inv V'"
  using step
proof (cases rule: svc_step_cases)
  case (engine s S S1)
  have pc: "ss_pc S1 = (ss_pc S)(t := ss_pc S1 t)" using sid_step_pc(1) [OF engine(3)] by simp
  have other: "ss_pc S1 u = P_idle" if "vs_pc V u \<noteq> V_spawn s" for u
  proof -
    have "u \<noteq> t" "ss_pc S u = P_idle" using that engine(1,2) inv by (auto simp: route_inv_def)
    then show ?thesis using pc by (metis fun_upd_other)
  qed
  have own: "ss_pc S1 t = P_idle" if "ss_pc S t = P_done e r" for e r
    using sid_step_pc(3) [OF engine(3), of e r] that by simp
  show ?thesis using inv engine(1,2) other own
    by (auto simp: route_inv_def engine(4) split: sid_pc.splits if_splits)
qed (use inv in \<open>auto simp: route_inv_def\<close>)

lemma serving_route_inv: "route_inv (serving mmap c)"
  by (auto simp: route_inv_def serving_def idle_sys_def)

section \<open>Codes\<close>

text \<open>A success comes with an id and with nothing else; an unknown seed is refused.\<close>

definition answer_ok :: "int set \<Rightarrow> int \<Rightarrow> lct_err \<Rightarrow> (string \<times> int) option \<Rightarrow> bool" where
  "answer_ok K s e r \<longleftrightarrow> (if s \<in> K then e = LCT_SUCCESS \<longleftrightarrow> r \<noteq> None else e = LCT_INVALID_BIZ_TYPE \<and> r = None)"

definition code_inv :: "int set \<Rightarrow> 'c svc_sys \<Rightarrow> bool" where
  "code_inv K V \<longleftrightarrow> dom (vs_engines V) = K
     \<and> (\<forall>s S t. vs_engines V s = Some S \<longrightarrow> done_ok (ss_pc S t))
     \<and> (\<forall>t s e r. vs_pc V t = V_answer s e r \<longrightarrow> answer_ok K s e r)
     \<and> (\<forall>(s, x) \<in> set (vs_replies V). \<exists>e r. x = fetch_reply e r \<and> answer_ok K s e r)"

lemma code_inv_goto:
  "code_inv K V \<Longrightarrow> (\<And>s e r. p = V_answer s e r \<Longrightarrow> answer_ok K s e r) \<Longrightarrow> code_inv K (svc_goto t p V)"
  by (auto simp: code_inv_def simp del: fetch_reply_simps)

lemma code_inv_engine:
  assumes "code_inv K V" "s \<in> K" "\<And>t. done_ok (ss_pc S1 t)"
  shows "code_inv K (V\<lparr>vs_engines := (vs_engines V)(s \<mapsto> S1), vs_store := c\<rparr>)"
  using assms by (auto simp: code_inv_def simp del: fetch_reply_simps)

lemma code_inv_reply:
  assumes "code_inv K V" "answer_ok K s e r"
  shows "code_inv K (V\<lparr>vs_replies := vs_replies V @ [(s, fetch_reply e r)]\<rparr>)"
  using assms by (auto simp: code_inv_def simp del: fetch_reply_simps)

lemma code_inv_step:
  assumes inv: "code_inv K V" and step: "svc_thread_step env t seed V = Some V'"
  shows "code_inv K V'"
  using step
proof (cases rule: svc_step_cases)
  case (unknown s)
  then have "s \<notin> K" using inv by (auto simp: code_inv_def)
  then have "answer_ok K s LCT_INVALID_BIZ_TYPE None" by (simp add: answer_ok_def)
  then show ?thesis unfolding unknown(3) by (intro code_inv_goto [OF inv]) auto
next
  case (engine s S S1)
  have s: "s \<in> K" using inv engine(2) by (auto simp: code_inv_def)
  have ok: "done_ok (ss_pc S u)" for u using inv engine(2) by (auto simp: code_inv_def)
  have ok1: "done_ok (ss_pc S1 u)" for u
    using sid_step_pc(1,2) [OF engine(3)] ok by (metis fun_upd_other sid_sys.simps(4) sid_sys.surjective sid_sys.update_convs(2))
  have "answer_ok K s e r" if "ss_pc S t = P_done e r" for e r
    using ok [of t] that s by (auto simp: answer_ok_def)
  then show ?thesis unfolding engine(4)
    by (intro code_inv_goto code_inv_engine [OF inv s ok1]) (auto split: sid_pc.splits)
next
  case (reply s e r)
  then have "answer_ok K s e r" using inv by (auto simp: code_inv_def)
  then show ?thesis unfolding reply(2) by (intro code_inv_goto code_inv_reply [OF inv]) auto
next
  case take
  then show ?thesis using code_inv_goto [OF inv] by auto
next
  case (known s S)
  then show ?thesis using code_inv_goto [OF inv] by auto
qed

lemma serving_code_inv: "code_inv (dom mmap) (serving mmap c)"
  by (auto simp: code_inv_def serving_def idle_sys_def)

section \<open>One id, one client\<close>

text \<open>The id that thread \<open>t\<close> carries from the engine to its reply, and what an engine gave out.\<close>

definition pending :: "'c svc_sys \<Rightarrow> nat \<Rightarrow> (int \<times> string \<times> int) option" where
  "pending V t = (case vs_pc V t of
     V_answer s e r \<Rightarrow> map_option (Pair s) r
   | V_spawn s \<Rightarrow> (case vs_engines V s of None \<Rightarrow> None | Some S \<Rightarrow> map_option (Pair s) (result_of (ss_pc S t)))
   | _ \<Rightarrow> None)"

definition given :: "'c svc_sys \<Rightarrow> (int \<times> string \<times> int) set" where
  "given V = {(s, x). \<exists>S. vs_engines V s = Some S \<and> x \<in> set (ss_out S)}"

definition ids_inv :: "'c svc_sys \<Rightarrow> bool" where
  "ids_inv V \<longleftrightarrow> (\<forall>t y. pending V t = Some y \<longrightarrow> y \<in> given V \<and> y \<notin> set (handed (vs_replies V)))
     \<and> (\<forall>t u y. pending V t = Some y \<longrightarrow> pending V u = Some y \<longrightarrow> t = u)
     \<and> set (handed (vs_replies V)) \<subseteq> given V \<and> distinct (handed (vs_replies V))"

lemma ids_invD:
  assumes "ids_inv V"
  shows "pending V t = Some y \<Longrightarrow> y \<in> given V" "pending V t = Some y \<Longrightarrow> y \<notin> set (handed (vs_replies V))"
    "pending V t = Some y \<Longrightarrow> pending V u = Some y \<Longrightarrow> t = u"
    "set (handed (vs_replies V)) \<subseteq> given V" "distinct (handed (vs_replies V))"
  using assms unfolding ids_inv_def by blast+

lemma ids_inv_quiet:
  assumes "ids_inv V" "\<And>u. pending V' u = pending V u \<or> pending V' u = None" "given V' = given V"
    "vs_replies V' = vs_replies V"
  shows "ids_inv V'"
proof -
  have "pending V u = Some y" if "pending V' u = Some y" for u y using assms(2) [of u] that by auto
  then show ?thesis using assms(1,3,4) unfolding ids_inv_def by metis
qed

lemma ids_inv_publish:
  assumes ids: "ids_inv V" and V': "\<And>u. pending V' u = (if u = t then Some y else pending V u)" "given V' = insert y (given V)"
    "vs_replies V' = vs_replies V" and new: "y \<notin> given V"
  shows "ids_inv V'"
proof -
  note i = ids_invD [OF ids]
  have h: "if u = t then z = y else pending V u = Some z \<and> z \<noteq> y" if "pending V' u = Some z" for u z
    using that i(1) [of u z] new by (auto simp: V'(1) split: if_splits)
  show ?thesis
    unfolding ids_inv_def
  proof (intro conjI allI impI)
    fix u z assume "pending V' u = Some z"
    then show "z \<in> given V'" "z \<notin> set (handed (vs_replies V'))"
      using h [of u z] i(1,2) [of u z] i(4) new by (auto simp: V'(2,3) split: if_splits)
  next
    fix u v z assume "pending V' u = Some z" "pending V' v = Some z"
    then show "u = v" using h [of u z] h [of v z] i(3) [of u z v] by (auto split: if_splits)
  qed (use i(4,5) in \<open>auto simp: V'(2,3)\<close>)
qed

lemma handed_reply: "handed (rs @ [(s, \<lparr>resp_id = r, resp_code = k\<rparr>)]) = handed rs @ (case r of None \<Rightarrow> [] | Some x \<Rightarrow> [(s, x)])"
  by (auto simp: handed_def split: option.splits)

lemma ids_inv_reply:
  assumes "ids_inv V" "\<And>u. pending V' u = (if u = t then None else pending V u)" "given V' = given V"
    "handed (vs_replies V') = handed (vs_replies V) @ (case pending V t of None \<Rightarrow> [] | Some y \<Rightarrow> [y])"
  shows "ids_inv V'"
proof (cases "pending V t")
  case None
  then have "pending V' u = pending V u" for u by (simp add: assms(2))
  then show ?thesis using assms(1,3,4) None by (simp add: ids_inv_def)
next
  case (Some y)
  note i = ids_invD [OF assms(1)]
  have h: "u \<noteq> t \<and> z \<noteq> y \<and> pending V u = Some z" if "pending V' u = Some z" for u z
    using that i(3) [OF Some, of u] by (auto simp: assms(2) split: if_splits)
  show ?thesis
    unfolding ids_inv_def
  proof (intro conjI allI impI)
    fix u z assume "pending V' u = Some z"
    then show "z \<in> given V'" "z \<notin> set (handed (vs_replies V'))"
      using h [of u z] i(1,2) [of u z] by (simp_all add: assms(3,4) Some)
  next
    fix u v z assume "pending V' u = Some z" "pending V' v = Some z"
    then show "u = v" using h i(3) by blast
  qed (use i(4,5) i(1,2) [OF Some] in \<open>auto simp: assms(3,4) Some\<close>)
qed

definition day_inv :: "string \<Rightarrow> engine_map \<Rightarrow> nat \<Rightarrow> 'c svc_sys \<Rightarrow> bool" where
  "day_inv today mmap n V \<longleftrightarrow> (\<forall>s S. vs_engines V s = Some S \<longrightarrow> (\<exists>g. mmap s = Some g
     \<and> unique_inv today (Step (m_engineInfo g)) S \<and> 0 \<le> CurrentId (info S)
     \<and> CurrentId (info S) \<le> CurrentId (m_engineInfo g) + int n * Step (m_engineInfo g)))"

text \<open>An engine of today with room for \<open>n\<close> more numbers.\<close>

definition today_engine :: "string \<Rightarrow> nat \<Rightarrow> sid_engine \<Rightarrow> bool" where
  "today_engine today n g \<longleftrightarrow> DayStamp (m_engineInfo g) = today \<and> 0 < Step (m_engineInfo g)
     \<and> 0 \<le> CurrentId (m_engineInfo g) \<and> CurrentId (m_engineInfo g) + int n * Step (m_engineInfo g) < 2 ^ 63"

lemma unique_inv_store: "unique_inv today s (S\<lparr>ss_store := c\<rparr>) = unique_inv today s S"
  by (simp add: unique_inv_def)

lemma engine_step_ids:
  assumes route: "route_inv V" and ids: "ids_inv V"
    and uniq: "unique_inv today st S"
    and e: "vs_pc V t = V_spawn s" "vs_engines V s = Some S" "sid_thread_step env t (S\<lparr>ss_store := vs_store V\<rparr>) = Some S1"
    and V': "V' = svc_goto t (case ss_pc S t of P_done e r \<Rightarrow> V_answer s e r | _ \<Rightarrow> V_spawn s)
         (V\<lparr>vs_engines := (vs_engines V)(s \<mapsto> S1), vs_store := ss_store S1\<rparr>)"
  shows "ids_inv V'"
proof -
  have pc: "ss_pc S1 = (ss_pc S)(t := ss_pc S1 t)" using sid_step_pc(1) [OF e(3)] by simp
  have other: "pending V' u = pending V u" if "u \<noteq> t" for u
  proof -
    have "ss_pc S1 u = ss_pc S u" using pc that by (metis fun_upd_other)
    then show ?thesis using that e(2) by (auto simp: pending_def V' split: svc_pc.splits)
  qed
  consider (quiet) "ss_out S1 = ss_out S" "result_of (ss_pc S1 t) = None"
    | (pub) d n where "ss_pc S t = P_number d n" "ss_pc S1 t = P_done LCT_SUCCESS (Some (d, n))" "ss_out S1 = ss_out S @ [(d, n)]"
    using sid_step_out [OF e(3)] by auto
  then show ?thesis
  proof cases
    case quiet
    have "given V' = given V" using e(2) quiet(1) by (auto simp: given_def V' split: if_splits)
    moreover have "pending V' u = pending V u \<or> pending V' u = None" for u
      using other [of u] e quiet(2) by (cases "u = t") (auto simp: pending_def V' split: sid_pc.splits)
    ultimately show ?thesis using ids_inv_quiet [OF ids, of V'] by (simp add: V')
  next
    case pub
    have d: "d = today" using unique_invD(7) [OF uniq pub(1)] .
    have "(d, n) \<notin> set (ss_out S)" using unique_invD(5) [OF uniq, of t n] pub(1) d by simp
    then have "(s, d, n) \<notin> given V" using e(2) by (auto simp: given_def)
    moreover have "given V' = insert (s, d, n) (given V)" using e(2) pub(3) by (auto simp: given_def V' split: if_splits)
    moreover have "pending V' u = (if u = t then Some (s, d, n) else pending V u)" for u
      using other [of u] e pub by (auto simp: pending_def V')
    ultimately show ?thesis using ids_inv_publish [OF ids, of V' t "(s, d, n)"] by (simp add: V')
  qed
qed

lemma pending_goto:
  "vs_engines V' = vs_engines V \<Longrightarrow> vs_pc V' = (vs_pc V)(t := p) \<Longrightarrow> u \<noteq> t \<Longrightarrow> pending V' u = pending V u"
  by (simp add: pending_def split: svc_pc.splits)

lemma goto_ids:
  assumes "ids_inv V" "vs_pc V t = V_free \<or> (\<exists>s. vs_pc V t = V_find s)" "route_inv V"
    "p = V_find q \<or> p = V_spawn q \<or> p = V_answer q e None"
  shows "ids_inv (svc_goto t p V)"
proof -
  have "ss_pc S t = P_idle" if "vs_engines V q = Some S" for S
    using assms(2,3) that by (auto simp: route_inv_def)
  then have "pending (svc_goto t p V) t = None"
    using assms(4) by (auto simp: pending_def split: option.splits)
  moreover have "u \<noteq> t \<Longrightarrow> pending (svc_goto t p V) u = pending V u" for u by (rule pending_goto) simp_all
  ultimately have "pending (svc_goto t p V) u = pending V u \<or> pending (svc_goto t p V) u = None" for u
    by (cases "u = t") simp_all
  then show ?thesis using ids_inv_quiet [OF assms(1), of "svc_goto t p V"] by (simp add: given_def)
qed

lemma ids_inv_step:
  assumes route: "route_inv V" and ids: "ids_inv V" and day: "day_inv today mmap n V"
    and step: "svc_thread_step env t seed V = Some V'"
  shows "ids_inv V'"
  using step
proof (cases rule: svc_step_cases)
  case take
  then show ?thesis using goto_ids [OF ids _ route] by auto
next
  case (unknown s)
  then show ?thesis using goto_ids [OF ids _ route, of t "V_answer s LCT_INVALID_BIZ_TYPE None"] by auto
next
  case (known s S)
  then show ?thesis using goto_ids [OF ids _ route] by auto
next
  case (engine s S S1)
  obtain st where "unique_inv today st S" using day engine(2) by (auto simp: day_inv_def)
  then show ?thesis using engine_step_ids [OF route ids _ engine] by blast
next
  case (reply s e r)
  show ?thesis
  proof (rule ids_inv_reply [OF ids])
    show "pending V' u = (if u = t then None else pending V u)" for u
      using pending_goto [of V' V t V_free u] by (auto simp: reply(2)) (simp add: pending_def)
    show "given V' = given V" by (simp add: given_def reply(2))
    show "handed (vs_replies V') = handed (vs_replies V) @ (case pending V t of None \<Rightarrow> [] | Some y \<Rightarrow> [y])"
      by (simp add: reply handed_reply pending_def split: option.splits)
  qed
qed

lemma day_inv_step:
  assumes day: "day_inv today mmap n V" "same_day env today"
    and room: "\<And>s g. mmap s = Some g \<Longrightarrow> today_engine today (Suc n) g"
    and step: "svc_thread_step env t seed V = Some V'"
  shows "day_inv today mmap (Suc n) V'"
proof -
  have later: "\<exists>g. mmap s = Some g \<and> unique_inv today (Step (m_engineInfo g)) S \<and> 0 \<le> CurrentId (info S)
      \<and> CurrentId (info S) \<le> CurrentId (m_engineInfo g) + int (Suc n) * Step (m_engineInfo g)"
    if old: "vs_engines V s = Some S" for s S
  proof -
    obtain g where g: "mmap s = Some g" "unique_inv today (Step (m_engineInfo g)) S" "0 \<le> CurrentId (info S)"
      "CurrentId (info S) \<le> CurrentId (m_engineInfo g) + int n * Step (m_engineInfo g)"
      using day(1) old unfolding day_inv_def by blast
    then show ?thesis using room [OF g(1)] by (auto simp: today_engine_def algebra_simps)
  qed
  show ?thesis
    using step
  proof (cases rule: svc_step_cases)
    case (engine s S S1)
    obtain g where g: "mmap s = Some g" "unique_inv today (Step (m_engineInfo g)) S" "0 \<le> CurrentId (info S)"
      "CurrentId (info S) \<le> CurrentId (m_engineInfo g) + int n * Step (m_engineInfo g)"
      using day(1) engine(2) unfolding day_inv_def by blast
    have r: "0 < Step (m_engineInfo g)" "CurrentId (info S) + Step (m_engineInfo g) < 2 ^ 63"
      using room [OF g(1)] g(4) by (auto simp: today_engine_def algebra_simps)
    have i: "info (S\<lparr>ss_store := vs_store V\<rparr>) = info S" by simp
    have "unique_inv today (Step (m_engineInfo g)) S1 \<and> CurrentId (info S) \<le> CurrentId (info S1)
        \<and> CurrentId (info S1) \<le> CurrentId (info S) + Step (m_engineInfo g)"
      using unique_inv_step [OF _ r(1) day(2) _ _ engine(3), unfolded unique_inv_store i, OF g(2,3) r(2)] .
    then have "\<exists>g. mmap s = Some g \<and> unique_inv today (Step (m_engineInfo g)) S1 \<and> 0 \<le> CurrentId (info S1)
        \<and> CurrentId (info S1) \<le> CurrentId (m_engineInfo g) + int (Suc n) * Step (m_engineInfo g)"
      using g by (auto simp: algebra_simps)
    then show ?thesis using later unfolding day_inv_def engine(4) by simp
  qed (use later in \<open>auto simp: day_inv_def\<close>)
qed

lemma serving_invs:
  assumes "\<And>s g. mmap s = Some g \<Longrightarrow> today_engine today n g"
  shows "ids_inv (serving mmap c)" "day_inv today mmap 0 (serving mmap c)"
proof -
  show "ids_inv (serving mmap c)" by (simp add: ids_inv_def pending_def serving_def handed_def)
  have "unique_inv today (Step (m_engineInfo g)) (idle_sys g c)" if "mmap s = Some g" for s g
    using assms [OF that] by (simp add: unique_inv_def idle_sys_def info_def today_engine_def)
  moreover have "info (idle_sys g c) = m_engineInfo g" for g by (simp add: info_def idle_sys_def)
  ultimately show "day_inv today mmap 0 (serving mmap c)"
    using assms by (auto simp: day_inv_def serving_def today_engine_def)
qed

lemma today_engine_less: "today_engine today (Suc n) g \<Longrightarrow> today_engine today n g"
  by (auto simp: today_engine_def algebra_simps)

lemma svc_run_inv:
  assumes "svc_run env (serving mmap c) n V" "same_day env today" "\<And>s g. mmap s = Some g \<Longrightarrow> today_engine today n g"
  shows "route_inv V \<and> code_inv (dom mmap) V \<and> ids_inv V \<and> day_inv today mmap n V"
  using assms
proof (induction rule: svc_run.induct)
  case start
  show ?case by (intro conjI serving_route_inv serving_code_inv serving_invs [OF start(2)])
next
  case (step n V t seed V')
  have "today_engine today n g" if "mmap s = Some g" for s g
    using step.prems(2) [OF that] by (rule today_engine_less)
  then have i: "route_inv V" "code_inv (dom mmap) V" "ids_inv V" "day_inv today mmap n V"
    using step.IH [OF step.prems(1)] by blast+
  show ?case
    by (intro conjI route_inv_step [OF i(1) step.hyps(2)] code_inv_step [OF i(2) step.hyps(2)]
      ids_inv_step [OF i(1,3,4) step.hyps(2)] day_inv_step [OF i(4) step.prems(1,2) step.hyps(2)])
qed

end
