(* ===== verification/Id_Requests_Correct.thy ===== *)
theory Id_Requests_Correct
  imports Id_Requests
begin

text \<open>
  The id service under concurrent requests: within a day no two replies carry the same id of the
  same seed; requests that are served one at a time get the replies of \<open>answer_all\<close>; and no
  request can be shut out.
\<close>

section \<open>Every request can be answered\<close>

text \<open>How far a call of \<open>spawnId\<close> is from its end, at most.\<close>

fun rank :: "sid_pc \<Rightarrow> nat" where
  "rank P_idle = 18"
| "rank P_switch_lock = 17"
| "rank P_switch_test = 16"
| "rank P_switch_zero = 15"
| "rank P_switch_stamp = 14"
| "rank P_switch_valve = 13"
| "rank P_switch_persist = 12"
| "rank (P_switch_unlock e) = 11"
| "rank P_fetch = 10"
| "rank (P_test n) = 9"
| "rank (P_realloc_lock n) = 8"
| "rank (P_realloc_test n) = 7"
| "rank (P_realloc_add n) = 6"
| "rank (P_realloc_persist n) = 5"
| "rank (P_realloc_unlock n e) = 4"
| "rank (P_retest n) = 3"
| "rank (P_date n) = 2"
| "rank (P_number d n) = 1"
| "rank (P_done e r) = 0"

lemma rank_le: "rank p \<le> 18"
  by (cases p) simp_all

text \<open>A thread that the mutex does not stop always has a step, and every step brings it nearer.\<close>

lemma own_step:
  assumes "lock_inv S" "ss_lock S = None \<or> ss_lock S = Some t" "\<not> is_done (ss_pc S t)"
  shows "\<exists>S1. sid_thread_step env t S = Some S1 \<and> rank (ss_pc S1 t) < rank (ss_pc S t)
     \<and> (ss_lock S1 = None \<or> ss_lock S1 = Some t)"
proof -
  have "in_lock (ss_pc S t) \<longleftrightarrow> ss_lock S = Some t" using assms(1) by (simp add: lock_inv_def)
  then show ?thesis using assms(2,3)
    by (cases "ss_pc S t") (auto simp: sid_thread_step_def split: prod.splits)
qed

lemma call_ends:
  assumes "lock_inv S" "ss_lock S = None \<or> ss_lock S = Some t"
  shows "\<exists>k S'. k \<le> rank (ss_pc S t) \<and> run_call env t k S = Some S' \<and> is_done (ss_pc S' t)
     \<and> lock_inv S' \<and> ss_lock S' = None"
  using assms
proof (induction "rank (ss_pc S t)" arbitrary: S rule: less_induct)
  case less
  show ?case
  proof (cases "is_done (ss_pc S t)")
    case True
    then have "\<not> in_lock (ss_pc S t)" by (cases "ss_pc S t") simp_all
    then have "ss_lock S = None" using less.prems by (auto simp: lock_inv_def)
    then show ?thesis using True less.prems(1) by (intro exI [of _ 0] exI [of _ S]) simp
  next
    case False
    obtain S1 where S1: "sid_thread_step env t S = Some S1" "rank (ss_pc S1 t) < rank (ss_pc S t)"
      "ss_lock S1 = None \<or> ss_lock S1 = Some t" using own_step [OF less.prems False] by blast
    obtain k S' where k: "k \<le> rank (ss_pc S1 t)" "run_call env t k S1 = Some S'" "is_done (ss_pc S' t)"
      "lock_inv S'" "ss_lock S' = None"
      using less.hyps [OF S1(2) lock_inv_step [OF less.prems(1) S1(1)] S1(3)] by blast
    have "run_call env t (Suc k) S = Some S'" using False S1(1) k(2) by simp
    moreover have "Suc k \<le> rank (ss_pc S t)" using k(1) S1(2) by simp
    ultimately show ?thesis using k(3-5) by blast
  qed
qed

text \<open>The steps of a call, as steps of the service.\<close>

lemma run_call_served:
  assumes "run_call env t k (S\<lparr>ss_store := vs_store V\<rparr>) = Some S'" "vs_pc V t = V_spawn s" "vs_engines V s = Some S"
  shows "\<exists>V' S2. svc_schedule env (replicate k (t, x)) V = Some V' \<and> vs_pc V' = vs_pc V \<and> vs_replies V' = vs_replies V
     \<and> vs_engines V' = (vs_engines V)(s \<mapsto> S2) \<and> S2\<lparr>ss_store := vs_store V'\<rparr> = S'"
  using assms
proof (induction k arbitrary: V S)
  case 0
  then show ?case by (intro exI [of _ V] exI [of _ S]) auto
next
  case (Suc k)
  then obtain S1 where d: "\<not> is_done (ss_pc S t)" and S1: "sid_thread_step env t (S\<lparr>ss_store := vs_store V\<rparr>) = Some S1"
    "run_call env t k S1 = Some S'" by (auto split: if_splits option.splits)
  let ?V = "V\<lparr>vs_engines := (vs_engines V)(s \<mapsto> S1), vs_store := ss_store S1\<rparr>"
  have "(case ss_pc S t of P_done e r \<Rightarrow> V_answer s e r | _ \<Rightarrow> V_spawn s) = V_spawn s" using d by (cases "ss_pc S t") simp_all
  then have st: "svc_thread_step env t x V = Some ?V"
    using Suc.prems(2,3) S1(1) by (simp add: svc_thread_step_def svc_goto_def fun_upd_idem)
  have "run_call env t k (S1\<lparr>ss_store := vs_store ?V\<rparr>) = Some S'" using S1(2) by simp
  then obtain V' S2 where "svc_schedule env (replicate k (t, x)) ?V = Some V'" "vs_pc V' = vs_pc ?V"
    "vs_replies V' = vs_replies ?V" "vs_engines V' = (vs_engines ?V)(s \<mapsto> S2)" "S2\<lparr>ss_store := vs_store V'\<rparr> = S'"
    using Suc.IH [of ?V S1] Suc.prems(2) by (simp del: fun_upd_apply add: fun_upd_same) blast
  then show ?case using st by (intro exI [of _ V'] exI [of _ S2]) simp
qed

definition locks_inv :: "'c svc_sys \<Rightarrow> bool" where
  "locks_inv V \<longleftrightarrow> (\<forall>s S. vs_engines V s = Some S \<longrightarrow> lock_inv S)"

lemma lock_inv_store: "lock_inv (S\<lparr>ss_store := c\<rparr>) = lock_inv S"
  by (simp add: lock_inv_def)

lemma svc_run_routes:
  assumes "svc_run env (serving mmap c) n V"
  shows "route_inv V \<and> locks_inv V"
  using assms
proof (induction rule: svc_run.induct)
  case start
  show ?case using serving_route_inv by (auto simp: locks_inv_def serving_def idle_sys_def lock_inv_def)
next
  case (step n V t seed V')
  have "locks_inv V'"
    using step.hyps(2)
  proof (cases rule: svc_step_cases)
    case (engine s S S1)
    have "lock_inv S1" using step.IH engine(2) lock_inv_step [OF _ engine(3)] by (simp add: locks_inv_def lock_inv_store)
    then show ?thesis using step.IH by (simp add: locks_inv_def engine(4))
  qed (use step.IH in \<open>auto simp: locks_inv_def\<close>)
  then show ?case using step.IH route_inv_step [OF _ step.hyps(2)] by blast
qed

text \<open>First the thread that holds the mutex of engine \<open>s\<close> ends its call, if there is one.\<close>

lemma mutex_comes_free:
  assumes "route_inv V" "locks_inv V"
  shows "\<exists>u j V1. j \<le> 18 \<and> svc_schedule env (replicate j (u, x)) V = Some V1 \<and> vs_pc V1 = vs_pc V
     \<and> vs_replies V1 = vs_replies V \<and> (vs_engines V1 s = None \<longleftrightarrow> vs_engines V s = None)
     \<and> (\<forall>S. vs_engines V1 s = Some S \<longrightarrow> lock_inv S \<and> ss_lock S = None)"
proof (cases "\<exists>S u. vs_engines V s = Some S \<and> ss_lock S = Some u")
  case False
  then show ?thesis using assms(2) by (intro exI [of _ 0] exI [of _ V]) (auto simp: locks_inv_def)
next
  case True
  then obtain S u where S: "vs_engines V s = Some S" "ss_lock S = Some u" by blast
  then have inv: "lock_inv S" using assms(2) by (simp add: locks_inv_def)
  then have "in_lock (ss_pc S u)" using S(2) by (simp add: lock_inv_def)
  then have "ss_pc S u \<noteq> P_idle" by auto
  then have u: "vs_pc V u = V_spawn s" using assms(1) S(1) unfolding route_inv_def by blast
  let ?S = "S\<lparr>ss_store := vs_store V\<rparr>"
  have "lock_inv ?S" "ss_lock ?S = None \<or> ss_lock ?S = Some u" using inv S(2) by (simp_all add: lock_inv_store)
  then obtain j S' where j: "j \<le> rank (ss_pc ?S u)" "run_call env u j ?S = Some S'" "lock_inv S'" "ss_lock S' = None"
    using call_ends [of ?S u] by blast
  obtain V1 S2 where V1: "svc_schedule env (replicate j (u, x)) V = Some V1" "vs_pc V1 = vs_pc V"
    "vs_replies V1 = vs_replies V" "vs_engines V1 = (vs_engines V)(s \<mapsto> S2)" "S2\<lparr>ss_store := vs_store V1\<rparr> = S'"
    using run_call_served [OF j(2) u S(1)] by blast
  have "lock_inv S2 \<and> ss_lock S2 = None" using j(3,4) V1(5) lock_inv_store by fastforce
  moreover have "j \<le> 18" using j(1) rank_le [of "ss_pc S u"] by simp
  ultimately show ?thesis using V1(1-4) S(1) by (intro exI [of _ u] exI [of _ j] exI [of _ V1]) simp
qed

text \<open>A call that comes to its end is answered in two more steps.\<close>

lemma replicate_snoc: "replicate (k + 2) x = replicate k x @ [x, x]"
  by (simp only: replicate_add) (simp add: numeral_2_eq_2)

lemma call_answered:
  assumes call: "run_call env t k (S\<lparr>ss_store := vs_store V\<rparr>) = Some S'" "ss_pc S' t = P_done e r"
    and V: "vs_pc V t = V_spawn s" "vs_engines V s = Some S"
  shows "\<exists>V'. svc_schedule env (replicate (k + 2) (t, x)) V = Some V' \<and> vs_pc V' = (vs_pc V)(t := V_free)
     \<and> vs_replies V' = vs_replies V @ [(s, fetch_reply e r)] \<and> vs_store V' = ss_store S'
     \<and> vs_engines V' = (vs_engines V)(s \<mapsto> goto t P_idle S')"
proof -
  obtain V1 S2 where V1: "svc_schedule env (replicate k (t, x)) V = Some V1" "vs_pc V1 = vs_pc V"
    "vs_replies V1 = vs_replies V" "vs_engines V1 = (vs_engines V)(s \<mapsto> S2)" "S2\<lparr>ss_store := vs_store V1\<rparr> = S'"
    using run_call_served [OF call(1) V] by blast
  have pc: "ss_pc S2 t = P_done e r" using V1(5) call(2) by auto
  have "sid_thread_step env t S' = Some (goto t P_idle S')" using call(2) by (simp add: sid_thread_step_def)
  then have st: "svc_thread_step env t x V1 = Some (svc_goto t (V_answer s e r)
      (V1\<lparr>vs_engines := (vs_engines V)(s \<mapsto> goto t P_idle S'), vs_store := ss_store S'\<rparr>))"
    using V(1) V1(2,4,5) pc by (simp add: svc_thread_step_def)
  show ?thesis
    unfolding replicate_snoc svc_schedule_append V1(1)
    using st V1(2,3) by (simp add: svc_thread_step_def)
qed

lemma is_doneD: "is_done p \<Longrightarrow> \<exists>e r. p = P_done e r"
  by (cases p) simp_all

lemma spawn_answered:
  assumes "vs_pc V t = V_spawn s" "vs_engines V s = Some S" "lock_inv S" "ss_lock S = None"
  shows "\<exists>k V' r. k \<le> 20 \<and> svc_schedule env (replicate k (t, x)) V = Some V' \<and> vs_pc V' t = V_free
     \<and> vs_replies V' = vs_replies V @ [(s, r)]"
proof -
  let ?S = "S\<lparr>ss_store := vs_store V\<rparr>"
  have "lock_inv ?S" "ss_lock ?S = None \<or> ss_lock ?S = Some t" using assms(3,4) by (simp_all add: lock_inv_store)
  then obtain k S' where k: "k \<le> rank (ss_pc ?S t)" "run_call env t k ?S = Some S'" "is_done (ss_pc S' t)"
    using call_ends [of ?S t] by blast
  obtain e r where "ss_pc S' t = P_done e r" using is_doneD [OF k(3)] by blast
  then obtain V' where V': "svc_schedule env (replicate (k + 2) (t, x)) V = Some V'" "vs_pc V' = (vs_pc V)(t := V_free)"
    "vs_replies V' = vs_replies V @ [(s, fetch_reply e r)]"
    using call_answered [OF k(2) _ assms(1,2)] by blast
  have "k + 2 \<le> 20" using k(1) rank_le [of "ss_pc S t"] by simp
  then show ?thesis using V' by (intro exI [of _ "k + 2"] exI [of _ V'] exI [of _ "fetch_reply e r"]) simp
qed

lemma answer_step:
  assumes "vs_pc V t = V_answer s e r"
  shows "\<exists>V'. svc_schedule env [(t, x)] V = Some V' \<and> vs_pc V' t = V_free \<and> vs_replies V' = vs_replies V @ [(s, fetch_reply e r)]"
  using assms by (simp add: svc_thread_step_def)

text \<open>The seed of the request that a thread serves.\<close>

fun seed_of :: "svc_pc \<Rightarrow> int option" where
  "seed_of V_free = None"
| "seed_of (V_find s) = Some s"
| "seed_of (V_spawn s) = Some s"
| "seed_of (V_answer s e r) = Some s"

lemma request_answered:
  assumes seed: "seed_of (vs_pc V t) = Some s"
    and known: "\<forall>s. vs_pc V t = V_spawn s \<longrightarrow> vs_engines V s \<noteq> None"
    and free: "\<forall>S. vs_engines V s = Some S \<longrightarrow> lock_inv S \<and> ss_lock S = None"
  shows "\<exists>k V' r. k \<le> 21 \<and> svc_schedule env (replicate k (t, x)) V = Some V' \<and> vs_pc V' t = V_free
     \<and> vs_replies V' = vs_replies V @ [(s, r)]"
proof (cases "vs_pc V t")
  case V_free
  then show ?thesis using seed by simp
next
  case (V_answer s' e r)
  then have "s' = s" using seed by simp
  then show ?thesis using answer_step [OF V_answer, of env x] by (intro exI [of _ 1]) auto
next
  case (V_spawn s')
  then have pc: "vs_pc V t = V_spawn s" using seed by simp
  obtain S where S: "vs_engines V s = Some S" using known pc by blast
  have "lock_inv S" "ss_lock S = None" using free S by simp_all
  then obtain k V' r where "k \<le> 20" "svc_schedule env (replicate k (t, x)) V = Some V'" "vs_pc V' t = V_free"
    "vs_replies V' = vs_replies V @ [(s, r)]" using spawn_answered [OF pc S] by blast
  then show ?thesis by (intro exI [of _ k] exI [of _ V'] exI [of _ r]) simp
next
  case (V_find s')
  then have s: "s' = s" using seed by simp
  show ?thesis
  proof (cases "vs_engines V s")
    case None
    then have "svc_thread_step env t x V = Some (svc_goto t (V_answer s LCT_INVALID_BIZ_TYPE None) V)"
      using V_find s by (simp add: svc_thread_step_def)
    then show ?thesis
      using answer_step [of "svc_goto t (V_answer s LCT_INVALID_BIZ_TYPE None) V" t s LCT_INVALID_BIZ_TYPE None env x]
      by (intro exI [of _ 2]) (auto simp: numeral_2_eq_2)
  next
    case (Some S)
    then have st: "svc_thread_step env t x V = Some (svc_goto t (V_spawn s) V)"
      using V_find s by (simp add: svc_thread_step_def)
    obtain k V' r where k: "k \<le> 20" "svc_schedule env (replicate k (t, x)) (svc_goto t (V_spawn s) V) = Some V'"
      "vs_pc V' t = V_free" "vs_replies V' = vs_replies V @ [(s, r)]"
      using spawn_answered [of "svc_goto t (V_spawn s) V" t s S env x] Some free by auto
    then show ?thesis using st by (intro exI [of _ "Suc k"] exI [of _ V'] exI [of _ r]) simp
  qed
qed

text \<open>
  C12: no request can be shut out.  However the service got to where it is, a thread that serves
  a request for seed \<open>s\<close> can bring it to its end: after at most 18 steps of the thread that
  holds the mutex of the engine, at most 21 steps of its own put exactly one reply, for \<open>s\<close>.
\<close>

theorem requests_can_be_answered:
  assumes "svc_run env (serving mmap c) n V" "seed_of (vs_pc V t) = Some s"
  shows "\<exists>u j k V1 V' r. j \<le> 18 \<and> k \<le> 21 \<and> svc_schedule env (replicate j (u, x)) V = Some V1
     \<and> vs_pc V1 = vs_pc V \<and> vs_replies V1 = vs_replies V
     \<and> svc_schedule env (replicate k (t, x)) V1 = Some V' \<and> vs_pc V' t = V_free
     \<and> vs_replies V' = vs_replies V @ [(s, r)]"
proof -
  have inv: "route_inv V" "locks_inv V" using svc_run_routes [OF assms(1)] by blast+
  obtain u j V1 where V1: "j \<le> 18" "svc_schedule env (replicate j (u, x)) V = Some V1" "vs_pc V1 = vs_pc V"
    "vs_replies V1 = vs_replies V" "vs_engines V1 s = None \<longleftrightarrow> vs_engines V s = None"
    "\<forall>S. vs_engines V1 s = Some S \<longrightarrow> lock_inv S \<and> ss_lock S = None"
    using mutex_comes_free [OF inv, of env x s] by (elim exE conjE) (rule that)
  have known: "\<forall>s. vs_pc V1 t = V_spawn s \<longrightarrow> vs_engines V1 s \<noteq> None"
  proof (intro allI impI)
    fix s' assume "vs_pc V1 t = V_spawn s'"
    then have "s' = s" "vs_pc V t = V_spawn s'" using assms(2) V1(3) by auto
    then show "vs_engines V1 s' \<noteq> None" using inv(1) V1(5) unfolding route_inv_def by blast
  qed
  have seed: "seed_of (vs_pc V1 t) = Some s" using assms(2) V1(3) by simp
  then obtain k V' r where "k \<le> 21" "svc_schedule env (replicate k (t, x)) V1 = Some V'" "vs_pc V' t = V_free"
    "vs_replies V' = vs_replies V1 @ [(s, r)]"
    using request_answered [OF seed known V1(6), where env = env and x = x] by (elim exE conjE) (rule that)
  then show ?thesis using V1(1-4) by (intro exI [of _ u] exI [of _ j] exI [of _ k] exI [of _ V1] exI [of _ V'] exI [of _ r]) simp
qed

definition demo_service :: "int \<Rightarrow> int \<Rightarrow> mem_world svc_sys" where
  "demo_service v cur = serving [1001 \<mapsto> demo_engine v cur] ((mem_start [] [])\<lparr>mw_rows := [(1001, SEED_TYPE_DAY_SWITCH) \<mapsto> (1, v, 2)]\<rparr>)"

lemmas svc_eval = demo_service_def serving_def idle_sys_def svc_thread_step_def svc_goto_def sid_eval

theorem requests_can_be_answered_witness:
  "\<exists>V. vs_pc V 1 = V_find 1001 \<and> (\<exists>S. vs_engines V 1001 = Some S \<and> ss_lock S = Some 0)
     \<and> (\<exists>u j k V1 V' r. j \<le> 18 \<and> k \<le> 21 \<and> svc_schedule mem_env (replicate j (u, 7)) V = Some V1
       \<and> vs_pc V1 = vs_pc V \<and> vs_replies V1 = vs_replies V
       \<and> svc_schedule mem_env (replicate k (1, 7)) V1 = Some V' \<and> vs_pc V' 1 = V_free
       \<and> vs_replies V' = vs_replies V @ [(1001, r)])"
proof -
  obtain V where V: "svc_schedule mem_env (replicate 6 (0, 1001) @ [(1, 1001)]) (demo_service 2 2) = Some V"
    "vs_pc V 1 = V_find 1001" "\<exists>S. vs_engines V 1001 = Some S \<and> ss_lock S = Some 0"
    by (simp add: svc_eval numeral_eq_Suc)
  have "svc_run mem_env (demo_service 2 2) (0 + length (replicate 6 (0::nat, 1001::int) @ [(1, 1001)])) V"
    by (rule svc_schedule_run [OF V(1) svc_run.start])
  then have "svc_run mem_env (serving [1001 \<mapsto> demo_engine 2 2] ((mem_start [] [])\<lparr>mw_rows := [(1001, SEED_TYPE_DAY_SWITCH) \<mapsto> (1, 2, 2)]\<rparr>)) 7 V"
    by (simp add: demo_service_def)
  from requests_can_be_answered [OF this, of 1 1001 7] show ?thesis
    using V(2,3) by (intro exI [of _ V]) simp
qed

section \<open>No id twice\<close>

text \<open>
  C3: within one day, whatever the number of threads, the requests they take, the order of their
  steps and the answers of the data source: no two replies carry the same id of the same seed,
  every id is of today and of a seed with an engine, and every reply tells the truth: it is a
  success exactly if it carries an id, and a seed without an engine is refused as an invalid
  business type.
\<close>

theorem concurrent_requests_unique:
  assumes "svc_run env (serving mmap c) n V" "same_day env today" "\<And>s g. mmap s = Some g \<Longrightarrow> today_engine today n g"
  shows "distinct (handed (vs_replies V))
     \<and> (\<forall>(s, d, i) \<in> set (handed (vs_replies V)). s \<in> dom mmap \<and> d = today)
     \<and> (\<forall>(s, x) \<in> set (vs_replies V). \<exists>e r. x = fetch_reply e r
          \<and> (if s \<in> dom mmap then e = LCT_SUCCESS \<longleftrightarrow> r \<noteq> None else e = LCT_INVALID_BIZ_TYPE \<and> r = None))"
proof -
  have "route_inv V \<and> code_inv (dom mmap) V \<and> ids_inv V \<and> day_inv today mmap n V"
    by (rule svc_run_inv [OF assms(1,2)]) (rule assms(3))
  then have i: "code_inv (dom mmap) V" "ids_inv V" "day_inv today mmap n V" by blast+
  have "s \<in> dom mmap \<and> d = today" if "(s, d, k) \<in> set (handed (vs_replies V))" for s d k
  proof -
    have "(s, d, k) \<in> given V" using ids_invD(4) [OF i(2)] that by blast
    then obtain S where S: "vs_engines V s = Some S" "(d, k) \<in> set (ss_out S)" by (auto simp: given_def)
    then show ?thesis using i(3) unique_invD(8) [OF _ S(2)] unfolding day_inv_def by blast
  qed
  then show ?thesis using ids_invD(5) [OF i(2)] i(1) unfolding code_inv_def answer_ok_def by blast
qed

theorem concurrent_requests_unique_witness:
  "\<exists>V. svc_run (mem_env\<lparr>now_day := \<lambda>c. (''0'', c)\<rparr>) (demo_service 2 0) 21 V
     \<and> vs_replies V = [(1001, fetch_reply LCT_SUCCESS (Some (''0'', 0))), (1001, fetch_reply LCT_SUCCESS (Some (''0'', 1))),
          (9, fetch_reply LCT_INVALID_BIZ_TYPE None)]
     \<and> distinct (handed (vs_replies V))"
proof -
  let ?env = "mem_env\<lparr>now_day := \<lambda>c. (''0'', c)\<rparr>"
  let ?ts = "concat (replicate 9 [(0::nat, 1001::int), (1, 1001)]) @ replicate 3 (2, 9)"
  obtain V where V: "svc_schedule ?env ?ts (demo_service 2 0) = Some V"
    "vs_replies V = [(1001, fetch_reply LCT_SUCCESS (Some (''0'', 0))), (1001, fetch_reply LCT_SUCCESS (Some (''0'', 1))),
          (9, fetch_reply LCT_INVALID_BIZ_TYPE None)]"
    by (simp add: svc_eval numeral_eq_Suc)
  have "svc_run ?env (demo_service 2 0) (0 + length ?ts) V" by (rule svc_schedule_run [OF V(1) svc_run.start])
  then have r: "svc_run ?env (demo_service 2 0) 21 V" by (simp add: numeral_eq_Suc)
  have e: "today_engine ''0'' 21 g" if "[1001 \<mapsto> demo_engine 2 0] s = Some g" for s g
    using that by (auto simp: today_engine_def demo_engine_def split: if_splits)
  have "same_day ?env ''0''" by (simp add: same_day_def)
  then have "distinct (handed (vs_replies V))"
    by (rule concurrent_requests_unique [OF r [unfolded demo_service_def], THEN conjunct1]) (rule e)
  then show ?thesis using r V(2) by blast
qed

section \<open>Requests one at a time\<close>

text \<open>The service between two requests: its engines are those of the manager's map.\<close>

definition engines_of :: "'c svc_sys \<Rightarrow> engine_map" where
  "engines_of V = (\<lambda>s. map_option ss_engine (vs_engines V s))"

definition at_rest :: "'c svc_sys \<Rightarrow> bool" where
  "at_rest V \<longleftrightarrow> (\<forall>t. vs_pc V t = V_free)
     \<and> (\<forall>s S. vs_engines V s = Some S \<longrightarrow> ss_lock S = None \<and> (\<forall>t. ss_pc S t = P_idle))"

lemma serving_at_rest: "at_rest (serving mmap c)" "engines_of (serving mmap c) = mmap"
  by (auto simp: at_rest_def engines_of_def serving_def idle_sys_def option.map_comp comp_def option.map_ident)

lemma run_call_pc: "run_call env t k S = Some S' \<Longrightarrow> u \<noteq> t \<Longrightarrow> ss_pc S' u = ss_pc S u"
proof (induction k arbitrary: S)
  case (Suc k)
  then obtain S1 where S1: "sid_thread_step env t S = Some S1" "run_call env t k S1 = Some S'"
    by (auto split: if_splits option.splits)
  have "ss_pc S1 u = ss_pc S u" using sid_step_pc(1) [OF S1(1)] Suc.prems(2) by (metis fun_upd_other)
  then show ?case using Suc.IH [OF S1(2) Suc.prems(2)] by simp
qed simp

lemma one_request:
  assumes rest: "at_rest V"
    and f: "fetchId_from env seed [engines_of V] (vs_store V) = (e, r, m1, c1)"
  shows "\<exists>k V'. svc_schedule env (replicate k (t, seed)) V = Some V' \<and> at_rest V' \<and> m1 = [engines_of V'] \<and> vs_store V' = c1
     \<and> vs_replies V' = vs_replies V @ [(seed, fetch_reply e r)]"
proof -
  have free: "vs_pc V u = V_free" for u using rest by (simp add: at_rest_def)
  show ?thesis
  proof (cases "vs_engines V seed")
    case None
    then have "e = LCT_INVALID_BIZ_TYPE" "r = None" "m1 = [engines_of V]" "c1 = vs_store V"
      using f by (auto simp: engines_of_def)
    moreover have "\<exists>V'. svc_schedule env (replicate 3 (t, seed)) V = Some V' \<and> vs_pc V' = vs_pc V \<and> vs_store V' = vs_store V
        \<and> vs_engines V' = vs_engines V \<and> vs_replies V' = vs_replies V @ [(seed, fetch_reply LCT_INVALID_BIZ_TYPE None)]"
      using None free [of t] by (simp add: numeral_3_eq_3 svc_thread_step_def fun_upd_idem)
    ultimately show ?thesis using rest unfolding at_rest_def engines_of_def by metis
  next
    case (Some S)
    obtain g1 where sp: "spawnId env (ss_engine S) (vs_store V) = (e, r, g1, c1)" and m1: "m1 = [(engines_of V)(seed \<mapsto> g1)]"
      using f Some by (auto simp: engines_of_def split: prod.splits)
    have S: "ss_lock S = None" "ss_pc S u = P_idle" for u using rest Some by (auto simp: at_rest_def)
    let ?S = "S\<lparr>ss_store := vs_store V\<rparr>" and ?V = "svc_goto t (V_spawn seed) V"
    obtain k S' where k: "run_call env t k ?S = Some S'" "ss_pc S' t = P_done e r" "ss_engine S' = g1" "ss_store S' = c1" "ss_lock S' = None"
      using thread_alone_is_spawnId [of ?S t env e r g1 c1] S sp by auto
    have call: "run_call env t k (S\<lparr>ss_store := vs_store ?V\<rparr>) = Some S'" using k(1) by simp
    obtain V' where V': "svc_schedule env (replicate (k + 2) (t, seed)) ?V = Some V'" "vs_pc V' = (vs_pc ?V)(t := V_free)"
      "vs_replies V' = vs_replies ?V @ [(seed, fetch_reply e r)]" "vs_store V' = ss_store S'"
      "vs_engines V' = (vs_engines ?V)(seed \<mapsto> goto t P_idle S')"
      using call_answered [OF call k(2), of seed seed] Some by auto
    have run: "svc_schedule env (replicate (Suc (Suc (k + 2))) (t, seed)) V = Some V'"
      using free [of t] Some V'(1) by (simp add: svc_thread_step_def svc_goto_def)
    have "ss_pc (goto t P_idle S') u = P_idle" for u using run_call_pc [OF k(1), of u] S(2) by simp
    then have "at_rest V'" using rest V'(2,5) k(5) by (simp add: at_rest_def)
    moreover have "engines_of V' = (engines_of V)(seed \<mapsto> g1)"
      using V'(5) k(3) by (auto simp: engines_of_def)
    ultimately show ?thesis using run V'(3,4) k(4) m1 by (intro exI [of _ "Suc (Suc (k + 2))"] exI [of _ V']) simp
  qed
qed

text \<open>
  C11: threads that serve their requests one after the other, each on the engine of its seed and
  step by step, reply as the sequential model \<open>answer_all\<close> does and leave the same engines and
  the same data source: what is proved of it holds of the service as it runs.
\<close>

theorem one_at_a_time_is_answer_all:
  assumes "answer_all env (map snd reqs) [mmap] c = (rs, m1, c1)"
  shows "\<exists>ks V. length ks = length reqs \<and> svc_schedule env (concat (map2 replicate ks reqs)) (serving mmap c) = Some V
     \<and> vs_replies V = rs \<and> m1 = [engines_of V] \<and> vs_store V = c1"
proof -
  have "\<exists>ks V'. length ks = length reqs \<and> svc_schedule env (concat (map2 replicate ks reqs)) V = Some V'
      \<and> vs_replies V' = vs_replies V @ rs \<and> m1 = [engines_of V'] \<and> vs_store V' = c1"
    if "at_rest V" "answer_all env (map snd reqs) [engines_of V] (vs_store V) = (rs, m1, c1)" for V
    using that
  proof (induction reqs arbitrary: V rs)
    case Nil
    then show ?case by simp
  next
    case (Cons a reqs)
    obtain t seed where a: "a = (t, seed)" by fastforce
    obtain st resp ma ca where F: "FetchId env (Some ()) (Some seed) (Some empty_response) [engines_of V] (vs_store V) = (st, resp, ma, ca)"
      by (metis prod_cases4)
    obtain e r where f: "fetchId_from env seed [engines_of V] (vs_store V) = (e, r, ma, ca)"
      and resp: "resp = Some (fetch_reply e r)" using FetchId_result [OF F] by auto
    obtain k V1 where V1: "svc_schedule env (replicate k (t, seed)) V = Some V1" "at_rest V1" "ma = [engines_of V1]"
      "vs_store V1 = ca" "vs_replies V1 = vs_replies V @ [(seed, fetch_reply e r)]"
      using one_request [OF Cons.prems(1) f] by blast
    obtain rs2 mb cb where A: "answer_all env (map snd reqs) ma ca = (rs2, mb, cb)" by (metis prod_cases3)
    have rs: "rs = (seed, fetch_reply e r) # rs2" "mb = m1" "cb = c1" using Cons.prems(2) F A resp a by auto
    obtain ks V' where "length ks = length reqs" "svc_schedule env (concat (map2 replicate ks reqs)) V1 = Some V'"
      "vs_replies V' = vs_replies V1 @ rs2" "m1 = [engines_of V']" "vs_store V' = c1"
      using Cons.IH [OF V1(2), of rs2] A rs V1(3,4) by auto
    then show ?case using V1(1,5) rs(1)
      by (intro exI [of _ "k # ks"] exI [of _ V']) (simp add: a svc_schedule_append)
  qed
  from this [of "serving mmap c"] show ?thesis
    using assms serving_at_rest [of mmap c] by (simp add: serving_def)
qed

theorem one_at_a_time_is_answer_all_witness:
  "\<exists>ks V. length ks = 3 \<and> svc_schedule mem_env (concat (map2 replicate ks [(0, 1001), (5, 9), (1, 1001)])) (demo_service 2 0) = Some V
     \<and> vs_replies V = [(1001, fetch_reply LCT_SUCCESS (Some (''0'', 0))), (9, fetch_reply LCT_INVALID_BIZ_TYPE None),
          (1001, fetch_reply LCT_SUCCESS (Some (''0'', 1)))]"
proof -
  let ?c = "(mem_start [] [])\<lparr>mw_rows := [(1001, SEED_TYPE_DAY_SWITCH) \<mapsto> (1, 2, 2)]\<rparr>"
  have sp: "spawnId mem_env (demo_engine 2 0) ?c = (LCT_SUCCESS, Some (''0'', 0), demo_engine 2 1, ?c)"
    "spawnId mem_env (demo_engine 2 1) ?c = (LCT_SUCCESS, Some (''0'', 1), demo_engine 2 2, ?c)"
    by (simp_all add: sid_eval)
  obtain m1 c1 where "answer_all mem_env (map snd [(0::nat, 1001), (5, 9), (1, 1001)]) [[1001 \<mapsto> demo_engine 2 0]] ?c =
      ([(1001, fetch_reply LCT_SUCCESS (Some (''0'', 0))), (9, fetch_reply LCT_INVALID_BIZ_TYPE None),
        (1001, fetch_reply LCT_SUCCESS (Some (''0'', 1)))], m1, c1)"
    by (simp add: FetchId_def mgr_fetchId_def empty_response_def Let_def sp)
  from one_at_a_time_is_answer_all [OF this] show ?thesis
    by (auto simp: demo_service_def numeral_3_eq_3)
qed

end
