(* ===== verification/Grpc_Service.thy ===== *)
theory Grpc_Service
  imports Std_String Error_Code
begin

text \<open>
  \<open>wrapper/grpc/lct_grpc_service_helper.h\<close> with its \<open>detail\<close> files, and
  \<open>lct_grpc_client_helper\<close>.  The gRPC library is the parameter \<open>grpc_lib\<close>: which calls of
  the builder throw, what \<open>BuildAndStart\<close> returns, whether \<open>Wait\<close> and \<open>Shutdown\<close> throw;
  \<open>'w\<close> is everything behind it.  \<open>Wait\<close> returns only once the server has been shut down, as
  gRPC documents it.  What other threads and signal handlers do to the service object in
  the meantime are function arguments of \<open>grpc_serve\<close>.  Log lines are left out.
\<close>

section \<open>The library\<close>

text \<open>The channel arguments and server options the code sets, and its calls of the builder.\<close>

datatype channel_arg = GRPC_ARG_KEEPALIVE_TIME_MS | GRPC_ARG_KEEPALIVE_TIMEOUT_MS

datatype sync_option = NUM_CQS | MIN_POLLERS | MAX_POLLERS | CQ_TIMEOUT_MSEC

datatype builder_call =
    AddChannelArgument channel_arg int
  | SetSyncServerOption sync_option int
  | AddListeningPort string
  | RegisterService nat

datatype built = Server_started | No_server | Build_throws

record 'w grpc_lib =
  gl_call :: "builder_call \<Rightarrow> 'w \<Rightarrow> bool \<times> 'w"
  gl_build :: "builder_call list \<Rightarrow> 'w \<Rightarrow> built \<times> 'w"
  gl_wait :: "'w \<Rightarrow> bool \<times> 'w"
  gl_shutdown :: "'w \<Rightarrow> bool \<times> 'w"

section \<open>The service object\<close>

text \<open>
  \<open>gs_server\<close> is \<open>m_serverUnp\<close>: \<open>Some down\<close> for a server, with \<open>down\<close> once it has been shut
  down.  \<open>gs_impl\<close> is \<open>m_svcImplShp\<close>, a number per object; \<open>gs_builder\<close> the calls made on
  \<open>m_serverBuilder\<close>.
\<close>

record grpc_service =
  gs_isServing :: bool
  gs_port :: int
  gs_cqNumber :: int
  gs_cqMinPollers :: int
  gs_cqMaxPollers :: int
  gs_timeoutMsec :: int
  gs_keepaliveInterval :: int
  gs_keepaliveTimeout :: int
  gs_ip :: string
  gs_server :: "bool option"
  gs_impl :: "nat option"
  gs_builder :: "builder_call list"

definition new_grpc_service :: "int \<Rightarrow> string \<Rightarrow> grpc_service" where
  "new_grpc_service svcPort svcIp =
     \<lparr>gs_isServing = False, gs_port = svcPort, gs_cqNumber = 1, gs_cqMinPollers = 1, gs_cqMaxPollers = 2 ^ 31 - 1,
      gs_timeoutMsec = 1000, gs_keepaliveInterval = 1000 * 10, gs_keepaliveTimeout = 1000 * 2, gs_ip = svcIp,
      gs_server = None, gs_impl = None, gs_builder = []\<rparr>"

definition setCqNumber :: "int \<Rightarrow> grpc_service \<Rightarrow> lct_err \<times> grpc_service" where
  "setCqNumber count s = (if count \<le> 0 then (LCT_INVALID_PARAM, s) else (LCT_SUCCESS, s\<lparr>gs_cqNumber := count\<rparr>))"

definition setCqMinPoller :: "int \<Rightarrow> grpc_service \<Rightarrow> lct_err \<times> grpc_service" where
  "setCqMinPoller count s = (if count \<le> 0 then (LCT_INVALID_PARAM, s) else (LCT_SUCCESS, s\<lparr>gs_cqMinPollers := count\<rparr>))"

definition setCqMaxPoller :: "int \<Rightarrow> grpc_service \<Rightarrow> lct_err \<times> grpc_service" where
  "setCqMaxPoller count s = (if count \<le> 0 then (LCT_INVALID_PARAM, s) else (LCT_SUCCESS, s\<lparr>gs_cqMaxPollers := count\<rparr>))"

definition setTimeout :: "int \<Rightarrow> grpc_service \<Rightarrow> lct_err \<times> grpc_service" where
  "setTimeout msec s = (if msec \<le> 0 then (LCT_INVALID_PARAM, s) else (LCT_SUCCESS, s\<lparr>gs_timeoutMsec := msec\<rparr>))"

definition setKeepaliveInterval :: "int \<Rightarrow> grpc_service \<Rightarrow> lct_err \<times> grpc_service" where
  "setKeepaliveInterval msec s =
     (if msec \<le> 0 then (LCT_INVALID_PARAM, s) else (LCT_SUCCESS, s\<lparr>gs_keepaliveInterval := msec\<rparr>))"

definition setKeepaliveTimeout :: "int \<Rightarrow> grpc_service \<Rightarrow> lct_err \<times> grpc_service" where
  "setKeepaliveTimeout msec s =
     (if msec \<le> 0 then (LCT_INVALID_PARAM, s) else (LCT_SUCCESS, s\<lparr>gs_keepaliveTimeout := msec\<rparr>))"

definition getPort :: "grpc_service \<Rightarrow> int" where "getPort s = gs_port s"
definition getIp :: "grpc_service \<Rightarrow> string" where "getIp s = gs_ip s"
definition isServing :: "grpc_service \<Rightarrow> bool" where "isServing s = gs_isServing s"

definition service_addr :: "int \<Rightarrow> string \<Rightarrow> string" where
  "service_addr svcPort svcIp = svcIp @ '':'' @ to_string svcPort"

text \<open>Calls of the builder, one after the other; \<open>False\<close> when one of them throws.\<close>

fun builder_calls :: "'w grpc_lib \<Rightarrow> builder_call list \<Rightarrow> grpc_service \<Rightarrow> 'w \<Rightarrow> bool \<times> grpc_service \<times> 'w" where
  "builder_calls lib [] s w = (True, s, w)"
| "builder_calls lib (c # cs) s w =
     (case gl_call lib c w of (ok, w1) \<Rightarrow>
       if ok then builder_calls lib cs (s\<lparr>gs_builder := gs_builder s @ [c]\<rparr>) w1 else (False, s, w1))"

definition settings_calls :: "grpc_service \<Rightarrow> builder_call list" where
  "settings_calls s =
     [AddChannelArgument GRPC_ARG_KEEPALIVE_TIME_MS (gs_keepaliveInterval s),
      AddChannelArgument GRPC_ARG_KEEPALIVE_TIMEOUT_MS (gs_keepaliveTimeout s),
      SetSyncServerOption NUM_CQS (gs_cqNumber s),
      SetSyncServerOption MIN_POLLERS (gs_cqMinPollers s),
      SetSyncServerOption MAX_POLLERS (gs_cqMaxPollers s),
      SetSyncServerOption CQ_TIMEOUT_MSEC (gs_timeoutMsec s),
      AddListeningPort (service_addr (gs_port s) (gs_ip s))]"

definition fresh_impl :: "grpc_service \<Rightarrow> nat" where
  "fresh_impl s = (case gs_impl s of None \<Rightarrow> 0 | Some i \<Rightarrow> Suc i)"

definition grpc_init :: "'w grpc_lib \<Rightarrow> grpc_service \<Rightarrow> 'w \<Rightarrow> lct_err \<times> grpc_service \<times> 'w" where
  "grpc_init lib s w =
     (case builder_calls lib (settings_calls s) s w of (ok, s1, w1) \<Rightarrow>
       if \<not> ok then (LCT_UNEXPECTED, s1, w1)
       else (let s2 = s1\<lparr>gs_impl := Some (fresh_impl s1)\<rparr> in
         case builder_calls lib [RegisterService (fresh_impl s1)] s2 w1 of (ok2, s3, w2) \<Rightarrow>
           if \<not> ok2 then (LCT_UNEXPECTED, s3, w2) else (LCT_SUCCESS, s3, w2)))"

text \<open>
  The builder keeps plain pointers to the services registered: after a second \<open>init\<close> the first
  of them points to an object that was deleted.
\<close>

definition impl_alive :: "grpc_service \<Rightarrow> bool" where
  "impl_alive s \<longleftrightarrow> (\<forall>c \<in> set (gs_builder s). case c of RegisterService i \<Rightarrow> gs_impl s = Some i | _ \<Rightarrow> True)"

text \<open>
  \<open>early\<close> is what others do between the start of the server and the assignment of \<open>m_isServing\<close>,
  \<open>during\<close> what they do while the thread is in \<open>Wait\<close>.
\<close>

definition grpc_serve ::
    "'w grpc_lib \<Rightarrow> (grpc_service \<times> 'w \<Rightarrow> (grpc_service \<times> 'w) res)
       \<Rightarrow> (grpc_service \<times> 'w \<Rightarrow> (grpc_service \<times> 'w) res)
       \<Rightarrow> bool \<Rightarrow> grpc_service \<Rightarrow> 'w \<Rightarrow> (lct_err \<times> grpc_service \<times> 'w) res" where
  "grpc_serve lib early during syncWait s w =
     (if \<not> impl_alive s then Inl Undefined
      else case gl_build lib (gs_builder s) w of
        (Build_throws, w1) \<Rightarrow> Inr (LCT_UNEXPECTED, s, w1)
      | (No_server, w1) \<Rightarrow> Inr (LCT_FAIL, s\<lparr>gs_server := None\<rparr>, w1)
      | (Server_started, w1) \<Rightarrow>
          res_bind (early (s\<lparr>gs_server := Some False\<rparr>, w1)) (\<lambda>(s1, w2).
            let s2 = s1\<lparr>gs_isServing := True\<rparr> in
            if \<not> syncWait then Inr (LCT_SUCCESS, s2, w2)
            else res_bind (during (s2, w2)) (\<lambda>(s3, w3).
              (case gs_server s3 of
                 None \<Rightarrow> Inl Undefined
               | Some False \<Rightarrow> Inl Blocked
               | Some True \<Rightarrow> (case gl_wait lib w3 of (ok, w4) \<Rightarrow>
                   Inr (if ok then LCT_SUCCESS else LCT_UNEXPECTED, s3, w4))))))"

definition grpc_shutdown :: "'w grpc_lib \<Rightarrow> grpc_service \<Rightarrow> 'w \<Rightarrow> lct_err \<times> grpc_service \<times> 'w" where
  "grpc_shutdown lib s w =
     (if gs_isServing s then
        (case gs_server s of
           None \<Rightarrow> (LCT_SUCCESS, s\<lparr>gs_isServing := False\<rparr>, w)
         | Some d \<Rightarrow> (case gl_shutdown lib w of (ok, w1) \<Rightarrow>
             if ok then (LCT_SUCCESS, s\<lparr>gs_server := Some True, gs_isServing := False\<rparr>, w1)
             else (LCT_UNEXPECTED, s, w1)))
      else (LCT_SUCCESS, s, w))"

text \<open>The destructor shuts down; the status is dropped.\<close>

definition grpc_destroy :: "'w grpc_lib \<Rightarrow> grpc_service \<Rightarrow> 'w \<Rightarrow> 'w" where
  "grpc_destroy lib s w = snd (snd (grpc_shutdown lib s w))"

text \<open>
  \<open>CLctGRpcServiceHelper::Serve\<close>: a server in one call.  A build that returns no server is not
  tested for: the wait goes through a null pointer.
\<close>

definition helper_Serve :: "'w grpc_lib \<Rightarrow> ('w \<Rightarrow> bool \<times> 'w) \<Rightarrow> int \<Rightarrow> string \<Rightarrow> bool \<Rightarrow> 'w \<Rightarrow> (lct_err \<times> 'w) res" where
  "helper_Serve lib others svcPort svcIp syncWait w =
     (let s = new_grpc_service svcPort svcIp in
      case builder_calls lib [AddListeningPort (service_addr svcPort svcIp), RegisterService 0] s w of (ok, s1, w1) \<Rightarrow>
        if \<not> ok then Inr (LCT_UNEXPECTED, w1)
        else case gl_build lib (gs_builder s1) w1 of
          (Build_throws, w2) \<Rightarrow> Inr (LCT_UNEXPECTED, w2)
        | (No_server, w2) \<Rightarrow> if syncWait then Inl Undefined else Inr (LCT_SUCCESS, w2)
        | (Server_started, w2) \<Rightarrow>
            if \<not> syncWait then Inr (LCT_SUCCESS, w2)
            else (case others w2 of (down, w3) \<Rightarrow>
              if \<not> down then Inl Blocked
              else case gl_wait lib w3 of (ok2, w4) \<Rightarrow> Inr (if ok2 then LCT_SUCCESS else LCT_UNEXPECTED, w4)))"

text \<open>
  \<open>CLctGRpcClientHelper::CallService\<close>: the remote call through a fresh channel; it throws
  (\<open>None\<close>) or returns whether its status is ok and the reply.
\<close>

definition CallService ::
    "(string \<Rightarrow> 'req \<Rightarrow> 'rep \<Rightarrow> 'w \<Rightarrow> bool option \<times> 'rep \<times> 'w) \<Rightarrow> int \<Rightarrow> string \<Rightarrow> 'req \<Rightarrow> 'rep \<Rightarrow> 'w \<Rightarrow> lct_err \<times> 'rep \<times> 'w" where
  "CallService remoteCall svcPort svcIp request reply w =
     (case remoteCall (service_addr svcPort svcIp) request reply w of
        (Some ok, reply1, w1) \<Rightarrow> (if ok then LCT_SUCCESS else LCT_FAIL, reply1, w1)
      | (None, reply1, w1) \<Rightarrow> (LCT_UNEXPECTED, reply1, w1))"

section \<open>What is configured reaches the server\<close>

datatype grpc_setting = Cq_number int | Cq_min_poller int | Cq_max_poller int | Msec_timeout int
  | Keepalive_interval int | Keepalive_timeout int

fun apply_setting :: "grpc_setting \<Rightarrow> grpc_service \<Rightarrow> lct_err \<times> grpc_service" where
  "apply_setting (Cq_number k) s = setCqNumber k s"
| "apply_setting (Cq_min_poller k) s = setCqMinPoller k s"
| "apply_setting (Cq_max_poller k) s = setCqMaxPoller k s"
| "apply_setting (Msec_timeout k) s = setTimeout k s"
| "apply_setting (Keepalive_interval k) s = setKeepaliveInterval k s"
| "apply_setting (Keepalive_timeout k) s = setKeepaliveTimeout k s"

definition configured :: "grpc_setting list \<Rightarrow> grpc_service \<Rightarrow> grpc_service" where
  "configured ss s = fold (\<lambda>x. snd \<circ> apply_setting x) ss s"

text \<open>The last valid value given for a setting, or its default.\<close>

definition chosen :: "(grpc_setting \<Rightarrow> int option) \<Rightarrow> int \<Rightarrow> grpc_setting list \<Rightarrow> int" where
  "chosen sel dflt ss = last (dflt # filter (\<lambda>k. 0 < k) (List.map_filter sel ss))"

fun sel_cq_number where "sel_cq_number (Cq_number k) = Some k" | "sel_cq_number _ = None"
fun sel_min_poller where "sel_min_poller (Cq_min_poller k) = Some k" | "sel_min_poller _ = None"
fun sel_max_poller where "sel_max_poller (Cq_max_poller k) = Some k" | "sel_max_poller _ = None"
fun sel_timeout where "sel_timeout (Msec_timeout k) = Some k" | "sel_timeout _ = None"
fun sel_interval where "sel_interval (Keepalive_interval k) = Some k" | "sel_interval _ = None"
fun sel_ka_timeout where "sel_ka_timeout (Keepalive_timeout k) = Some k" | "sel_ka_timeout _ = None"

lemmas setter_defs = setCqNumber_def setCqMinPoller_def setCqMaxPoller_def setTimeout_def
  setKeepaliveInterval_def setKeepaliveTimeout_def

lemma chosen_Cons:
  "chosen sel d (x # ss) = chosen sel (case sel x of Some k \<Rightarrow> if 0 < k then k else d | None \<Rightarrow> d) ss"
  by (simp add: chosen_def List.map_filter_simps split: option.splits)

lemma configured_fields:
  "configured ss s = s\<lparr>gs_cqNumber := chosen sel_cq_number (gs_cqNumber s) ss,
     gs_cqMinPollers := chosen sel_min_poller (gs_cqMinPollers s) ss,
     gs_cqMaxPollers := chosen sel_max_poller (gs_cqMaxPollers s) ss,
     gs_timeoutMsec := chosen sel_timeout (gs_timeoutMsec s) ss,
     gs_keepaliveInterval := chosen sel_interval (gs_keepaliveInterval s) ss,
     gs_keepaliveTimeout := chosen sel_ka_timeout (gs_keepaliveTimeout s) ss\<rparr>"
proof (induction ss arbitrary: s)
  case Nil
  then show ?case by (simp add: configured_def chosen_def List.map_filter_simps)
next
  case (Cons x ss)
  have "configured (x # ss) s = configured ss (snd (apply_setting x s))" by (simp add: configured_def)
  then show ?case using Cons by (cases x) (simp_all add: chosen_Cons setter_defs)
qed

lemma builder_calls_ok:
  assumes "\<And>c w. fst (gl_call lib c w)"
  shows "\<exists>w1. builder_calls lib cs s w = (True, s\<lparr>gs_builder := gs_builder s @ cs\<rparr>, w1)"
proof (induction cs arbitrary: s w)
  case (Cons c cs)
  obtain w1 where "gl_call lib c w = (True, w1)" using assms [of c w] by (metis prod.collapse)
  then show ?case using Cons [of "s\<lparr>gs_builder := gs_builder s @ [c]\<rparr>" w1] by simp
qed simp

lemma grpc_init_ok:
  assumes "\<And>c w. fst (gl_call lib c w)"
  shows "\<exists>w1. grpc_init lib s w = (LCT_SUCCESS,
     s\<lparr>gs_builder := gs_builder s @ settings_calls s @ [RegisterService (fresh_impl s)], gs_impl := Some (fresh_impl s)\<rparr>, w1)"
proof -
  let ?s1 = "s\<lparr>gs_builder := gs_builder s @ settings_calls s\<rparr>"
  obtain w1 where 1: "builder_calls lib (settings_calls s) s w = (True, ?s1, w1)"
    using builder_calls_ok [of lib "settings_calls s" s w] assms by blast
  have f: "fresh_impl ?s1 = fresh_impl s" by (simp add: fresh_impl_def)
  obtain w2 where 2: "builder_calls lib [RegisterService (fresh_impl s)] (?s1\<lparr>gs_impl := Some (fresh_impl s)\<rparr>) w1
      = (True, (?s1\<lparr>gs_impl := Some (fresh_impl s)\<rparr>)\<lparr>gs_builder := gs_builder (?s1\<lparr>gs_impl := Some (fresh_impl s)\<rparr>)
           @ [RegisterService (fresh_impl s)]\<rparr>, w2)"
    using builder_calls_ok [of lib "[RegisterService (fresh_impl s)]" "?s1\<lparr>gs_impl := Some (fresh_impl s)\<rparr>" w1] assms by blast
  show ?thesis by (simp add: grpc_init_def Let_def 1 f 2 del: builder_calls.simps)
qed

text \<open>
  C30: after any sequence of setter calls on a new service, \<open>init\<close> prepares the server with, for
  every setting, the last positive value it was given or else its default, with the address and
  with the one service object, each exactly once and in this order.
\<close>

theorem settings_reach_server:
  assumes "\<And>c w. fst (gl_call lib c w)"
  shows "\<exists>s1 w1. grpc_init lib (configured ss (new_grpc_service port ip)) w = (LCT_SUCCESS, s1, w1)
     \<and> impl_alive s1 \<and> \<not> isServing s1
     \<and> gs_builder s1 =
        [AddChannelArgument GRPC_ARG_KEEPALIVE_TIME_MS (chosen sel_interval 10000 ss),
         AddChannelArgument GRPC_ARG_KEEPALIVE_TIMEOUT_MS (chosen sel_ka_timeout 2000 ss),
         SetSyncServerOption NUM_CQS (chosen sel_cq_number 1 ss),
         SetSyncServerOption MIN_POLLERS (chosen sel_min_poller 1 ss),
         SetSyncServerOption MAX_POLLERS (chosen sel_max_poller 2147483647 ss),
         SetSyncServerOption CQ_TIMEOUT_MSEC (chosen sel_timeout 1000 ss),
         AddListeningPort (ip @ '':'' @ to_string port), RegisterService 0]"
proof -
  obtain w1 where i: "grpc_init lib (configured ss (new_grpc_service port ip)) w = (LCT_SUCCESS,
      (configured ss (new_grpc_service port ip))\<lparr>gs_builder := gs_builder (configured ss (new_grpc_service port ip))
         @ settings_calls (configured ss (new_grpc_service port ip)) @ [RegisterService (fresh_impl (configured ss (new_grpc_service port ip)))],
       gs_impl := Some (fresh_impl (configured ss (new_grpc_service port ip)))\<rparr>, w1)"
    using grpc_init_ok [of lib "configured ss (new_grpc_service port ip)" w] assms by blast
  show ?thesis unfolding i
    by (simp add: configured_fields new_grpc_service_def settings_calls_def fresh_impl_def impl_alive_def
        isServing_def service_addr_def)
qed

theorem settings_reach_server_witness:
  "\<exists>s1 w1. grpc_init \<lparr>gl_call = \<lambda>c w. (True, w), gl_build = \<lambda>b w. (Server_started, w), gl_wait = \<lambda>w. (True, w),
        gl_shutdown = \<lambda>w. (True, w)\<rparr> (configured [Msec_timeout 5, Msec_timeout (-1)] (new_grpc_service 10086 ''0.0.0.0'')) ()
      = (LCT_SUCCESS, s1, w1) \<and> SetSyncServerOption CQ_TIMEOUT_MSEC 5 \<in> set (gs_builder s1)"
proof -
  let ?lib = "\<lparr>gl_call = \<lambda>c w. (True, w), gl_build = \<lambda>b w. (Server_started, w), gl_wait = \<lambda>w. (True, w),
        gl_shutdown = \<lambda>w. (True, w)\<rparr> :: unit grpc_lib"
  have "\<And>c w. fst (gl_call ?lib c w)" by simp
  from settings_reach_server [of ?lib, OF this, of "[Msec_timeout 5, Msec_timeout (-1)]" 10086 "''0.0.0.0''" "()"]
  obtain s1 w1 where "grpc_init ?lib (configured [Msec_timeout 5, Msec_timeout (-1)] (new_grpc_service 10086 ''0.0.0.0'')) ()
      = (LCT_SUCCESS, s1, w1)"
    "SetSyncServerOption CQ_TIMEOUT_MSEC (chosen sel_timeout 1000 [Msec_timeout 5, Msec_timeout (-1)]) \<in> set (gs_builder s1)"
    by auto
  moreover have "chosen sel_timeout 1000 [Msec_timeout 5, Msec_timeout (-1)] = 5"
    by (simp add: chosen_def List.map_filter_simps)
  ultimately show ?thesis by auto
qed

end
