(* ===== verification/Common_Util.thy ===== *)
theory Common_Util
  imports Error_Code
begin

text \<open>
  \<open>common/detail/lct_common_util.cpp\<close>: hexadecimal coding of byte strings and the calendar
  tool that lists the dates of a range.  Dates are decimal numbers \<open>YYYYMMDD\<close>; division and
  remainder truncate, and an index outside the table of months or a sum outside \<open>int32_t\<close> is
  undefined behaviour.
\<close>

section \<open>Hexadecimal coding\<close>

definition hex_of :: "bool \<Rightarrow> nat \<Rightarrow> char" where
  "hex_of uppercase d = (if uppercase then ''0123456789ABCDEF'' else ''0123456789abcdef'') ! d"

fun Bin2Hex :: "string \<Rightarrow> bool \<Rightarrow> string" where
  "Bin2Hex [] u = []"
| "Bin2Hex (c # cs) u = hex_of u (of_char c div 16) # hex_of u (of_char c mod 16) # Bin2Hex cs u"

text \<open>The value of a digit; any other character counts as 0.\<close>

definition nibble :: "char \<Rightarrow> nat" where
  "nibble c = (let v = of_char c in
     if 48 \<le> v \<and> v \<le> 57 then v - 48
     else if 97 \<le> v \<and> v \<le> 102 then 10 + (v - 97)
     else if 65 \<le> v \<and> v \<le> 70 then 10 + (v - 65) else 0)"

fun Hex2Bin_loop :: "string \<Rightarrow> string" where
  "Hex2Bin_loop (a # b # cs) = char_of (16 * nibble a + nibble b) # Hex2Bin_loop cs"
| "Hex2Bin_loop _ = []"

definition Hex2Bin :: "string \<Rightarrow> string" where
  "Hex2Bin input = (let src = (if 0 < length input mod 2 then CHR ''0'' # input else input) in Hex2Bin_loop src)"

lemma nibble_hex_of: "d < 16 \<Longrightarrow> nibble (hex_of u d) = d"
proof -
  have "list_all (\<lambda>d. nibble (hex_of True d) = d \<and> nibble (hex_of False d) = d) [0..<16]" by code_simp
  then show "d < 16 \<Longrightarrow> nibble (hex_of u d) = d" by (cases u) (auto simp: list_all_iff)
qed

lemma nibble_less: "nibble c < 16"
  unfolding nibble_def Let_def by (split if_split | arith)+

lemma of_char_byte: "(of_char c :: nat) < 256"
  by (cases c) (simp add: of_char_def horner_sum_simps)

lemma length_Bin2Hex: "length (Bin2Hex s u) = 2 * length s"
  by (induction s) auto

lemma Hex2Bin_loop_Bin2Hex: "Hex2Bin_loop (Bin2Hex s u) = s"
proof (induction s)
  case (Cons c cs)
  have d: "of_char c div 16 < (16::nat)" using of_char_byte [of c] by presburger
  have "16 * nibble (hex_of u (of_char c div 16)) + nibble (hex_of u (of_char c mod 16)) = (of_char c :: nat)"
    using d by (simp add: nibble_hex_of)
  then show ?case using Cons by simp
qed simp

text \<open>
  Decoding undoes the encoding, for every byte string and either case of the digits.
\<close>

theorem Hex2Bin_Bin2Hex: "Hex2Bin (Bin2Hex s u) = s"
  by (simp add: Hex2Bin_def length_Bin2Hex Hex2Bin_loop_Bin2Hex)

text \<open>A text of odd length is read with a zero digit in front.\<close>

lemma Hex2Bin_odd: "odd (length s) \<Longrightarrow> Hex2Bin s = Hex2Bin (CHR ''0'' # s)"
  by (simp add: Hex2Bin_def odd_iff_mod_2_eq_one)

section \<open>The calendar tool\<close>

definition IsLeapYear :: "int \<Rightarrow> bool" where
  "IsLeapYear year \<longleftrightarrow> (cmod year 4 = 0 \<and> cmod year 100 \<noteq> 0) \<or> cmod year 400 = 0"

definition GetYear :: "int \<Rightarrow> int" where "GetYear date = cdiv date 10000"
definition GetMonth :: "int \<Rightarrow> int" where "GetMonth date = cmod (cdiv date 100) 100"
definition GetDay :: "int \<Rightarrow> int" where "GetDay date = cmod date 100"

definition cal_month :: "int list" where
  "cal_month = [31, 28, 31, 30, 31, 30, 31, 31, 30, 31, 30, 31]"

definition cal_leapMonth :: "int list" where
  "cal_leapMonth = [31, 29, 31, 30, 31, 30, 31, 31, 30, 31, 30, 31]"

text \<open>\<open>vector::operator[]\<close>\<close>

definition vec_at :: "int list \<Rightarrow> int \<Rightarrow> int res" where
  "vec_at v i = (if 0 \<le> i \<and> i < int (length v) then Inr (v ! nat i) else Inl Undefined)"

definition IsEndOfMonth :: "int \<Rightarrow> bool res" where
  "IsEndOfMonth date =
     (if IsLeapYear (GetYear date) then res_bind (vec_at cal_leapMonth (GetMonth date - 1)) (\<lambda>l. Inr (l = GetDay date))
      else res_bind (vec_at cal_month (GetMonth date - 1)) (\<lambda>l. Inr (l = GetDay date)))"

definition IsEndOfYear :: "int \<Rightarrow> bool" where
  "IsEndOfYear date \<longleftrightarrow> GetMonth date = 12"

definition i32_or_undefined :: "int \<Rightarrow> int res" where
  "i32_or_undefined k = (if in_i32 k then Inr k else Inl Undefined)"

definition GetNextDate :: "int \<Rightarrow> int res" where
  "GetNextDate date =
     res_bind (IsEndOfMonth date) (\<lambda>e.
       if e then
         (if IsEndOfYear date then i32_or_undefined ((cdiv date 10000 + 1) * 10000 + 101)
          else i32_or_undefined ((cdiv date 100 + 1) * 100 + 1))
       else i32_or_undefined (date + 1))"

lemma month_in_table: "IsEndOfMonth date = Inr e \<Longrightarrow> 1 \<le> GetMonth date \<and> GetMonth date \<le> 12"
  by (auto simp: IsEndOfMonth_def vec_at_def res_bind_Inr_iff cal_month_def cal_leapMonth_def split: if_splits)

lemma GetMonth_nonpos: "date \<le> 0 \<Longrightarrow> GetMonth date \<le> 0"
proof -
  assume d: "date \<le> 0"
  then have c: "cdiv date 100 \<le> 0" by (cases "date = 0") (auto simp: cdiv_def)
  define q where "q = cdiv date 100"
  have "q \<le> 0" using c by (simp add: q_def)
  then have "cmod q 100 = - (\<bar>q\<bar> - 100 * (\<bar>q\<bar> div 100))"
    by (cases "q = 0") (simp_all add: cmod_def cdiv_def)
  then have "cmod q 100 = - (\<bar>q\<bar> mod 100)" by (simp add: minus_mult_div_eq_mod)
  then show ?thesis unfolding GetMonth_def q_def [symmetric] by simp
qed

lemma less_next_multiple: "0 < n \<Longrightarrow> (a::int) < (a div n + 1) * n"
  unfolding distrib_right using div_mult_mod_eq [of a n] pos_mod_bound [of n a] by linarith

lemma GetNextDate_greater:
  assumes "GetNextDate date = Inr d"
  shows "date < d"
proof -
  obtain e where "IsEndOfMonth date = Inr e" using assms by (auto simp: GetNextDate_def res_bind_Inr_iff)
  then have "0 < GetMonth date" using month_in_table [of date e] by linarith
  then have p: "0 < date" using GetMonth_nonpos [of date] by linarith
  have "date < (date div 10000 + 1) * 10000" "date < (date div 100 + 1) * 100"
    by (rule less_next_multiple, simp)+
  then show ?thesis using assms p
    by (auto simp: GetNextDate_def res_bind_Inr_iff i32_or_undefined_def cdiv_nonneg split: if_splits)
qed

function range_loop :: "int \<Rightarrow> int \<Rightarrow> int list \<Rightarrow> int list res" where
  "range_loop date endDate dates =
     (if date \<le> endDate then
        (case GetNextDate date of Inl e \<Rightarrow> Inl e | Inr d \<Rightarrow> range_loop d endDate (dates @ [date]))
      else Inr dates)"
  by pat_completeness auto

termination
  by (relation "measure (\<lambda>(date, endDate, _). nat (endDate + 1 - date))") (auto dest: GetNextDate_greater)

declare range_loop.simps [simp del]

definition GetRangeDate :: "int \<Rightarrow> int \<Rightarrow> int list res" where
  "GetRangeDate beginDate endDate = (if beginDate > endDate then Inr [] else range_loop beginDate endDate [])"

definition RetrieveRangeDate :: "int \<Rightarrow> int \<Rightarrow> int list res" where
  "RetrieveRangeDate beginDate endDate = GetRangeDate beginDate endDate"

section \<open>Valid dates and their successors\<close>

definition month_days :: "int \<Rightarrow> int \<Rightarrow> int" where
  "month_days y m = (if m = 2 then (if (4 dvd y \<and> \<not> 100 dvd y) \<or> 400 dvd y then 29 else 28)
     else if m \<in> {4, 6, 9, 11} then 30 else 31)"

definition valid_ymd :: "int \<Rightarrow> int \<Rightarrow> int \<Rightarrow> bool" where
  "valid_ymd y m d \<longleftrightarrow> 0 \<le> y \<and> 1 \<le> m \<and> m \<le> 12 \<and> 1 \<le> d \<and> d \<le> month_days y m"

definition valid_date :: "int \<Rightarrow> bool" where
  "valid_date date \<longleftrightarrow> valid_ymd (date div 10000) (date div 100 mod 100) (date mod 100)"

lemma month_days_range: "28 \<le> month_days y m \<and> month_days y m \<le> 31"
  by (simp add: month_days_def)

lemma quotient_and_rest:
  assumes "0 \<le> k" "k < (n::int)"
  shows "(y * n + k) div n = y" "(y * n + k) mod n = k"
proof -
  have "k div n = 0" "k mod n = k" using assms by (simp_all add: div_pos_pos_trivial)
  then show "(y * n + k) div n = y" "(y * n + k) mod n = k" using assms by auto
qed

lemma date_parts:
  assumes "0 \<le> (m::int)" "m < 100" "0 \<le> (d::int)" "d < 100"
  shows "(y * 10000 + m * 100 + d) div 10000 = y" "(y * 10000 + m * 100 + d) div 100 = y * 100 + m"
    "(y * 10000 + m * 100 + d) div 100 mod 100 = m" "(y * 10000 + m * 100 + d) mod 100 = d"
proof -
  have "0 \<le> m * 100 + d" "m * 100 + d < 10000" using assms by linarith+
  from quotient_and_rest(1) [OF this, of y] show "(y * 10000 + m * 100 + d) div 10000 = y"
    by (simp add: add.assoc)
  have e: "y * 10000 + m * 100 + d = (y * 100 + m) * 100 + d" by simp
  show b: "(y * 10000 + m * 100 + d) div 100 = y * 100 + m"
    unfolding e by (rule quotient_and_rest(1)) (use assms in auto)
  show "(y * 10000 + m * 100 + d) mod 100 = d"
    unfolding e by (rule quotient_and_rest(2)) (use assms in auto)
  show "(y * 10000 + m * 100 + d) div 100 mod 100 = m"
    unfolding b by (rule quotient_and_rest(2)) (use assms in auto)
qed

lemma valid_ymd_bounds: "valid_ymd y m d \<Longrightarrow> 0 \<le> y \<and> 1 \<le> m \<and> m \<le> 12 \<and> 1 \<le> d \<and> d \<le> 31"
  using month_days_range [of y m] by (auto simp: valid_ymd_def)

lemma valid_date_of_ymd: "0 \<le> m \<Longrightarrow> m < 100 \<Longrightarrow> 0 \<le> d \<Longrightarrow> d < 100 \<Longrightarrow>
    valid_date (y * 10000 + m * 100 + d) \<longleftrightarrow> valid_ymd y m d"
  by (simp add: valid_date_def date_parts)

lemma valid_dateE:
  assumes "valid_date date"
  obtains y m d where "date = y * 10000 + m * 100 + d" "valid_ymd y m d"
proof -
  have "date div 10000 = date div 100 div 100" using zdiv_zmult2_eq [of 100 date 100] by simp
  then have "date = date div 10000 * 10000 + date div 100 mod 100 * 100 + date mod 100"
    using div_mult_mod_eq [of date 100] div_mult_mod_eq [of "date div 100" 100] by linarith
  then show thesis using assms that unfolding valid_date_def by blast
qed
definition next_ymd :: "int \<Rightarrow> int \<Rightarrow> int \<Rightarrow> int" where
  "next_ymd y m d = (if d = month_days y m then (if m = 12 then (y + 1) * 10000 + 101 else y * 10000 + (m + 1) * 100 + 1)
     else y * 10000 + m * 100 + (d + 1))"

lemma GetParts:
  assumes "valid_ymd y m d"
  shows "GetYear (y * 10000 + m * 100 + d) = y" "GetMonth (y * 10000 + m * 100 + d) = m"
    "GetDay (y * 10000 + m * 100 + d) = d"
  using valid_ymd_bounds [OF assms]
  by (simp_all add: GetYear_def GetMonth_def GetDay_def cdiv_nonneg cmod_nonneg date_parts)

lemma IsLeapYear_dvd: "0 \<le> y \<Longrightarrow> IsLeapYear y \<longleftrightarrow> (4 dvd y \<and> \<not> 100 dvd y) \<or> 400 dvd y"
  by (simp add: IsLeapYear_def cmod_nonneg dvd_eq_mod_eq_0)

lemma month_table:
  assumes "1 \<le> m" "m \<le> 12" "0 \<le> y"
  shows "vec_at (if IsLeapYear y then cal_leapMonth else cal_month) (m - 1) = Inr (month_days y m)"
proof -
  have "m = 1 \<or> m = 2 \<or> m = 3 \<or> m = 4 \<or> m = 5 \<or> m = 6 \<or> m = 7 \<or> m = 8 \<or> m = 9 \<or> m = 10 \<or> m = 11 \<or> m = 12"
    using assms(1,2) by presburger
  then show ?thesis using IsLeapYear_dvd [OF assms(3)]
    by (elim disjE)
       (simp_all add: vec_at_def cal_month_def cal_leapMonth_def month_days_def eval_nat_numeral)
qed

lemma IsEndOfMonth_valid:
  assumes "valid_ymd y m d"
  shows "IsEndOfMonth (y * 10000 + m * 100 + d) = Inr (d = month_days y m)"
  using month_table [of m y] valid_ymd_bounds [OF assms]
  by (auto simp: IsEndOfMonth_def GetParts [OF assms] split: if_splits)

lemma GetNextDate_valid:
  assumes "valid_ymd y m d" "y < 214748"
  shows "GetNextDate (y * 10000 + m * 100 + d) = Inr (next_ymd y m d)"
proof -
  note b = valid_ymd_bounds [OF assms(1)]
  let ?D = "y * 10000 + m * 100 + d"
  have parts: "cdiv ?D 10000 = y" "cdiv ?D 100 = y * 100 + m"
    using b by (simp_all add: cdiv_nonneg date_parts)
  have year_end: "IsEndOfYear ?D \<longleftrightarrow> m = 12"
    by (simp add: IsEndOfYear_def GetParts [OF assms(1)])
  have range: "in_i32 (next_ymd y m d)" using b assms(2) by (auto simp: next_ymd_def in_i32_def)
  have sums: "(y * 100 + m + 1) * 100 + 1 = y * 10000 + (m + 1) * 100 + 1" "?D + 1 = y * 10000 + m * 100 + (d + 1)"
    by simp_all
  have "GetNextDate ?D = i32_or_undefined (next_ymd y m d)"
    unfolding GetNextDate_def IsEndOfMonth_valid [OF assms(1)] parts year_end res_bind_simps sums next_ymd_def
    by (simp only: if_distrib [of i32_or_undefined])
  then show ?thesis using range by (simp add: i32_or_undefined_def)
qed

text \<open>The successor is valid, and no valid date lies between.\<close>

lemma next_ymd_valid:
  assumes "valid_ymd y m d"
  shows "valid_date (next_ymd y m d)"
proof -
  note b = valid_ymd_bounds [OF assms]
  have "valid_ymd (y + 1) 1 1" using b by (simp add: valid_ymd_def month_days_def)
  moreover have "m < 12 \<Longrightarrow> valid_ymd y (m + 1) 1"
    using b month_days_range [of y "m + 1"] by (simp add: valid_ymd_def)
  moreover have "d \<noteq> month_days y m \<Longrightarrow> valid_ymd y m (d + 1)" using assms by (auto simp: valid_ymd_def)
  ultimately show ?thesis
    using b valid_date_of_ymd [of 1 1 "y + 1"] valid_date_of_ymd [of "m + 1" 1 y] valid_date_of_ymd [of m "d + 1" y]
    by (auto simp: next_ymd_def)
qed

lemma next_ymd_least:
  assumes "valid_ymd y m d" "y * 10000 + m * 100 + d < x" "x < next_ymd y m d"
  shows "\<not> valid_date x"
proof
  assume "valid_date x"
  then obtain y' m' d' where x: "x = y' * 10000 + m' * 100 + d'" "valid_ymd y' m' d'" by (rule valid_dateE)
  note b = valid_ymd_bounds [OF assms(1)] valid_ymd_bounds [OF x(2)]
  have md: "d \<le> month_days y m" "d' \<le> month_days y' m'" using assms(1) x(2) by (simp_all add: valid_ymd_def)
  have "y \<le> y'" using b assms(2) unfolding x(1) by linarith
  show False
  proof (cases "d = month_days y m \<and> m = 12")
    case True
    then have "y' \<le> y" using b assms(3) unfolding x(1) next_ymd_def by simp
    then show False using True \<open>y \<le> y'\<close> b assms(2) md unfolding x(1)
      by (cases "m' = 12") (auto simp: month_days_def)
  next
    case False
    then have "next_ymd y m d \<le> y * 10000 + (m + 1) * 100 + 1" "m < 12 \<or> d \<noteq> month_days y m"
      using b md month_days_range [of y m] by (auto simp: next_ymd_def)
    then have "y' = y" using \<open>y \<le> y'\<close> b assms(3) False unfolding x(1) next_ymd_def by (auto split: if_splits)
    then have "m' = m" using b assms(2,3) False unfolding x(1) next_ymd_def by (auto split: if_splits)
    then show False using \<open>y' = y\<close> b assms(2,3) md False unfolding x(1) next_ymd_def by (auto split: if_splits)
  qed
qed

lemma upto_split:
  assumes "a < b" "b \<le> e + 1"
  shows "[a..e] = a # [a + 1..b - 1] @ [b..e]"
proof (cases "b \<le> e")
  case True
  then show ?thesis using upto_split1 [of "a + 1" b e] upto_rec1 [of a e] assms by simp
next
  case False
  then have "e = b - 1" using assms by simp
  then show ?thesis using upto_rec1 [of a e] assms by simp
qed

lemma range_loop_valid:
  assumes "valid_date b \<or> e < b" "e < 2147480000"
  shows "range_loop b e acc = Inr (acc @ filter valid_date [b..e])"
  using assms
proof (induction b e acc rule: range_loop.induct)
  case (1 b e acc)
  show ?case
  proof (cases "b \<le> e")
    case False
    then show ?thesis by (subst range_loop.simps) simp
  next
    case True
    with 1 obtain y m d where b: "b = y * 10000 + m * 100 + d" "valid_ymd y m d" by (auto elim: valid_dateE)
    have y: "y < 214748" using valid_ymd_bounds [OF b(2)] True 1(3) unfolding b(1) by linarith
    define n where "n = next_ymd y m d"
    have nxt: "GetNextDate b = Inr n" using GetNextDate_valid [OF b(2) y] by (simp add: b(1) n_def)
    then have less: "b < n" by (rule GetNextDate_greater)
    have valid: "valid_date n" unfolding n_def by (rule next_ymd_valid [OF b(2)])
    have gap: "filter valid_date [b + 1..min (n - 1) e] = []"
      using next_ymd_least [OF b(2)] by (auto simp: filter_empty_conv b(1) n_def)
    have "[b..e] = b # [b + 1..min (n - 1) e] @ [n..e]"
      using True less by (cases "n \<le> e + 1") (simp_all add: upto_split upto_rec1)
    then have "filter valid_date [b..e] = b # filter valid_date [n..e]"
      using gap 1(2) True by simp
    then show ?thesis using 1(1) [OF True nxt] valid 1(3) True nxt by (subst range_loop.simps) simp
  qed
qed

text \<open>
  C27: for a valid first date the range lists exactly the valid dates between the two bounds,
  in order, and the loop ends without leaving the month table.
\<close>

theorem range_lists_valid_dates:
  assumes "valid_date beginDate" "endDate < 2147480000"
  shows "RetrieveRangeDate beginDate endDate = Inr (filter valid_date [beginDate..endDate])"
  using range_loop_valid [of beginDate endDate "[]"] assms
  by (simp add: RetrieveRangeDate_def GetRangeDate_def)

theorem range_lists_valid_dates_witness:
  "RetrieveRangeDate 20160228 20160301 = Inr [20160228, 20160229, 20160301]"
proof -
  have "valid_date 20160228" by code_simp
  from range_lists_valid_dates [OF this, of 20160301]
  have "RetrieveRangeDate 20160228 20160301 = Inr (filter valid_date [20160228..20160301])" by simp
  also have "filter valid_date [20160228..20160301] = [20160228, 20160229, 20160301]" by code_simp
  finally show ?thesis .
qed

text \<open>An impossible month is read outside the table: the loop ends in undefined behaviour.\<close>

lemma range_bad_month: "RetrieveRangeDate 20171299 20180101 = Inl Undefined"
  by code_simp

end
