(* ===== verification/Lct_Time.thy ===== *)
theory Lct_Time
  imports Common_Util
begin

text \<open>
  \<open>common/lct_time.h\<close>, \<open>common/detail/lct_time.cpp\<close>, \<open>common/detail/lct_time.inl\<close> and the date
  functions of \<open>common/detail/lct_common_util.cpp\<close>.  Of the C library, \<open>strftime\<close>, \<open>gmtime_r\<close>
  and the used part of \<open>strptime\<close> are written out; \<open>localtime_r\<close> and \<open>mktime\<close>, which consult the
  time zone database of the host, are arguments.  The clock is read as nanoseconds since the
  epoch and passed in by the caller.
\<close>

section \<open>Broken-down time\<close>

record c_tm =
  tm_sec :: int
  tm_min :: int
  tm_hour :: int
  tm_mday :: int
  tm_mon :: int
  tm_year :: int
  tm_gmtoff :: int

definition zero_tm :: c_tm where
  "zero_tm = \<lparr>tm_sec = 0, tm_min = 0, tm_hour = 0, tm_mday = 0, tm_mon = 0, tm_year = 0, tm_gmtoff = 0\<rparr>"

text \<open>\<open>gmtime_r\<close>: the proleptic Gregorian date of a number of seconds (by 400-year eras from 1 March).\<close>

definition gmtime :: "int \<Rightarrow> c_tm" where
  "gmtime t =
     (let days = t div 86400; secs = t mod 86400;
          z = days + 719468; era = z div 146097; doe = z mod 146097;
          yoe = (doe - doe div 1460 + doe div 36524 - doe div 146096) div 365;
          doy = doe - (365 * yoe + yoe div 4 - yoe div 100);
          mp = (5 * doy + 2) div 153;
          d = doy - (153 * mp + 2) div 5 + 1;
          m = (if mp < 10 then mp + 3 else mp - 9);
          y = yoe + era * 400 + (if m \<le> 2 then 1 else 0)
      in \<lparr>tm_sec = secs mod 60, tm_min = secs div 60 mod 60, tm_hour = secs div 3600,
          tm_mday = d, tm_mon = m - 1, tm_year = y - 1900, tm_gmtoff = 0\<rparr>)"

definition two_digits :: "int \<Rightarrow> string" where
  "two_digits k = [char_of (48 + nat k div 10 mod 10), char_of (48 + nat k mod 10)]"

text \<open>The conversions of \<open>strftime\<close> the repository uses, in the C locale.\<close>

definition clock_text :: "c_tm \<Rightarrow> string" where
  "clock_text tm = two_digits (tm_hour tm) @ '':'' @ two_digits (tm_min tm) @ '':'' @ two_digits (tm_sec tm)"

definition zone_text :: "int \<Rightarrow> string" where
  "zone_text off = (if off < 0 then ''-'' else ''+'')
     @ two_digits (\<bar>off\<bar> div 3600) @ two_digits (\<bar>off\<bar> div 60 mod 60)"

definition strftime_conv :: "char \<Rightarrow> c_tm \<Rightarrow> string" where
  "strftime_conv c tm =
     (if c = CHR ''Y'' then to_string (tm_year tm + 1900)
      else if c = CHR ''y'' then two_digits ((tm_year tm + 1900) mod 100)
      else if c = CHR ''m'' then two_digits (tm_mon tm + 1)
      else if c = CHR ''d'' then two_digits (tm_mday tm)
      else if c = CHR ''X'' then clock_text tm
      else if c = CHR ''z'' then zone_text (tm_gmtoff tm)
      else [CHR ''%'', c])"

fun strftime :: "string \<Rightarrow> c_tm \<Rightarrow> string" where
  "strftime [] tm = []"
| "strftime [a] tm = [a]"
| "strftime (a # b # cs) tm = (if a = CHR ''%'' then strftime_conv b tm @ strftime cs tm
     else a # strftime (b # cs) tm)"

section \<open>The time singleton\<close>

record lct_time =
  m_timezoneGap :: int

definition new_lct_time :: lct_time where "new_lct_time = \<lparr>m_timezoneGap = 0\<rparr>"

text \<open>\<open>system_clock::to_time_t\<close> drops the fraction, towards zero.\<close>

definition to_time_t :: "int \<Rightarrow> int" where "to_time_t ns = cdiv ns 1000000000"

definition timePoint2Tm :: "lct_time \<Rightarrow> int \<Rightarrow> c_tm" where
  "timePoint2Tm T tp = gmtime (to_time_t tp + m_timezoneGap T)"

definition timeZoneGap :: "lct_time \<Rightarrow> int" where "timeZoneGap T = m_timezoneGap T"

text \<open>A time point of so many milliseconds: the clock counts nanoseconds in 64 bits.\<close>

definition ms_time_point :: "int \<Rightarrow> int" where "ms_time_point ms = to_i64 (ms * 1000000)"

definition currentDateTimeValue :: "int \<Rightarrow> int" where "currentDateTimeValue now = cdiv now 1000000"

definition formatDateTime :: "lct_time \<Rightarrow> int \<Rightarrow> string" where
  "formatDateTime T ms = strftime ''%Y-%m-%d %X'' (timePoint2Tm T (ms_time_point ms))"

definition formatUtcDateTime :: "lct_time \<Rightarrow> int \<Rightarrow> string" where
  "formatUtcDateTime T ms = strftime ''%Y-%m-%d %X %z UTC'' (timePoint2Tm T (ms_time_point ms))"

definition formatTime :: "lct_time \<Rightarrow> int \<Rightarrow> string" where
  "formatTime T ms = strftime ''%X'' (timePoint2Tm T (ms_time_point ms))"

definition formatedDate :: "lct_time \<Rightarrow> int \<Rightarrow> string" where
  "formatedDate T now = strftime ''%Y-%m-%d'' (timePoint2Tm T now)"

definition currentDateTime :: "lct_time \<Rightarrow> int \<Rightarrow> string" where
  "currentDateTime T now = strftime ''%Y-%m-%d %X'' (timePoint2Tm T now)"

definition currentTime :: "lct_time \<Rightarrow> int \<Rightarrow> string" where
  "currentTime T now = strftime ''%X'' (timePoint2Tm T now)"

definition currentDate :: "lct_time \<Rightarrow> int \<Rightarrow> string" where
  "currentDate T now = strftime ''%Y%m%d'' (timePoint2Tm T now)"

definition currentDay :: "lct_time \<Rightarrow> int \<Rightarrow> string" where
  "currentDay T now = strftime ''%y%m%d'' (timePoint2Tm T now)"

definition currentUtcTime :: "lct_time \<Rightarrow> int \<Rightarrow> string" where
  "currentUtcTime T now = strftime ''%Y-%m-%d %X %z UTC'' (timePoint2Tm T now)"

definition formatedTime2Date :: "string \<Rightarrow> string res" where
  "formatedTime2Date time =
     (if length time \<noteq> 19 then Inr []
      else case str_find_first_of time (CHR '' '') 0 of
             Some i \<Rightarrow> str_substr time 0 i
           | None \<Rightarrow> str_substr_from time 0)"

text \<open>Every exception of \<open>substr\<close> and \<open>stoi\<close> is caught and gives 0.\<close>

definition formatedTime2IntDate :: "string \<Rightarrow> int" where
  "formatedTime2IntDate time =
     (if length time \<noteq> 19 then 0
      else case res_bind (res_bind (str_substr time 0 4) std_stoi) (\<lambda>year.
                res_bind (res_bind (str_substr time 5 2) std_stoi) (\<lambda>month.
                res_bind (res_bind (str_substr time 8 2) std_stoi) (\<lambda>date.
                Inr (to_i32 (year * 10000 + month * 100 + date))))) of
             Inr k \<Rightarrow> k | Inl _ \<Rightarrow> 0)"

text \<open>\<open>initialize\<close>: the offset of the host's zone, from the text \<open>+hhmm\<close> of \<open>%z\<close>.\<close>

definition char_digit :: "string \<Rightarrow> nat \<Rightarrow> int" where
  "char_digit buf i = int (of_char (buf ! i)) - 48"

definition time_initialize :: "(int \<Rightarrow> c_tm) \<Rightarrow> int \<Rightarrow> lct_time \<Rightarrow> lct_err \<times> lct_time" where
  "time_initialize localtime now T =
     (let buf = strftime ''%z'' (localtime (to_time_t now));
          hour1 = char_digit buf 1; hour2 = char_digit buf 2;
          minute1 = char_digit buf 3; minute2 = char_digit buf 4;
          gap = 3600 * (hour1 * 10 + hour2) + 60 * (minute1 * 10 + minute2)
      in (LCT_SUCCESS, T\<lparr>m_timezoneGap := gap * (if buf ! 0 = CHR ''-'' then - 1 else 1)\<rparr>))"

section \<open>Reading a time\<close>

text \<open>
  The part of \<open>strptime\<close> used: a number of at most \<open>n\<close> digits in a range, after blanks; a literal
  character; the zone \<open>%z\<close>.  A failed conversion leaves the fields read so far.
\<close>

fun take_digits :: "nat \<Rightarrow> string \<Rightarrow> string" where
  "take_digits (Suc n) (c # cs) = (if is_digit c then c # take_digits n cs else [])"
| "take_digits _ _ = []"

definition strp_number :: "nat \<Rightarrow> nat \<Rightarrow> nat \<Rightarrow> string \<Rightarrow> (int \<times> string) option" where
  "strp_number lo hi n s =
     (let t = dropWhile (\<lambda>c. c = CHR '' '') s; ds = take_digits n t; v = nat_of_digits ds
      in if ds = [] \<or> v < lo \<or> hi < v then None else Some (int v, drop (length ds) t))"

definition strp_zone :: "string \<Rightarrow> (int \<times> string) option" where
  "strp_zone s =
     (case dropWhile is_space s of
        [] \<Rightarrow> None
      | c # cs \<Rightarrow>
          if c = CHR ''Z'' then Some (0, cs)
          else if c \<noteq> CHR ''+'' \<and> c \<noteq> CHR ''-'' then None
          else (let ds = take_digits 4 cs; v = nat_of_digits ds * (if length ds = 2 then 100 else 1)
                in if (length ds \<noteq> 2 \<and> length ds \<noteq> 4) \<or> 60 \<le> v mod 100 then None
                   else Some ((if c = CHR ''-'' then - 1 else 1) * int (v div 100 * 3600 + v mod 100 * 60),
                              drop (length ds) cs)))"

definition strp_conv :: "char \<Rightarrow> string \<Rightarrow> c_tm \<Rightarrow> (c_tm \<times> string) option" where
  "strp_conv c s tm =
     (if c = CHR ''Y'' then map_option (\<lambda>(v, r). (tm\<lparr>tm_year := v - 1900\<rparr>, r)) (strp_number 0 9999 4 s)
      else if c = CHR ''m'' then map_option (\<lambda>(v, r). (tm\<lparr>tm_mon := v - 1\<rparr>, r)) (strp_number 1 12 2 s)
      else if c = CHR ''d'' then map_option (\<lambda>(v, r). (tm\<lparr>tm_mday := v\<rparr>, r)) (strp_number 1 31 2 s)
      else if c = CHR ''H'' then map_option (\<lambda>(v, r). (tm\<lparr>tm_hour := v\<rparr>, r)) (strp_number 0 23 2 s)
      else if c = CHR ''M'' then map_option (\<lambda>(v, r). (tm\<lparr>tm_min := v\<rparr>, r)) (strp_number 0 59 2 s)
      else if c = CHR ''S'' then map_option (\<lambda>(v, r). (tm\<lparr>tm_sec := v\<rparr>, r)) (strp_number 0 61 2 s)
      else if c = CHR ''z'' then map_option (\<lambda>(v, r). (tm\<lparr>tm_gmtoff := v\<rparr>, r)) (strp_zone s)
      else None)"

fun strptime :: "string \<Rightarrow> string \<Rightarrow> c_tm \<Rightarrow> c_tm" where
  "strptime [] s tm = tm"
| "strptime [a] s tm = tm"
| "strptime (a # b # fs) s tm =
     (if a = CHR ''%'' then (case strp_conv b s tm of None \<Rightarrow> tm | Some (tm', r) \<Rightarrow> strptime fs r tm')
      else if is_space a then strptime (b # fs) (dropWhile is_space s) tm
      else (case s of [] \<Rightarrow> tm | c # cs \<Rightarrow> if c = a then strptime (b # fs) cs tm else tm))"

definition utcTime2Seconds :: "(c_tm \<Rightarrow> int) \<Rightarrow> string \<Rightarrow> int" where
  "utcTime2Seconds mktime time =
     (if length time \<noteq> 31 then 0
      else case res_bind (str_substr time 0 19) (\<lambda>a. res_bind (str_substr time 26 5) (\<lambda>b. Inr (a @ b))) of
             Inl _ \<Rightarrow> 0
           | Inr utcTime \<Rightarrow> mktime (strptime ''%Y-%m-%d %H:%M:%S %z'' (c_str utcTime) zero_tm))"

section \<open>The functions of the common utilities\<close>

definition BRANCH_MAJOR_VERSION :: int where "BRANCH_MAJOR_VERSION = 1"
definition BRANCH_MINOR_VERSION :: int where "BRANCH_MINOR_VERSION = 0"
definition BRANCH_PATCH_NUMBER :: int where "BRANCH_PATCH_NUMBER = 0"
definition BRANCH_BUILD_NUMBER :: int where "BRANCH_BUILD_NUMBER = 1"

text \<open>The text printed, and the code returned.\<close>

definition LctVersion :: "lct_err \<times> string" where
  "LctVersion = (LCT_VERSION_INFO,
     to_string BRANCH_MAJOR_VERSION @ ''.'' @ to_string BRANCH_MINOR_VERSION @ ''.''
     @ to_string BRANCH_PATCH_NUMBER @ ''.'' @ to_string BRANCH_BUILD_NUMBER @ [CHR 0x0A, CHR 0x0A])"

definition LctCurrentDateTimeValue :: "int \<Rightarrow> int" where "LctCurrentDateTimeValue now = cdiv now 1000000"
definition LctFormatDateTime :: "lct_time \<Rightarrow> int \<Rightarrow> string" where "LctFormatDateTime T ms = formatDateTime T ms"
definition LctFormatUtcDateTime :: "lct_time \<Rightarrow> int \<Rightarrow> string" where "LctFormatUtcDateTime T ms = formatUtcDateTime T ms"
definition LctFormatTime :: "lct_time \<Rightarrow> int \<Rightarrow> string" where "LctFormatTime T ms = formatTime T ms"
definition LctCurrentDateTime :: "lct_time \<Rightarrow> int \<Rightarrow> string" where "LctCurrentDateTime T now = currentDateTime T now"
definition LctCurrentTime :: "lct_time \<Rightarrow> int \<Rightarrow> string" where "LctCurrentTime T now = currentTime T now"
definition LctCurrentDate :: "lct_time \<Rightarrow> int \<Rightarrow> string" where "LctCurrentDate T now = currentDate T now"
definition LctCurrentDay :: "lct_time \<Rightarrow> int \<Rightarrow> string" where "LctCurrentDay T now = currentDay T now"
definition LctCurrentUtcTime :: "lct_time \<Rightarrow> int \<Rightarrow> string" where "LctCurrentUtcTime T now = currentUtcTime T now"
definition LctUtcTime2Seconds :: "(c_tm \<Rightarrow> int) \<Rightarrow> string \<Rightarrow> int" where "LctUtcTime2Seconds mktime t = utcTime2Seconds mktime t"
definition IvaLocal2UtcTimezoneGap :: "lct_time \<Rightarrow> int" where "IvaLocal2UtcTimezoneGap T = timeZoneGap T"

definition LctFormatedTime2Date :: "string \<Rightarrow> string res" where
  "LctFormatedTime2Date time =
     (if length time \<noteq> 19 then Inr []
      else case str_find_first_of time (CHR '' '') 0 of
             Some i \<Rightarrow> str_substr time 0 i
           | None \<Rightarrow> str_substr_from time 0)"

definition LctFormatedTime2IntDate :: "string \<Rightarrow> int" where
  "LctFormatedTime2IntDate time =
     (if length time \<noteq> 19 then 0
      else case res_bind (res_bind (str_substr time 0 4) std_stoi) (\<lambda>year.
                res_bind (res_bind (str_substr time 5 2) std_stoi) (\<lambda>month.
                res_bind (res_bind (str_substr time 8 2) std_stoi) (\<lambda>date.
                Inr (to_i32 (year * 10000 + month * 100 + date))))) of
             Inr k \<Rightarrow> k | Inl _ \<Rightarrow> 0)"

text \<open>The overload of \<open>RetrieveRangeDate\<close> on seconds since the epoch.\<close>

definition RetrieveRangeDate_seconds :: "lct_time \<Rightarrow> int \<Rightarrow> int \<Rightarrow> int list res" where
  "RetrieveRangeDate_seconds T beginTimeSeconds endTimeSeconds =
     RetrieveRangeDate (LctFormatedTime2IntDate (LctFormatDateTime T (to_i64 (beginTimeSeconds * 1000))))
       (LctFormatedTime2IntDate (LctFormatDateTime T (to_i64 (endTimeSeconds * 1000))))"

section \<open>Formatting and reading back\<close>

lemma of_char_two_digits: "k < 10 \<Longrightarrow> int (of_char (char_of (48 + k :: nat))) - 48 = int k"
  by (simp add: of_char_digit)

lemma two_digits_value: "0 \<le> k \<Longrightarrow> k < 100 \<Longrightarrow> nat_of_digits (two_digits k) = nat k"
  by (simp add: nat_of_digits_def two_digits_def digit_val_char_of)

lemma two_digits_digits: "\<forall>c \<in> set (two_digits k). is_digit c"
  by (simp add: two_digits_def is_digit_char_of)

lemma length_two_digits [simp]: "length (two_digits k) = 2" "two_digits k \<noteq> []"
  by (simp_all add: two_digits_def)

lemma stoi_digits: "ds \<noteq> [] \<Longrightarrow> \<forall>c \<in> set ds. is_digit c \<Longrightarrow> nat_of_digits ds < 2 ^ 31 \<Longrightarrow> std_stoi ds = Inr (int (nat_of_digits ds))"
  using strtol10_digits [of ds "[]"] by (simp add: std_stoi_def in_i32_def)

lemma length_show_nat_four: "1000 \<le> n \<Longrightarrow> n < 10000 \<Longrightarrow> length (show_nat n) = 4"
  by (subst show_nat.simps, simp, subst show_nat.simps, simp, subst show_nat.simps, simp, subst show_nat.simps, simp) auto

lemma strftime_date_time:
  "strftime ''%Y-%m-%d %X'' tm = to_string (tm_year tm + 1900) @ ''-'' @ two_digits (tm_mon tm + 1) @ ''-''
     @ two_digits (tm_mday tm) @ '' '' @ clock_text tm"
  by (simp add: strftime_conv_def)

lemma two_digit_parts: "k < 100 \<Longrightarrow> int (k div 10 mod 10) * 10 + int (k mod 10) = int k"
proof -
  assume "k < 100"
  then have "k div 10 mod 10 * 10 + k mod 10 = k" by simp
  then show ?thesis by (metis of_nat_add of_nat_mult of_nat_numeral)
qed

definition tm_date :: "c_tm \<Rightarrow> int" where
  "tm_date tm = (tm_year tm + 1900) * 10000 + (tm_mon tm + 1) * 100 + tm_mday tm"

text \<open>
  A broken-down time written as \<open>YYYY-MM-DD HH:MM:SS\<close> is read back to its date, for the
  years 1000 to 9999.
\<close>

theorem int_date_of_formatted_time:
  assumes "1000 \<le> tm_year tm + 1900" "tm_year tm + 1900 < 10000" "0 \<le> tm_mon tm" "tm_mon tm < 12"
    "0 \<le> tm_mday tm" "tm_mday tm < 32"
  shows "LctFormatedTime2IntDate (strftime ''%Y-%m-%d %X'' tm) = tm_date tm"
proof -
  define y where "y = to_string (tm_year tm + 1900)"
  define m where "m = two_digits (tm_mon tm + 1)"
  define d where "d = two_digits (tm_mday tm)"
  define t where "t = y @ ''-'' @ m @ ''-'' @ d @ '' '' @ clock_text tm"
  have ly: "length y = 4" using assms(1,2) length_show_nat_four [of "nat (tm_year tm + 1900)"]
    by (simp add: y_def to_string_def nat_less_iff)
  have lm: "length m = 2" "length d = 2" by (simp_all add: m_def d_def)
  have lt: "length t = 19" using ly lm by (simp add: t_def clock_text_def)
  have "take 4 t = y" "take 2 (drop 5 t) = m" "take 2 (drop 8 t) = d"
    using ly lm by (simp_all add: t_def numeral_eq_Suc)
  moreover have "std_stoi y = Inr (tm_year tm + 1900)"
    unfolding y_def by (rule std_stoi_to_string) (use assms(1,2) in \<open>auto simp: in_i32_def\<close>)
  moreover have "std_stoi m = Inr (tm_mon tm + 1)"
    using stoi_digits [of m] two_digits_value [of "tm_mon tm + 1"] two_digits_digits [of "tm_mon tm + 1"] assms(3,4)
    by (simp add: m_def)
  moreover have "std_stoi d = Inr (tm_mday tm)"
    using stoi_digits [of d] two_digits_value [of "tm_mday tm"] two_digits_digits [of "tm_mday tm"] assms(5,6)
    by (simp add: d_def)
  moreover have "to_i32 ((tm_year tm + 1900) * 10000 + (tm_mon tm + 1) * 100 + tm_mday tm) = tm_date tm"
    unfolding tm_date_def by (rule to_i32_id) (use assms in \<open>auto simp: in_i32_def\<close>)
  ultimately have "LctFormatedTime2IntDate t = tm_date tm"
    using lt by (simp add: LctFormatedTime2IntDate_def str_substr_def)
  then show ?thesis unfolding strftime_date_time t_def y_def m_def d_def .
qed

theorem int_date_of_formatted_time_witness:
  "LctFormatedTime2IntDate (formatDateTime \<lparr>m_timezoneGap = 28800\<rparr> 1508566440000) = 20171021"
proof -
  define tm where "tm = timePoint2Tm \<lparr>m_timezoneGap = 28800\<rparr> (ms_time_point 1508566440000)"
  have e: "tm = \<lparr>tm_sec = 0, tm_min = 14, tm_hour = 14, tm_mday = 21, tm_mon = 9, tm_year = 117, tm_gmtoff = 0\<rparr>"
    unfolding tm_def by code_simp
  have "LctFormatedTime2IntDate (strftime ''%Y-%m-%d %X'' tm) = tm_date tm"
    by (rule int_date_of_formatted_time) (simp_all add: e)
  then show ?thesis by (simp add: formatDateTime_def tm_def [symmetric] e tm_date_def)
qed

text \<open>
  \<open>initialize\<close> recovers the offset of the host's zone from its text, east or west, so that
  local times are the UTC times shifted by it.
\<close>

theorem timezone_gap_is_offset:
  assumes "\<bar>tm_gmtoff (localtime (to_time_t now))\<bar> < 360000" "60 dvd tm_gmtoff (localtime (to_time_t now))"
  shows "time_initialize localtime now T = (LCT_SUCCESS, T\<lparr>m_timezoneGap := tm_gmtoff (localtime (to_time_t now))\<rparr>)"
proof -
  define off where "off = tm_gmtoff (localtime (to_time_t now))"
  define h where "h = nat (\<bar>off\<bar> div 3600)"
  define m where "m = nat (\<bar>off\<bar> div 60 mod 60)"
  have hm: "h < 100" "m < 60" using assms(1) by (simp_all add: h_def m_def off_def nat_less_iff)
  have "\<bar>off\<bar> = 60 * (\<bar>off\<bar> div 60)" using assms(2) by (simp add: off_def)
  moreover have "\<bar>off\<bar> div 60 = 60 * (\<bar>off\<bar> div 3600) + \<bar>off\<bar> div 60 mod 60"
    using zdiv_zmult2_eq [of 60 "\<bar>off\<bar>" 60] div_mult_mod_eq [of "\<bar>off\<bar> div 60" 60] by simp
  ultimately have o: "\<bar>off\<bar> = 3600 * int h + 60 * int m" by (simp add: h_def m_def pos_imp_zdiv_nonneg_iff)
  have z: "strftime ''%z'' (localtime (to_time_t now)) = zone_text off" by (simp add: strftime_conv_def off_def)
  have zt: "zone_text off = [if off < 0 then CHR ''-'' else CHR ''+'', char_of (48 + h div 10 mod 10), char_of (48 + h mod 10),
      char_of (48 + m div 10 mod 10), char_of (48 + m mod 10)]"
    by (simp add: zone_text_def two_digits_def h_def m_def)
  have "char_digit (zone_text off) 1 * 10 + char_digit (zone_text off) 2 = int (h div 10 mod 10) * 10 + int (h mod 10)"
    "char_digit (zone_text off) 3 * 10 + char_digit (zone_text off) 4 = int (m div 10 mod 10) * 10 + int (m mod 10)"
    by (simp_all add: char_digit_def zt of_char_two_digits)
  then have d: "char_digit (zone_text off) 1 * 10 + char_digit (zone_text off) 2 = int h"
    "char_digit (zone_text off) 3 * 10 + char_digit (zone_text off) 4 = int m"
    using hm two_digit_parts [of h] two_digit_parts [of m] by simp_all
  have "time_initialize localtime now T =
      (LCT_SUCCESS, T\<lparr>m_timezoneGap := (3600 * int h + 60 * int m) * (if zone_text off ! 0 = CHR ''-'' then - 1 else 1)\<rparr>)"
    by (simp only: time_initialize_def z Let_def d)
  moreover have "(zone_text off ! 0 = CHR ''-'') = (off < 0)" by (simp add: zone_text_def)
  ultimately show ?thesis using o by (simp add: off_def [symmetric])
qed

theorem timezone_gap_is_offset_witness:
  "time_initialize (\<lambda>_. zero_tm\<lparr>tm_gmtoff := - 12600\<rparr>) 0 new_lct_time = (LCT_SUCCESS, \<lparr>m_timezoneGap = - 12600\<rparr>)"
  using timezone_gap_is_offset [of "\<lambda>_. zero_tm\<lparr>tm_gmtoff := - 12600\<rparr>" 0 new_lct_time]
  by (simp add: new_lct_time_def)

text \<open>
  The zone written into a UTC time is always \<open>+0000\<close>, although the time is local: \<open>gmtime_r\<close>
  sets the offset it prints to 0.
\<close>

lemma utc_text_zone_is_zero:
  "currentUtcTime T now = strftime ''%Y-%m-%d %X'' (timePoint2Tm T now) @ '' +0000 UTC''"
proof -
  have "tm_gmtoff (timePoint2Tm T now) = 0" unfolding timePoint2Tm_def gmtime_def Let_def by (rule c_tm.select_convs)
  moreover have "zone_text 0 = ''+0000''" by code_simp
  ultimately show ?thesis by (simp add: currentUtcTime_def strftime_conv_def)
qed

text \<open>\<open>mktime\<close> does not look at the offset, so the zone of the text read has no effect.\<close>

lemma utcTime2Seconds_eq:
  assumes "length time = 31"
  shows "utcTime2Seconds mktime time =
     mktime (strptime ''%Y-%m-%d %H:%M:%S %z'' (c_str (take 19 time @ take 5 (drop 26 time))) zero_tm)"
  using assms by (simp add: utcTime2Seconds_def str_substr_def)

lemma take_digits_numeral:
  "take_digits (numeral k) (c # cs) = (if is_digit c then c # take_digits (pred_numeral k) cs else [])"
  by (simp add: numeral_eq_Suc)

lemma utc_seconds_ignore_zone:
  assumes "\<And>tm k. mktime (tm\<lparr>tm_gmtoff := k\<rparr>) = mktime tm"
  shows "utcTime2Seconds mktime ''2017-10-21 14:14:00.000000+0800'' = utcTime2Seconds mktime ''2017-10-21 14:14:00.000000-0500''"
proof -
  define east where "east = ''2017-10-21 14:14:00.000000+0800''"
  define west where "west = ''2017-10-21 14:14:00.000000-0500''"
  let ?tm = "\<lparr>tm_sec = 0, tm_min = 14, tm_hour = 14, tm_mday = 21, tm_mon = 9, tm_year = 117, tm_gmtoff = 0\<rparr>"
  let ?f = "\<lambda>t. strptime ''%Y-%m-%d %H:%M:%S %z'' (c_str (take 19 t @ take 5 (drop 26 t))) zero_tm"
  have "?f east = ?tm\<lparr>tm_gmtoff := 28800\<rparr>" unfolding east_def
    by (simp add: strp_conv_def strp_number_def strp_zone_def nat_of_digits_def digit_val_def is_digit_def is_space_def
        c_str_def Let_def zero_tm_def take_digits_numeral)
  moreover have "?f west = ?tm\<lparr>tm_gmtoff := - 18000\<rparr>" unfolding west_def
    by (simp add: strp_conv_def strp_number_def strp_zone_def nat_of_digits_def digit_val_def is_digit_def is_space_def
        c_str_def Let_def zero_tm_def take_digits_numeral)
  moreover have "length east = 31" "length west = 31" by (simp_all add: east_def west_def)
  ultimately have "utcTime2Seconds mktime east = utcTime2Seconds mktime west"
    by (simp only: utcTime2Seconds_eq assms)
  then show ?thesis unfolding east_def west_def .
qed

end
