(* ===== verification/Log_Format.thy ===== *)
theory Log_Format
  imports Lct_Time
begin

text \<open>
  \<open>log/detail/lct_log_stream.*\<close>, \<open>lct_log_formatter.*\<close>, \<open>lct_log_formatter_pool.h\<close>: a log line
  under construction, and the formatters that put its prefix together.  The stream is kept as
  the text written to it; what is inserted by \<open><<\<close> arrives as its text.
\<close>

section \<open>The stream\<close>

datatype elog_level = TRACE | DEBUG | INFOR | WARNG | ERROR | CRITC

record log_stream =
  ls_logLevel :: elog_level
  ls_line :: int
  ls_fileNm :: string
  ls_functionNm :: string
  ls_loggerName :: string
  ls_sstream :: string
  ls_content :: string
  ls_messageShp :: "string option"
  ls_timepoint :: int
  ls_timestamp :: c_tm

definition LOG_ENDL :: char where "LOG_ENDL = CHR 0x0A"

text \<open>The constructors: the clock is read once; the short one takes the name of the program.\<close>

definition log_stream_named :: "lct_time \<Rightarrow> int \<Rightarrow> string \<Rightarrow> elog_level \<Rightarrow> string \<Rightarrow> string \<Rightarrow> int \<Rightarrow> log_stream" where
  "log_stream_named T now loggerNm level file function line =
     \<lparr>ls_logLevel = level, ls_line = line, ls_fileNm = file, ls_functionNm = function, ls_loggerName = loggerNm,
      ls_sstream = [], ls_content = [], ls_messageShp = None, ls_timepoint = now, ls_timestamp = timePoint2Tm T now\<rparr>"

definition new_log_stream :: "lct_time \<Rightarrow> int \<Rightarrow> string \<Rightarrow> elog_level \<Rightarrow> string \<Rightarrow> string \<Rightarrow> int \<Rightarrow> log_stream" where
  "new_log_stream T now program_name level file function line =
     \<lparr>ls_logLevel = level, ls_line = line, ls_fileNm = file, ls_functionNm = function, ls_loggerName = program_name,
      ls_sstream = [], ls_content = [], ls_messageShp = None, ls_timepoint = now, ls_timestamp = timePoint2Tm T now\<rparr>"

definition ls_insert :: "string \<Rightarrow> log_stream \<Rightarrow> log_stream" where
  "ls_insert args st = st\<lparr>ls_sstream := ls_sstream st @ args\<rparr>"

definition logEnd :: "log_stream \<Rightarrow> lct_err \<times> log_stream" where
  "logEnd st = (LCT_SUCCESS, st\<lparr>ls_content := ls_sstream st @ [LOG_ENDL], ls_sstream := []\<rparr>)"

text \<open>The message is built at the first call and kept.\<close>

definition messagePtr :: "log_stream \<Rightarrow> string \<times> log_stream" where
  "messagePtr st = (case ls_messageShp st of
     Some m \<Rightarrow> (m, st)
   | None \<Rightarrow> (ls_sstream st @ ls_content st, st\<lparr>ls_messageShp := Some (ls_sstream st @ ls_content st)\<rparr>))"

definition ls_message :: "log_stream \<Rightarrow> string \<times> log_stream" where "ls_message st = messagePtr st"

section \<open>The formatters\<close>

definition FORMAT_DELIMITER_START :: char where "FORMAT_DELIMITER_START = CHR ''[''"
definition FORMAT_DELIMITER_END :: char where "FORMAT_DELIMITER_END = CHR '']''"
definition FORMAT_DELIMITER_EMPTY :: char where "FORMAT_DELIMITER_EMPTY = CHR '' ''"
definition FORMAT_DELIMITER_COLON :: char where "FORMAT_DELIMITER_COLON = CHR '':''"
definition FORMAT_DELIMITER_DOT :: char where "FORMAT_DELIMITER_DOT = CHR ''.''"

lemmas format_delimiters = FORMAT_DELIMITER_START_def FORMAT_DELIMITER_END_def FORMAT_DELIMITER_EMPTY_def
  FORMAT_DELIMITER_COLON_def FORMAT_DELIMITER_DOT_def

text \<open>\<open>setfill('0') << setw(w)\<close>\<close>

definition zero_filled :: "nat \<Rightarrow> int \<Rightarrow> string" where
  "zero_filled w k = (let s = to_string k in replicate (w - length s) (CHR ''0'') @ s)"

definition FormatterDate_format :: "log_stream \<Rightarrow> lct_err \<times> log_stream" where
  "FormatterDate_format st =
     (LCT_SUCCESS, ls_insert ([FORMAT_DELIMITER_START] @ strftime ''%y-%m-%d'' (ls_timestamp st)) st)"

definition FormatterTime_format :: "log_stream \<Rightarrow> lct_err \<times> log_stream" where
  "FormatterTime_format st =
     (LCT_SUCCESS, ls_insert ([FORMAT_DELIMITER_EMPTY] @ strftime ''%X'' (ls_timestamp st)) st)"

definition FormatterMillisecond_format :: "log_stream \<Rightarrow> lct_err \<times> log_stream" where
  "FormatterMillisecond_format st = (let millis = cmod (cdiv (ls_timepoint st) 1000000) 1000 in
     (LCT_SUCCESS, ls_insert ([FORMAT_DELIMITER_DOT] @ zero_filled 3 millis @ [FORMAT_DELIMITER_END]) st))"

definition FormatterMicrosecond_format :: "log_stream \<Rightarrow> lct_err \<times> log_stream" where
  "FormatterMicrosecond_format st = (let micros = cmod (cdiv (ls_timepoint st) 1000) 1000000 in
     (LCT_SUCCESS, ls_insert ([FORMAT_DELIMITER_DOT] @ zero_filled 6 micros @ [FORMAT_DELIMITER_END]) st))"

definition FormatterNanosecond_format :: "log_stream \<Rightarrow> lct_err \<times> log_stream" where
  "FormatterNanosecond_format st = (let ns = cmod (ls_timepoint st) 1000000000 in
     (LCT_SUCCESS, ls_insert ([FORMAT_DELIMITER_DOT] @ zero_filled 9 ns @ [FORMAT_DELIMITER_END]) st))"

definition FormatterThread_format :: "nat \<Rightarrow> log_stream \<Rightarrow> lct_err \<times> log_stream" where
  "FormatterThread_format thisThreadId st =
     (LCT_SUCCESS, ls_insert ([FORMAT_DELIMITER_START] @ ''0x'' @ show_hex thisThreadId @ [FORMAT_DELIMITER_END]) st)"

definition FormatterPid_format :: "nat \<Rightarrow> log_stream \<Rightarrow> lct_err \<times> log_stream" where
  "FormatterPid_format thisPid st =
     (LCT_SUCCESS, ls_insert ([FORMAT_DELIMITER_START] @ show_nat thisPid @ [FORMAT_DELIMITER_END]) st)"

definition FormatterLoggerName_format :: "log_stream \<Rightarrow> lct_err \<times> log_stream" where
  "FormatterLoggerName_format st =
     (LCT_SUCCESS, ls_insert ([FORMAT_DELIMITER_START] @ ls_loggerName st @ [FORMAT_DELIMITER_END]) st)"

text \<open>The name of the level comes from the logger.\<close>

definition FormatterLogLevel_format :: "(elog_level \<Rightarrow> string) \<Rightarrow> log_stream \<Rightarrow> lct_err \<times> log_stream" where
  "FormatterLogLevel_format level_string st =
     (LCT_SUCCESS, ls_insert ([FORMAT_DELIMITER_START] @ level_string (ls_logLevel st) @ [FORMAT_DELIMITER_END]) st)"

definition FormatterShortLogLevel_format :: "log_stream \<Rightarrow> lct_err \<times> log_stream" where
  "FormatterShortLogLevel_format st = (LCT_SUCCESS, st)"

definition FormatterLocation_format :: "log_stream \<Rightarrow> lct_err \<times> log_stream" where
  "FormatterLocation_format st =
     (LCT_SUCCESS, ls_insert ([FORMAT_DELIMITER_START] @ ls_fileNm st @ [FORMAT_DELIMITER_COLON] @ to_string (ls_line st)
        @ [FORMAT_DELIMITER_COLON] @ ls_functionNm st @ [FORMAT_DELIMITER_END]) st)"

section \<open>The pool of formatters\<close>

text \<open>The tuple's formatters in order, up to the first that fails.\<close>

fun Format :: "(log_stream \<Rightarrow> lct_err \<times> log_stream) list \<Rightarrow> log_stream \<Rightarrow> lct_err \<times> log_stream" where
  "Format [] st = (LCT_SUCCESS, st)"
| "Format (f # fs) st = (case f st of (e, st1) \<Rightarrow> if LCT_SUCCESS \<noteq> e then (e, st1) else Format fs st1)"

definition formatter_pool :: "(elog_level \<Rightarrow> string) \<Rightarrow> nat \<Rightarrow> (log_stream \<Rightarrow> lct_err \<times> log_stream) list" where
  "formatter_pool level_string tid =
     [FormatterDate_format, FormatterTime_format, FormatterMicrosecond_format, FormatterLogLevel_format level_string,
      FormatterThread_format tid, FormatterLocation_format]"

definition formatter_pool_format :: "(elog_level \<Rightarrow> string) \<Rightarrow> nat \<Rightarrow> log_stream \<Rightarrow> lct_err \<times> log_stream" where
  "formatter_pool_format level_string tid st = Format (formatter_pool level_string tid) st"

text \<open>The prefix as a whole.\<close>

definition log_prefix :: "(elog_level \<Rightarrow> string) \<Rightarrow> nat \<Rightarrow> log_stream \<Rightarrow> string" where
  "log_prefix level_string tid st =
     ''['' @ strftime ''%y-%m-%d %X'' (ls_timestamp st) @ ''.'' @ zero_filled 6 (cmod (cdiv (ls_timepoint st) 1000) 1000000)
     @ ''][''  @ level_string (ls_logLevel st) @ ''][0x'' @ show_hex tid @ ''][''
     @ ls_fileNm st @ '':'' @ to_string (ls_line st) @ '':'' @ ls_functionNm st @ '']''"

lemma formatter_pool_prefix:
  "formatter_pool_format level_string tid st = (LCT_SUCCESS, st\<lparr>ls_sstream := ls_sstream st @ log_prefix level_string tid st\<rparr>)"
  by (simp add: formatter_pool_format_def formatter_pool_def FormatterDate_format_def FormatterTime_format_def
      FormatterMicrosecond_format_def FormatterLogLevel_format_def FormatterThread_format_def FormatterLocation_format_def
      ls_insert_def log_prefix_def format_delimiters Let_def strftime_conv_def)

lemma length_zero_filled:
  assumes "0 \<le> k" "k < 10 ^ w" "0 < w"
  shows "length (zero_filled w k) = w"
proof -
  have "length (show_nat n) \<le> w" if "n < 10 ^ w" "0 < w" for n w
    using that
  proof (induction n arbitrary: w rule: show_nat.induct)
    case (1 n)
    show ?case
    proof (cases "n < 10")
      case True
      then show ?thesis using 1(3) by (subst show_nat.simps) simp
    next
      case False
      then obtain v where v: "w = Suc v" "0 < v" using 1(2,3) by (cases w; cases "w - 1") auto
      then have "n div 10 < 10 ^ v" using 1(2) by (simp add: less_mult_imp_div_less mult.commute)
      then show ?thesis using 1(1) [OF False _ v(2)] False v(1) by (subst show_nat.simps) simp
    qed
  qed
  from this [of "nat k" w] assms have "length (to_string k) \<le> w" by (simp add: to_string_def nat_less_iff)
  then show ?thesis by (simp add: zero_filled_def Let_def)
qed

end
