(* ===== verification/File_Helper.thy ===== *)
theory File_Helper
  imports Lct_Time
begin

text \<open>
  \<open>common/lct_file_util.h\<close>, \<open>common/lct_file_helper.h\<close> and their sources, over a host: the
  files by path, the console, and a count of the system calls made.  What the host answers to
  its \<open>n\<close>-th call (an error number, 0 for success) and its clock at that moment are an
  argument, so every pattern of failures is covered.  A stream writes through its buffer to
  the path it was opened on; the code never renames or removes a path it has open.
\<close>

section \<open>The host\<close>

record host =
  h_files :: "string \<Rightarrow> string option"
  h_out :: string
  h_step :: nat

record host_env =
  he_errno :: "nat \<Rightarrow> int"
  he_now :: "nat \<Rightarrow> int"
  he_localtime :: "int \<Rightarrow> c_tm"
  he_mktime :: "c_tm \<Rightarrow> int"
  he_time :: lct_time

record c_stream =
  cs_path :: string
  cs_buf :: string
  cs_open :: bool

definition sys_call :: "host_env \<Rightarrow> host \<Rightarrow> int \<times> host" where
  "sys_call env h = (he_errno env (h_step h), h\<lparr>h_step := Suc (h_step h)\<rparr>)"

definition clock_now :: "host_env \<Rightarrow> host \<Rightarrow> int \<times> host" where
  "clock_now env h = (he_now env (h_step h), h\<lparr>h_step := Suc (h_step h)\<rparr>)"

definition print_out :: "string \<Rightarrow> host \<Rightarrow> host" where
  "print_out t h = h\<lparr>h_out := h_out h @ t\<rparr>"

definition file_text :: "host \<Rightarrow> string \<Rightarrow> string" where
  "file_text h p = (case h_files h p of None \<Rightarrow> [] | Some c \<Rightarrow> c)"

text \<open>\<open>fopen\<close> for appending or writing creates a missing file.\<close>

definition c_fopen :: "host_env \<Rightarrow> string \<Rightarrow> bool \<Rightarrow> host \<Rightarrow> (int + c_stream) \<times> host" where
  "c_fopen env path trunc h =
     (case sys_call env h of (e, h1) \<Rightarrow>
        if e \<noteq> 0 then (Inl e, h1)
        else (Inr \<lparr>cs_path = path, cs_buf = [], cs_open = True\<rparr>,
              h1\<lparr>h_files := (h_files h1)(path \<mapsto> (if trunc then [] else file_text h1 path))\<rparr>))"

definition write_back :: "c_stream \<Rightarrow> host \<Rightarrow> host" where
  "write_back s h = h\<lparr>h_files := (h_files h)(cs_path s \<mapsto> file_text h (cs_path s) @ cs_buf s)\<rparr>"

definition c_fflush :: "host_env \<Rightarrow> c_stream \<Rightarrow> host \<Rightarrow> int \<times> c_stream \<times> host" where
  "c_fflush env s h =
     (case sys_call env h of (e, h1) \<Rightarrow>
        if e \<noteq> 0 then (e, s, h1) else (0, s\<lparr>cs_buf := []\<rparr>, write_back s h1))"

text \<open>\<open>fclose\<close> ends the stream even when it reports an error.\<close>

definition c_fclose :: "host_env \<Rightarrow> c_stream \<Rightarrow> host \<Rightarrow> int \<times> host" where
  "c_fclose env s h =
     (case sys_call env h of (e, h1) \<Rightarrow> if e \<noteq> 0 then (e, h1) else (0, write_back s h1))"

definition c_fwrite :: "host_env \<Rightarrow> string \<Rightarrow> c_stream \<Rightarrow> host \<Rightarrow> int \<times> c_stream \<times> host" where
  "c_fwrite env data s h =
     (case sys_call env h of (e, h1) \<Rightarrow>
        if e \<noteq> 0 then (e, s, h1) else (0, s\<lparr>cs_buf := cs_buf s @ data\<rparr>, h1))"

definition c_remove :: "host_env \<Rightarrow> string \<Rightarrow> host \<Rightarrow> int \<times> host" where
  "c_remove env path h =
     (case sys_call env h of (e, h1) \<Rightarrow>
        if e \<noteq> 0 then (e, h1) else (0, h1\<lparr>h_files := (h_files h1)(path := None)\<rparr>))"

definition c_rename :: "host_env \<Rightarrow> string \<Rightarrow> string \<Rightarrow> host \<Rightarrow> int \<times> host" where
  "c_rename env src target h =
     (case sys_call env h of (e, h1) \<Rightarrow>
        if e \<noteq> 0 then (e, h1)
        else (0, h1\<lparr>h_files := (h_files h1)(target := h_files h1 src, src := None)\<rparr>))"

section \<open>File utilities\<close>

definition FileSize :: "c_stream option \<Rightarrow> host \<Rightarrow> nat" where
  "FileSize f h = (case f of None \<Rightarrow> 0 | Some s \<Rightarrow> length (file_text h (cs_path s)))"

definition FileExists :: "string \<Rightarrow> host \<Rightarrow> bool" where
  "FileExists fileName h \<longleftrightarrow> h_files h fileName \<noteq> None"

section \<open>The file helper\<close>

record file_helper =
  m_isBinary :: bool
  m_fd :: "c_stream option"
  m_fileName :: string

definition new_file_helper :: "bool \<Rightarrow> file_helper" where
  "new_file_helper isBinary = \<lparr>m_isBinary = isBinary, m_fd = None, m_fileName = []\<rparr>"

text \<open>Using a stream that \<open>fclose\<close> has ended is undefined.\<close>

definition fh_flush :: "host_env \<Rightarrow> file_helper \<Rightarrow> host \<Rightarrow> (lct_err \<times> file_helper \<times> host) res" where
  "fh_flush env fh h =
     (case m_fd fh of
        None \<Rightarrow> Inr (LCT_INVALID_FD, fh, h)
      | Some s \<Rightarrow>
          if \<not> cs_open s then Inl Undefined
          else case c_fflush env s h of (e, s1, h1) \<Rightarrow>
            Inr (if e \<noteq> 0 then LCT_FAIL else LCT_SUCCESS, fh\<lparr>m_fd := Some s1\<rparr>, h1))"

definition fh_close :: "host_env \<Rightarrow> file_helper \<Rightarrow> host \<Rightarrow> (lct_err \<times> file_helper \<times> host) res" where
  "fh_close env fh h =
     (case m_fd fh of
        None \<Rightarrow> Inr (LCT_SUCCESS, fh, h)
      | Some _ \<Rightarrow>
          res_bind (fh_flush env fh h) (\<lambda>(_, fh1, h1).
            case m_fd fh1 of
              None \<Rightarrow> Inr (LCT_SUCCESS, fh1, h1)
            | Some s \<Rightarrow>
                (case c_fclose env s h1 of (e, h2) \<Rightarrow>
                   if e \<noteq> 0 then Inr (LCT_FAIL, fh1\<lparr>m_fd := Some (s\<lparr>cs_open := False\<rparr>)\<rparr>, h2)
                   else Inr (LCT_SUCCESS, fh1\<lparr>m_fd := None\<rparr>, h2))))"

definition fh_open :: "host_env \<Rightarrow> string \<Rightarrow> bool \<Rightarrow> file_helper \<Rightarrow> host \<Rightarrow> (lct_err \<times> file_helper \<times> host) res" where
  "fh_open env fname trunc fh h =
     res_bind (fh_close env fh h) (\<lambda>(_, fh1, h1).
       case c_fopen env fname trunc h1 of
         (Inl e, h2) \<Rightarrow> Inr (word_of_int e, fh1\<lparr>m_fileName := fname, m_fd := None\<rparr>, h2)
       | (Inr s, h2) \<Rightarrow> Inr (LCT_SUCCESS, fh1\<lparr>m_fileName := fname, m_fd := Some s\<rparr>, h2))"

definition fh_reopen :: "host_env \<Rightarrow> bool \<Rightarrow> file_helper \<Rightarrow> host \<Rightarrow> (lct_err \<times> file_helper \<times> host) res" where
  "fh_reopen env trunc fh h =
     (if m_fileName fh = [] then Inr (LCT_FAIL, fh, h) else fh_open env (m_fileName fh) trunc fh h)"

definition fh_size :: "file_helper \<Rightarrow> host \<Rightarrow> nat" where
  "fh_size fh h = (case m_fd fh of None \<Rightarrow> 0 | Some s \<Rightarrow> FileSize (Some s) h)"

definition fh_fileName :: "file_helper \<Rightarrow> string" where "fh_fileName fh = m_fileName fh"

text \<open>
  The specialisations of \<open>write\<close>: a string, a C string and a shared pointer to a string.  For any
  other type the template names \<open>WriteTextValue\<close>, which does not exist, and cannot be instantiated;
  so the members \<open>writeTextValue\<close> are never called.
\<close>

definition fh_write :: "host_env \<Rightarrow> string \<Rightarrow> file_helper \<Rightarrow> host \<Rightarrow> (lct_err \<times> file_helper \<times> host) res" where
  "fh_write env msg fh h =
     (case m_fd fh of
        None \<Rightarrow> Inr (LCT_INVALID_FD, fh, h)
      | Some s \<Rightarrow>
          if length msg = 0 then Inr (LCT_SUCCESS, fh, h)
          else if \<not> cs_open s then Inl Undefined
          else case c_fwrite env msg s h of (e, s1, h1) \<Rightarrow>
            Inr (if e \<noteq> 0 then word_of_int e else LCT_SUCCESS, fh\<lparr>m_fd := Some s1\<rparr>, h1))"

definition fh_write_c_str :: "host_env \<Rightarrow> string option \<Rightarrow> file_helper \<Rightarrow> host \<Rightarrow> (lct_err \<times> file_helper \<times> host) res" where
  "fh_write_c_str env msg fh h =
     (case msg of None \<Rightarrow> Inr (LCT_SUCCESS, fh, h) | Some m \<Rightarrow> fh_write env (c_str m) fh h)"

definition fh_write_shared :: "host_env \<Rightarrow> string option \<Rightarrow> file_helper \<Rightarrow> host \<Rightarrow> (lct_err \<times> file_helper \<times> host) res" where
  "fh_write_shared env msg fh h =
     (case msg of None \<Rightarrow> Inr (LCT_INVALID_POINTER, fh, h) | Some m \<Rightarrow> fh_write env m fh h)"

text \<open>The destructor.\<close>

definition fh_destroy :: "host_env \<Rightarrow> file_helper \<Rightarrow> host \<Rightarrow> host res" where
  "fh_destroy env fh h = res_bind (fh_close env fh h) (\<lambda>(_, _, h1). Inr h1)"

section \<open>On a host without failures\<close>

text \<open>What the helper will have in its file once everything is flushed.\<close>

definition quiet :: "host_env \<Rightarrow> bool" where
  "quiet env \<longleftrightarrow> (\<forall>n. he_errno env n = 0)"

definition settled :: "file_helper \<Rightarrow> bool" where
  "settled fh \<longleftrightarrow> (case m_fd fh of None \<Rightarrow> True | Some s \<Rightarrow> cs_open s \<and> cs_buf s = [] \<and> cs_path s = m_fileName fh)"

definition on_file :: "file_helper \<Rightarrow> string \<Rightarrow> bool" where
  "on_file fh p \<longleftrightarrow> m_fileName fh = p \<and> m_fd fh = Some \<lparr>cs_path = p, cs_buf = [], cs_open = True\<rparr>"

lemma on_file_settled: "on_file fh p \<Longrightarrow> settled fh"
  by (simp add: on_file_def settled_def)

lemma sys_call_quiet: "quiet env \<Longrightarrow> sys_call env h = (0, h\<lparr>h_step := Suc (h_step h)\<rparr>)"
  by (simp add: sys_call_def quiet_def)

text \<open>Two hosts with the same files and console; the count of calls differs.\<close>

definition same_host :: "host \<Rightarrow> host \<Rightarrow> bool" where
  "same_host h h' \<longleftrightarrow> h_files h' = h_files h \<and> h_out h' = h_out h"

lemma write_back_empty: "h_files h (cs_path s) \<noteq> None \<Longrightarrow> cs_buf s = [] \<Longrightarrow> same_host h (write_back s h)"
  by (auto simp: write_back_def same_host_def file_text_def)

lemma fh_close_quiet:
  assumes "quiet env" "settled fh" "\<forall>s. m_fd fh = Some s \<longrightarrow> h_files h (cs_path s) \<noteq> None"
  shows "\<exists>h'. fh_close env fh h = Inr (LCT_SUCCESS, fh\<lparr>m_fd := None\<rparr>, h') \<and> same_host h h'"
proof (cases "m_fd fh")
  case None
  then show ?thesis by (auto simp: fh_close_def same_host_def)
next
  case (Some s)
  then have "cs_open s" "cs_buf s = []" "h_files h (cs_path s) \<noteq> None" using assms by (auto simp: settled_def)
  then show ?thesis using Some
    by (auto simp: fh_close_def fh_flush_def c_fflush_def c_fclose_def sys_call_quiet [OF assms(1)]
        same_host_def write_back_def file_text_def)
qed

lemma fh_open_quiet:
  assumes "quiet env" "settled fh" "\<forall>s. m_fd fh = Some s \<longrightarrow> h_files h (cs_path s) \<noteq> None"
  shows "\<exists>fh' h'. fh_open env p False fh h = Inr (LCT_SUCCESS, fh', h') \<and> on_file fh' p
     \<and> h_files h' = (h_files h)(p \<mapsto> file_text h p) \<and> h_out h' = h_out h"
proof -
  obtain h1 where 1: "fh_close env fh h = Inr (LCT_SUCCESS, fh\<lparr>m_fd := None\<rparr>, h1)" "same_host h h1"
    using fh_close_quiet [OF assms] by blast
  then show ?thesis
    by (auto simp: fh_open_def c_fopen_def sys_call_quiet [OF assms(1)] on_file_def same_host_def file_text_def)
qed

lemma fh_write_flush_quiet:
  assumes "quiet env" "on_file fh p" "h_files h p = Some c"
  shows "\<exists>fh1 h1 fh2 h2. fh_write_shared env (Some msg) fh h = Inr (LCT_SUCCESS, fh1, h1)
     \<and> fh_flush env fh1 h1 = Inr (LCT_SUCCESS, fh2, h2) \<and> on_file fh2 p
     \<and> h_files h2 = (h_files h)(p \<mapsto> c @ msg) \<and> h_out h2 = h_out h"
  using assms(2,3)
  by (auto simp: fh_write_shared_def fh_write_def fh_flush_def c_fwrite_def c_fflush_def sys_call_quiet [OF assms(1)]
      on_file_def write_back_def file_text_def)

text \<open>
  Once closing a file has reported an error, the next use of the helper (here \<open>open\<close>) works
  on a stream that no longer exists.
\<close>

theorem failed_close_leaves_dangling_stream:
  assumes "m_fd fh = Some s" "cs_open s" "he_errno env (Suc (h_step h)) \<noteq> 0"
  shows "\<exists>fh' h'. fh_close env fh h = Inr (LCT_FAIL, fh', h') \<and> fh_open env p t fh' h' = Inl Undefined"
  using assms
  by (auto simp: fh_close_def fh_flush_def c_fflush_def c_fclose_def sys_call_def fh_open_def write_back_def
      split: if_splits)

definition demo_env :: "(nat \<Rightarrow> int) \<Rightarrow> host_env" where
  "demo_env errs = \<lparr>he_errno = errs, he_now = (\<lambda>_. 0), he_localtime = gmtime, he_mktime = (\<lambda>_. 0), he_time = new_lct_time\<rparr>"

definition demo_host :: host where
  "demo_host = \<lparr>h_files = Map.empty, h_out = [], h_step = 0\<rparr>"

theorem failed_close_leaves_dangling_stream_witness:
  "\<exists>fh' h'. fh_close (demo_env (\<lambda>n. if n = 1 then 28 else 0))
      \<lparr>m_isBinary = True, m_fd = Some \<lparr>cs_path = ''log'', cs_buf = ''x'', cs_open = True\<rparr>, m_fileName = ''log''\<rparr> demo_host
      = Inr (LCT_FAIL, fh', h') \<and> fh_open (demo_env (\<lambda>n. if n = 1 then 28 else 0)) ''log'' False fh' h' = Inl Undefined"
  by (rule failed_close_leaves_dangling_stream [where s = "\<lparr>cs_path = ''log'', cs_buf = ''x'', cs_open = True\<rparr>"]) (simp_all add: demo_env_def demo_host_def)

end
