(* ===== verification/Log_Sink.thy ===== *)
theory Log_Sink
  imports File_Helper
begin

text \<open>
  \<open>log/detail/lct_log_sink.h\<close>, \<open>log/detail/lct_log_sink.cpp\<close>: the sinks a log message ends in.
  A message is the string its shared pointer holds (the callers never pass a null one).  Every
  reading of the clock is a call to the host, also the one inside each file name.
\<close>

definition LOG_FILE_SUFFIX :: string where "LOG_FILE_SUFFIX = ''.log''"
definition LOG_FILE_NAME_DELIM :: string where "LOG_FILE_NAME_DELIM = ''_''"

function DigitCount_loop :: "int \<Rightarrow> int \<Rightarrow> int" where
  "DigitCount_loop figure count = (if figure > 0 then DigitCount_loop (figure div 10) (count + 1) else count)"
  by pat_completeness auto

termination by (relation "measure (\<lambda>(figure, _). nat figure)") auto

declare DigitCount_loop.simps [simp del]

definition DigitCount :: "int \<Rightarrow> int" where
  "DigitCount figure = (if figure < 0 then - 1 else DigitCount_loop figure 0)"

function pad_loop :: "int \<Rightarrow> int \<Rightarrow> string \<Rightarrow> string" where
  "pad_loop digitCount indexDigitCount indexVal =
     (if indexDigitCount < digitCount then pad_loop digitCount (indexDigitCount + 1) (''0'' @ indexVal) else indexVal)"
  by pat_completeness auto

termination by (relation "measure (\<lambda>(d, i, _). nat (d - i))") auto

declare pad_loop.simps [simp del]

definition IndexOnDigitCount :: "int \<Rightarrow> int \<Rightarrow> string" where
  "IndexOnDigitCount digitCount index = pad_loop digitCount (DigitCount index) (to_string index)"

text \<open>The index is passed on as an \<open>int32_t\<close>.\<close>

definition index_text :: "int \<Rightarrow> int \<Rightarrow> string" where
  "index_text maxFiles index = IndexOnDigitCount (DigitCount (to_i32 (maxFiles - 1))) (to_i32 index)"

text \<open>
  Moving the backups up by one, shared by the two rotating sinks: from the highest index down,
  a target that exists is removed and a source that exists renamed to it.  Diagnostics go to
  the console of the daily sink only.
\<close>

fun rotate_from :: "(int \<Rightarrow> host \<Rightarrow> string \<times> host) \<Rightarrow> host_env \<Rightarrow> bool \<Rightarrow> nat \<Rightarrow> host \<Rightarrow> lct_err \<times> host" where
  "rotate_from calc env verbose 0 h = (LCT_SUCCESS, h)"
| "rotate_from calc env verbose (Suc i) h =
     (case calc (int i) h of (src, h1) \<Rightarrow>
      case calc (int (Suc i)) h1 of (target, h2) \<Rightarrow>
      case (if FileExists target h2 then c_remove env target h2 else (0, h2)) of (e1, h3) \<Rightarrow>
        if e1 \<noteq> 0 then
          (LCT_FAIL, if verbose then print_out (''Failed to remove file('' @ target @ '')'' @ [CHR 0x0A]) h3 else h3)
        else
          case (if FileExists src h3 then c_rename env src target h3 else (0, h3)) of (e2, h4) \<Rightarrow>
            if e2 \<noteq> 0 then
              (LCT_FAIL, if verbose then print_out (''Failed to rename file('' @ src @ '')'' @ [CHR 0x0A]) h4 else h4)
            else rotate_from calc env verbose i h4)"

section \<open>Rotation by size\<close>

record rotate_sink =
  rs_forceFlush :: bool
  rs_maxSize :: int
  rs_maxFiles :: int
  rs_currentSize :: int
  rs_fileDir :: string
  rs_baseFileName :: string
  rs_fileHelper :: file_helper

definition rs_calcFileName :: "rotate_sink \<Rightarrow> int \<Rightarrow> host \<Rightarrow> string \<times> host" where
  "rs_calcFileName s index h =
     (if index > 0 then
        (rs_fileDir s @ rs_baseFileName s @ LOG_FILE_NAME_DELIM @ index_text (rs_maxFiles s) index @ LOG_FILE_SUFFIX, h)
      else (rs_fileDir s @ rs_baseFileName s @ LOG_FILE_SUFFIX, h))"

definition rs_new :: "host_env \<Rightarrow> bool \<Rightarrow> string \<Rightarrow> string \<Rightarrow> int \<Rightarrow> int \<Rightarrow> host \<Rightarrow> (rotate_sink \<times> host) res" where
  "rs_new env forceFlush fileDir baseFileName maxSize maxCount h =
     (let s = \<lparr>rs_forceFlush = forceFlush, rs_maxSize = maxSize, rs_maxFiles = maxCount, rs_currentSize = 0,
               rs_fileDir = fileDir, rs_baseFileName = baseFileName, rs_fileHelper = new_file_helper True\<rparr>
      in res_bind (fh_open env (fst (rs_calcFileName s 0 h)) False (rs_fileHelper s) h) (\<lambda>(_, fh, h1).
           Inr (s\<lparr>rs_fileHelper := fh, rs_currentSize := int (fh_size fh h1)\<rparr>, h1)))"

definition rs_flush :: "host_env \<Rightarrow> rotate_sink \<Rightarrow> host \<Rightarrow> (lct_err \<times> rotate_sink \<times> host) res" where
  "rs_flush env s h = res_bind (fh_flush env (rs_fileHelper s) h) (\<lambda>(e, fh, h1). Inr (e, s\<lparr>rs_fileHelper := fh\<rparr>, h1))"

definition rs_rotate :: "host_env \<Rightarrow> rotate_sink \<Rightarrow> host \<Rightarrow> (lct_err \<times> rotate_sink \<times> host) res" where
  "rs_rotate env s h =
     res_bind (fh_close env (rs_fileHelper s) h) (\<lambda>(_, fh, h1).
       case rotate_from (rs_calcFileName s) env False (nat (rs_maxFiles s)) h1 of (e, h2) \<Rightarrow>
         if e \<noteq> LCT_SUCCESS then Inr (e, s\<lparr>rs_fileHelper := fh\<rparr>, h2)
         else res_bind (fh_reopen env False fh h2) (\<lambda>(e, fh, h3). Inr (e, s\<lparr>rs_fileHelper := fh\<rparr>, h3)))"

definition rs_sinkIt :: "host_env \<Rightarrow> string \<Rightarrow> rotate_sink \<Rightarrow> host \<Rightarrow> (lct_err \<times> rotate_sink \<times> host) res" where
  "rs_sinkIt env message s h =
     (let s0 = s\<lparr>rs_currentSize := to_i64 (rs_currentSize s + int (length message))\<rparr> in
      res_bind (if rs_currentSize s0 > rs_maxSize s0
                then res_bind (rs_rotate env s0 h) (\<lambda>(_, s1, h1). Inr (s1\<lparr>rs_currentSize := int (length message)\<rparr>, h1))
                else Inr (s0, h)) (\<lambda>(s1, h1).
      res_bind (fh_write_shared env (Some message) (rs_fileHelper s1) h1) (\<lambda>(e, fh, h2).
        let s2 = s1\<lparr>rs_fileHelper := fh\<rparr> in
        if rs_forceFlush s2 then rs_flush env s2 h2 else Inr (e, s2, h2))))"

text \<open>\<open>log\<close> locks a mutex that does nothing.\<close>

definition rs_log :: "host_env \<Rightarrow> string \<Rightarrow> rotate_sink \<Rightarrow> host \<Rightarrow> (lct_err \<times> rotate_sink \<times> host) res" where
  "rs_log env message s h = rs_sinkIt env message s h"

definition rs_destroy :: "host_env \<Rightarrow> rotate_sink \<Rightarrow> host \<Rightarrow> host res" where
  "rs_destroy env s h = res_bind (rs_flush env s h) (\<lambda>(_, s1, h1). fh_destroy env (rs_fileHelper s1) h1)"

section \<open>A file per day\<close>

definition CDailyTime_CalcFileName :: "host_env \<Rightarrow> string \<Rightarrow> host \<Rightarrow> string \<times> host" where
  "CDailyTime_CalcFileName env basename h =
     (case clock_now env h of (now, h1) \<Rightarrow> (basename @ LOG_FILE_NAME_DELIM @ currentDateTime (he_time env) now, h1))"

definition CDailyDate_CalcFileName :: "host_env \<Rightarrow> string \<Rightarrow> host \<Rightarrow> string \<times> host" where
  "CDailyDate_CalcFileName env basename h =
     (case clock_now env h of (now, h1) \<Rightarrow> (basename @ LOG_FILE_NAME_DELIM @ formatedDate (he_time env) now, h1))"

definition ns_per_day :: int where "ns_per_day = 86400 * 1000000000"

text \<open>The next moment of the given hour and minute: today or a day later.\<close>

definition firstRotationTp :: "host_env \<Rightarrow> int \<Rightarrow> int \<Rightarrow> host \<Rightarrow> int \<times> host" where
  "firstRotationTp env rotationHour rotationMinute h =
     (case clock_now env h of (now, h1) \<Rightarrow>
       let tstruct = (he_localtime env (to_time_t now))\<lparr>tm_hour := rotationHour, tm_min := rotationMinute, tm_sec := 0\<rparr>;
           rotation_time = he_mktime env tstruct * 1000000000
       in (if rotation_time > now then rotation_time else rotation_time + ns_per_day, h1))"

definition nextRotationTp :: "int \<Rightarrow> int" where "nextRotationTp rotationTp = rotationTp + ns_per_day"

definition rectify_hour :: "int \<Rightarrow> int" where "rectify_hour k = (if k < 0 \<or> k > 23 then 0 else k)"
definition rectify_minute :: "int \<Rightarrow> int" where "rectify_minute k = (if k < 0 \<or> k > 59 then 1 else k)"

record daily_sink =
  df_forceFlush :: bool
  df_rotationHour :: int
  df_rotationMinute :: int
  df_fileDir :: string
  df_baseFileName :: string
  df_rotationTp :: int
  df_fileHelper :: file_helper

text \<open>The file name calculator is the template parameter.\<close>

definition df_calcFileName :: "(string \<Rightarrow> host \<Rightarrow> string \<times> host) \<Rightarrow> daily_sink \<Rightarrow> host \<Rightarrow> string \<times> host" where
  "df_calcFileName calc s h = (case calc (df_baseFileName s) h of (n, h1) \<Rightarrow> (df_fileDir s @ n @ LOG_FILE_SUFFIX, h1))"

definition df_new ::
  "(string \<Rightarrow> host \<Rightarrow> string \<times> host) \<Rightarrow> host_env \<Rightarrow> bool \<Rightarrow> string \<Rightarrow> string \<Rightarrow> int \<Rightarrow> int \<Rightarrow> host \<Rightarrow> (daily_sink \<times> host) res" where
  "df_new calc env forceFlush fileDir baseFileName rotationHour rotationMinute h =
     (let hr = rectify_hour rotationHour; mi = rectify_minute rotationMinute in
      case firstRotationTp env hr mi h of (tp, h1) \<Rightarrow>
      let s = \<lparr>df_forceFlush = forceFlush, df_rotationHour = hr, df_rotationMinute = mi, df_fileDir = fileDir,
               df_baseFileName = baseFileName, df_rotationTp = tp, df_fileHelper = new_file_helper True\<rparr> in
      case df_calcFileName calc s h1 of (name, h2) \<Rightarrow>
      res_bind (fh_open env name False (df_fileHelper s) h2) (\<lambda>(_, fh, h3). Inr (s\<lparr>df_fileHelper := fh\<rparr>, h3)))"

definition df_flush :: "host_env \<Rightarrow> daily_sink \<Rightarrow> host \<Rightarrow> (lct_err \<times> daily_sink \<times> host) res" where
  "df_flush env s h = res_bind (fh_flush env (df_fileHelper s) h) (\<lambda>(e, fh, h1). Inr (e, s\<lparr>df_fileHelper := fh\<rparr>, h1))"

definition df_sinkIt ::
  "(string \<Rightarrow> host \<Rightarrow> string \<times> host) \<Rightarrow> host_env \<Rightarrow> string \<Rightarrow> daily_sink \<Rightarrow> host \<Rightarrow> (lct_err \<times> daily_sink \<times> host) res" where
  "df_sinkIt calc env message s h =
     (case clock_now env h of (now, h0) \<Rightarrow>
      res_bind (if now \<ge> df_rotationTp s
                then (case df_calcFileName calc s h0 of (name, h1) \<Rightarrow>
                      res_bind (fh_open env name False (df_fileHelper s) h1) (\<lambda>(_, fh, h2).
                        Inr (s\<lparr>df_fileHelper := fh, df_rotationTp := nextRotationTp (df_rotationTp s)\<rparr>, h2)))
                else Inr (s, h0)) (\<lambda>(s1, h1).
      res_bind (fh_write_shared env (Some message) (df_fileHelper s1) h1) (\<lambda>(_, fh, h2).
        let s2 = s1\<lparr>df_fileHelper := fh\<rparr> in
        if df_forceFlush s2 then df_flush env s2 h2 else Inr (LCT_SUCCESS, s2, h2))))"

definition df_log ::
  "(string \<Rightarrow> host \<Rightarrow> string \<times> host) \<Rightarrow> host_env \<Rightarrow> string \<Rightarrow> daily_sink \<Rightarrow> host \<Rightarrow> (lct_err \<times> daily_sink \<times> host) res" where
  "df_log calc env message s h = df_sinkIt calc env message s h"

section \<open>A file per day, rotated by size\<close>

record daily_rotate_sink =
  dr_forceFlush :: bool
  dr_rotationHour :: int
  dr_rotationMinute :: int
  dr_maxSize :: int
  dr_maxFiles :: int
  dr_currentSize :: int
  dr_fileDir :: string
  dr_baseFileName :: string
  dr_rotationTp :: int
  dr_fileHelper :: file_helper

definition dr_calcFileName :: "host_env \<Rightarrow> daily_rotate_sink \<Rightarrow> int \<Rightarrow> host \<Rightarrow> string \<times> host" where
  "dr_calcFileName env s index h =
     (case CDailyDate_CalcFileName env (dr_baseFileName s) h of (n, h1) \<Rightarrow>
       if index > 0 then
         (dr_fileDir s @ n @ LOG_FILE_NAME_DELIM @ index_text (dr_maxFiles s) index @ LOG_FILE_SUFFIX, h1)
       else (dr_fileDir s @ n @ LOG_FILE_SUFFIX, h1))"

definition dr_rotateFile :: "host_env \<Rightarrow> daily_rotate_sink \<Rightarrow> host \<Rightarrow> lct_err \<times> host" where
  "dr_rotateFile env s h = rotate_from (dr_calcFileName env s) env True (nat (dr_maxFiles s)) h"

definition dr_new :: "host_env \<Rightarrow> bool \<Rightarrow> string \<Rightarrow> string \<Rightarrow> int \<Rightarrow> int \<Rightarrow> int \<Rightarrow> int \<Rightarrow> host \<Rightarrow> (daily_rotate_sink \<times> host) res" where
  "dr_new env forceFlush fileDir baseFileName maxSize maxFiles rotationHour rotationMinute h =
     (let s = \<lparr>dr_forceFlush = forceFlush, dr_rotationHour = rectify_hour rotationHour,
               dr_rotationMinute = rectify_minute rotationMinute, dr_maxSize = maxSize, dr_maxFiles = maxFiles,
               dr_currentSize = 0, dr_fileDir = fileDir, dr_baseFileName = baseFileName, dr_rotationTp = 0,
               dr_fileHelper = new_file_helper True\<rparr>;
          h0 = print_out (''CDailyRotateFileSink:LogDir('' @ fileDir @ '') fileSize('' @ to_string maxSize
                 @ '') fileCount('' @ to_string maxFiles @ '')'' @ [CHR 0x0A]) h in
      case dr_calcFileName env s 0 h0 of (logFilePath, h1) \<Rightarrow>
      let h2 = (if FileExists logFilePath h1 then snd (dr_rotateFile env s h1) else h1) in
      case firstRotationTp env (dr_rotationHour s) (dr_rotationMinute s) h2 of (tp, h3) \<Rightarrow>
      res_bind (fh_open env logFilePath False (dr_fileHelper s) h3) (\<lambda>(_, fh, h4).
        Inr (s\<lparr>dr_rotationTp := tp, dr_fileHelper := fh\<rparr>, h4)))"

definition dr_flush :: "host_env \<Rightarrow> daily_rotate_sink \<Rightarrow> host \<Rightarrow> (lct_err \<times> daily_rotate_sink \<times> host) res" where
  "dr_flush env s h = res_bind (fh_flush env (dr_fileHelper s) h) (\<lambda>(e, fh, h1). Inr (e, s\<lparr>dr_fileHelper := fh\<rparr>, h1))"

definition dr_sizeRotate :: "host_env \<Rightarrow> daily_rotate_sink \<Rightarrow> host \<Rightarrow> (lct_err \<times> daily_rotate_sink \<times> host) res" where
  "dr_sizeRotate env s h =
     res_bind (fh_close env (dr_fileHelper s) h) (\<lambda>(_, fh, h1).
       case dr_rotateFile env s h1 of (e, h2) \<Rightarrow>
         if e \<noteq> LCT_SUCCESS then
           Inr (e, s\<lparr>dr_fileHelper := fh\<rparr>, print_out (''Failed to rotateFile'' @ [CHR 0x0A]) h2)
         else res_bind (fh_reopen env False fh h2) (\<lambda>(e, fh1, h3). Inr (e, s\<lparr>dr_fileHelper := fh1\<rparr>, h3)))"

text \<open>The parts of \<open>sinkIt\<close>: the change of the day, the change of the file, the writing.\<close>

definition dr_day_change :: "host_env \<Rightarrow> daily_rotate_sink \<Rightarrow> host \<Rightarrow> (daily_rotate_sink \<times> host) res" where
  "dr_day_change env s h =
     (case clock_now env h of (now, h0) \<Rightarrow>
       if now \<ge> dr_rotationTp s then
         res_bind (fh_close env (dr_fileHelper s) h0) (\<lambda>(_, fh, h1).
           case dr_calcFileName env s 0 h1 of (name, h2) \<Rightarrow>
           res_bind (fh_open env name False fh h2) (\<lambda>(_, fh1, h3).
             Inr (s\<lparr>dr_fileHelper := fh1, dr_rotationTp := nextRotationTp (dr_rotationTp s), dr_currentSize := 0\<rparr>, h3)))
       else Inr (s, h0))"

definition dr_write :: "host_env \<Rightarrow> string \<Rightarrow> daily_rotate_sink \<Rightarrow> host \<Rightarrow> (lct_err \<times> daily_rotate_sink \<times> host) res" where
  "dr_write env message s h =
     res_bind (fh_write_shared env (Some message) (dr_fileHelper s) h) (\<lambda>(e, fh, h1).
       let s1 = s\<lparr>dr_fileHelper := fh\<rparr>;
           h2 = (if e \<noteq> LCT_SUCCESS then print_out (''Failed to write log'' @ ErrCodeFormat e @ [CHR 0x0A]) h1 else h1)
       in if dr_forceFlush s1 then
            res_bind (dr_flush env s1 h2) (\<lambda>(e2, s2, h3).
              Inr (e2, s2, if e2 \<noteq> LCT_SUCCESS then print_out (''Failed to flush log'' @ ErrCodeFormat e2 @ [CHR 0x0A]) h3 else h3))
          else Inr (e, s1, h2))"

definition dr_sinkIt :: "host_env \<Rightarrow> string \<Rightarrow> daily_rotate_sink \<Rightarrow> host \<Rightarrow> (lct_err \<times> daily_rotate_sink \<times> host) res" where
  "dr_sinkIt env message s h =
     res_bind (dr_day_change env s h) (\<lambda>(s0, h0).
       let s1 = s0\<lparr>dr_currentSize := to_i64 (dr_currentSize s0 + int (length message))\<rparr> in
       if dr_currentSize s1 > dr_maxSize s1 then
         res_bind (dr_sizeRotate env s1 h0) (\<lambda>(e, s2, h1).
           if e \<noteq> LCT_SUCCESS then
             Inr (e, s2, print_out (''Failed to size rotate log file '' @ ErrCodeFormat e @ [CHR 0x0A]) h1)
           else dr_write env message (s2\<lparr>dr_currentSize := int (length message)\<rparr>) h1)
       else dr_write env message s1 h0)"

definition dr_log :: "host_env \<Rightarrow> string \<Rightarrow> daily_rotate_sink \<Rightarrow> host \<Rightarrow> (lct_err \<times> daily_rotate_sink \<times> host) res" where
  "dr_log env message s h = dr_sinkIt env message s h"

section \<open>Console and remote\<close>

text \<open>The terminal sink prints the C string of the message; the remote sink is a stub.\<close>

definition terminal_log :: "string \<Rightarrow> host \<Rightarrow> lct_err \<times> host" where
  "terminal_log message h = (LCT_SUCCESS, print_out (c_str message) h)"

definition remote_log :: "string \<Rightarrow> host \<Rightarrow> lct_err \<times> host" where
  "remote_log message h = (LCT_SUCCESS, h)"

end
