(* ===== verification/Log_Sink_Correct.thy ===== *)
theory Log_Sink_Correct
  imports Log_Sink
begin

text \<open>
  The daily rotating file sink, the one the logger uses, on a host that does not fail and within
  one day: its files hold exactly the newest messages, in order, each file bounded by the size
  limit or a single message.
\<close>

section \<open>File names\<close>

lemma pad_loop_zeros: "pad_loop d i v = replicate (nat (d - i)) (CHR ''0'') @ v"
proof (induction d i v rule: pad_loop.induct)
  case (1 d i v)
  show ?case
  proof (cases "i < d")
    case True
    then have "nat (d - i) = Suc (nat (d - (i + 1)))" by linarith
    with 1 [OF True] True show ?thesis
      by (subst pad_loop.simps) (simp add: replicate_append_same [symmetric])
  qed (subst pad_loop.simps, simp)
qed

lemma index_text_value:
  assumes "0 < i" "i < 2 ^ 31"
  shows "nat_of_digits (index_text n i) = nat i"
proof -
  have "to_i32 i = i" by (rule to_i32_id) (use assms in \<open>simp add: in_i32_def\<close>)
  then show ?thesis using assms
    by (simp add: index_text_def IndexOnDigitCount_def pad_loop_zeros nat_of_digits_zeros to_string_def)
qed

definition fixed_day :: "host_env \<Rightarrow> string \<Rightarrow> bool" where
  "fixed_day env d \<longleftrightarrow> (\<forall>n. formatedDate (he_time env) (he_now env n) = d)"

definition log_name :: "string \<Rightarrow> string \<Rightarrow> int \<Rightarrow> string \<Rightarrow> nat \<Rightarrow> string" where
  "log_name dir base maxFiles d i =
     dir @ base @ LOG_FILE_NAME_DELIM @ d
     @ (if i = 0 then [] else LOG_FILE_NAME_DELIM @ index_text maxFiles (int i)) @ LOG_FILE_SUFFIX"

lemma index_text_value_nat: "0 < i \<Longrightarrow> i < 2 ^ 31 \<Longrightarrow> nat_of_digits (index_text n (int i)) = i"
  by (subst index_text_value) (simp_all only: of_nat_0_less_iff nat_int of_nat_less_numeral_power_cancel_iff)

lemma log_name_inj:
  assumes "i < 2 ^ 31" "j < 2 ^ 31" "log_name dir base n d i = log_name dir base n d j"
  shows "i = j"
proof (cases "i = 0 \<or> j = 0")
  case True
  then show ?thesis using assms(3) by (auto simp: log_name_def LOG_FILE_NAME_DELIM_def split: if_splits)
next
  case False
  then have "index_text n (int i) = index_text n (int j)" using assms(3) by (simp add: log_name_def)
  moreover have "nat_of_digits (index_text n (int i)) = i" "nat_of_digits (index_text n (int j)) = j"
    using False index_text_value_nat [OF _ assms(1)] index_text_value_nat [OF _ assms(2)] by blast+
  ultimately show ?thesis by metis
qed

abbreviation dr_name :: "daily_rotate_sink \<Rightarrow> string \<Rightarrow> nat \<Rightarrow> string" where
  "dr_name s d i \<equiv> log_name (dr_fileDir s) (dr_baseFileName s) (dr_maxFiles s) d i"

lemma dr_calcFileName_day:
  assumes "fixed_day env d"
  shows "dr_calcFileName env s (int i) h = (dr_name s d i, h\<lparr>h_step := Suc (h_step h)\<rparr>)"
proof -
  have "formatedDate (he_time env) (he_now env (h_step h)) = d" using assms unfolding fixed_day_def by blast
  then have "CDailyDate_CalcFileName env (dr_baseFileName s) h =
      (dr_baseFileName s @ LOG_FILE_NAME_DELIM @ d, h\<lparr>h_step := Suc (h_step h)\<rparr>)"
    by (simp only: CDailyDate_CalcFileName_def clock_now_def prod.case)
  then show ?thesis by (cases "i = 0") (simp_all add: dr_calcFileName_def log_name_def)
qed

section \<open>Moving the backups\<close>

text \<open>What the rotation makes of the files: each backup takes the place of the next older one.\<close>

definition shifted :: "(nat \<Rightarrow> string) \<Rightarrow> nat \<Rightarrow> (string \<Rightarrow> string option) \<Rightarrow> (string \<Rightarrow> string option) \<Rightarrow> bool" where
  "shifted nm n f f' \<longleftrightarrow>
     (\<forall>i. 0 < i \<and> i \<le> n \<longrightarrow> f' (nm i) = f (nm (i - 1))) \<and> (0 < n \<longrightarrow> f' (nm 0) = None)
     \<and> (\<forall>p. p \<notin> nm ` {0..n} \<or> n = 0 \<longrightarrow> f' p = f p)"

lemma shifted_Suc:
  assumes "inj_on nm {0..Suc n}" "shifted nm n (f(nm (Suc n) := f (nm n), nm n := None)) f'"
  shows "shifted nm (Suc n) f f'"
proof -
  let ?g = "f(nm (Suc n) := f (nm n), nm n := None)"
  have ne: "nm i \<noteq> nm j" if "i \<noteq> j" "i \<le> Suc n" "j \<le> Suc n" for i j
    using inj_onD [OF assms(1), of i j] that by auto
  have "nm (Suc n) \<notin> nm ` {0..n}"
  proof
    assume "nm (Suc n) \<in> nm ` {0..n}"
    then obtain j where "nm (Suc n) = nm j" "j \<le> n" by auto
    then show False using ne [of "Suc n" j] by simp
  qed
  then have top: "f' (nm (Suc n)) = f (nm n)"
    using assms(2) ne [of "Suc n" n] by (simp add: shifted_def)
  have "f' (nm i) = f (nm (i - 1))" if "0 < i" "i \<le> Suc n" for i
  proof (cases "i = Suc n")
    case False
    then have "f' (nm i) = ?g (nm (i - 1))" using assms(2) that by (simp add: shifted_def)
    also have "\<dots> = f (nm (i - 1))" using ne [of "i - 1" "Suc n"] ne [of "i - 1" n] False that by simp
    finally show ?thesis .
  qed (simp add: top)
  moreover have "f' (nm 0) = None"
  proof (cases n)
    case 0
    have "nm 0 \<noteq> nm (Suc 0)" using ne [of 0 "Suc 0"] by simp
    moreover have "f' (nm 0) = ?g (nm 0)" using assms(2) 0 by (simp add: shifted_def)
    ultimately show ?thesis using 0 by simp
  next
    case (Suc m)
    then show ?thesis using assms(2) by (simp add: shifted_def)
  qed
  moreover have "f' p = f p" if "p \<notin> nm ` {0..Suc n}" for p
  proof -
    have "p \<notin> nm ` {0..n}" "p \<noteq> nm (Suc n)" "p \<noteq> nm n" using that by (auto simp: image_iff)
    then show ?thesis using assms(2) by (simp add: shifted_def)
  qed
  ultimately show ?thesis by (simp add: shifted_def)
qed

lemma remove_if_exists:
  assumes "quiet env"
  shows "\<exists>h'. (if FileExists p h then c_remove env p h else (0, h)) = (0, h')
     \<and> h_files h' = (h_files h)(p := None) \<and> h_out h' = h_out h"
  by (auto simp: FileExists_def c_remove_def sys_call_quiet [OF assms] fun_upd_idem)

lemma rename_if_exists:
  assumes "quiet env" "src \<noteq> target" "h_files h target = None"
  shows "\<exists>h'. (if FileExists src h then c_rename env src target h else (0, h)) = (0, h')
     \<and> h_files h' = (h_files h)(target := h_files h src, src := None) \<and> h_out h' = h_out h"
  using assms(2,3) by (auto simp: FileExists_def c_rename_def sys_call_quiet [OF assms(1)] fun_eq_iff)

lemma rotate_from_quiet:
  assumes "quiet env" "\<And>i h. i \<le> n \<Longrightarrow> \<exists>h'. calc (int i) h = (nm i, h') \<and> same_host h h'" "inj_on nm {0..n}"
  shows "\<exists>h'. rotate_from calc env v n h = (LCT_SUCCESS, h') \<and> shifted nm n (h_files h) (h_files h') \<and> h_out h' = h_out h"
  using assms(2,3)
proof (induction n arbitrary: h)
  case 0
  then show ?case by (auto simp: shifted_def)
next
  case (Suc n)
  have ne: "nm n \<noteq> nm (Suc n)" using inj_onD [OF Suc.prems(2), of n "Suc n"] by auto
  have inj: "inj_on nm {0..n}" using Suc.prems(2) by (rule inj_on_subset) auto
  obtain h1 where h1: "calc (int n) h = (nm n, h1)" "same_host h h1" using Suc.prems(1) [of n h] by auto
  obtain h2 where h2: "calc (int (Suc n)) h1 = (nm (Suc n), h2)" "same_host h1 h2" using Suc.prems(1) [of "Suc n" h1] by blast
  obtain h3 where h3: "(if FileExists (nm (Suc n)) h2 then c_remove env (nm (Suc n)) h2 else (0, h2)) = (0, h3)"
    "h_files h3 = (h_files h2)(nm (Suc n) := None)" "h_out h3 = h_out h2" using remove_if_exists [OF assms(1)] by blast
  obtain h4 where h4: "(if FileExists (nm n) h3 then c_rename env (nm n) (nm (Suc n)) h3 else (0, h3)) = (0, h4)"
    "h_files h4 = (h_files h3)(nm (Suc n) := h_files h3 (nm n), nm n := None)" "h_out h4 = h_out h3"
    using rename_if_exists [OF assms(1) ne, of h3] h3(2) by auto
  have f4: "h_files h4 = (h_files h)(nm (Suc n) := h_files h (nm n), nm n := None)"
    using h1(2) h2(2) h3(2) h4(2) ne by (simp add: same_host_def)
  obtain h5 where h5: "rotate_from calc env v n h4 = (LCT_SUCCESS, h5)" "shifted nm n (h_files h4) (h_files h5)" "h_out h5 = h_out h4"
    using Suc.IH [OF _ inj, of h4] Suc.prems(1) by (metis le_SucI)
  have "rotate_from calc env v (Suc n) h = (LCT_SUCCESS, h5)"
    using h1(1) h2(1) h3(1) h4(1) h5(1) by (simp del: of_nat_Suc)
  moreover have "shifted nm (Suc n) (h_files h) (h_files h5)"
    by (rule shifted_Suc [OF Suc.prems(2)]) (use h5(2) f4 in simp)
  moreover have "h_out h5 = h_out h" using h1(2) h2(2) h3(3) h4(3) h5(3) by (simp add: same_host_def)
  ultimately show ?case by blast
qed

section \<open>The sink against its contract\<close>

text \<open>
  The contract: a current text and its backups, newest first.  A message that would exceed the
  limit starts a new text, and the oldest backup is given up when there is no room for it.
\<close>

definition log_step :: "int \<Rightarrow> string \<Rightarrow> string \<times> string option list \<Rightarrow> string \<times> string option list" where
  "log_step mx msg st = (case st of (cur, old) \<Rightarrow>
     if mx < int (length cur) + int (length msg) then (msg, butlast (Some cur # old)) else (cur @ msg, old))"

definition sink_holds :: "string \<Rightarrow> daily_rotate_sink \<Rightarrow> host \<Rightarrow> string \<times> string option list \<Rightarrow> bool" where
  "sink_holds d s h st \<longleftrightarrow>
     (case st of (cur, old) \<Rightarrow>
       on_file (dr_fileHelper s) (dr_name s d 0) \<and> h_files h (dr_name s d 0) = Some cur
       \<and> int (length old) = dr_maxFiles s \<and> (\<forall>i < length old. h_files h (dr_name s d (Suc i)) = old ! i)
       \<and> dr_currentSize s = int (length cur) \<and> int (length cur) < 2 ^ 62
       \<and> dr_forceFlush s \<and> 0 < dr_maxFiles s \<and> dr_maxFiles s < 2 ^ 31 \<and> dr_maxSize s < 2 ^ 62)"

lemma dr_name_inj: "0 < dr_maxFiles s \<Longrightarrow> dr_maxFiles s < 2 ^ 31 \<Longrightarrow> inj_on (dr_name s d) {0..nat (dr_maxFiles s)}"
  by (rule inj_onI) (rule log_name_inj, auto)

lemma dr_rotateFile_quiet:
  assumes "quiet env" "fixed_day env d" "0 < dr_maxFiles s" "dr_maxFiles s < 2 ^ 31"
  shows "\<exists>h'. dr_rotateFile env s h = (LCT_SUCCESS, h')
     \<and> shifted (dr_name s d) (nat (dr_maxFiles s)) (h_files h) (h_files h') \<and> h_out h' = h_out h"
  unfolding dr_rotateFile_def
  by (rule rotate_from_quiet [OF assms(1) _ dr_name_inj [OF assms(3,4)]])
     (simp add: dr_calcFileName_day [OF assms(2)] same_host_def)

lemma log_name_nonempty: "log_name dir base n d i \<noteq> []"
  by (simp add: log_name_def LOG_FILE_SUFFIX_def)

lemma dr_write_quiet:
  assumes "quiet env" "on_file (dr_fileHelper s) p" "h_files h p = Some c" "dr_forceFlush s"
  shows "\<exists>fh' h'. dr_write env msg s h = Inr (LCT_SUCCESS, s\<lparr>dr_fileHelper := fh'\<rparr>, h') \<and> on_file fh' p
     \<and> h_files h' = (h_files h)(p \<mapsto> c @ msg)"
proof -
  obtain fh1 h1 fh2 h2 where "fh_write_shared env (Some msg) (dr_fileHelper s) h = Inr (LCT_SUCCESS, fh1, h1)"
    "fh_flush env fh1 h1 = Inr (LCT_SUCCESS, fh2, h2)" "on_file fh2 p" "h_files h2 = (h_files h)(p \<mapsto> c @ msg)"
    using fh_write_flush_quiet [OF assms(1-3), of msg] by blast
  then show ?thesis using assms(4) by (auto simp: dr_write_def dr_flush_def Let_def)
qed

lemma dr_sizeRotate_quiet:
  assumes "quiet env" "fixed_day env d" "0 < dr_maxFiles s" "dr_maxFiles s < 2 ^ 31"
    "on_file (dr_fileHelper s) (dr_name s d 0)" "h_files h (dr_name s d 0) \<noteq> None"
  shows "\<exists>fh' h' f'. dr_sizeRotate env s h = Inr (LCT_SUCCESS, s\<lparr>dr_fileHelper := fh'\<rparr>, h')
     \<and> on_file fh' (dr_name s d 0) \<and> shifted (dr_name s d) (nat (dr_maxFiles s)) (h_files h) f'
     \<and> h_files h' = f'(dr_name s d 0 \<mapsto> [])"
proof -
  let ?fh = "(dr_fileHelper s)\<lparr>m_fd := None\<rparr>"
  have o: "m_fd (dr_fileHelper s) = Some \<lparr>cs_path = dr_name s d 0, cs_buf = [], cs_open = True\<rparr>"
    "m_fileName (dr_fileHelper s) = dr_name s d 0" using assms(5) by (simp_all add: on_file_def)
  obtain h1 where h1: "fh_close env (dr_fileHelper s) h = Inr (LCT_SUCCESS, ?fh, h1)" "same_host h h1"
    using fh_close_quiet [OF assms(1) on_file_settled [OF assms(5)], of h] o assms(6) by auto
  obtain h2 where h2: "dr_rotateFile env s h1 = (LCT_SUCCESS, h2)"
    "shifted (dr_name s d) (nat (dr_maxFiles s)) (h_files h1) (h_files h2)"
    using dr_rotateFile_quiet [OF assms(1-4)] by blast
  obtain fh' h3 where h3: "fh_open env (dr_name s d 0) False ?fh h2 = Inr (LCT_SUCCESS, fh', h3)" "on_file fh' (dr_name s d 0)"
    "h_files h3 = (h_files h2)(dr_name s d 0 \<mapsto> file_text h2 (dr_name s d 0))"
    using fh_open_quiet [OF assms(1), of ?fh h2 "dr_name s d 0"] by (auto simp: settled_def)
  have "file_text h2 (dr_name s d 0) = []" using h2(2) assms(3) by (simp add: shifted_def file_text_def)
  moreover have "dr_sizeRotate env s h = Inr (LCT_SUCCESS, s\<lparr>dr_fileHelper := fh'\<rparr>, h3)"
    using h1(1) h2(1) h3(1) o(2) log_name_nonempty by (simp add: dr_sizeRotate_def fh_reopen_def)
  moreover have "h_files h1 = h_files h" using h1(2) by (simp add: same_host_def)
  ultimately show ?thesis using h2(2) h3(2,3) by auto
qed

lemma dr_day_change_before:
  assumes "\<forall>n. he_now env n < dr_rotationTp s"
  shows "dr_day_change env s h = Inr (s, h\<lparr>h_step := Suc (h_step h)\<rparr>)"
proof -
  have "\<not> dr_rotationTp s \<le> he_now env (h_step h)" using assms by (simp add: not_le)
  then show ?thesis by (simp add: dr_day_change_def clock_now_def)
qed

lemma size_sum_fits: "int a < 2 ^ 62 \<Longrightarrow> int b < 2 ^ 62 \<Longrightarrow> to_i64 (int a + int b) = int a + int b"
  by (rule to_i64_nonneg) simp_all

lemma daily_sink_refines_contract_aux:
  assumes "quiet env" "fixed_day env d" "\<forall>n. he_now env n < dr_rotationTp s" "sink_holds d s h st"
    "int (length msg) < 2 ^ 62"
  shows "\<exists>s' h'. dr_log env msg s h = Inr (LCT_SUCCESS, s', h') \<and> sink_holds d s' h' (log_step (dr_maxSize s) msg st)
     \<and> dr_rotationTp s' = dr_rotationTp s \<and> dr_maxSize s' = dr_maxSize s \<and> dr_maxFiles s' = dr_maxFiles s
     \<and> (\<forall>i. dr_name s' d i = dr_name s d i)"
proof -
  obtain cur old where st: "st = (cur, old)" by fastforce
  let ?nm = "dr_name s d"
  note holds = assms(4) [unfolded st sink_holds_def prod.case]
  have n: "length old = nat (dr_maxFiles s)" "0 < length old" using holds by linarith+
  have size: "to_i64 (dr_currentSize s + int (length msg)) = int (length cur) + int (length msg)"
    using holds assms(5) size_sum_fits by simp
  define s1 where "s1 = s\<lparr>dr_currentSize := int (length cur) + int (length msg)\<rparr>"
  define h0 where "h0 = h\<lparr>h_step := Suc (h_step h)\<rparr>"
  have step: "dr_log env msg s h = (if dr_maxSize s < int (length cur) + int (length msg) then
      res_bind (dr_sizeRotate env s1 h0) (\<lambda>(e, s2, h1). if e \<noteq> LCT_SUCCESS then
          Inr (e, s2, print_out (''Failed to size rotate log file '' @ ErrCodeFormat e @ [CHR 0x0A]) h1)
        else dr_write env msg (s2\<lparr>dr_currentSize := int (length msg)\<rparr>) h1)
      else dr_write env msg s1 h0)"
    by (simp add: dr_log_def dr_sinkIt_def dr_day_change_before [OF assms(3)] size s1_def h0_def Let_def)
  have f0: "h_files h0 = h_files h" by (simp add: h0_def)
  have inj: "?nm i \<noteq> ?nm 0" if "0 < i" "i \<le> length old" for i
    using inj_onD [OF dr_name_inj [of s d], of i 0] holds that n by auto
  show ?thesis
  proof (cases "dr_maxSize s < int (length cur) + int (length msg)")
    case False
    obtain fh' h' where w: "dr_write env msg s1 h0 = Inr (LCT_SUCCESS, s1\<lparr>dr_fileHelper := fh'\<rparr>, h')" "on_file fh' (?nm 0)"
      "h_files h' = (h_files h0)(?nm 0 \<mapsto> cur @ msg)"
      using dr_write_quiet [OF assms(1), of s1 "?nm 0" h0 cur msg] holds by (auto simp: s1_def f0)
    have "sink_holds d (s1\<lparr>dr_fileHelper := fh'\<rparr>) h' (cur @ msg, old)"
      using holds w(2,3) inj False by (simp add: sink_holds_def s1_def f0)
    then show ?thesis using step w(1) False by (auto simp: st log_step_def s1_def)
  next
    case True
    obtain fh1 h1 f1 where r: "dr_sizeRotate env s1 h0 = Inr (LCT_SUCCESS, s1\<lparr>dr_fileHelper := fh1\<rparr>, h1)"
      "on_file fh1 (?nm 0)" "shifted ?nm (nat (dr_maxFiles s)) (h_files h0) f1" "h_files h1 = f1(?nm 0 \<mapsto> [])"
      using dr_sizeRotate_quiet [OF assms(1,2), of s1 h0] holds by (auto simp: s1_def f0)
    define s2 where "s2 = s1\<lparr>dr_fileHelper := fh1, dr_currentSize := int (length msg)\<rparr>"
    obtain fh' h' where w: "dr_write env msg s2 h1 = Inr (LCT_SUCCESS, s2\<lparr>dr_fileHelper := fh'\<rparr>, h')" "on_file fh' (?nm 0)"
      "h_files h' = (h_files h1)(?nm 0 \<mapsto> [] @ msg)"
      using dr_write_quiet [OF assms(1), of s2 "?nm 0" h1 "[]" msg] holds r(2,4) by (auto simp: s2_def s1_def)
    have old: "h_files h' (?nm (Suc i)) = butlast (Some cur # old) ! i" if "i < length old" for i
    proof -
      have "h_files h' (?nm (Suc i)) = f1 (?nm (Suc i))" using w(3) r(4) inj [of "Suc i"] that by simp
      also have "\<dots> = h_files h (?nm i)" using r(3) that n(1) by (simp add: shifted_def f0)
      also have "\<dots> = butlast (Some cur # old) ! i"
        using holds that n(2) by (cases i) (auto simp: nth_butlast)
      finally show ?thesis .
    qed
    have "sink_holds d (s2\<lparr>dr_fileHelper := fh'\<rparr>) h' (msg, butlast (Some cur # old))"
      using holds w(2,3) old assms(5) n(2) by (simp add: sink_holds_def s2_def s1_def)
    then show ?thesis using step w(1) r(1) True by (auto simp: st log_step_def s2_def s1_def)
  qed
qed

text \<open>
  C19: logging a message takes the sink's files from one state of the contract to the next, within
  a day and on a host without failures.
\<close>

theorem daily_sink_refines_contract:
  assumes "quiet env" "fixed_day env d" "\<forall>n. he_now env n < dr_rotationTp s" "sink_holds d s h st"
    "int (length msg) < 2 ^ 62"
  shows "\<exists>s' h'. dr_log env msg s h = Inr (LCT_SUCCESS, s', h') \<and> sink_holds d s' h' (log_step (dr_maxSize s) msg st)
     \<and> dr_maxSize s' = dr_maxSize s \<and> dr_maxFiles s' = dr_maxFiles s"
  using daily_sink_refines_contract_aux [OF assms] by blast

section \<open>What the files keep\<close>

text \<open>
  The contract in terms of whole messages: the files are groups of messages, newest first; the
  messages no longer kept are the oldest ones, and none is given up while a backup is free.
\<close>

definition group_ok :: "int \<Rightarrow> string list \<Rightarrow> bool" where
  "group_ok mx g \<longleftrightarrow> int (length (concat g)) \<le> mx \<or> (\<exists>m. g = [m])"

definition kept_groups :: "int \<Rightarrow> string list \<Rightarrow> string \<times> string option list \<Rightarrow> bool" where
  "kept_groups mx ms st \<longleftrightarrow>
     (\<exists>lost g gs. ms = lost @ concat (rev (g # gs)) \<and> fst st = concat g
       \<and> snd st = map (Some \<circ> concat) gs @ replicate (length (snd st) - length gs) None
       \<and> length gs \<le> length (snd st) \<and> (\<forall>x \<in> set (g # gs). group_ok mx x)
       \<and> (length gs < length (snd st) \<longrightarrow> lost = []))"

lemma kept_groups_start: "0 < mx \<Longrightarrow> kept_groups mx [] ([], replicate n None)"
  unfolding kept_groups_def by (rule exI [of _ "[]"], rule exI [of _ "[]"], rule exI [of _ "[]"]) (simp add: group_ok_def)

lemma kept_groupsI:
  assumes "ms = lost @ concat (rev (g # gs))" "cur = concat g" "old = map (Some \<circ> concat) gs @ replicate r None"
    "\<forall>x \<in> set (g # gs). group_ok mx x" "0 < r \<longrightarrow> lost = []"
  shows "kept_groups mx ms (cur, old)"
  unfolding kept_groups_def using assms by (intro exI [of _ lost] exI [of _ g] exI [of _ gs]) simp

lemma kept_groups_step:
  assumes "kept_groups mx ms (cur, old)" "old \<noteq> []"
  shows "kept_groups mx (ms @ [m]) (log_step mx m (cur, old))"
proof -
  obtain lost g gs r where k: "ms = lost @ concat (rev (g # gs))" "cur = concat g"
    "old = map (Some \<circ> concat) gs @ replicate r None" "\<forall>x \<in> set (g # gs). group_ok mx x" "0 < r \<longrightarrow> lost = []"
    using assms(1) unfolding kept_groups_def by auto
  show ?thesis
  proof (cases "mx < int (length cur) + int (length m)")
    case False
    then have "group_ok mx (g @ [m])" using k(2) by (simp add: group_ok_def)
    then have "kept_groups mx (ms @ [m]) (cur @ m, old)"
      using k by (intro kept_groupsI [of _ lost "g @ [m]" gs _ _ r]) simp_all
    then show ?thesis using False by (simp add: log_step_def)
  next
    case True
    have "kept_groups mx (ms @ [m]) (m, butlast (Some cur # old))"
    proof (cases r)
      case (Suc q)
      have "butlast (Some cur # old) = map (Some \<circ> concat) (g # gs) @ replicate q None"
      proof -
        have "Some cur # old = (map (Some \<circ> concat) (g # gs) @ replicate q None) @ [None]"
          by (simp add: k(2,3) Suc replicate_append_same)
        then show ?thesis by (metis butlast_snoc)
      qed
      then show ?thesis using k Suc by (intro kept_groupsI [of _ "[]" "[m]" "g # gs" _ _ q]) (simp_all add: group_ok_def)
    next
      case 0
      then obtain fs l where gs: "gs = fs @ [l]" using assms(2) k(3) by (cases gs rule: rev_cases) auto
      have "butlast (Some cur # old) = map (Some \<circ> concat) (g # fs)" using 0 unfolding k(2,3) gs by (simp add: butlast_append)
      then show ?thesis using k 0
        by (intro kept_groupsI [of _ "lost @ l" "[m]" "g # fs" _ _ 0]) (simp_all add: group_ok_def gs)
    qed
    then show ?thesis using True by (simp add: log_step_def)
  qed
qed

section \<open>From the constructor to the files\<close>

fun dr_log_all :: "host_env \<Rightarrow> string list \<Rightarrow> daily_rotate_sink \<Rightarrow> host \<Rightarrow> (daily_rotate_sink \<times> host) res" where
  "dr_log_all env [] s h = Inr (s, h)"
| "dr_log_all env (m # ms) s h = res_bind (dr_log env m s h) (\<lambda>(_, s1, h1). dr_log_all env ms s1 h1)"

lemma dr_new_fresh:
  assumes "quiet env" "fixed_day env d" "0 < n" "n < 2 ^ 31" "mx < 2 ^ 62"
    "\<forall>i. h_files h (log_name dir base n d i) = None"
    "\<forall>k h. he_now env k < fst (firstRotationTp env (rectify_hour rh) (rectify_minute rm) h)"
  shows "\<exists>s h'. dr_new env True dir base mx n rh rm h = Inr (s, h') \<and> sink_holds d s h' ([], replicate (nat n) None)
     \<and> dr_maxSize s = mx \<and> (\<forall>k. he_now env k < dr_rotationTp s) \<and> dr_maxFiles s = n
     \<and> (\<forall>i. dr_name s d i = log_name dir base n d i)"
proof -
  let ?nm = "log_name dir base n d"
  define h0 where "h0 = print_out (''CDailyRotateFileSink:LogDir('' @ dir @ '') fileSize('' @ to_string mx
                 @ '') fileCount('' @ to_string n @ '')'' @ [CHR 0x0A]) h"
  define s where "s = \<lparr>dr_forceFlush = True, dr_rotationHour = rectify_hour rh, dr_rotationMinute = rectify_minute rm,
      dr_maxSize = mx, dr_maxFiles = n, dr_currentSize = 0, dr_fileDir = dir, dr_baseFileName = base, dr_rotationTp = 0,
      dr_fileHelper = new_file_helper True\<rparr>"
  define h1 where "h1 = h0\<lparr>h_step := Suc (h_step h0)\<rparr>"
  have c: "dr_calcFileName env s 0 h0 = (?nm 0, h1)"
    using dr_calcFileName_day [OF assms(2), of s 0 h0] by (simp add: s_def h1_def)
  have f1: "h_files h1 = h_files h" by (simp add: h1_def h0_def print_out_def)
  then have ex: "\<not> FileExists (?nm 0) h1" using assms(6) by (simp add: FileExists_def)
  obtain tp h3 where tp: "firstRotationTp env (rectify_hour rh) (rectify_minute rm) h1 = (tp, h3)" by fastforce
  have f3: "h_files h3 = h_files h" using tp f1 by (auto simp: firstRotationTp_def clock_now_def Let_def)
  obtain fh h4 where o: "fh_open env (?nm 0) False (new_file_helper True) h3 = Inr (LCT_SUCCESS, fh, h4)" "on_file fh (?nm 0)"
    "h_files h4 = (h_files h3)(?nm 0 \<mapsto> file_text h3 (?nm 0))"
    using fh_open_quiet [OF assms(1), of "new_file_helper True" h3 "?nm 0"] by (auto simp: settled_def new_file_helper_def)
  have new: "dr_new env True dir base mx n rh rm h = Inr (s\<lparr>dr_rotationTp := tp, dr_fileHelper := fh\<rparr>, h4)"
    using c ex tp o(1) unfolding dr_new_def h0_def [symmetric] s_def by (simp add: Let_def)
  have "?nm (Suc i) \<noteq> ?nm 0" if "i < nat n" for i
  proof
    assume e: "?nm (Suc i) = ?nm 0"
    have "Suc i < 2 ^ 31" "(0::nat) < 2 ^ 31" using that assms(4) by auto
    from log_name_inj [OF this e] show False by simp
  qed
  then have "sink_holds d (s\<lparr>dr_rotationTp := tp, dr_fileHelper := fh\<rparr>) h4 ([], replicate (nat n) None)"
    using o(2,3) f3 assms(3-6) by (simp add: sink_holds_def s_def file_text_def)
  then show ?thesis using new assms(7) tp by (auto simp: s_def) (metis fst_conv)
qed

lemma dr_log_all_holds:
  assumes "quiet env" "fixed_day env d"
  shows "\<lbrakk>\<forall>k. he_now env k < dr_rotationTp s; sink_holds d s h st; kept_groups mx past st; snd st \<noteq> [];
      dr_maxSize s = mx; \<forall>m \<in> set ms. int (length m) < 2 ^ 62\<rbrakk>
    \<Longrightarrow> \<exists>s' h' st'. dr_log_all env ms s h = Inr (s', h') \<and> sink_holds d s' h' st' \<and> kept_groups mx (past @ ms) st'
      \<and> st' = fold (log_step mx) ms st \<and> dr_maxFiles s' = dr_maxFiles s \<and> (\<forall>i. dr_name s' d i = dr_name s d i)"
proof (induction ms arbitrary: s h st past)
  case (Cons m ms)
  obtain s1 h1 where 1: "dr_log env m s h = Inr (LCT_SUCCESS, s1, h1)" "sink_holds d s1 h1 (log_step mx m st)"
    "dr_rotationTp s1 = dr_rotationTp s" "dr_maxSize s1 = mx" "dr_maxFiles s1 = dr_maxFiles s"
    "\<forall>i. dr_name s1 d i = dr_name s d i"
    using daily_sink_refines_contract_aux [OF assms Cons.prems(1,2), of m] Cons.prems(5,6) by auto
  obtain cur old where st: "st = (cur, old)" by fastforce
  have "kept_groups mx (past @ [m]) (log_step mx m st)" "snd (log_step mx m st) \<noteq> []"
    using kept_groups_step [of mx "past" cur old m] Cons.prems(3,4) by (auto simp: st log_step_def)
  from Cons.IH [OF _ 1(2) this 1(4)] Cons.prems(1,6) 1(1,3,5,6) show ?case by auto
qed auto

lemma concat_of_concat: "concat (concat xss) = concat (map concat xss)"
  by (induction xss) auto

lemma kept_files:
  assumes "sink_holds d s h st" "kept_groups mx ms st" "0 < mx"
  shows "(\<exists>k. concat (map (\<lambda>i. file_text h (dr_name s d i)) (rev [0..<Suc (nat (dr_maxFiles s))])) = concat (drop k ms)
        \<and> (h_files h (dr_name s d (nat (dr_maxFiles s))) = None \<longrightarrow> k = 0))
     \<and> (\<forall>i \<le> nat (dr_maxFiles s). int (length (file_text h (dr_name s d i))) \<le> mx \<or> file_text h (dr_name s d i) \<in> set ms)"
proof -
  obtain cur old where st: "st = (cur, old)" by fastforce
  note holds = assms(1) [unfolded st sink_holds_def prod.case]
  obtain lost g gs r where k: "ms = lost @ concat (rev (g # gs))" "cur = concat g"
    "old = map (Some \<circ> concat) gs @ replicate r None" "\<forall>x \<in> set (g # gs). group_ok mx x" "0 < r \<longrightarrow> lost = []"
    using assms(2) unfolding kept_groups_def st by auto
  let ?n = "nat (dr_maxFiles s)"
  let ?t = "\<lambda>i. file_text h (dr_name s d i)"
  define texts where "texts = concat g # map concat gs @ replicate r []"
  have n: "?n = length old" "length texts = Suc ?n" "0 < length old" using holds k(3) by (auto simp: texts_def)
  have old: "?t (Suc i) = (case old ! i of None \<Rightarrow> [] | Some c \<Rightarrow> c)" if "i < length old" for i
    using holds that by (simp add: file_text_def)
  have texts: "map ?t [0..<Suc ?n] = texts"
  proof (rule nth_equalityI)
    fix i assume i: "i < length (map ?t [0..<Suc ?n])"
    show "map ?t [0..<Suc ?n] ! i = texts ! i"
    proof (cases i)
      case 0
      then show ?thesis using holds k(2) by (simp add: texts_def file_text_def nth_append)
    next
      case (Suc j)
      then have j: "j < length old" using i n(1) by simp
      then have "map ?t [0..<Suc ?n] ! i = ?t (Suc j)" using Suc n(1) by (simp del: upt_Suc)
      also have "\<dots> = texts ! i" unfolding old [OF j] texts_def Suc using j
        by (simp add: k(3) nth_append split: if_splits)
      finally show ?thesis .
    qed
  qed (simp add: n(2))
  have "map ?t (rev [0..<Suc ?n]) = rev texts" unfolding texts [symmetric] by (simp add: rev_map)
  moreover have "concat (rev texts) = concat (concat (rev (g # gs)))"
    by (simp add: texts_def concat_of_concat rev_map concat_replicate_trivial)
  ultimately have kept: "concat (map ?t (rev [0..<Suc ?n])) = concat (drop (length lost) ms)" using k(1) by simp
  have "h_files h (dr_name s d ?n) = old ! (length old - 1)"
    using holds n(1,3) by (metis One_nat_def Suc_pred lessI)
  moreover have "last old \<noteq> None" if "r = 0" using that k(3) n(3) by (auto simp: last_map)
  ultimately have free: "h_files h (dr_name s d ?n) = None \<longrightarrow> length lost = 0"
    using k(5) n(3) by (metis last_conv_nth length_0_conv neq0_conv)
  have bounded: "int (length x) \<le> mx \<or> x \<in> set ms" if "x \<in> set texts" for x
  proof -
    from that consider y where "y \<in> set (g # gs)" "x = concat y" | "x = []"
      by (auto simp: texts_def split: if_splits)
    then show ?thesis
    proof cases
      case (1 y)
      then have "group_ok mx y" using k(4) by blast
      then consider "int (length x) \<le> mx" | "y = [x]" using 1 by (auto simp: group_ok_def)
      then show ?thesis
      proof cases
        case 2
        then have "x \<in> set (concat (rev (g # gs)))" using 1 by force
        then show ?thesis using k(1) by simp
      qed simp
    qed (use assms(3) in simp)
  qed
  have among: "?t i \<in> set texts" if "i \<le> ?n" for i
    unfolding texts [symmetric] set_map by (rule imageI) (use that in auto)
  have "\<forall>i \<le> ?n. int (length (?t i)) \<le> mx \<or> ?t i \<in> set ms"
    by (intro allI impI) (rule bounded [OF among])
  then show ?thesis using kept free by (intro conjI exI [of _ "length lost"])
qed

text \<open>The files under the names \<open>nm\<close> are those of the contract: the current one and the backups.\<close>

definition files_hold :: "(nat \<Rightarrow> string) \<Rightarrow> host \<Rightarrow> string \<times> string option list \<Rightarrow> bool" where
  "files_hold nm h st \<longleftrightarrow>
     (case st of (cur, old) \<Rightarrow> h_files h (nm 0) = Some cur \<and> (\<forall>i < length old. h_files h (nm (Suc i)) = old ! i))"

lemma sink_keeps_newest_aux:
  assumes "quiet env" "fixed_day env d" "0 < n" "n < 2 ^ 31" "0 < mx" "mx < 2 ^ 62"
    "\<forall>i. h_files h (log_name dir base n d i) = None"
    "\<forall>k h. he_now env k < fst (firstRotationTp env (rectify_hour rh) (rectify_minute rm) h)"
    "\<forall>m \<in> set ms. int (length m) < 2 ^ 62"
  shows "\<exists>s0 h0 s' h' k. dr_new env True dir base mx n rh rm h = Inr (s0, h0) \<and> dr_log_all env ms s0 h0 = Inr (s', h')
     \<and> concat (map (\<lambda>i. file_text h' (log_name dir base n d i)) (rev [0..<Suc (nat n)])) = concat (drop k ms)
     \<and> (h_files h' (log_name dir base n d (nat n)) = None \<longrightarrow> k = 0)
     \<and> (\<forall>i \<le> nat n. int (length (file_text h' (log_name dir base n d i))) \<le> mx
          \<or> file_text h' (log_name dir base n d i) \<in> set ms)
     \<and> files_hold (log_name dir base n d) h' (fold (log_step mx) ms ([], replicate (nat n) None))"
proof -
  obtain s0 h0 where 0: "dr_new env True dir base mx n rh rm h = Inr (s0, h0)"
    "sink_holds d s0 h0 ([], replicate (nat n) None)" "dr_maxSize s0 = mx" "\<forall>k. he_now env k < dr_rotationTp s0"
    "dr_maxFiles s0 = n" "\<forall>i. dr_name s0 d i = log_name dir base n d i"
    using dr_new_fresh [OF assms(1-4,6-8)] by blast
  obtain s' h' st where 1: "dr_log_all env ms s0 h0 = Inr (s', h')" "sink_holds d s' h' st" "kept_groups mx ms st"
    "dr_maxFiles s' = n" "\<forall>i. dr_name s' d i = log_name dir base n d i"
    "st = fold (log_step mx) ms ([], replicate (nat n) None)"
    using dr_log_all_holds [OF assms(1,2) 0(4,2) kept_groups_start [OF assms(5)] _ 0(3) assms(9)] assms(3) 0(5,6) by auto
  have "log_name (dr_fileDir s') (dr_baseFileName s') n d = log_name dir base n d"
    using 1(4,5) by (intro ext) simp
  from kept_files [OF 1(2,3) assms(5), unfolded 1(4) this] obtain k where
    "concat (map (\<lambda>i. file_text h' (log_name dir base n d i)) (rev [0..<Suc (nat n)])) = concat (drop k ms)"
    "h_files h' (log_name dir base n d (nat n)) = None \<longrightarrow> k = 0"
    "\<forall>i \<le> nat n. int (length (file_text h' (log_name dir base n d i))) \<le> mx \<or> file_text h' (log_name dir base n d i) \<in> set ms"
    by (elim conjE exE)
  moreover have "files_hold (log_name dir base n d) h' (fold (log_step mx) ms ([], replicate (nat n) None))"
    using 1(2,5) unfolding 1(6) [symmetric] by (auto simp: files_hold_def sink_holds_def)
  ultimately show ?thesis using 0(1) 1(1) by (intro exI conjI)
qed

text \<open>
  C18: a sink started in a directory without its files, on one day and on a host without failures,
  logs every message; its files, oldest first, hold the newest of the messages in order, all of
  them while a backup is still free; and each file is within the size limit or one message.
\<close>

theorem sink_keeps_newest_messages:
  assumes "quiet env" "fixed_day env d" "0 < n" "n < 2 ^ 31" "0 < mx" "mx < 2 ^ 62"
    "\<forall>i. h_files h (log_name dir base n d i) = None"
    "\<forall>k h. he_now env k < fst (firstRotationTp env (rectify_hour rh) (rectify_minute rm) h)"
    "\<forall>m \<in> set ms. int (length m) < 2 ^ 62"
  shows "\<exists>s0 h0 s' h' k. dr_new env True dir base mx n rh rm h = Inr (s0, h0) \<and> dr_log_all env ms s0 h0 = Inr (s', h')
     \<and> concat (map (\<lambda>i. file_text h' (log_name dir base n d i)) (rev [0..<Suc (nat n)])) = concat (drop k ms)
     \<and> (h_files h' (log_name dir base n d (nat n)) = None \<longrightarrow> k = 0)
     \<and> (\<forall>i \<le> nat n. int (length (file_text h' (log_name dir base n d i))) \<le> mx
          \<or> file_text h' (log_name dir base n d i) \<in> set ms)"
  using sink_keeps_newest_aux [OF assms] by (elim exE conjE) (intro exI conjI)

definition quiet_env :: host_env where
  "quiet_env = (demo_env (\<lambda>_. 0))\<lparr>he_mktime := (\<lambda>_. 1000)\<rparr>"

lemma quiet_env_facts: "quiet quiet_env" "fixed_day quiet_env (formatedDate new_lct_time 0)"
  "he_now quiet_env k < fst (firstRotationTp quiet_env a b h)"
  by (simp_all add: quiet_env_def demo_env_def quiet_def fixed_day_def firstRotationTp_def clock_now_def Let_def)

theorem sink_keeps_newest_messages_witness:
  "\<exists>s0 h0 s' h' k. dr_new quiet_env True ''log/'' ''svc'' 10 2 0 0 demo_host = Inr (s0, h0)
     \<and> dr_log_all quiet_env [''first'', ''second''] s0 h0 = Inr (s', h')
     \<and> concat (map (\<lambda>i. file_text h' (log_name ''log/'' ''svc'' 2 (formatedDate new_lct_time 0) i)) (rev [0..<Suc (nat 2)]))
        = concat (drop k [''first'', ''second''])"
  using sink_keeps_newest_messages [of quiet_env "formatedDate new_lct_time 0" 2 10 demo_host "''log/''" "''svc''" 0 0
      "[''first'', ''second'']"] quiet_env_facts
  by (simp add: demo_host_def) blast

theorem daily_sink_refines_contract_witness:
  "\<exists>s h s' h'. dr_new quiet_env True ''log/'' ''svc'' 10 2 0 0 demo_host = Inr (s, h)
     \<and> dr_log quiet_env ''first'' s h = Inr (LCT_SUCCESS, s', h')
     \<and> sink_holds (formatedDate new_lct_time 0) s' h' (''first'', [None, None])"
proof -
  let ?d = "formatedDate new_lct_time 0"
  obtain s h where 0: "dr_new quiet_env True ''log/'' ''svc'' 10 2 0 0 demo_host = Inr (s, h)"
    "sink_holds ?d s h ([], replicate 2 None)" "dr_maxSize s = 10" "\<forall>k. he_now quiet_env k < dr_rotationTp s"
    using dr_new_fresh [of quiet_env ?d 2 10 demo_host "''log/''" "''svc''" 0 0] quiet_env_facts
    by (auto simp: demo_host_def)
  from daily_sink_refines_contract [OF quiet_env_facts(1,2) 0(4,2), of "''first''"] 0(1,3)
  show ?thesis by (auto simp: log_step_def numeral_2_eq_2)
qed

end
