(* ===== verification/Block_Queue.thy ===== *)
theory Block_Queue
  imports Fifo_Interface
begin

text \<open>
  \<open>common/lct_queue.h\<close>, \<open>common/detail/lct_queue.hpp\<close>: the blocking queue.  The body of
  \<open>enqueue\<close> and \<open>dequeue\<close> is a loop under the mutex; one turn of it, from taking the lock to
  returning or to waiting on the condition variable, is one atomic step.  A thread that waits
  takes part again after \<open>notify_all\<close>, after a spurious wake-up, or by its time running out.
\<close>

definition SIZE_INFINITE :: int where "SIZE_INFINITE = 2 ^ 31 - 1"
definition TIME_INFINITE :: int where "TIME_INFINITE = 2 ^ 63 - 1"

record 'a bqueue =
  bq_quit :: bool
  bq_maxSize :: int
  bq_enqueueWaitTime :: int
  bq_dequeueWaitTime :: int
  bq_data :: "'a list"

definition bq_new :: "'a bqueue" where
  "bq_new = \<lparr>bq_quit = False, bq_maxSize = SIZE_INFINITE, bq_enqueueWaitTime = TIME_INFINITE,
     bq_dequeueWaitTime = TIME_INFINITE, bq_data = []\<rparr>"

definition bq_new_sized :: "int \<Rightarrow> 'a bqueue" where
  "bq_new_sized maxSize = bq_new\<lparr>bq_maxSize := max maxSize 1\<rparr>"

definition bq_new_timed :: "int \<Rightarrow> int \<Rightarrow> 'a bqueue" where
  "bq_new_timed enWaitTime deWaitTime =
     bq_new\<lparr>bq_enqueueWaitTime := max enWaitTime 0, bq_dequeueWaitTime := max deWaitTime 0\<rparr>"

definition bq_new_sized_timed :: "int \<Rightarrow> int \<Rightarrow> int \<Rightarrow> 'a bqueue" where
  "bq_new_sized_timed maxSize enWaitTime deWaitTime =
     bq_new\<lparr>bq_maxSize := max maxSize 1, bq_enqueueWaitTime := max enWaitTime 0, bq_dequeueWaitTime := max deWaitTime 0\<rparr>"

definition bq_empty :: "'a bqueue \<Rightarrow> bool" where "bq_empty q \<longleftrightarrow> bq_data q = []"
definition bq_count :: "'a bqueue \<Rightarrow> int" where "bq_count q = to_i32 (int (length (bq_data q)))"

section \<open>One turn of a loop\<close>

datatype pass = Return lct_err | Wait | Wait_for int

definition enqueue_pass :: "'a \<Rightarrow> 'a bqueue \<Rightarrow> pass \<times> 'a bqueue" where
  "enqueue_pass obj q =
     (if bq_count q \<ge> bq_maxSize q then
        (if bq_quit q then Return LCT_SERVICE_DOWN
         else if 0 = bq_enqueueWaitTime q then Return LCT_OVERFLOW
         else if TIME_INFINITE = bq_enqueueWaitTime q then Wait
         else Wait_for (bq_enqueueWaitTime q), q)
      else (Return LCT_SUCCESS, q\<lparr>bq_data := bq_data q @ [obj]\<rparr>))"

definition dequeue_pass :: "'a bqueue \<Rightarrow> pass \<times> 'a option \<times> 'a bqueue" where
  "dequeue_pass q =
     (case bq_data q of
        [] \<Rightarrow>
          (if bq_quit q then Return LCT_SERVICE_DOWN
           else if 0 = bq_dequeueWaitTime q then Return LCT_EMPTY_RECORD
           else if TIME_INFINITE = bq_dequeueWaitTime q then Wait
           else Wait_for (bq_dequeueWaitTime q), None, q)
      | x # xs \<Rightarrow> (Return LCT_SUCCESS, Some x, q\<lparr>bq_data := xs\<rparr>))"

definition bq_notifyAll :: "'a bqueue \<Rightarrow> 'a bqueue" where "bq_notifyAll q = q\<lparr>bq_quit := True\<rparr>"

text \<open>A call while no other thread uses the queue: the wait runs out, or never ends.\<close>

definition enqueue_alone :: "'a bqueue \<Rightarrow> 'a \<Rightarrow> (lct_err \<times> 'a bqueue) res" where
  "enqueue_alone q obj = (case enqueue_pass obj q of
     (Return e, q') \<Rightarrow> Inr (e, q') | (Wait_for _, q') \<Rightarrow> Inr (LCT_TIMEOUT, q') | (Wait, _) \<Rightarrow> Inl Blocked)"

definition dequeue_alone :: "'a bqueue \<Rightarrow> (lct_err \<times> 'a option \<times> 'a bqueue) res" where
  "dequeue_alone q = (case dequeue_pass q of
     (Return e, x, q') \<Rightarrow> Inr (e, x, q') | (Wait_for _, x, q') \<Rightarrow> Inr (LCT_TIMEOUT, x, q') | (Wait, _) \<Rightarrow> Inl Blocked)"

definition bq_inv :: "'a bqueue \<Rightarrow> bool" where
  "bq_inv q \<longleftrightarrow> 0 < bq_maxSize q \<and> bq_maxSize q \<le> SIZE_INFINITE \<and> int (length (bq_data q)) \<le> bq_maxSize q"

lemma bq_inv_new: "bq_inv bq_new" "k \<le> SIZE_INFINITE \<Longrightarrow> bq_inv (bq_new_sized k)" "bq_inv (bq_new_timed a b)"
  "k \<le> SIZE_INFINITE \<Longrightarrow> bq_inv (bq_new_sized_timed k a b)"
  by (auto simp: bq_inv_def bq_new_def bq_new_sized_def bq_new_timed_def bq_new_sized_timed_def SIZE_INFINITE_def)

lemma bq_count_inv: "bq_inv q \<Longrightarrow> bq_count q = int (length (bq_data q))"
  unfolding bq_count_def bq_inv_def SIZE_INFINITE_def by (rule to_i32_id) (simp add: in_i32_def)

lemma enqueue_pass_inv: "bq_inv q \<Longrightarrow> enqueue_pass x q = (p, q') \<Longrightarrow> bq_inv q' \<and> bq_maxSize q' = bq_maxSize q"
  by (auto simp: enqueue_pass_def bq_count_inv bq_inv_def split: if_splits)

lemma dequeue_pass_inv: "bq_inv q \<Longrightarrow> dequeue_pass q = (p, x, q') \<Longrightarrow> bq_inv q' \<and> bq_maxSize q' = bq_maxSize q"
  by (auto simp: dequeue_pass_def bq_inv_def split: list.splits if_splits)

interpretation bqF: bounded_fifo enqueue_alone dequeue_alone bq_data "\<lambda>q. nat (bq_maxSize q)" bq_inv
proof
  fix q :: "'a bqueue" and x
  assume "bq_inv q" "length (bq_data q) < nat (bq_maxSize q)"
  then show "\<exists>q'. enqueue_alone q x = Inr (LCT_SUCCESS, q') \<and> bq_inv q' \<and> bq_data q' = bq_data q @ [x]
      \<and> nat (bq_maxSize q') = nat (bq_maxSize q)"
    by (simp add: enqueue_alone_def enqueue_pass_def bq_count_inv) (simp add: bq_inv_def)
next
  fix q :: "'a bqueue" and x xs
  assume "bq_inv q" "bq_data q = x # xs"
  then show "\<exists>q'. dequeue_alone q = Inr (LCT_SUCCESS, Some x, q') \<and> bq_inv q' \<and> bq_data q' = xs
      \<and> nat (bq_maxSize q') = nat (bq_maxSize q)"
    by (simp add: dequeue_alone_def dequeue_pass_def) (simp add: bq_inv_def)
qed

section \<open>Threads on one queue\<close>

datatype 'a q_pc = Q_idle | Q_enq 'a | Q_enq_wait 'a | Q_deq | Q_deq_wait | Q_ret lct_err "'a option"

text \<open>\<open>qs_in\<close> and \<open>qs_out\<close> record what was accepted and what was delivered, in order.\<close>

record 'a q_sys =
  qs_queue :: "'a bqueue"
  qs_pc :: "nat \<Rightarrow> 'a q_pc"
  qs_in :: "'a list"
  qs_out :: "'a list"

datatype 'a q_event = Call_enqueue nat 'a | Call_dequeue nat | Call_notifyAll | Turn nat | Timed_out nat | Spurious nat

definition q_goto :: "nat \<Rightarrow> 'a q_pc \<Rightarrow> 'a q_sys \<Rightarrow> 'a q_sys" where
  "q_goto t p S = S\<lparr>qs_pc := (qs_pc S)(t := p)\<rparr>"

fun woken :: "'a q_pc \<Rightarrow> 'a q_pc" where
  "woken (Q_enq_wait x) = Q_enq x"
| "woken Q_deq_wait = Q_deq"
| "woken p = p"

definition wake_all :: "'a q_sys \<Rightarrow> 'a q_sys" where "wake_all S = S\<lparr>qs_pc := (\<lambda>t. woken (qs_pc S t))\<rparr>"

definition enqueue_turn :: "nat \<Rightarrow> 'a \<Rightarrow> 'a q_sys \<Rightarrow> 'a q_sys" where
  "enqueue_turn t x S =
     (case enqueue_pass x (qs_queue S) of
        (Return e, q') \<Rightarrow>
          if e = LCT_SUCCESS
          then q_goto t (Q_ret e None) (wake_all (S\<lparr>qs_queue := q', qs_in := qs_in S @ [x]\<rparr>))
          else q_goto t (Q_ret e None) S
      | (_, q') \<Rightarrow> q_goto t (Q_enq_wait x) S)"

definition dequeue_turn :: "nat \<Rightarrow> 'a q_sys \<Rightarrow> 'a q_sys" where
  "dequeue_turn t S =
     (case dequeue_pass (qs_queue S) of
        (Return e, Some x, q') \<Rightarrow> q_goto t (Q_ret e (Some x)) (S\<lparr>qs_queue := q', qs_out := qs_out S @ [x]\<rparr>)
      | (Return e, None, q') \<Rightarrow> q_goto t (Q_ret e None) S
      | (_, _, q') \<Rightarrow> q_goto t Q_deq_wait S)"

fun free_pc :: "'a q_pc \<Rightarrow> bool" where
  "free_pc Q_idle = True"
| "free_pc (Q_ret e r) = True"
| "free_pc p = False"

fun q_step :: "'a q_event \<Rightarrow> 'a q_sys \<Rightarrow> 'a q_sys option" where
  "q_step (Call_enqueue t x) S = (if free_pc (qs_pc S t) then Some (q_goto t (Q_enq x) S) else None)"
| "q_step (Call_dequeue t) S = (if free_pc (qs_pc S t) then Some (q_goto t Q_deq S) else None)"
| "q_step Call_notifyAll S = Some (wake_all (S\<lparr>qs_queue := bq_notifyAll (qs_queue S)\<rparr>))"
| "q_step (Turn t) S = (case qs_pc S t of Q_enq x \<Rightarrow> Some (enqueue_turn t x S) | Q_deq \<Rightarrow> Some (dequeue_turn t S) | _ \<Rightarrow> None)"
| "q_step (Timed_out t) S = (case qs_pc S t of
     Q_enq_wait x \<Rightarrow> if bq_enqueueWaitTime (qs_queue S) \<noteq> TIME_INFINITE then Some (q_goto t (Q_ret LCT_TIMEOUT None) S) else None
   | Q_deq_wait \<Rightarrow> if bq_dequeueWaitTime (qs_queue S) \<noteq> TIME_INFINITE then Some (q_goto t (Q_ret LCT_TIMEOUT None) S) else None
   | _ \<Rightarrow> None)"
| "q_step (Spurious t) S = (if woken (qs_pc S t) \<noteq> qs_pc S t then Some (q_goto t (woken (qs_pc S t)) S) else None)"

definition q_start :: "'a bqueue \<Rightarrow> 'a q_sys" where
  "q_start q = \<lparr>qs_queue = q, qs_pc = (\<lambda>_. Q_idle), qs_in = bq_data q, qs_out = []\<rparr>"

inductive q_reach :: "'a bqueue \<Rightarrow> 'a q_sys \<Rightarrow> bool" for q0 where
  start: "q_reach q0 (q_start q0)"
| step: "q_reach q0 S \<Longrightarrow> q_step e S = Some S' \<Longrightarrow> q_reach q0 S'"

fun q_schedule :: "'a q_event list \<Rightarrow> 'a q_sys \<Rightarrow> 'a q_sys option" where
  "q_schedule [] S = Some S"
| "q_schedule (e # es) S = (case q_step e S of None \<Rightarrow> None | Some S1 \<Rightarrow> q_schedule es S1)"

lemma q_schedule_reach: "q_reach q0 S \<Longrightarrow> q_schedule es S = Some S' \<Longrightarrow> q_reach q0 S'"
  by (induction es arbitrary: S) (auto split: option.splits intro: q_reach.step)

text \<open>The steps, as changes of the queue and of the program counters.\<close>

lemmas q_step_defs = q_goto_def wake_all_def enqueue_turn_def dequeue_turn_def

lemma q_step_queue:
  "q_step e S = Some S' \<Longrightarrow> bq_inv (qs_queue S) \<Longrightarrow> qs_in S = qs_out S @ bq_data (qs_queue S) \<Longrightarrow>
     bq_inv (qs_queue S') \<and> bq_maxSize (qs_queue S') = bq_maxSize (qs_queue S) \<and> qs_in S' = qs_out S' @ bq_data (qs_queue S')"
proof (induction e S rule: q_step.induct)
  case (3 S)
  then show ?case by (auto simp: q_step_defs bq_notifyAll_def bq_inv_def)
next
  case (4 t S)
  then show ?case
    by (auto simp: q_step_defs enqueue_pass_def dequeue_pass_def bq_count_inv bq_inv_def split: q_pc.splits list.splits if_splits)
qed (auto simp: q_step_defs split: q_pc.splits if_splits)

lemma q_reach_queue:
  "q_reach q0 S \<Longrightarrow> bq_inv q0 \<Longrightarrow>
     bq_inv (qs_queue S) \<and> bq_maxSize (qs_queue S) = bq_maxSize q0 \<and> qs_in S = qs_out S @ bq_data (qs_queue S)"
proof (induction rule: q_reach.induct)
  case (step S e S')
  then show ?case using q_step_queue [OF step.hyps(2)] by simp
qed (simp add: q_start_def)

text \<open>
  C17: whatever the threads do, in any interleaving and with any timeouts, what has been delivered
  followed by what is in the queue is what has been accepted, in order, and the queue holds no
  more than its maximum.
\<close>

theorem queue_is_fifo_and_bounded:
  assumes "q_reach q0 S" "bq_inv q0"
  shows "qs_in S = qs_out S @ bq_data (qs_queue S) \<and> int (length (bq_data (qs_queue S))) \<le> bq_maxSize q0"
  using q_reach_queue [OF assms] by (auto simp: bq_inv_def)

definition waits :: "'a q_pc \<Rightarrow> bool" where
  "waits p \<longleftrightarrow> (\<exists>x. p = Q_enq_wait x) \<or> p = Q_deq_wait"

lemma woken_not_waits: "\<not> waits (woken p)"
  by (cases p) (auto simp: waits_def)

lemma q_step_quit:
  "q_step e S = Some S' \<Longrightarrow> bq_quit (qs_queue S) \<longrightarrow> (\<forall>t. \<not> waits (qs_pc S t)) \<Longrightarrow>
     bq_quit (qs_queue S') \<longrightarrow> (\<forall>t. \<not> waits (qs_pc S' t))"
proof (induction e S rule: q_step.induct)
  case (3 S)
  then show ?case by (auto simp: wake_all_def woken_not_waits)
next
  case (4 t S)
  then show ?case
    by (auto simp: q_step_defs enqueue_pass_def dequeue_pass_def woken_not_waits split: q_pc.splits list.splits if_splits)
       (auto simp: waits_def)
next
  case (6 t S)
  then show ?case by (auto simp: q_step_defs woken_not_waits split: if_splits)
qed (auto simp: q_step_defs waits_def split: q_pc.splits if_splits)

text \<open>
  C21: after \<open>notifyAll\<close> no thread waits on the queue, and none ever will again: every call under
  way takes its turn and returns.
\<close>

theorem notifyAll_releases_every_thread:
  assumes "q_reach q0 S" "bq_quit (qs_queue S)" "\<not> bq_quit q0"
  shows "\<not> waits (qs_pc S t)"
proof -
  have "bq_quit (qs_queue S) \<longrightarrow> (\<forall>t. \<not> waits (qs_pc S t))"
    using assms(1)
  proof (induction rule: q_reach.induct)
    case start
    then show ?case using assms(3) by (simp add: q_start_def)
  next
    case (step S e S')
    then show ?case using q_step_quit by blast
  qed
  then show ?thesis using assms(2) by blast
qed

definition demo_queue :: "int bqueue" where "demo_queue = bq_new_sized 1"

definition demo_schedule :: "int q_event list" where
  "demo_schedule = [Call_enqueue 0 7, Turn 0, Call_enqueue 1 8, Turn 1, Call_dequeue 2, Turn 2]"

lemma demo_schedule_run:
  "\<exists>S. q_schedule demo_schedule (q_start demo_queue) = Some S \<and> qs_pc S 1 = Q_enq_wait 8 \<and> bq_data (qs_queue S) = []
     \<and> qs_in S = [7] \<and> qs_out S = [7] \<and> q_step (Turn 1) S = None \<and> q_step (Timed_out 1) S = None
     \<and> free_pc (qs_pc S 0) \<and> free_pc (qs_pc S 2) \<and> \<not> bq_quit (qs_queue S)"
  by (simp add: demo_schedule_def demo_queue_def bq_new_sized_def bq_new_def q_start_def q_step_defs enqueue_pass_def
      dequeue_pass_def bq_count_def to_i32_def TIME_INFINITE_def)

theorem queue_is_fifo_and_bounded_witness:
  "\<exists>S. q_reach demo_queue S \<and> qs_in S = qs_out S @ bq_data (qs_queue S) \<and> qs_out S = [7]"
proof -
  obtain S where S: "q_schedule demo_schedule (q_start demo_queue) = Some S" "qs_out S = [7]" using demo_schedule_run by blast
  have r: "q_reach demo_queue S" by (rule q_schedule_reach [OF q_reach.start S(1)])
  have "bq_inv demo_queue" unfolding demo_queue_def by (rule bq_inv_new(2)) (simp add: SIZE_INFINITE_def)
  from queue_is_fifo_and_bounded [OF r this] r S(2) show ?thesis by blast
qed

theorem notifyAll_releases_every_thread_witness:
  "\<exists>S. q_schedule [Call_dequeue 0, Turn 0, Call_notifyAll] (q_start demo_queue) = Some S \<and> \<not> waits (qs_pc S 0)"
proof -
  let ?es = "[Call_dequeue 0, Turn 0, Call_notifyAll] :: int q_event list"
  have "\<exists>S. q_schedule ?es (q_start demo_queue) = Some S \<and> bq_quit (qs_queue S)"
    by (simp add: demo_queue_def bq_new_sized_def bq_new_def q_start_def q_step_defs dequeue_pass_def bq_notifyAll_def
        TIME_INFINITE_def)
  then obtain S where S: "q_schedule ?es (q_start demo_queue) = Some S" "bq_quit (qs_queue S)" by blast
  have "\<not> bq_quit demo_queue" by (simp add: demo_queue_def bq_new_sized_def bq_new_def)
  from notifyAll_releases_every_thread [OF q_schedule_reach [OF q_reach.start S(1)] S(2) this] S(1) show ?thesis by blast
qed

text \<open>
  \<open>dequeue\<close> does not notify.  A thread that waits to enqueue into a full queue keeps waiting
  after the queue has been emptied: the queue is empty, every other call has returned, and
  neither a turn nor a timeout is open to the waiting thread.
\<close>

theorem enqueuer_waits_on_empty_queue:
  "\<exists>S. q_reach (bq_new_sized 1 :: int bqueue) S \<and> qs_pc S 1 = Q_enq_wait 8 \<and> bq_data (qs_queue S) = []
     \<and> free_pc (qs_pc S 0) \<and> free_pc (qs_pc S 2) \<and> q_step (Turn 1) S = None \<and> q_step (Timed_out 1) S = None"
proof -
  obtain S where S: "q_schedule demo_schedule (q_start demo_queue) = Some S" "qs_pc S 1 = Q_enq_wait 8"
    "bq_data (qs_queue S) = []" "free_pc (qs_pc S 0)" "free_pc (qs_pc S 2)" "q_step (Turn 1) S = None"
    "q_step (Timed_out 1) S = None" using demo_schedule_run by blast
  then show ?thesis using q_schedule_reach [OF q_reach.start S(1)] unfolding demo_queue_def by blast
qed

end
