(* ===== verification/Thread_Pool.thy ===== *)
theory Thread_Pool
  imports Block_Queue "HOL-Library.Multiset"
begin

text \<open>
  \<open>common/lct_thread_pool.h\<close>, \<open>common/detail/lct_thread_pool.cpp\<close>, \<open>.hpp\<close> and
  \<open>lct_thread_pool_impl.*\<close>: the life cycle of the pool object, and the workers that take tasks
  from the queue while the pool runs.  The same loop is the writer thread of the log
  (\<open>log/detail/lct_log_sink_pool.h\<close>, \<open>Run\<close>).
\<close>

section \<open>The life cycle\<close>

record threadpool_impl =
  ti_runningFlag :: bool
  ti_threadCount :: int
  ti_workers :: nat
  ti_quit :: bool

definition new_threadpool_impl :: "int \<Rightarrow> threadpool_impl" where
  "new_threadpool_impl threadCount =
     \<lparr>ti_runningFlag = False, ti_threadCount = max threadCount 1, ti_workers = 0, ti_quit = False\<rparr>"

text \<open>
  \<open>start\<close> creates the workers; the host refuses a thread beyond the first \<open>room\<close> ones by an
  exception, which leaves the flag and the workers made so far.
\<close>

definition impl_start :: "nat \<Rightarrow> threadpool_impl \<Rightarrow> bool \<times> threadpool_impl" where
  "impl_start room i =
     (let n = nat (ti_threadCount i) in
      (n \<le> room, i\<lparr>ti_runningFlag := True, ti_workers := ti_workers i + min n room\<rparr>))"

text \<open>The workers are joined; how they come to an end is the subject of the next section.\<close>

definition impl_shutdown :: "threadpool_impl \<Rightarrow> lct_err \<times> threadpool_impl" where
  "impl_shutdown i = (LCT_SUCCESS, if ti_runningFlag i then i\<lparr>ti_runningFlag := False, ti_quit := True\<rparr> else i)"

record threadpool =
  tp_isRunning :: bool
  tp_threadCount :: int
  tp_impl :: "threadpool_impl option"

definition new_threadpool :: threadpool where
  "new_threadpool = \<lparr>tp_isRunning = False, tp_threadCount = 0, tp_impl = None\<rparr>"

text \<open>\<open>allocated\<close>: whether \<open>new\<close> succeeds.\<close>

definition threadpool_init :: "int \<Rightarrow> bool \<Rightarrow> int \<Rightarrow> threadpool \<Rightarrow> lct_err \<times> threadpool" where
  "threadpool_init hardware_concurrency allocated threadCount p =
     (if tp_isRunning p \<or> tp_impl p \<noteq> None then (LCT_FAIL, p)
      else let p1 = p\<lparr>tp_threadCount := (if threadCount = - 1 then hardware_concurrency else threadCount)\<rparr> in
        if \<not> allocated then (LCT_UNEXPECTED, p1)
        else (LCT_SUCCESS, p1\<lparr>tp_impl := Some (new_threadpool_impl (tp_threadCount p1))\<rparr>))"

definition threadpool_start :: "nat \<Rightarrow> threadpool \<Rightarrow> lct_err \<times> threadpool" where
  "threadpool_start room p =
     (case tp_impl p of
        None \<Rightarrow> (LCT_FAIL, p)
      | Some i \<Rightarrow>
          if tp_isRunning p then (LCT_FAIL, p)
          else (case impl_start room i of
            (ok, i1) \<Rightarrow> if ok then (LCT_SUCCESS, p\<lparr>tp_impl := Some i1, tp_isRunning := True\<rparr>)
                        else (LCT_UNEXPECTED, p\<lparr>tp_impl := Some i1\<rparr>)))"

definition threadpool_shutdown :: "threadpool \<Rightarrow> lct_err \<times> threadpool" where
  "threadpool_shutdown p =
     (if \<not> tp_isRunning p then (LCT_FAIL, p)
      else case tp_impl p of
        None \<Rightarrow> (LCT_SUCCESS, p\<lparr>tp_isRunning := False\<rparr>)
      | Some i \<Rightarrow> (fst (impl_shutdown i), p\<lparr>tp_impl := None, tp_isRunning := False\<rparr>))"

definition threadpool_size :: "threadpool \<Rightarrow> int" where
  "threadpool_size p = (case tp_impl p of None \<Rightarrow> 0 | Some i \<Rightarrow> if tp_isRunning p then ti_threadCount i else 0)"

definition threadpool_isRunning :: "threadpool \<Rightarrow> bool" where "threadpool_isRunning p = tp_isRunning p"

text \<open>The guard of \<open>emplaceTask\<close>; a task that passes it is put into the queue.\<close>

definition threadpool_accepts :: "threadpool \<Rightarrow> bool" where
  "threadpool_accepts p \<longleftrightarrow> tp_isRunning p \<and> tp_impl p \<noteq> None"

lemma threadpool_life_cycle:
  assumes "0 < n" "nat n \<le> room"
  shows "\<exists>p1 p2 p3. threadpool_init hc True n new_threadpool = (LCT_SUCCESS, p1) \<and> \<not> threadpool_accepts p1
     \<and> threadpool_start room p1 = (LCT_SUCCESS, p2) \<and> threadpool_accepts p2 \<and> threadpool_size p2 = n
     \<and> threadpool_shutdown p2 = (LCT_SUCCESS, p3) \<and> threadpool_size p3 = 0 \<and> tp_impl p3 = None
     \<and> fst (threadpool_shutdown p3) = LCT_FAIL"
  using assms
  by (auto simp: threadpool_init_def new_threadpool_def threadpool_start_def impl_start_def new_threadpool_impl_def
      threadpool_shutdown_def impl_shutdown_def threadpool_size_def threadpool_accepts_def Let_def)

text \<open>After a failed start the object is neither running nor can it be shut down or set up again.\<close>

lemma failed_start_strands_workers:
  "\<exists>p1 p2. threadpool_init hc True 2 new_threadpool = (LCT_SUCCESS, p1) \<and> threadpool_start 1 p1 = (LCT_UNEXPECTED, p2)
     \<and> fst (threadpool_shutdown p2) = LCT_FAIL \<and> fst (threadpool_init hc True 2 p2) = LCT_FAIL
     \<and> (\<exists>i. tp_impl p2 = Some i \<and> ti_workers i = 1 \<and> ti_runningFlag i)"
  by (simp add: threadpool_init_def new_threadpool_def threadpool_start_def impl_start_def new_threadpool_impl_def
      threadpool_shutdown_def Let_def)

section \<open>The workers\<close>

text \<open>
  A task runs outside any lock, beside the tasks of the other workers.  It is therefore not one
  step: \<open>code x\<close> lists the atomic actions of task \<open>x\<close> on the shared state, each told the worker it
  runs on (where the task keeps its own variables), and \<open>W_exec x k\<close> is a worker that has made the
  first \<open>k\<close> of them.
\<close>

type_synonym ('a, 's) task_code = "'a \<Rightarrow> (nat \<Rightarrow> 's \<Rightarrow> 's) list"

datatype 'a w_pc = W_test | W_deq | W_wait | W_exec 'a nat | W_exit

text \<open>
  \<open>ps_submitted\<close>, \<open>ps_started\<close> and \<open>ps_finished\<close> record the tasks accepted, taken and completed, in
  order, \<open>ps_did\<close> those completed by each worker, and \<open>ps_acts\<close> the actions made so far: by which
  worker, of which task, which of its actions.  \<open>ps_state\<close> is what the tasks work on.  \<open>ps_n\<close> workers
  run.
\<close>

record ('a, 's) pool_sys =
  ps_running :: bool
  ps_queue :: "'a bqueue"
  ps_n :: nat
  ps_pc :: "nat \<Rightarrow> 'a w_pc"
  ps_submitted :: "'a list"
  ps_started :: "'a list"
  ps_finished :: "'a list"
  ps_did :: "nat \<Rightarrow> 'a list"
  ps_acts :: "(nat \<times> 'a \<times> nat) list"
  ps_state :: 's

datatype 'a pool_event = Submit 'a | Clear_flag | Notify | Work nat | Wake nat

definition pool_start :: "nat \<Rightarrow> 's \<Rightarrow> ('a, 's) pool_sys" where
  "pool_start n s = \<lparr>ps_running = True, ps_queue = bq_new, ps_n = n, ps_pc = (\<lambda>_. W_test), ps_submitted = [],
     ps_started = [], ps_finished = [], ps_did = (\<lambda>_. []), ps_acts = [], ps_state = s\<rparr>"

fun pool_woken :: "'a w_pc \<Rightarrow> 'a w_pc" where
  "pool_woken W_wait = W_deq"
| "pool_woken p = p"

definition p_goto :: "nat \<Rightarrow> 'a w_pc \<Rightarrow> ('a, 's) pool_sys \<Rightarrow> ('a, 's) pool_sys" where
  "p_goto t p S = S\<lparr>ps_pc := (ps_pc S)(t := p)\<rparr>"

text \<open>
  One step of a worker: the test of the flag, a turn of \<open>dequeue\<close>, one action of the task, the
  return from the task.
\<close>

definition work :: "('a, 's) task_code \<Rightarrow> nat \<Rightarrow> ('a, 's) pool_sys \<Rightarrow> ('a, 's) pool_sys option" where
  "work code t S = (case ps_pc S t of
     W_test \<Rightarrow> Some (p_goto t (if ps_running S then W_deq else W_exit) S)
   | W_deq \<Rightarrow> (case dequeue_pass (ps_queue S) of
        (Return e, Some x, q) \<Rightarrow> Some (p_goto t (W_exec x 0) (S\<lparr>ps_queue := q, ps_started := ps_started S @ [x]\<rparr>))
      | (Return e, None, q) \<Rightarrow> Some (p_goto t W_test S)
      | (_, _, q) \<Rightarrow> Some (p_goto t W_wait S))
   | W_exec x k \<Rightarrow>
        (if k < length (code x)
         then Some (p_goto t (W_exec x (Suc k))
                (S\<lparr>ps_state := (code x ! k) t (ps_state S), ps_acts := ps_acts S @ [(t, x, k)]\<rparr>))
         else Some (p_goto t W_test
                (S\<lparr>ps_finished := ps_finished S @ [x], ps_did := (ps_did S)(t := ps_did S t @ [x])\<rparr>)))
   | W_wait \<Rightarrow> None
   | W_exit \<Rightarrow> None)"

fun pool_step :: "('a, 's) task_code \<Rightarrow> 'a pool_event \<Rightarrow> ('a, 's) pool_sys \<Rightarrow> ('a, 's) pool_sys option" where
  "pool_step code (Submit x) S = (case enqueue_pass x (ps_queue S) of
     (Return e, q) \<Rightarrow> if e = LCT_SUCCESS
        then Some (S\<lparr>ps_queue := q, ps_submitted := ps_submitted S @ [x], ps_pc := (\<lambda>t. pool_woken (ps_pc S t))\<rparr>)
        else Some S
   | _ \<Rightarrow> None)"
| "pool_step code Clear_flag S = Some (S\<lparr>ps_running := False\<rparr>)"
| "pool_step code Notify S = (if ps_running S then None
     else Some (S\<lparr>ps_queue := bq_notifyAll (ps_queue S), ps_pc := (\<lambda>t. pool_woken (ps_pc S t))\<rparr>))"
| "pool_step code (Work t) S = (if t < ps_n S then work code t S else None)"
| "pool_step code (Wake t) S = (if t < ps_n S \<and> ps_pc S t = W_wait then Some (p_goto t W_deq S) else None)"

inductive pool_reach :: "('a, 's) task_code \<Rightarrow> nat \<Rightarrow> 's \<Rightarrow> ('a, 's) pool_sys \<Rightarrow> bool" for code n s where
  start: "pool_reach code n s (pool_start n s)"
| step: "pool_reach code n s S \<Longrightarrow> pool_step code e S = Some S' \<Longrightarrow> pool_reach code n s S'"

fun pool_schedule :: "('a, 's) task_code \<Rightarrow> 'a pool_event list \<Rightarrow> ('a, 's) pool_sys \<Rightarrow> ('a, 's) pool_sys option" where
  "pool_schedule code [] S = Some S"
| "pool_schedule code (e # es) S = (case pool_step code e S of None \<Rightarrow> None | Some S1 \<Rightarrow> pool_schedule code es S1)"

lemma pool_schedule_reach: "pool_reach code n s S \<Longrightarrow> pool_schedule code es S = Some S' \<Longrightarrow> pool_reach code n s S'"
  by (induction es arbitrary: S) (auto split: option.splits intro: pool_reach.step)

section \<open>Every task at most once, in order\<close>

definition running_task :: "'a w_pc \<Rightarrow> 'a multiset" where
  "running_task p = (case p of W_exec x k \<Rightarrow> {#x#} | _ \<Rightarrow> {#})"

definition in_hand :: "('a, 's) pool_sys \<Rightarrow> 'a multiset" where
  "in_hand S = (\<Sum>t<ps_n S. running_task (ps_pc S t))"

text \<open>The actions of a whole task, and those a worker has made of the task it is in.\<close>

definition task_acts :: "('a, 's) task_code \<Rightarrow> 'a \<Rightarrow> ('a \<times> nat) list" where
  "task_acts code x = map (Pair x) [0..<length (code x)]"

definition current_acts :: "'a w_pc \<Rightarrow> ('a \<times> nat) list" where
  "current_acts p = (case p of W_exec x k \<Rightarrow> map (Pair x) [0..<k] | _ \<Rightarrow> [])"

definition acts_of :: "nat \<Rightarrow> ('a, 's) pool_sys \<Rightarrow> ('a \<times> nat) list" where
  "acts_of t S = map snd (filter (\<lambda>a. fst a = t) (ps_acts S))"

definition do_act :: "('a, 's) task_code \<Rightarrow> nat \<times> 'a \<times> nat \<Rightarrow> 's \<Rightarrow> 's" where
  "do_act code a s = (case a of (t, x, k) \<Rightarrow> (code x ! k) t s)"

lemma task_state_simps [simp]:
  "running_task W_test = {#}" "running_task W_deq = {#}" "running_task W_wait = {#}" "running_task W_exit = {#}"
  "running_task (W_exec x k) = {#x#}"
  "current_acts W_test = []" "current_acts W_deq = []" "current_acts W_wait = []" "current_acts W_exit = []"
  "current_acts (W_exec x k) = map (Pair x) [0..<k]"
  by (simp_all add: running_task_def current_acts_def)

text \<open>What the actions made so far are: each worker has made those of its own tasks, one task after the other.\<close>

definition acts_inv :: "('a, 's) task_code \<Rightarrow> 's \<Rightarrow> ('a, 's) pool_sys \<Rightarrow> bool" where
  "acts_inv code s S \<longleftrightarrow>
     ps_state S = fold (do_act code) (ps_acts S) s
     \<and> (\<forall>t. acts_of t S = concat (map (task_acts code) (ps_did S t)) @ current_acts (ps_pc S t))
     \<and> (\<forall>t x k. ps_pc S t = W_exec x k \<longrightarrow> k \<le> length (code x))
     \<and> (\<forall>a \<in> set (ps_acts S). fst a < ps_n S)
     \<and> mset (ps_finished S) = (\<Sum>t<ps_n S. mset (ps_did S t))"

definition pool_inv :: "('a, 's) task_code \<Rightarrow> nat \<Rightarrow> 's \<Rightarrow> ('a, 's) pool_sys \<Rightarrow> bool" where
  "pool_inv code n s S \<longleftrightarrow>
     ps_n S = n \<and> ps_submitted S = ps_started S @ bq_data (ps_queue S)
     \<and> mset (ps_started S) = mset (ps_finished S) + in_hand S \<and> acts_inv code s S"

text \<open>A sum over the workers changes by the one summand a step changes.\<close>

lemma worker_sum_goto:
  fixes f g :: "nat \<Rightarrow> 'b :: comm_monoid_add"
  assumes "t < n" "\<And>i. i \<noteq> t \<Longrightarrow> f i = g i"
  shows "sum f {..<n} + g t = sum g {..<n} + f t"
proof -
  have s: "sum h {..<n} = h t + sum h ({..<n} - {t})" for h :: "nat \<Rightarrow> 'b"
    using assms(1) by (simp add: sum.remove)
  have "sum f ({..<n} - {t}) = sum g ({..<n} - {t})" by (rule sum.cong) (auto simp: assms(2))
  then show ?thesis by (simp add: s [of f] s [of g] ac_simps)
qed

lemma in_hand_goto:
  assumes "t < ps_n S" "ps_pc S' = (ps_pc S)(t := p)" "ps_n S' = ps_n S"
  shows "in_hand S' + running_task (ps_pc S t) = in_hand S + running_task p"
  using worker_sum_goto [OF assms(1), of "\<lambda>i. running_task (ps_pc S' i)" "\<lambda>i. running_task (ps_pc S i)"] assms(2,3)
  by (simp add: in_hand_def)

lemma pool_woken_simps [simp]:
  "running_task (pool_woken p) = running_task p" "current_acts (pool_woken p) = current_acts p"
  "pool_woken p = W_exec x k \<longleftrightarrow> p = W_exec x k" "pool_woken p \<noteq> W_wait"
  by (cases p; simp)+

text \<open>A step that makes no action keeps what is said of the actions.\<close>

lemma acts_inv_frame:
  assumes "acts_inv code s S" "ps_state S' = ps_state S" "ps_acts S' = ps_acts S" "ps_did S' = ps_did S"
    "ps_finished S' = ps_finished S" "ps_n S' = ps_n S" "\<And>i. current_acts (ps_pc S' i) = current_acts (ps_pc S i)"
    "\<And>i x k. ps_pc S' i = W_exec x k \<Longrightarrow> k = 0 \<or> ps_pc S i = W_exec x k"
  shows "acts_inv code s S'"
  using assms(1) assms(8) unfolding acts_inv_def acts_of_def assms(2-7) by fastforce

lemma acts_inv_act:
  assumes inv: "acts_inv code s S" and t: "t < ps_n S" "ps_pc S t = W_exec x k" "k < length (code x)"
  shows "acts_inv code s (p_goto t (W_exec x (Suc k))
           (S\<lparr>ps_state := (code x ! k) t (ps_state S), ps_acts := ps_acts S @ [(t, x, k)]\<rparr>))"
proof -
  have "acts_of t S = concat (map (task_acts code) (ps_did S t)) @ map (Pair x) [0..<k]"
    using inv t(2) by (simp add: acts_inv_def)
  then show ?thesis using inv t by (auto simp: acts_inv_def acts_of_def p_goto_def do_act_def)
qed

lemma acts_inv_return:
  assumes inv: "acts_inv code s S" and t: "t < ps_n S" "ps_pc S t = W_exec x k" "\<not> k < length (code x)"
  shows "acts_inv code s (p_goto t W_test
           (S\<lparr>ps_finished := ps_finished S @ [x], ps_did := (ps_did S)(t := ps_did S t @ [x])\<rparr>))"
proof -
  have k: "k = length (code x)" using inv t(2,3) by (auto simp: acts_inv_def intro: le_antisym)
  have a: "acts_of i S = concat (map (task_acts code) (ps_did S i)) @ current_acts (ps_pc S i)" for i
    using inv by (simp add: acts_inv_def)
  have "(\<Sum>i<ps_n S. mset (((ps_did S)(t := ps_did S t @ [x])) i)) = (\<Sum>i<ps_n S. mset (ps_did S i)) + {#x#}"
    using worker_sum_goto [OF t(1), of "\<lambda>i. mset (((ps_did S)(t := ps_did S t @ [x])) i)" "\<lambda>i. mset (ps_did S i)"] by simp
  then show ?thesis using inv a k t(2) by (auto simp: acts_inv_def acts_of_def p_goto_def task_acts_def)
qed

lemma dequeue_pass_cases:
  "dequeue_pass q = (case bq_data q of [] \<Rightarrow> (fst (dequeue_pass q), None, q) | x # xs \<Rightarrow> (Return LCT_SUCCESS, Some x, q\<lparr>bq_data := xs\<rparr>))"
  by (simp add: dequeue_pass_def split: list.split)

lemma work_inv:
  assumes inv: "pool_inv code n s S" and t: "t < ps_n S" and w: "work code t S = Some S'"
  shows "pool_inv code n s S'"
proof -
  have a: "acts_inv code s S" using inv by (simp add: pool_inv_def)
  have "acts_inv code s S'"
  proof (cases "ps_pc S t")
    case (W_exec x k)
    then show ?thesis using w acts_inv_act [OF a t W_exec] acts_inv_return [OF a t W_exec]
      by (auto simp: work_def split: if_splits)
  qed (use w in \<open>auto simp: work_def p_goto_def dequeue_pass_def split: if_splits list.splits intro!: acts_inv_frame [OF a]\<close>)
  moreover have "ps_n S' = n \<and> ps_submitted S' = ps_started S' @ bq_data (ps_queue S')
     \<and> mset (ps_started S') = mset (ps_finished S') + in_hand S'"
  proof (cases "ps_pc S t")
    case W_test
    with inv t w in_hand_goto [OF t, of S'] show ?thesis
      by (auto simp: work_def pool_inv_def p_goto_def split: if_splits)
  next
    case W_deq
    with inv t w in_hand_goto [OF t, of S'] show ?thesis
      by (auto simp: work_def pool_inv_def p_goto_def dequeue_pass_def split: if_splits list.splits)
  next
    case (W_exec x k)
    show ?thesis
    proof (cases "k < length (code x)")
      case True
      have "in_hand S' + {#x#} = in_hand S + {#x#}"
        using in_hand_goto [OF t, of S' "W_exec x (Suc k)"] w W_exec True by (auto simp: work_def p_goto_def)
      with inv w W_exec True show ?thesis by (auto simp: work_def pool_inv_def p_goto_def)
    next
      case False
      have "in_hand S' + {#x#} = in_hand S"
        using in_hand_goto [OF t, of S' W_test] w W_exec False by (auto simp: work_def p_goto_def)
      with inv w W_exec False show ?thesis by (auto simp: work_def pool_inv_def p_goto_def)
    qed
  qed (use w in \<open>auto simp: work_def\<close>)
  ultimately show ?thesis by (simp add: pool_inv_def)
qed

text \<open>Steps of the callers and wake-ups change neither actions nor tasks in hand.\<close>

lemma acts_inv_woken:
  assumes "acts_inv code s S"
  shows "acts_inv code s (S\<lparr>ps_running := r\<rparr>)"
    "acts_inv code s (S\<lparr>ps_queue := q, ps_submitted := xs, ps_pc := (\<lambda>t. pool_woken (ps_pc S t))\<rparr>)"
    "acts_inv code s (S\<lparr>ps_queue := q, ps_pc := (\<lambda>t. pool_woken (ps_pc S t))\<rparr>)"
    "ps_pc S t = W_wait \<Longrightarrow> acts_inv code s (p_goto t W_deq S)"
  by (rule acts_inv_frame [OF assms]; auto simp: p_goto_def split: if_splits)+

lemma in_hand_woken [simp]:
  "in_hand (S\<lparr>ps_running := r\<rparr>) = in_hand S"
  "in_hand (S\<lparr>ps_queue := q, ps_submitted := xs, ps_pc := (\<lambda>t. pool_woken (ps_pc S t))\<rparr>) = in_hand S"
  "in_hand (S\<lparr>ps_queue := q, ps_pc := (\<lambda>t. pool_woken (ps_pc S t))\<rparr>) = in_hand S"
  by (simp_all add: in_hand_def)

lemma pool_step_inv:
  assumes "pool_inv code n s S" "pool_step code e S = Some S'"
  shows "pool_inv code n s S'"
proof -
  have a: "acts_inv code s S" using assms(1) by (simp add: pool_inv_def)
  show ?thesis
  proof (cases e)
    case (Submit x)
    then show ?thesis using assms acts_inv_woken(2) [OF a]
      by (auto simp: pool_inv_def enqueue_pass_def split: if_splits)
  next
    case Clear_flag
    then show ?thesis using assms acts_inv_woken(1) [OF a] by (auto simp: pool_inv_def)
  next
    case Notify
    then show ?thesis using assms acts_inv_woken(3) [OF a] by (auto simp: pool_inv_def bq_notifyAll_def split: if_splits)
  next
    case (Work t)
    then show ?thesis using assms work_inv by (auto split: if_splits)
  next
    case (Wake t)
    then have w: "t < ps_n S" "ps_pc S t = W_wait" "S' = p_goto t W_deq S" using assms(2) by (auto split: if_splits)
    have "in_hand S' = in_hand S" using in_hand_goto [of t S S' W_deq] w by (simp add: p_goto_def)
    then show ?thesis using assms(1) acts_inv_woken(4) [OF a w(2)] w(3) by (simp add: pool_inv_def p_goto_def)
  qed
qed

lemma pool_reach_inv: "pool_reach code n s S \<Longrightarrow> pool_inv code n s S"
proof (induction rule: pool_reach.induct)
  case start
  then show ?case by (simp add: pool_inv_def pool_start_def bq_new_def in_hand_def acts_inv_def acts_of_def)
next
  case (step S e S')
  from pool_step_inv [OF step.IH step.hyps(2)] show ?case .
qed

text \<open>
  C20: in every interleaving of workers and submissions, the tasks taken are a prefix of the tasks
  accepted, in that order; each task taken is either completed, by one worker, or in the hands of
  one worker; and the shared state is the result of the actions made so far, an interleaving in
  which each worker makes the actions of its own tasks, every one of them once and in order, one
  task after the other.
\<close>

theorem pool_runs_tasks_once_in_order:
  assumes "pool_reach code n s S"
  shows "ps_submitted S = ps_started S @ bq_data (ps_queue S)
     \<and> mset (ps_started S) = mset (ps_finished S) + in_hand S
     \<and> mset (ps_finished S) = (\<Sum>t<n. mset (ps_did S t))
     \<and> ps_state S = fold (do_act code) (ps_acts S) s
     \<and> (\<forall>a \<in> set (ps_acts S). fst a < n)
     \<and> (\<forall>t. acts_of t S = concat (map (task_acts code) (ps_did S t)) @ current_acts (ps_pc S t))"
  using pool_reach_inv [OF assms] by (auto simp: pool_inv_def acts_inv_def)

section \<open>Shutdown\<close>

definition going_down :: "('a, 's) pool_sys \<Rightarrow> bool" where
  "going_down S \<longleftrightarrow> \<not> ps_running S \<and> bq_quit (ps_queue S)"

text \<open>The steps a worker is still away from its end, when no task makes more than \<open>K\<close> actions.\<close>

fun w_rank :: "('a, 's) task_code \<Rightarrow> nat \<Rightarrow> 'a w_pc \<Rightarrow> nat" where
  "w_rank code K W_exit = 0"
| "w_rank code K W_test = 1"
| "w_rank code K (W_exec x k) = 2 + (length (code x) - k)"
| "w_rank code K W_deq = 3 + K"
| "w_rank code K W_wait = 4 + K"

definition pool_rank :: "('a, 's) task_code \<Rightarrow> nat \<Rightarrow> ('a, 's) pool_sys \<Rightarrow> nat" where
  "pool_rank code K S = (\<Sum>t<ps_n S. w_rank code K (ps_pc S t))"

lemma pool_rank_goto:
  assumes "t < ps_n S" "ps_pc S' = (ps_pc S)(t := p)" "ps_n S' = ps_n S"
  shows "pool_rank code K S' + w_rank code K (ps_pc S t) = pool_rank code K S + w_rank code K p"
  using worker_sum_goto [OF assms(1), of "\<lambda>i. w_rank code K (ps_pc S' i)" "\<lambda>i. w_rank code K (ps_pc S i)"] assms(2,3)
  by (simp add: pool_rank_def)

definition worker_event :: "'a pool_event \<Rightarrow> bool" where
  "worker_event e \<longleftrightarrow> (\<exists>t. e = Work t \<or> e = Wake t)"

definition short_tasks :: "('a, 's) task_code \<Rightarrow> nat \<Rightarrow> 'a list \<Rightarrow> bool" where
  "short_tasks code K xs \<longleftrightarrow> (\<forall>x \<in> set xs. length (code x) \<le> K)"

lemma worker_event_rank:
  assumes "going_down S" "short_tasks code K (bq_data (ps_queue S))" "worker_event e" "pool_step code e S = Some S'"
  shows "going_down S' \<and> short_tasks code K (bq_data (ps_queue S')) \<and> pool_rank code K S' < pool_rank code K S"
proof -
  from assms(3) consider t where "e = Work t" | t where "e = Wake t" by (auto simp: worker_event_def)
  then show ?thesis
  proof cases
    case (1 t)
    with assms(4) have t: "t < ps_n S" "work code t S = Some S'" by (auto split: if_splits)
    with assms(1,2) obtain p where "ps_pc S' = (ps_pc S)(t := p)" "ps_n S' = ps_n S"
      "w_rank code K p < w_rank code K (ps_pc S t)" "going_down S'" "short_tasks code K (bq_data (ps_queue S'))"
      by (auto simp: work_def going_down_def p_goto_def dequeue_pass_def short_tasks_def split: w_pc.splits if_splits list.splits)
    then show ?thesis using pool_rank_goto [OF t(1), of S' p code K] by linarith
  next
    case (2 t)
    with assms(4) have "t < ps_n S" "ps_pc S t = W_wait" "S' = p_goto t W_deq S" by (auto split: if_splits)
    then show ?thesis using pool_rank_goto [of t S S' W_deq code K] assms(1,2) by (simp add: going_down_def p_goto_def)
  qed
qed

lemma quit_no_waiter: "pool_reach code n s S \<Longrightarrow> bq_quit (ps_queue S) \<Longrightarrow> ps_pc S t \<noteq> W_wait"
proof (induction arbitrary: t rule: pool_reach.induct)
  case start
  then show ?case by (simp add: pool_start_def)
next
  case (step S e S')
  then show ?case
    by (cases e) (auto simp: work_def p_goto_def enqueue_pass_def dequeue_pass_def bq_notifyAll_def
        split: w_pc.splits if_splits list.splits)
qed

lemma going_down_progress:
  assumes "pool_reach code n s S" "going_down S" "t < n" "ps_pc S t \<noteq> W_exit"
  shows "\<exists>S'. pool_step code (Work t) S = Some S'"
proof -
  have "ps_n S = n" using pool_reach_inv [OF assms(1)] by (simp add: pool_inv_def)
  moreover have "ps_pc S t \<noteq> W_wait" using quit_no_waiter [OF assms(1)] assms(2) by (simp add: going_down_def)
  ultimately show ?thesis using assms(2-4)
    by (auto simp: work_def going_down_def dequeue_pass_def split: w_pc.splits list.splits)
qed

lemma worker_run_bounded:
  "\<lbrakk>going_down S; short_tasks code K (bq_data (ps_queue S)); \<forall>e \<in> set es. worker_event e;
     pool_schedule code es S = Some S'\<rbrakk> \<Longrightarrow> length es + pool_rank code K S' \<le> pool_rank code K S"
proof (induction es arbitrary: S)
  case (Cons e es)
  then obtain S1 where S1: "pool_step code e S = Some S1" "pool_schedule code es S1 = Some S'" by (auto split: option.splits)
  with worker_event_rank [OF Cons.prems(1,2) _ S1(1)] Cons.IH [OF _ _ _ S1(2)] Cons.prems(3) show ?case by fastforce
qed simp

lemma workers_can_exit:
  "pool_reach code n s S \<Longrightarrow> going_down S \<Longrightarrow> short_tasks code K (bq_data (ps_queue S)) \<Longrightarrow>
     \<exists>es S'. pool_schedule code es S = Some S' \<and> (\<forall>t < n. ps_pc S' t = W_exit)"
proof (induction "pool_rank code K S" arbitrary: S rule: less_induct)
  case less
  show ?case
  proof (cases "\<forall>t < n. ps_pc S t = W_exit")
    case True
    then show ?thesis by (intro exI [of _ "[]"]) simp
  next
    case False
    then obtain t S1 where S1: "pool_step code (Work t) S = Some S1" using going_down_progress [OF less.prems(1,2)] by blast
    have "going_down S1" "short_tasks code K (bq_data (ps_queue S1))" "pool_rank code K S1 < pool_rank code K S"
      using worker_event_rank [OF less.prems(2,3) _ S1] by (simp_all add: worker_event_def)
    from less.hyps [OF this(3) pool_reach.step [OF less.prems(1) S1] this(1,2)] obtain es S' where
      "pool_schedule code es S1 = Some S'" "\<forall>t < n. ps_pc S' t = W_exit" by blast
    then show ?thesis using S1 by (intro exI [of _ "Work t # es"]) simp
  qed
qed

text \<open>The tasks in the hands of the workers are among those accepted.\<close>

lemma exec_task_submitted:
  assumes "pool_reach code n s S" "t < n" "ps_pc S t = W_exec x k"
  shows "x \<in> set (ps_submitted S)"
proof -
  have i: "ps_n S = n" "ps_submitted S = ps_started S @ bq_data (ps_queue S)" "mset (ps_started S) = mset (ps_finished S) + in_hand S"
    using pool_reach_inv [OF assms(1)] by (auto simp: pool_inv_def)
  have "in_hand S = running_task (ps_pc S t) + (\<Sum>i\<in>{..<n} - {t}. running_task (ps_pc S i))"
    using assms(2) i(1) by (simp add: in_hand_def sum.remove)
  then have "x \<in># mset (ps_started S)" by (simp add: i(3) assms(3))
  then show ?thesis by (simp add: i(2))
qed

lemma pool_rank_bound:
  assumes r: "pool_reach code n s S" and g: "going_down S" and K: "short_tasks code K (ps_submitted S)"
  shows "pool_rank code K S \<le> (3 + K) * n"
proof -
  have n: "ps_n S = n" using pool_reach_inv [OF r] by (simp add: pool_inv_def)
  have "w_rank code K (ps_pc S t) \<le> 3 + K" if "t < n" for t
    using quit_no_waiter [OF r, of t] g K exec_task_submitted [OF r that]
    by (cases "ps_pc S t") (fastforce simp: going_down_def short_tasks_def)+
  then have "pool_rank code K S \<le> (\<Sum>t<n. 3 + K)" unfolding pool_rank_def n by (intro sum_mono) simp
  then show ?thesis by (simp add: mult.commute)
qed

text \<open>
  C16: once the flag is cleared and the queue told to quit, a worker takes at most three steps
  besides the actions of its last task, however the workers interleave (with tasks of at most
  \<open>K\<close> actions, at most \<open>3 + K\<close> steps each), and all of them reach their end, so that joining them
  returns.
\<close>

theorem pool_shutdown_ends:
  assumes "pool_reach code n s S" "going_down S"
  shows "(\<forall>K es S'. (\<forall>x \<in> set (ps_submitted S). length (code x) \<le> K) \<and> (\<forall>e \<in> set es. worker_event e)
            \<and> pool_schedule code es S = Some S' \<longrightarrow> length es \<le> (3 + K) * n)
     \<and> (\<exists>es S'. pool_schedule code es S = Some S' \<and> (\<forall>t < n. ps_pc S' t = W_exit))"
proof (intro conjI allI impI)
  fix K es S'
  assume a: "(\<forall>x \<in> set (ps_submitted S). length (code x) \<le> K) \<and> (\<forall>e \<in> set es. worker_event e) \<and> pool_schedule code es S = Some S'"
  then have K: "short_tasks code K (ps_submitted S)" by (simp add: short_tasks_def)
  then have "short_tasks code K (bq_data (ps_queue S))" using pool_reach_inv [OF assms(1)] by (simp add: pool_inv_def short_tasks_def)
  from worker_run_bounded [OF assms(2) this] a pool_rank_bound [OF assms K] show "length es \<le> (3 + K) * n" by fastforce
next
  have "short_tasks code (\<Sum>x\<leftarrow>bq_data (ps_queue S). length (code x)) (bq_data (ps_queue S))"
    by (auto simp: short_tasks_def intro!: member_le_sum_list)
  from workers_can_exit [OF assms this] show "\<exists>es S'. pool_schedule code es S = Some S' \<and> (\<forall>t < n. ps_pc S' t = W_exit)" .
qed

text \<open>
  Two tasks that each read the shared counter into a variable of their own and then write back
  the sum; run side by side, one of the two additions is lost.
\<close>

definition add_code :: "(int, int \<times> (nat \<Rightarrow> int)) task_code" where
  "add_code x = [\<lambda>t (c, v). (c, v(t := c)), \<lambda>t (c, v). (v t + x, v)]"

definition demo_tasks :: "int pool_event list" where
  "demo_tasks = [Submit 1, Submit 2, Submit 4, Work 0, Work 0, Work 1, Work 1, Work 0, Work 1, Work 0, Work 1,
     Work 0, Clear_flag, Notify]"

lemmas pool_run_simps = pool_start_def enqueue_pass_def bq_count_def bq_new_def SIZE_INFINITE_def to_i32_def
  work_def dequeue_pass_def p_goto_def bq_notifyAll_def

lemma demo_tasks_run:
  "\<exists>S. pool_schedule add_code demo_tasks (pool_start 2 (0, \<lambda>_. 0)) = Some S \<and> ps_submitted S = [1, 2, 4]
     \<and> ps_started S = [1, 2] \<and> ps_finished S = [1] \<and> ps_pc S 1 = W_exec 2 2 \<and> fst (ps_state S) = 2 \<and> going_down S
     \<and> ps_acts S = [(0, 1, 0), (1, 2, 0), (0, 1, 1), (1, 2, 1)]"
  by (simp add: demo_tasks_def add_code_def going_down_def pool_run_simps)

theorem pool_runs_tasks_once_in_order_witness:
  "\<exists>S. pool_reach add_code 2 (0, \<lambda>_. 0) S \<and> [1, 2, 4] = ps_started S @ bq_data (ps_queue S)
     \<and> ps_state S = fold (do_act add_code) [(0, 1, 0), (1, 2, 0), (0, 1, 1), (1, 2, 1)] (0, \<lambda>_. 0)"
proof -
  obtain S where S: "pool_schedule add_code demo_tasks (pool_start 2 (0, \<lambda>_. 0)) = Some S" "ps_submitted S = [1, 2, 4]"
    "ps_acts S = [(0, 1, 0), (1, 2, 0), (0, 1, 1), (1, 2, 1)]"
    using demo_tasks_run by blast
  have r: "pool_reach add_code 2 (0, \<lambda>_. 0) S" by (rule pool_schedule_reach [OF pool_reach.start S(1)])
  from pool_runs_tasks_once_in_order [OF r] r S(2,3) show ?thesis by (intro exI [of _ S]) simp
qed

theorem pool_shutdown_ends_witness:
  "\<exists>S es S'. pool_schedule add_code demo_tasks (pool_start 2 (0, \<lambda>_. 0)) = Some S \<and> pool_schedule add_code es S = Some S'
     \<and> ps_pc S' 0 = W_exit \<and> ps_pc S' 1 = W_exit"
proof -
  obtain S where S: "pool_schedule add_code demo_tasks (pool_start 2 (0, \<lambda>_. 0)) = Some S" "going_down S" using demo_tasks_run by blast
  from pool_shutdown_ends [OF pool_schedule_reach [OF pool_reach.start S(1)] S(2)] obtain es S' where
    "pool_schedule add_code es S = Some S'" "\<forall>t < 2. ps_pc S' t = W_exit" by (elim conjE exE) (rule that)
  with S(1) show ?thesis by (intro exI [of _ S] exI [of _ es] exI [of _ S']) simp
qed

text \<open>The two additions of the demonstration leave 2, not 3: the workers do not order their tasks.\<close>

theorem concurrent_tasks_can_lose_an_update:
  "\<exists>S. pool_reach add_code 2 (0, \<lambda>_. 0) S \<and> set (ps_started S) = {1, 2} \<and> fst (ps_state S) = 2"
proof -
  obtain S where S: "pool_schedule add_code demo_tasks (pool_start 2 (0, \<lambda>_. 0)) = Some S" "ps_started S = [1, 2]" "fst (ps_state S) = 2"
    using demo_tasks_run by blast
  from pool_schedule_reach [OF pool_reach.start S(1)] S(2,3) show ?thesis by (intro exI [of _ S]) simp
qed

text \<open>
  Tasks that were accepted but not yet taken when the pool goes down are never run: here the
  third of three tasks is still queued when both workers have ended.
\<close>

theorem shutdown_drops_pending_tasks:
  "\<exists>S. pool_reach add_code 2 (0, \<lambda>_. 0) S \<and> ps_submitted S = [1, 2, 4] \<and> ps_finished S = [1, 2]
     \<and> ps_pc S 0 = W_exit \<and> ps_pc S 1 = W_exit"
proof -
  have "\<exists>S. pool_schedule add_code (demo_tasks @ [Work 0, Work 1, Work 1]) (pool_start 2 (0, \<lambda>_. 0)) = Some S
     \<and> ps_submitted S = [1, 2, 4] \<and> ps_finished S = [1, 2] \<and> ps_pc S 0 = W_exit \<and> ps_pc S 1 = W_exit"
    by (simp add: demo_tasks_def add_code_def pool_run_simps)
  then obtain S where S: "pool_schedule add_code (demo_tasks @ [Work 0, Work 1, Work 1]) (pool_start 2 (0, \<lambda>_. 0)) = Some S"
    "ps_submitted S = [1, 2, 4] \<and> ps_finished S = [1, 2] \<and> ps_pc S 0 = W_exit \<and> ps_pc S 1 = W_exit" by (elim exE) simp
  from pool_schedule_reach [OF pool_reach.start S(1)] S(2) show ?thesis by (intro exI [of _ S]) simp
qed

end
