(* ===== verification/Properties_File.thy ===== *)
theory Properties_File
  imports String_Util Error_Code
begin

text \<open>
  \<open>common/lct_properties.h\<close>, \<open>common/detail/lct_properties.cpp\<close>: the configuration file reader.
  The file system is a map from paths to contents; a missing path is a file that cannot be
  opened.  \<open>std::getline\<close> is as in \<open>Std_String\<close>: a line longer than the buffer puts the stream
  into its failed state.
\<close>

type_synonym file_map = "string \<Rightarrow> string option"

section \<open>The reader\<close>

record lct_properties =
  m_configFilePath :: string
  m_properties :: "string \<Rightarrow> string option"

definition DEFAULT_CONFIG_FILE :: string where "DEFAULT_CONFIG_FILE = ''./config.properties''"

definition new_properties :: "string \<Rightarrow> lct_properties" where
  "new_properties path = \<lparr>m_configFilePath = path, m_properties = Map.empty\<rparr>"

text \<open>One line: \<open>key = value\<close>; a line without \<open>=\<close>, or with nothing after it, is skipped.\<close>

definition parse_line :: "string \<Rightarrow> (string \<Rightarrow> string option) \<Rightarrow> string \<Rightarrow> string option" where
  "parse_line buf m =
     (case getline_str (CHR ''='') (Trim (c_str buf) default_delc) of
        None \<Rightarrow> m
      | Some (key, None) \<Rightarrow> m
      | Some (key, Some rest) \<Rightarrow>
          (case getline_str (CHR 0x0A) rest of
             None \<Rightarrow> m
           | Some (value, _) \<Rightarrow> m(Trim key default_delc \<mapsto> Trim value default_delc)))"

function parse_lines :: "string \<Rightarrow> (string \<Rightarrow> string option) \<Rightarrow> string \<Rightarrow> string option" where
  "parse_lines s m = (case getline_buf 512 s of None \<Rightarrow> m | Some (l, r) \<Rightarrow> parse_lines r (parse_line l m))"
  by pat_completeness auto

termination by (relation "measure (\<lambda>(s, m). length s)") (auto dest: getline_buf_shorter)

declare parse_lines.simps [simp del]

definition properties_parse :: "file_map \<Rightarrow> lct_properties \<Rightarrow> lct_err \<times> lct_properties" where
  "properties_parse fs p =
     (case fs (m_configFilePath p) of
        None \<Rightarrow> (LCT_FAIL, p)
      | Some content \<Rightarrow> (LCT_SUCCESS, p\<lparr>m_properties := parse_lines content (m_properties p)\<rparr>))"

definition getValue :: "lct_properties \<Rightarrow> string \<Rightarrow> lct_err \<times> string" where
  "getValue p key = (case m_properties p key of Some v \<Rightarrow> (LCT_SUCCESS, v) | None \<Rightarrow> (LCT_INVALID_PARAM, []))"

definition getString :: "lct_properties \<Rightarrow> string \<Rightarrow> string \<Rightarrow> string" where
  "getString p key dflt = (case getValue p key of (e, v) \<Rightarrow> if LCT_SUCCESS = e then v else dflt)"

definition getBool :: "lct_properties \<Rightarrow> string \<Rightarrow> bool \<Rightarrow> bool" where
  "getBool p key dflt =
     (case getValue p key of (e, v) \<Rightarrow>
        if LCT_SUCCESS = e then
          (if v = ''TRUE'' \<or> v = ''true'' \<or> v = ''True'' then True
           else if v = ''FALSE'' \<or> v = ''false'' \<or> v = ''False'' then False else dflt)
        else dflt)"

definition getInt32 :: "lct_properties \<Rightarrow> string \<Rightarrow> int \<Rightarrow> int" where
  "getInt32 p key dflt =
     (case getValue p key of (e, v) \<Rightarrow>
        if LCT_SUCCESS = e then (case std_stoi v of Inr k \<Rightarrow> k | Inl _ \<Rightarrow> dflt) else dflt)"

definition getInt64 :: "lct_properties \<Rightarrow> string \<Rightarrow> int \<Rightarrow> int" where
  "getInt64 p key dflt =
     (case getValue p key of (e, v) \<Rightarrow>
        if LCT_SUCCESS = e then (case std_stol v of Inr k \<Rightarrow> k | Inl _ \<Rightarrow> dflt) else dflt)"

text \<open>\<open>std::stof\<close> and \<open>std::stod\<close>, conversions of the C library to binary floating point, are arguments.\<close>

definition getFloat :: "(string \<Rightarrow> 'f res) \<Rightarrow> lct_properties \<Rightarrow> string \<Rightarrow> 'f \<Rightarrow> 'f" where
  "getFloat stof p key dflt =
     (case getValue p key of (e, v) \<Rightarrow>
        if LCT_SUCCESS = e then (case stof v of Inr k \<Rightarrow> k | Inl _ \<Rightarrow> dflt) else dflt)"

definition getDouble :: "(string \<Rightarrow> 'f res) \<Rightarrow> lct_properties \<Rightarrow> string \<Rightarrow> 'f \<Rightarrow> 'f" where
  "getDouble stod p key dflt =
     (case getValue p key of (e, v) \<Rightarrow>
        if LCT_SUCCESS = e then (case stod v of Inr k \<Rightarrow> k | Inl _ \<Rightarrow> dflt) else dflt)"

section \<open>Trimming, by its core\<close>

lemma Trim_dropWhile:
  "Trim s d = rev (dropWhile (\<lambda>c. c \<in> set d) (rev (dropWhile (\<lambda>c. c \<in> set d) s)))"
proof -
  obtain l r where t: "s = l @ Trim s d @ r" "set l \<subseteq> set d" "set r \<subseteq> set d"
    "Trim s d \<noteq> [] \<longrightarrow> hd (Trim s d) \<notin> set d \<and> last (Trim s d) \<notin> set d" using Trim_decompose by blast
  let ?D = "\<lambda>c. c \<in> set d"
  show ?thesis
  proof (cases "Trim s d = []")
    case True
    then have "set s \<subseteq> set d" using t by (metis append_Nil set_append sup.bounded_iff)
    then have e: "dropWhile ?D s = []" by (auto simp: dropWhile_eq_Nil_conv)
    show ?thesis unfolding e True by simp
  next
    case False
    have 1: "dropWhile ?D (l @ Trim s d @ r) = Trim s d @ r"
      using False t(2,4) by (subst dropWhile_append2) (auto simp: dropWhile_eq_self_iff)
    have 2: "dropWhile ?D (rev r @ rev (Trim s d)) = rev (Trim s d)"
      using False t(3,4) by (subst dropWhile_append2) (auto simp: dropWhile_eq_self_iff hd_rev)
    show ?thesis using t(1) 1 2 by (metis rev_append rev_rev_ident)
  qed
qed

lemma Trim_core:
  assumes "set l \<subseteq> set d" "set r \<subseteq> set d" "c \<noteq> []" "hd c \<notin> set d" "last c \<notin> set d"
  shows "Trim (l @ c @ r) d = c"
proof -
  let ?D = "\<lambda>x. x \<in> set d"
  have 1: "dropWhile ?D (l @ c @ r) = c @ r"
    using assms by (subst dropWhile_append2) (auto simp: dropWhile_eq_self_iff)
  have "dropWhile ?D (rev r @ rev c) = rev c"
    using assms by (subst dropWhile_append2) (auto simp: dropWhile_eq_self_iff hd_rev)
  then show ?thesis unfolding Trim_dropWhile 1 by simp
qed

section \<open>Writing a file and reading it back\<close>

text \<open>Text that survives trimming, has no separator, and fits the line buffer.\<close>

definition plain_text :: "string \<Rightarrow> bool" where
  "plain_text s \<longleftrightarrow> s \<noteq> [] \<and> hd s \<notin> set default_delc \<and> last s \<notin> set default_delc
     \<and> CHR 0x00 \<notin> set s \<and> CHR 0x0A \<notin> set s"

definition plain_entry :: "string \<times> string \<Rightarrow> bool" where
  "plain_entry kv \<longleftrightarrow> plain_text (fst kv) \<and> CHR ''='' \<notin> set (fst kv) \<and> plain_text (snd kv)
     \<and> length (fst kv) + length (snd kv) \<le> 508"

definition entry_line :: "string \<times> string \<Rightarrow> string" where
  "entry_line kv = fst kv @ '' = '' @ snd kv"

fun render :: "(string \<times> string) list \<Rightarrow> string" where
  "render [] = []"
| "render (kv # kvs) = entry_line kv @ CHR 0x0A # render kvs"

lemma takeWhile_stop: "x \<notin> set a \<Longrightarrow> takeWhile (\<lambda>c. c \<noteq> x) (a @ x # b) = a"
  by (induction a) auto

lemma dropWhile_stop: "x \<notin> set a \<Longrightarrow> dropWhile (\<lambda>c. c \<noteq> x) (a @ x # b) = x # b"
  by (induction a) auto

lemma getline_str_at: "x \<notin> set a \<Longrightarrow> getline_str x (a @ x # b) = Some (a, Some b)"
  by (cases a) (auto simp: getline_str_def takeWhile_stop dropWhile_stop Let_def)

lemma getline_str_last: "x \<notin> set a \<Longrightarrow> a \<noteq> [] \<Longrightarrow> getline_str x a = Some (a, None)"
proof -
  assume a: "x \<notin> set a" "a \<noteq> []"
  then have "takeWhile (\<lambda>c. c \<noteq> x) a = a" "dropWhile (\<lambda>c. c \<noteq> x) a = []"
    by (auto simp: takeWhile_eq_all_conv dropWhile_eq_Nil_conv)
  then show ?thesis using a by (simp add: getline_str_def)
qed

lemma parse_entry:
  assumes "plain_entry kv"
  shows "parse_line (entry_line kv) m = m(fst kv \<mapsto> snd kv)"
proof -
  obtain k v where kv: "kv = (k, v)" by fastforce
  have k: "k \<noteq> []" "hd k \<notin> set default_delc" "last k \<notin> set default_delc" "CHR 0x00 \<notin> set k" "CHR ''='' \<notin> set k"
    and v: "v \<noteq> []" "hd v \<notin> set default_delc" "last v \<notin> set default_delc" "CHR 0x00 \<notin> set v" "CHR 0x0A \<notin> set v"
    using assms by (auto simp: plain_entry_def plain_text_def kv)
  have l: "c_str (entry_line kv) = entry_line kv"
    using k(4) v(4) by (auto simp: c_str_def entry_line_def kv takeWhile_eq_all_conv)
  have t: "Trim (entry_line kv) default_delc = entry_line kv"
    using Trim_core [of "[]" default_delc "[]" "entry_line kv"] k v by (simp add: entry_line_def kv)
  have g: "getline_str (CHR ''='') (entry_line kv) = Some (k @ '' '', Some ('' '' @ v))"
    using getline_str_at [of "CHR ''=''" "k @ '' ''" "'' '' @ v"] k(5) by (simp add: entry_line_def kv)
  have n: "getline_str (CHR 0x0A) ('' '' @ v) = Some ('' '' @ v, None)"
    by (rule getline_str_last) (use v in auto)
  have "Trim (k @ '' '') default_delc = k" "Trim ('' '' @ v) default_delc = v"
    using Trim_core [of "[]" default_delc "'' ''" k] Trim_core [of "'' ''" default_delc "[]" v] k v
    by (simp_all add: default_delc_def)
  then show ?thesis using l t g n by (simp add: parse_line_def kv)
qed

lemma getline_buf_entry:
  assumes "CHR 0x0A \<notin> set l" "length l \<le> 511"
  shows "getline_buf 512 (l @ CHR 0x0A # rest) = Some (l, rest)"
  using assms by (simp add: getline_buf_def takeWhile_stop dropWhile_stop Let_def)

lemma entry_line_fits: "plain_entry kv \<Longrightarrow> CHR 0x0A \<notin> set (entry_line kv) \<and> length (entry_line kv) \<le> 511"
  by (auto simp: plain_entry_def plain_text_def entry_line_def)

lemma parse_lines_entry:
  assumes "plain_entry kv"
  shows "parse_lines (entry_line kv @ CHR 0x0A # rest) m = parse_lines rest (m(fst kv \<mapsto> snd kv))"
  using getline_buf_entry [of "entry_line kv" rest] entry_line_fits [OF assms] parse_entry [OF assms]
  by (subst parse_lines.simps) simp

definition entries_map :: "(string \<times> string) list \<Rightarrow> (string \<Rightarrow> string option) \<Rightarrow> string \<Rightarrow> string option" where
  "entries_map kvs m = fold (\<lambda>kv m. m(fst kv \<mapsto> snd kv)) kvs m"

lemma parse_lines_render:
  "\<forall>kv \<in> set kvs. plain_entry kv \<Longrightarrow> parse_lines (render kvs @ rest) m = parse_lines rest (entries_map kvs m)"
proof (induction kvs arbitrary: m)
  case (Cons kv kvs)
  then show ?case using parse_lines_entry [of kv "render kvs @ rest" m] by (simp add: entries_map_def)
qed (simp add: entries_map_def)

lemma parse_lines_nil: "parse_lines [] m = m"
  by (subst parse_lines.simps) (simp add: getline_buf_def)

text \<open>
  C28: a file written as one \<open>key = value\<close> line per entry is read back to exactly these entries,
  a later entry replacing an earlier one of the same key.
\<close>

theorem properties_round_trip:
  assumes "\<forall>kv \<in> set kvs. plain_entry kv" "fs path = Some (render kvs)"
  shows "properties_parse fs (new_properties path) =
     (LCT_SUCCESS, (new_properties path)\<lparr>m_properties := entries_map kvs Map.empty\<rparr>)"
  using parse_lines_render [OF assms(1), of "[]" Map.empty] assms(2)
  by (simp add: properties_parse_def new_properties_def parse_lines_nil)

definition demo_entries :: "(string \<times> string) list" where
  "demo_entries = [(''port'', ''10086''), (''ip'', ''0.0.0.0'')]"

lemma demo_entries_plain: "\<forall>kv \<in> set demo_entries. plain_entry kv"
  by (simp add: demo_entries_def plain_entry_def plain_text_def default_delc_def)

theorem properties_round_trip_witness:
  "getInt32 (snd (properties_parse [''cfg'' \<mapsto> render demo_entries] (new_properties ''cfg''))) ''port'' 0 = 10086"
proof -
  have "m_properties (snd (properties_parse [''cfg'' \<mapsto> render demo_entries] (new_properties ''cfg''))) ''port''
      = Some ''10086''"
    using properties_round_trip [OF demo_entries_plain, of "[''cfg'' \<mapsto> render demo_entries]" "''cfg''"]
    by (simp add: entries_map_def demo_entries_def)
  moreover have "std_stoi ''10086'' = Inr 10086" by code_simp
  ultimately show ?thesis by (simp add: getInt32_def getValue_def)
qed

text \<open>
  A line of more than 511 characters ends the reading: it and everything after it are
  ignored, and \<open>parse\<close> still reports success.
\<close>

theorem long_line_ends_parsing:
  assumes "\<forall>kv \<in> set kvs. plain_entry kv" "511 < length l" "CHR 0x0A \<notin> set l"
    "fs path = Some (render kvs @ l @ CHR 0x0A # rest)"
  shows "properties_parse fs (new_properties path) =
     (LCT_SUCCESS, (new_properties path)\<lparr>m_properties := entries_map kvs Map.empty\<rparr>)"
proof -
  have "getline_buf 512 (l @ CHR 0x0A # rest) = None"
    using assms(2,3) by (simp add: getline_buf_def takeWhile_stop Let_def)
  then have "parse_lines (l @ CHR 0x0A # rest) m = m" for m by (subst parse_lines.simps) simp
  then show ?thesis using parse_lines_render [OF assms(1), of "l @ CHR 0x0A # rest" Map.empty] assms(4)
    by (simp add: properties_parse_def new_properties_def)
qed

theorem long_line_ends_parsing_witness:
  "m_properties (snd (properties_parse [''cfg'' \<mapsto> replicate 512 (CHR ''x'') @ CHR 0x0A # render demo_entries]
     (new_properties ''cfg''))) ''port'' = None"
  using long_line_ends_parsing [of "[]" "replicate 512 (CHR ''x'')"
      "[''cfg'' \<mapsto> replicate 512 (CHR ''x'') @ CHR 0x0A # render demo_entries]" "''cfg''" "render demo_entries"]
  by (simp add: entries_map_def)

end
