(* ===== verification/Logger.thy ===== *)
theory Logger
  imports Log_Format Log_Sink_Correct Thread_Pool Properties_File
begin

text \<open>
  \<open>log/detail/lct_log_config_mgr.*\<close>, \<open>lct_log_sink_pool.h\<close>, \<open>lct_logger.*\<close>, \<open>lct_dummy_log.h\<close>:
  the switches of the levels, the pool of sinks with its queue and writer thread, and the
  logger.  The files and the console are those of the host.
\<close>

section \<open>Which levels are on\<close>

record log_config =
  m_traceLevel :: bool
  m_debugLevel :: bool
  m_inforLevel :: bool
  m_warngLevel :: bool
  m_errorLevel :: bool
  m_critcLevel :: bool

definition new_log_config :: log_config where
  "new_log_config = \<lparr>m_traceLevel = True, m_debugLevel = True, m_inforLevel = True, m_warngLevel = True,
     m_errorLevel = True, m_critcLevel = True\<rparr>"

definition log_config_init :: "string \<Rightarrow> log_config \<Rightarrow> host \<Rightarrow> lct_err \<times> log_config \<times> host" where
  "log_config_init configFile c h =
     (case properties_parse (h_files h) (new_properties configFile) of (errCode, properties) \<Rightarrow>
       if LCT_SUCCESS \<noteq> errCode then
         (errCode, c, print_out (''Failed to parse Lct Log properties file('' @ configFile @ '') due to error(''
            @ ErrCodeFormat errCode @ '')'' @ [CHR 0x0A]) h)
       else
         (LCT_SUCCESS,
          c\<lparr>m_traceLevel := getBool properties ''LctLog.LevelEnable.Trace'' True,
            m_debugLevel := getBool properties ''LctLog.LevelEnable.Debug'' True,
            m_inforLevel := getBool properties ''LctLog.LevelEnable.Infor'' True,
            m_warngLevel := getBool properties ''LctLog.LevelEnable.Warng'' True,
            m_errorLevel := getBool properties ''LctLog.LevelEnable.Error'' True,
            m_critcLevel := getBool properties ''LctLog.LevelEnable.Critc'' True\<rparr>,
          print_out (''Successful to load Lct Log properties file'' @ [CHR 0x0A]) h))"

section \<open>The pool of sinks\<close>

text \<open>Whether the writer thread was made, and whether it has been joined.\<close>

datatype worker_handle = No_thread | Joinable | Joined

record sink_pool =
  sp_isAsyncSink :: bool
  sp_isRunning :: bool
  sp_terminal :: bool
  sp_file :: "daily_rotate_sink option"
  sp_queue :: "string bqueue"
  sp_worker :: worker_handle

definition new_sink_pool :: "bool \<Rightarrow> sink_pool" where
  "new_sink_pool isAsyncSink = \<lparr>sp_isAsyncSink = isAsyncSink, sp_isRunning = False, sp_terminal = False, sp_file = None,
     sp_queue = bq_new, sp_worker = No_thread\<rparr>"

text \<open>Replacing the handle of a thread that was not joined ends the process.\<close>

definition sp_start :: "sink_pool \<Rightarrow> (lct_err \<times> sink_pool) res" where
  "sp_start p =
     (let p1 = p\<lparr>sp_isRunning := True\<rparr> in
      if sp_isAsyncSink p1 then
        (if sp_worker p1 = Joinable then Inl Terminated else Inr (LCT_SUCCESS, p1\<lparr>sp_worker := Joinable\<rparr>))
      else Inr (LCT_SUCCESS, p1))"

text \<open>Joining a thread a second time throws; the writer's way to its end is in \<open>Thread_Pool\<close>.\<close>

definition sp_stop :: "sink_pool \<Rightarrow> (lct_err \<times> sink_pool) res" where
  "sp_stop p =
     (let p1 = p\<lparr>sp_isRunning := False, sp_queue := bq_notifyAll (sp_queue p)\<rparr> in
      case sp_worker p1 of
        No_thread \<Rightarrow> Inr (LCT_SUCCESS, p1)
      | Joinable \<Rightarrow> Inr (LCT_SUCCESS, p1\<lparr>sp_worker := Joined\<rparr>)
      | Joined \<Rightarrow> Inl System_error)"

definition appendTerminalSink :: "sink_pool \<Rightarrow> lct_err \<times> sink_pool" where
  "appendTerminalSink p = (LCT_SUCCESS, p\<lparr>sp_terminal := True\<rparr>)"

definition appendFileSink :: "daily_rotate_sink \<Rightarrow> sink_pool \<Rightarrow> lct_err \<times> sink_pool" where
  "appendFileSink s p = (LCT_SUCCESS, p\<lparr>sp_file := Some s\<rparr>)"

text \<open>The sinks of the tuple in order: the terminal, then the file.\<close>

definition sp_sink :: "host_env \<Rightarrow> string \<Rightarrow> sink_pool \<Rightarrow> host \<Rightarrow> (lct_err \<times> sink_pool \<times> host) res" where
  "sp_sink env message p h =
     (case (if sp_terminal p then terminal_log message h else (LCT_SUCCESS, h)) of (e, h1) \<Rightarrow>
       if LCT_SUCCESS \<noteq> e then Inr (e, p, h1)
       else case sp_file p of
         None \<Rightarrow> Inr (LCT_SUCCESS, p, h1)
       | Some s \<Rightarrow> res_bind (dr_log env message s h1) (\<lambda>(e, s1, h2). Inr (e, p\<lparr>sp_file := Some s1\<rparr>, h2)))"

definition sp_asyncSink :: "string \<Rightarrow> sink_pool \<Rightarrow> (lct_err \<times> sink_pool) res" where
  "sp_asyncSink message p =
     res_bind (enqueue_alone (sp_queue p) message) (\<lambda>(e, q). Inr (e, p\<lparr>sp_queue := q\<rparr>))"

definition sp_log :: "host_env \<Rightarrow> string \<Rightarrow> sink_pool \<Rightarrow> host \<Rightarrow> (lct_err \<times> sink_pool \<times> host) res" where
  "sp_log env message p h =
     (if sp_isAsyncSink p then res_bind (sp_asyncSink message p) (\<lambda>(e, p1). Inr (e, p1, h))
      else sp_sink env message p h)"

text \<open>One turn of the writer's loop \<open>Run\<close> that finds a message; \<open>None\<close> ends or waits.\<close>

definition sp_run_turn :: "host_env \<Rightarrow> sink_pool \<Rightarrow> host \<Rightarrow> (sink_pool \<times> host) res option" where
  "sp_run_turn env p h =
     (if \<not> sp_isRunning p then None
      else case dequeue_pass (sp_queue p) of
        (Return _, Some m, q) \<Rightarrow> Some (res_bind (sp_sink env m (p\<lparr>sp_queue := q\<rparr>) h) (\<lambda>(_, p1, h1). Inr (p1, h1)))
      | _ \<Rightarrow> None)"

section \<open>The logger\<close>

definition LOG_ROTATE_FILE_DAILY_HOUR :: int where "LOG_ROTATE_FILE_DAILY_HOUR = 0"
definition LOG_ROTATE_FILE_DAILY_MINUTE :: int where "LOG_ROTATE_FILE_DAILY_MINUTE = 0"
definition LOG_ROTATE_FILE_MAX_SIZE :: int where "LOG_ROTATE_FILE_MAX_SIZE = 1024 * 1024 * 10"
definition LOG_ROTATE_FILE_MAX_COUNT :: int where "LOG_ROTATE_FILE_MAX_COUNT = 60"

record logger =
  lg_isInitiated :: bool
  lg_sinkPool :: sink_pool
  lg_loglevels :: "elog_level \<Rightarrow> string option"

definition initLogLevelByDefault :: "logger \<Rightarrow> lct_err \<times> logger" where
  "initLogLevelByDefault l = (LCT_SUCCESS, l\<lparr>lg_loglevels := (lg_loglevels l)(TRACE \<mapsto> ''TRACE'', DEBUG \<mapsto> ''DEBUG'',
     INFOR \<mapsto> ''INFOR'', WARNG \<mapsto> ''WARNG'', ERROR \<mapsto> ''ERROR'', CRITC \<mapsto> ''CRITC'')\<rparr>)"

definition new_logger :: logger where
  "new_logger = snd (initLogLevelByDefault
     \<lparr>lg_isInitiated = False, lg_sinkPool = new_sink_pool True, lg_loglevels = Map.empty\<rparr>)"

definition put_level :: "bool \<Rightarrow> elog_level \<Rightarrow> string \<Rightarrow> (elog_level \<Rightarrow> string option) \<Rightarrow> elog_level \<Rightarrow> string option" where
  "put_level on l name m = (if on then m(l \<mapsto> name) else m)"

definition initLogLevel :: "log_config \<Rightarrow> logger \<Rightarrow> lct_err \<times> logger" where
  "initLogLevel c l =
     (LCT_SUCCESS, l\<lparr>lg_loglevels :=
        put_level (m_critcLevel c) CRITC ''CRITC'' (put_level (m_errorLevel c) ERROR ''ERROR''
       (put_level (m_warngLevel c) WARNG ''WARNG'' (put_level (m_inforLevel c) INFOR ''INFOR''
       (put_level (m_debugLevel c) DEBUG ''DEBUG'' (put_level (m_traceLevel c) TRACE ''TRACE'' Map.empty)))))\<rparr>)"

definition initFormatter :: lct_err where "initFormatter = LCT_SUCCESS"

definition initSinks :: "host_env \<Rightarrow> string \<Rightarrow> string \<Rightarrow> int \<Rightarrow> int \<Rightarrow> logger \<Rightarrow> host \<Rightarrow> (lct_err \<times> logger \<times> host) res" where
  "initSinks env program_name logLocalDir rotateMaxFileSize rotateMaxFileCount l h =
     res_bind (if logLocalDir = [] then Inr (snd (appendTerminalSink (lg_sinkPool l)), h)
               else res_bind (dr_new env True logLocalDir program_name rotateMaxFileSize rotateMaxFileCount
                      LOG_ROTATE_FILE_DAILY_HOUR LOG_ROTATE_FILE_DAILY_MINUTE h)
                    (\<lambda>(s, h1). Inr (snd (appendFileSink s (lg_sinkPool l)), h1)))
       (\<lambda>(p, h1). res_bind (sp_start p) (\<lambda>(e, p1). Inr (e, l\<lparr>lg_sinkPool := p1\<rparr>, h1)))"

definition rectified_path :: "string \<Rightarrow> string" where
  "rectified_path logLocalDir = (if logLocalDir \<noteq> [] \<and> last logLocalDir \<noteq> CHR ''/'' then logLocalDir @ ''/'' else logLocalDir)"

definition logger_init :: "host_env \<Rightarrow> string \<Rightarrow> log_config \<Rightarrow> string \<Rightarrow> int \<Rightarrow> int \<Rightarrow> logger \<Rightarrow> host \<Rightarrow> (lct_err \<times> logger \<times> host) res" where
  "logger_init env program_name c logLocalDir rotateMaxFileSize rotateMaxFileCount l h =
     (case initLogLevel c l of (e1, l1) \<Rightarrow>
       if LCT_SUCCESS \<noteq> e1 then Inr (e1, l1, h)
       else if LCT_SUCCESS \<noteq> initFormatter then Inr (initFormatter, l1, h)
       else
         (let rtSize = (if rotateMaxFileSize > 0 then rotateMaxFileSize else LOG_ROTATE_FILE_MAX_SIZE);
              rtCount = (if rotateMaxFileCount > 0 then rotateMaxFileCount else LOG_ROTATE_FILE_MAX_COUNT)
          in res_bind (initSinks env program_name (rectified_path logLocalDir) rtSize rtCount l1 h) (\<lambda>(e, l2, h1).
               if LCT_SUCCESS \<noteq> e then Inr (e, l2, h1) else Inr (e, l2\<lparr>lg_isInitiated := True\<rparr>, h1))))"

definition logger_init_file ::
  "host_env \<Rightarrow> string \<Rightarrow> string \<Rightarrow> string \<Rightarrow> int \<Rightarrow> int \<Rightarrow> log_config \<Rightarrow> logger \<Rightarrow> host \<Rightarrow> (lct_err \<times> log_config \<times> logger \<times> host) res" where
  "logger_init_file env program_name logLocalDir configFile rotateMaxFileSize rotateMaxFileCount c l h =
     (case log_config_init configFile c h of (e, c1, h1) \<Rightarrow>
       if LCT_SUCCESS \<noteq> e then Inr (e, c1, l, h1)
       else res_bind (logger_init env program_name c1 logLocalDir rotateMaxFileSize rotateMaxFileCount l h1)
              (\<lambda>(e2, l1, h2). Inr (e2, c1, l1, h2)))"

definition logger_close :: "logger \<Rightarrow> (lct_err \<times> logger) res" where
  "logger_close l = res_bind (sp_stop (lg_sinkPool l)) (\<lambda>(_, p). Inr (LCT_SUCCESS, l\<lparr>lg_sinkPool := p, lg_isInitiated := False\<rparr>))"

definition isLogged :: "elog_level \<Rightarrow> logger \<Rightarrow> bool" where
  "isLogged level l \<longleftrightarrow> lg_loglevels l level \<noteq> None \<or> \<not> lg_isInitiated l"

definition logLevelString :: "logger \<Rightarrow> elog_level \<Rightarrow> string" where
  "logLevelString l level = (case lg_loglevels l level of Some s \<Rightarrow> s | None \<Rightarrow> [])"

definition print_code :: "lct_err \<Rightarrow> host \<Rightarrow> host" where
  "print_code e h = print_out (to_string (sint e) @ [CHR 0x0A]) h"

definition logger_log :: "host_env \<Rightarrow> nat \<Rightarrow> log_stream \<Rightarrow> logger \<Rightarrow> host \<Rightarrow> (lct_err \<times> log_stream \<times> logger \<times> host) res" where
  "logger_log env tid st l h =
     (case logEnd st of (e1, st1) \<Rightarrow>
       if LCT_SUCCESS \<noteq> e1 then Inr (e1, st1, l, print_code e1 h)
       else case formatter_pool_format (logLevelString l) tid st1 of (e2, st2) \<Rightarrow>
         if LCT_SUCCESS \<noteq> e2 then Inr (e2, st2, l, print_code e2 h)
         else if lg_isInitiated l then
           (case messagePtr st2 of (m, st3) \<Rightarrow>
             res_bind (sp_log env m (lg_sinkPool l) h) (\<lambda>(e3, p, h1).
               Inr (e3, st3, l\<lparr>lg_sinkPool := p\<rparr>, if LCT_SUCCESS \<noteq> e3 then print_code e3 h1 else h1)))
         else (case ls_message st2 of (m, st3) \<Rightarrow> Inr (LCT_SUCCESS, st3, l, print_out m h)))"

text \<open>The macros \<open>LOG_TRACE\<close> to \<open>LOG_CRITC\<close>: nothing is built for a level that is off.\<close>

definition log_at :: "host_env \<Rightarrow> nat \<Rightarrow> string \<Rightarrow> elog_level \<Rightarrow> string \<Rightarrow> string \<Rightarrow> int \<Rightarrow> string \<Rightarrow> logger \<Rightarrow> host \<Rightarrow> (logger \<times> host) res" where
  "log_at env tid program_name level file function line text_logged l h =
     (if isLogged level l then
        (case clock_now env h of (now, h1) \<Rightarrow>
          res_bind (logger_log env tid (ls_insert text_logged (new_log_stream (he_time env) now program_name level file function line)) l h1)
            (\<lambda>(_, _, l1, h2). Inr (l1, h2)))
      else Inr (l, h))"

text \<open>The logger of a build without logging.\<close>

definition dummy_init :: lct_err where "dummy_init = LCT_SUCCESS"
definition dummy_init_file :: lct_err where "dummy_init_file = LCT_SUCCESS"
definition dummy_close :: lct_err where "dummy_close = LCT_SUCCESS"
definition dummy_log :: lct_err where "dummy_log = LCT_SUCCESS"

end
