(* ===== verification/Logger_Correct.thy ===== *)
theory Logger_Correct
  imports Logger
begin

text \<open>
  The logger as a whole: what a log line looks like, that the writer thread brings the lines to
  the files in the order they were logged, and the life cycle of logger and pool.
\<close>

section \<open>The line\<close>

lemma log_prefix_of_fields:
  "log_prefix f tid (st\<lparr>ls_content := a, ls_sstream := b\<rparr>) = log_prefix f tid st"
  by (simp add: log_prefix_def)

text \<open>
  Logging on an initiated logger with room in its queue puts exactly one line at the end of
  the queue: the prefix of date, time, level, thread and location, the text logged, a newline.
\<close>

theorem log_enqueues_formatted_line:
  assumes "lg_isInitiated l" "sp_isAsyncSink (lg_sinkPool l)" "bq_inv (sp_queue (lg_sinkPool l))"
    "int (length (bq_data (sp_queue (lg_sinkPool l)))) < bq_maxSize (sp_queue (lg_sinkPool l))" "ls_messageShp st = None"
  shows "\<exists>st' l'. logger_log env tid st l h = Inr (LCT_SUCCESS, st', l', h)
     \<and> bq_data (sp_queue (lg_sinkPool l')) = bq_data (sp_queue (lg_sinkPool l))
          @ [log_prefix (logLevelString l) tid st @ ls_sstream st @ [LOG_ENDL]]"
proof -
  have "enqueue_alone (sp_queue (lg_sinkPool l)) m
      = Inr (LCT_SUCCESS, (sp_queue (lg_sinkPool l))\<lparr>bq_data := bq_data (sp_queue (lg_sinkPool l)) @ [m]\<rparr>)" for m
    using assms(4) by (simp add: enqueue_alone_def enqueue_pass_def bq_count_inv [OF assms(3)])
  then show ?thesis using assms(1,2,5)
    by (simp add: logger_log_def logEnd_def formatter_pool_prefix log_prefix_of_fields messagePtr_def sp_log_def sp_asyncSink_def)
qed

definition demo_logger :: logger where
  "demo_logger = new_logger\<lparr>lg_isInitiated := True\<rparr>"

theorem log_enqueues_formatted_line_witness:
  "\<exists>st' l'. logger_log quiet_env 10 (ls_insert ''hi'' (new_log_stream new_lct_time 0 ''svc'' INFOR ''a.cpp'' ''f'' 7)) demo_logger demo_host
       = Inr (LCT_SUCCESS, st', l', demo_host)
     \<and> bq_data (sp_queue (lg_sinkPool l')) = [''[70-01-01 00:00:00.000000][INFOR][0xa][a.cpp:7:f]hi'' @ [LOG_ENDL]]"
proof -
  let ?st = "ls_insert ''hi'' (new_log_stream new_lct_time 0 ''svc'' INFOR ''a.cpp'' ''f'' 7)"
  have "bq_data (sp_queue (lg_sinkPool demo_logger)) = []" "lg_isInitiated demo_logger" "sp_isAsyncSink (lg_sinkPool demo_logger)"
    "sp_queue (lg_sinkPool demo_logger) = bq_new"
    by (simp_all add: demo_logger_def new_logger_def initLogLevelByDefault_def new_sink_pool_def bq_new_def)
  moreover have "ls_messageShp ?st = None" "ls_sstream ?st = ''hi''" by (simp_all add: ls_insert_def new_log_stream_def)
  moreover have "log_prefix (logLevelString demo_logger) 10 ?st = ''[70-01-01 00:00:00.000000][INFOR][0xa][a.cpp:7:f]''"
    by code_simp
  moreover have "(0::int) < bq_maxSize bq_new" by (simp add: bq_new_def SIZE_INFINITE_def)
  ultimately show ?thesis
    using log_enqueues_formatted_line [of demo_logger ?st quiet_env 10 demo_host] bq_inv_new(1) by simp
qed

section \<open>The writer thread\<close>

text \<open>What the writer does with a message, on the file sink and the host.\<close>

definition sink_exec :: "host_env \<Rightarrow> string \<Rightarrow> (daily_rotate_sink \<times> host) res \<Rightarrow> (daily_rotate_sink \<times> host) res" where
  "sink_exec env m st = res_bind st (\<lambda>(s, h). res_bind (dr_log env m s h) (\<lambda>(_, s1, h1). Inr (s1, h1)))"

lemma run_turn_is_sink_exec:
  assumes "sp_isRunning p" "\<not> sp_terminal p" "sp_file p = Some s" "bq_data (sp_queue p) = m # ms"
  shows "\<exists>r. sp_run_turn env p h = Some r \<and> res_bind r (\<lambda>(p1, h1). Inr (the (sp_file p1), h1)) = sink_exec env m (Inr (s, h))"
  using assms by (cases "dr_log env m s h") (auto simp: sp_run_turn_def dequeue_pass_def sp_sink_def sink_exec_def)

lemma fold_sink_exec_Inl: "fold (sink_exec env) ms (Inl e) = Inl e"
  by (induction ms) (simp_all add: sink_exec_def)

lemma sink_exec_Inr: "sink_exec env m (Inr (s, h)) = res_bind (dr_log env m s h) (\<lambda>(_, s1, h1). Inr (s1, h1))"
  by (simp add: sink_exec_def)

lemma fold_sink_exec: "fold (sink_exec env) ms (Inr (s, h)) = dr_log_all env ms s h"
proof (induction ms arbitrary: s h)
  case (Cons m ms)
  then show ?case by (cases "dr_log env m s h") (auto simp: sink_exec_Inr fold_sink_exec_Inl)
qed simp

text \<open>A message is a task of one action, made on the sink by the only worker.\<close>

definition sink_code :: "host_env \<Rightarrow> (string, (daily_rotate_sink \<times> host) res) task_code" where
  "sink_code env m = [\<lambda>_. sink_exec env m]"

definition written :: "(string, 's) pool_sys \<Rightarrow> string list" where
  "written S = map (\<lambda>(t, m, k). m) (ps_acts S)"

text \<open>The message the writer has taken from the queue and not yet written.\<close>

definition line_in_hand :: "('a, 's) pool_sys \<Rightarrow> 'a list" where
  "line_in_hand S = (case ps_pc S 0 of W_exec x k \<Rightarrow> if k = 0 then [x] else [] | _ \<Rightarrow> [])"

lemma sink_code_simps [simp]: "length (sink_code env m) = 1" "(sink_code env m ! 0) t = sink_exec env m"
  by (simp_all add: sink_code_def)

lemma single_worker_order:
  "pool_reach (sink_code env) 1 s S \<Longrightarrow>
     ps_started S = written S @ line_in_hand S \<and> ps_state S = fold (sink_exec env) (written S) s"
proof (induction rule: pool_reach.induct)
  case start
  then show ?case by (simp add: pool_start_def line_in_hand_def written_def)
next
  case (step S e S')
  have n: "ps_n S = 1" using pool_reach_inv [OF step.hyps(1)] by (simp add: pool_inv_def)
  have w: "line_in_hand (S1\<lparr>ps_pc := (\<lambda>t. pool_woken (ps_pc S t))\<rparr>) = line_in_hand S" for S1 :: "(string, (daily_rotate_sink \<times> host) res) pool_sys"
    by (cases "ps_pc S 0") (simp_all add: line_in_hand_def)
  show ?case
  proof (cases e)
    case (Submit x)
    then show ?thesis using step.hyps(2) step.IH w by (auto simp: enqueue_pass_def written_def split: if_splits)
  next
    case Notify
    then show ?thesis using step.hyps(2) step.IH w by (auto simp: written_def split: if_splits)
  next
    case (Work t)
    then have "work (sink_code env) 0 S = Some S'" using step.hyps(2) n by (auto split: if_splits)
    then show ?thesis using step.IH
      by (auto simp: work_def p_goto_def line_in_hand_def dequeue_pass_def written_def split: w_pc.splits if_splits list.splits)
  qed (use step in \<open>auto simp: p_goto_def line_in_hand_def written_def split: if_splits w_pc.splits\<close>)
qed

text \<open>
  C8: with the writer thread running beside the callers in any interleaving, the lines written so
  far are the first \<open>j\<close> of those logged, in the order in which they were logged, and only the line
  in the writer's hand and those in the queue are still missing.  The files hold exactly what the
  contract of the sink (\<open>log_step\<close>) makes of the lines written, on a day and on a host without
  failures: read from the oldest backup to the current file they are the newest lines written,
  without the first \<open>k\<close>, which is none of them while the oldest backup is still free, and each file
  is within the size limit or one line.
\<close>

theorem logged_lines_reach_the_files_in_order:
  assumes "quiet env" "fixed_day env d" "0 < n" "n < 2 ^ 31" "0 < mx" "mx < 2 ^ 62"
    "\<forall>i. h_files h (log_name dir base n d i) = None"
    "\<forall>k h. he_now env k < fst (firstRotationTp env (rectify_hour rh) (rectify_minute rm) h)"
    "pool_reach (sink_code env) 1 (dr_new env True dir base mx n rh rm h) S"
    "\<forall>m \<in> set (ps_submitted S). int (length m) < 2 ^ 62"
  shows "\<exists>s' h' j k. ps_state S = Inr (s', h')
     \<and> ps_submitted S = take j (ps_submitted S) @ line_in_hand S @ bq_data (ps_queue S)
     \<and> files_hold (log_name dir base n d) h' (fold (log_step mx) (take j (ps_submitted S)) ([], replicate (nat n) None))
     \<and> concat (map (\<lambda>i. file_text h' (log_name dir base n d i)) (rev [0..<Suc (nat n)])) = concat (drop k (take j (ps_submitted S)))
     \<and> (h_files h' (log_name dir base n d (nat n)) = None \<longrightarrow> k = 0)
     \<and> (\<forall>i \<le> nat n. int (length (file_text h' (log_name dir base n d i))) \<le> mx
          \<or> file_text h' (log_name dir base n d i) \<in> set (take j (ps_submitted S)))"
proof -
  let ?w = "written S"
  have p: "ps_submitted S = ?w @ line_in_hand S @ bq_data (ps_queue S)" "ps_state S = fold (sink_exec env) ?w (dr_new env True dir base mx n rh rm h)"
    using pool_reach_inv [OF assms(9)] single_worker_order [OF assms(9)] by (simp_all add: pool_inv_def)
  have "set ?w \<subseteq> set (ps_submitted S)" using p(1) by simp
  then have small: "\<forall>m \<in> set ?w. int (length m) < 2 ^ 62" using assms(10) by blast
  have t: "take (length ?w) (ps_submitted S) = ?w" by (simp add: p(1))
  obtain s0 h0 s' h' k where r: "dr_new env True dir base mx n rh rm h = Inr (s0, h0)" "dr_log_all env ?w s0 h0 = Inr (s', h')"
    "concat (map (\<lambda>i. file_text h' (log_name dir base n d i)) (rev [0..<Suc (nat n)])) = concat (drop k ?w)"
    "h_files h' (log_name dir base n d (nat n)) = None \<longrightarrow> k = 0"
    "\<forall>i \<le> nat n. int (length (file_text h' (log_name dir base n d i))) \<le> mx \<or> file_text h' (log_name dir base n d i) \<in> set ?w"
    "files_hold (log_name dir base n d) h' (fold (log_step mx) ?w ([], replicate (nat n) None))"
    using sink_keeps_newest_aux [OF assms(1-8) small] by (elim exE conjE) (rule that)
  have e: "ps_state S = Inr (s', h')" using p(2) r(1,2) by (simp add: fold_sink_exec)
  show ?thesis
    by (rule exI [of _ s'], rule exI [of _ h'], rule exI [of _ "length ?w"], rule exI [of _ k], unfold t)
       (intro conjI e p(1) r(3-6))
qed

text \<open>
  The writer has written the first two of three lines and has the third in hand: the file holds
  the two of them and nothing else, with a limit of ten bytes; with the third it would have rotated.
\<close>

theorem logged_lines_reach_the_files_in_order_witness:
  "\<exists>S s' h'. pool_reach (sink_code quiet_env) 1 (dr_new quiet_env True ''log/'' ''svc'' 10 2 0 0 demo_host) S
     \<and> ps_submitted S = [''one'', ''two'', ''three''] \<and> line_in_hand S = [''three''] \<and> ps_state S = Inr (s', h')
     \<and> files_hold (log_name ''log/'' ''svc'' 2 (formatedDate new_lct_time 0)) h' (''onetwo'', [None, None])
     \<and> concat (map (\<lambda>i. file_text h' (log_name ''log/'' ''svc'' 2 (formatedDate new_lct_time 0) i)) (rev [0..<Suc (nat 2)])) = ''onetwo''"
proof -
  let ?s0 = "dr_new quiet_env True ''log/'' ''svc'' 10 2 0 0 demo_host"
  let ?nm = "log_name ''log/'' ''svc'' 2 (formatedDate new_lct_time 0)"
  let ?es = "[Submit ''one'', Work 0, Submit ''two'', Work 0, Work 0, Submit ''three'', Work 0, Work 0, Work 0, Work 0, Work 0, Work 0, Work 0]"
  have "\<exists>S. pool_schedule (sink_code quiet_env) ?es (pool_start 1 ?s0) = Some S
      \<and> ps_submitted S = [''one'', ''two'', ''three''] \<and> line_in_hand S = [''three''] \<and> bq_data (ps_queue S) = []"
    by (simp add: pool_run_simps line_in_hand_def)
  then obtain S where S: "pool_schedule (sink_code quiet_env) ?es (pool_start 1 ?s0) = Some S"
    "ps_submitted S = [''one'', ''two'', ''three'']" "line_in_hand S = [''three'']" "bq_data (ps_queue S) = []" by (elim exE conjE) (rule that)
  have r: "pool_reach (sink_code quiet_env) 1 ?s0 S" by (rule pool_schedule_reach [OF pool_reach.start S(1)])
  have "\<forall>i. h_files demo_host (log_name ''log/'' ''svc'' 2 (formatedDate new_lct_time 0) i) = None" by (simp add: demo_host_def)
  moreover have "\<forall>k h. he_now quiet_env k < fst (firstRotationTp quiet_env (rectify_hour 0) (rectify_minute 0) h)"
    using quiet_env_facts(3) by blast
  moreover have "\<forall>m \<in> set (ps_submitted S). int (length m) < 2 ^ 62" by (simp add: S(2))
  ultimately obtain s' h' j k where o: "ps_state S = Inr (s', h')"
    "ps_submitted S = take j (ps_submitted S) @ line_in_hand S @ bq_data (ps_queue S)"
    "files_hold ?nm h' (fold (log_step 10) (take j (ps_submitted S)) ([], replicate (nat 2) None))"
    "concat (map (\<lambda>i. file_text h' (?nm i)) (rev [0..<Suc (nat 2)])) = concat (drop k (take j (ps_submitted S)))"
    "h_files h' (?nm (nat 2)) = None \<longrightarrow> k = 0"
    using logged_lines_reach_the_files_in_order [OF quiet_env_facts(1,2) _ _ _ _ _ _ r] by auto
  have j: "take j (ps_submitted S) = [''one'', ''two'']" using o(2) unfolding S(2-4) by simp
  have f: "files_hold ?nm h' (''onetwo'', [None, None])" using o(3) unfolding j by (simp add: log_step_def numeral_2_eq_2)
  then have "k = 0" using o(5) by (simp add: files_hold_def numeral_2_eq_2)
  then have "concat (map (\<lambda>i. file_text h' (?nm i)) (rev [0..<Suc (nat 2)])) = ''onetwo''" using o(4) unfolding j by simp
  with f o(1) r S(2,3) show ?thesis by (intro exI conjI)
qed

section \<open>Life cycle\<close>

text \<open>
  An initiated logger can be closed once; closing it again joins a thread that has been joined,
  which throws.
\<close>

theorem second_close_throws:
  assumes "sp_worker (lg_sinkPool l) = Joinable"
  shows "\<exists>l1. logger_close l = Inr (LCT_SUCCESS, l1) \<and> \<not> lg_isInitiated l1 \<and> logger_close l1 = Inl System_error"
  using assms by (simp add: logger_close_def sp_stop_def Let_def)

lemma logger_init_no_dir:
  "sp_worker (lg_sinkPool l) = No_thread \<Longrightarrow> sp_isAsyncSink (lg_sinkPool l) \<Longrightarrow>
     \<exists>l1. logger_init env nm c [] a b l h = Inr (LCT_SUCCESS, l1, h) \<and> lg_isInitiated l1 \<and> sp_worker (lg_sinkPool l1) = Joinable
       \<and> sp_terminal (lg_sinkPool l1) \<and> logger_init env nm c [] a b l1 h = Inl Terminated"
  by (simp add: logger_init_def initLogLevel_def initFormatter_def rectified_path_def initSinks_def appendTerminalSink_def
      sp_start_def Let_def)

theorem second_close_throws_witness:
  "\<exists>l1 l2. logger_init quiet_env ''svc'' new_log_config [] 0 0 new_logger demo_host = Inr (LCT_SUCCESS, l1, demo_host)
     \<and> logger_close l1 = Inr (LCT_SUCCESS, l2) \<and> logger_close l2 = Inl System_error"
proof -
  have "sp_worker (lg_sinkPool new_logger) = No_thread" "sp_isAsyncSink (lg_sinkPool new_logger)"
    by (simp_all add: new_logger_def initLogLevelByDefault_def new_sink_pool_def)
  from logger_init_no_dir [OF this] second_close_throws show ?thesis by blast
qed

text \<open>A level is logged by the initiated logger exactly when the configuration has it on.\<close>

fun level_on :: "log_config \<Rightarrow> elog_level \<Rightarrow> bool" where
  "level_on c TRACE = m_traceLevel c"
| "level_on c DEBUG = m_debugLevel c"
| "level_on c INFOR = m_inforLevel c"
| "level_on c WARNG = m_warngLevel c"
| "level_on c ERROR = m_errorLevel c"
| "level_on c CRITC = m_critcLevel c"

lemma isLogged_initLogLevel:
  "lg_isInitiated l1 \<Longrightarrow> lg_loglevels l1 = lg_loglevels (snd (initLogLevel c l)) \<Longrightarrow> isLogged level l1 \<longleftrightarrow> level_on c level"
  by (cases level) (simp_all add: isLogged_def initLogLevel_def put_level_def)

end
