(* ===== verification/Id_Service.thy ===== *)
theory Id_Service
  imports Id_Manager Grpc_Service Logger_Correct
begin

text \<open>
  \<open>service/lct_id_service\<close>: the configuration (\<open>id_config_mgr\<close>), the service manager
  (\<open>id_service_mgr\<close>) and the program (\<open>service_main.cpp\<close>).  One record holds what the singletons
  of the process hold.  While the main thread is in \<open>serve\<close>, requests and signals arrive as
  lists of events, each handled in one go; signals before that are not modelled.  The console
  is that of the host; the log lines of these files are left out, the logger's life is not.
\<close>

section \<open>The configuration\<close>

record sid_config =
  cfg_servicePort :: int
  cfg_databasePort :: int
  cfg_serviceIp :: string
  cfg_databaseIp :: string
  cfg_databaseName :: string
  cfg_databaseTableName :: string
  cfg_keyspace :: string
  cfg_logDir :: string

definition new_sid_config :: sid_config where
  "new_sid_config = \<lparr>cfg_servicePort = 0, cfg_databasePort = 0, cfg_serviceIp = [], cfg_databaseIp = [],
     cfg_databaseName = [], cfg_databaseTableName = [], cfg_keyspace = [], cfg_logDir = []\<rparr>"

definition CONFIG_FILE_DEFAULT_PATH :: string where
  "CONFIG_FILE_DEFAULT_PATH = ''./config/lct_service_config.properties''"

definition sid_config_init :: "file_map \<Rightarrow> string \<Rightarrow> sid_config \<Rightarrow> lct_err \<times> sid_config" where
  "sid_config_init files configFilePath cfg =
     (case properties_parse files (new_properties configFilePath) of (errCode, properties) \<Rightarrow>
       if LCT_SUCCESS \<noteq> errCode then (errCode, cfg)
       else (LCT_SUCCESS, cfg\<lparr>
         cfg_servicePort := to_u16 (getInt32 properties ''Poi.Correlate.Id.Service.Port'' 0),
         cfg_databasePort := to_u16 (getInt32 properties ''Poi.Correlate.Id.Database.Port'' 0),
         cfg_serviceIp := getString properties ''Poi.Correlate.Id.Service.Ip'' [],
         cfg_databaseIp := getString properties ''Poi.Correlate.Id.Database.Ip'' [],
         cfg_databaseName := getString properties ''Poi.Correlate.Id.Database.Name'' [],
         cfg_databaseTableName := getString properties ''Poi.Correlate.Id.Database.Table.Name'' [],
         cfg_keyspace := getString properties ''Poi.Correlate.Id.Database.keyspace'' [],
         cfg_logDir := getString properties ''Poi.Correlate.Id.Log.Dir'' []\<rparr>))"

section \<open>The service manager\<close>

record ('s, 'p, 'w, 'g) sid_app =
  app_cfg :: sid_config
  app_ds :: sid_data_source
  app_helper :: "('s, id_row, 'p, 'w) cass_helper"
  app_ids :: id_manager
  app_svc :: "grpc_service option"
  app_grpc :: 'g
  app_replies :: "(int \<times> id_response) list"
  app_host :: host
  app_logcfg :: log_config
  app_logger :: logger

definition new_sid_app :: "'w \<Rightarrow> 'g \<Rightarrow> host \<Rightarrow> ('s, 'p, 'w, 'g) sid_app" where
  "new_sid_app w g h = \<lparr>app_cfg = new_sid_config, app_ds = new_data_source, app_helper = new_cass_helper w,
     app_ids = new_id_manager, app_svc = None, app_grpc = g, app_replies = [], app_host = h,
     app_logcfg = new_log_config, app_logger = new_logger\<rparr>"

definition service_mgr_init ::
    "('s, 'f, id_row, 'p, 'w) cass_driver \<Rightarrow> ('w \<Rightarrow> string \<times> 'w) \<Rightarrow> 'g grpc_lib
       \<Rightarrow> ('s, 'p, 'w, 'g) sid_app \<Rightarrow> lct_err \<times> ('s, 'p, 'w, 'g) sid_app" where
  "service_mgr_init drv clock lib a =
     (let cfg = app_cfg a in
      case data_source_init (cfg_databasePort cfg) (cfg_databaseIp cfg) (cfg_keyspace cfg) (cfg_databaseTableName cfg)
             (app_ds a) (app_helper a) of (e1, ds, h1) \<Rightarrow>
        let a1 = a\<lparr>app_ds := ds, app_helper := h1\<rparr> in
        if LCT_SUCCESS \<noteq> e1 then (e1, a1)
        else case mgr_init (sid_env drv clock ds) (app_ids a1) h1 of (e2, m, h2) \<Rightarrow>
          let a2 = a1\<lparr>app_ids := m, app_helper := h2\<rparr> in
          if LCT_SUCCESS \<noteq> e2 then (e2, a2)
          else
            let g1 = (case app_svc a2 of None \<Rightarrow> app_grpc a2 | Some s \<Rightarrow> grpc_destroy lib s (app_grpc a2));
                svc = new_grpc_service (to_u16 (cfg_servicePort cfg)) (cfg_serviceIp cfg)
            in case grpc_init lib svc g1 of (e3, svc1, g2) \<Rightarrow>
                 (e3, a2\<lparr>app_svc := Some svc1, app_grpc := g2\<rparr>))"

text \<open>The code of the service's shutdown is overwritten by that of the data source.\<close>

definition service_mgr_shutdown ::
    "'g grpc_lib \<Rightarrow> ('s, 'p, 'w, 'g) sid_app \<Rightarrow> (lct_err \<times> ('s, 'p, 'w, 'g) sid_app) res" where
  "service_mgr_shutdown lib a =
     (let a1 = (case app_svc a of None \<Rightarrow> a
        | Some s \<Rightarrow> (case grpc_shutdown lib s (app_grpc a) of (_, s1, g1) \<Rightarrow> a\<lparr>app_svc := Some s1, app_grpc := g1\<rparr>))
      in res_bind (data_source_close (app_helper a1)) (\<lambda>(errCode, h). Inr (errCode, a1\<lparr>app_helper := h\<rparr>)))"

section \<open>While serving\<close>

datatype sid_event = Client_FetchId int | Client_LoadSeed | Signal

definition out :: "string \<Rightarrow> ('s, 'p, 'w, 'g) sid_app \<Rightarrow> ('s, 'p, 'w, 'g) sid_app" where
  "out t a = a\<lparr>app_host := print_out t (app_host a)\<rparr>"

definition InterruptedCallback ::
    "'g grpc_lib \<Rightarrow> ('s, 'p, 'w, 'g) sid_app \<Rightarrow> ('s, 'p, 'w, 'g) sid_app res" where
  "InterruptedCallback lib a =
     res_bind (service_mgr_shutdown lib (out (''64'' @ [CHR 0x09] @ '' InterruptedCallback is triggered......'' @ [CHR 0x0A]) a))
       (\<lambda>(_, a1). Inr (out (''68'' @ [CHR 0x09] @ '' InterruptedCallback is closing......'' @ [CHR 0x0A]) a1))"

text \<open>One event; \<open>s\<close> is the service object, whose server takes requests until it is shut down.\<close>

definition sid_event_step ::
    "('s, 'f, id_row, 'p, 'w) cass_driver \<Rightarrow> ('w \<Rightarrow> string \<times> 'w) \<Rightarrow> 'g grpc_lib \<Rightarrow> sid_event
       \<Rightarrow> grpc_service \<times> ('s, 'p, 'w, 'g) sid_app \<Rightarrow> (grpc_service \<times> ('s, 'p, 'w, 'g) sid_app) res" where
  "sid_event_step drv clock lib ev sa =
     (case sa of (s, a) \<Rightarrow>
       (case ev of
          Client_FetchId seed \<Rightarrow>
            if gs_server s \<noteq> Some False then Inr (s, a)
            else (case FetchId (sid_env drv clock (app_ds a)) (Some ()) (Some seed) (Some empty_response) (app_ids a) (app_helper a) of
              (st, resp, m, h) \<Rightarrow> Inr (s, a\<lparr>app_ids := m, app_helper := h,
                 app_replies := app_replies a @ (case resp of None \<Rightarrow> [] | Some r \<Rightarrow> [(seed, r)])\<rparr>))
        | Client_LoadSeed \<Rightarrow> Inr (s, a)
        | Signal \<Rightarrow> res_bind (InterruptedCallback lib (a\<lparr>app_svc := Some s\<rparr>))
            (\<lambda>a1. Inr (case app_svc a1 of None \<Rightarrow> s | Some s1 \<Rightarrow> s1, a1))))"

fun sid_events ::
    "('s, 'f, id_row, 'p, 'w) cass_driver \<Rightarrow> ('w \<Rightarrow> string \<times> 'w) \<Rightarrow> 'g grpc_lib \<Rightarrow> sid_event list
       \<Rightarrow> grpc_service \<times> ('s, 'p, 'w, 'g) sid_app \<Rightarrow> (grpc_service \<times> ('s, 'p, 'w, 'g) sid_app) res" where
  "sid_events drv clock lib [] sa = Inr sa"
| "sid_events drv clock lib (ev # evs) sa =
     res_bind (sid_event_step drv clock lib ev sa) (sid_events drv clock lib evs)"

text \<open>The library's calls act on their part of the process.\<close>

definition on_grpc :: "('g \<Rightarrow> 'x \<times> 'g) \<Rightarrow> ('s, 'p, 'w, 'g) sid_app \<Rightarrow> 'x \<times> ('s, 'p, 'w, 'g) sid_app" where
  "on_grpc f a = (case f (app_grpc a) of (x, g) \<Rightarrow> (x, a\<lparr>app_grpc := g\<rparr>))"

definition app_lib :: "'g grpc_lib \<Rightarrow> ('s, 'p, 'w, 'g) sid_app grpc_lib" where
  "app_lib lib = \<lparr>gl_call = \<lambda>c. on_grpc (gl_call lib c), gl_build = \<lambda>b. on_grpc (gl_build lib b),
     gl_wait = on_grpc (gl_wait lib), gl_shutdown = on_grpc (gl_shutdown lib)\<rparr>"

definition service_mgr_run ::
    "('s, 'f, id_row, 'p, 'w) cass_driver \<Rightarrow> ('w \<Rightarrow> string \<times> 'w) \<Rightarrow> 'g grpc_lib \<Rightarrow> sid_event list \<Rightarrow> sid_event list
       \<Rightarrow> ('s, 'p, 'w, 'g) sid_app \<Rightarrow> (lct_err \<times> ('s, 'p, 'w, 'g) sid_app) res" where
  "service_mgr_run drv clock lib early during a =
     (case app_svc a of
        None \<Rightarrow> Inl Undefined
      | Some s \<Rightarrow> res_bind (grpc_serve (app_lib lib) (sid_events drv clock lib early) (sid_events drv clock lib during) True s a)
          (\<lambda>(errCode, s1, a1). Inr (errCode, a1\<lparr>app_svc := Some s1\<rparr>)))"

section \<open>The program\<close>

definition usage :: "string \<Rightarrow> string" where
  "usage executive = ''usage:'' @ [CHR 0x0A, CHR 0x09]
     @ executive @ ''                    # service booting up with default config_file'' @ [CHR 0x0A, CHR 0x09]
     @ executive @ '' -f config_file     # service booting up with specified config_file'' @ [CHR 0x0A, CHR 0x09]
     @ executive @ '' --version          # print out current version'' @ [CHR 0x0A, CHR 0x09, CHR 0x0A]"

definition argvHandle :: "string list \<Rightarrow> string \<Rightarrow> host \<Rightarrow> lct_err \<times> string \<times> host" where
  "argvHandle argv configFilePath h =
     (case argv of
        [_] \<Rightarrow> (LCT_SUCCESS, configFilePath, h)
      | [_, a1] \<Rightarrow>
          if a1 \<noteq> ''--version'' then (LCT_FAIL, configFilePath, h)
          else (case LctVersion of (e, text) \<Rightarrow> (e, configFilePath, print_out text h))
      | [_, a1, a2] \<Rightarrow> if a1 \<noteq> ''-f'' then (LCT_FAIL, configFilePath, h) else (LCT_SUCCESS, a2, h)
      | _ \<Rightarrow> (LCT_FAIL, configFilePath, h))"

definition endl :: string where "endl = [CHR 0x0A]"

text \<open>From the end of \<open>init\<close> of the logger on.\<close>

definition main_serve ::
    "('s, 'f, id_row, 'p, 'w) cass_driver \<Rightarrow> ('w \<Rightarrow> string \<times> 'w) \<Rightarrow> 'g grpc_lib \<Rightarrow> sid_event list \<Rightarrow> sid_event list
       \<Rightarrow> ('s, 'p, 'w, 'g) sid_app \<Rightarrow> (int \<times> ('s, 'p, 'w, 'g) sid_app) res" where
  "main_serve drv clock lib early during a =
     (case service_mgr_init drv clock lib a of (e1, a1) \<Rightarrow>
       if LCT_SUCCESS \<noteq> e1 then
         Inr (sint e1, out (''int main(int, char**)'' @ [CHR 0x09] @ ''133'' @ [CHR 0x09] @ ''Failed to initiate SID service manager'' @ endl) a1)
       else res_bind (service_mgr_run drv clock lib early during
              (out (''lowcost IVA Unique Id Service finished initiation and start running......'' @ endl) a1)) (\<lambda>(e2, a2).
         let a3 = out (''Shutting down lowcost IVA Unique Id Service......'' @ endl) a2 in
         if LCT_SUCCESS \<noteq> e2 then
           Inr (sint e2, out (''int main(int, char**)'' @ [CHR 0x09] @ ''146'' @ [CHR 0x09] @ '' Error happened during shutting down service manager'' @ endl) a3)
         else
           let a4 = out (''lowcost IVA Unique Id Service is shutdown and exiting'' @ endl) a3 in
           res_bind (logger_close (app_logger a4)) (\<lambda>(e3, l).
             let a5 = a4\<lparr>app_logger := l\<rparr> in
             if LCT_SUCCESS \<noteq> e3 then
               Inr (sint e3, out (''int main(int, char**)'' @ [CHR 0x09] @ ''154'' @ [CHR 0x09] @ '' Error happened during shutting down IVA Log System'' @ endl) a5)
             else Inr (0, out (''lowcost Log System is shutdown and exiting'' @ endl) a5))))"

definition service_main ::
    "host_env \<Rightarrow> string \<Rightarrow> ('s, 'f, id_row, 'p, 'w) cass_driver \<Rightarrow> ('w \<Rightarrow> string \<times> 'w) \<Rightarrow> 'g grpc_lib
       \<Rightarrow> sid_event list \<Rightarrow> sid_event list \<Rightarrow> string list \<Rightarrow> ('s, 'p, 'w, 'g) sid_app \<Rightarrow> (int \<times> ('s, 'p, 'w, 'g) sid_app) res" where
  "service_main env program_name drv clock lib early during argv a =
     (case argvHandle argv [] (app_host a) of (e0, configFilePath, h0) \<Rightarrow>
       let a0 = a\<lparr>app_host := h0\<rparr> in
       if LCT_SUCCESS \<noteq> e0 then
         (if LCT_VERSION_INFO = e0 then Inr (0, a0)
          else case argv of [] \<Rightarrow> Inl Undefined | exe # _ \<Rightarrow> Inr (sint e0, out (usage exe) a0))
       else
         let a1 = out (endl @ ''**********************lowcost IVA Unique Id Service**********************'' @ endl
                    @ ''Booting up lowcost IVA Unique Id Service ......'' @ endl
                    @ ''Start initiating lowcost IVA Unique Id Service......'' @ endl) a0 in
         case sid_config_init (h_files (app_host a1)) (if configFilePath = [] then CONFIG_FILE_DEFAULT_PATH else configFilePath) (app_cfg a1) of
           (e1, cfg) \<Rightarrow>
             let a2 = a1\<lparr>app_cfg := cfg\<rparr> in
             if LCT_SUCCESS \<noteq> e1 then Inr (sint e1, a2)
             else res_bind (logger_init_file env program_name (cfg_logDir cfg) configFilePath LOG_ROTATE_FILE_MAX_SIZE LOG_ROTATE_FILE_MAX_COUNT
                      (app_logcfg a2) (app_logger a2) (app_host (out (''Successful to init SID Config Manager'' @ endl) a2)))
               (\<lambda>(e2, lc, l, h). let a3 = a2\<lparr>app_logcfg := lc, app_logger := l, app_host := h\<rparr> in
                 if LCT_SUCCESS \<noteq> e2 then Inr (sint e2, a3)
                 else main_serve drv clock lib early during (out (''Successful to init IVA Log System'' @ endl) a3)))"

end
