(* ===== verification/Id_Service_Correct.thy ===== *)
theory Id_Service_Correct
  imports Id_Service
begin

text \<open>
  What a life of the id service promises: no reply repeats an id whatever requests and signals
  come in and whatever the libraries answer, and a service that was started and is then told to
  stop answers everything it was asked before and stops in order.
\<close>

section \<open>Facts the environment keeps\<close>

text \<open>
  A property of the state behind the engines that the calls they make keep is kept by all that
  the manager does.
\<close>

locale env_invariant =
  fixes env :: "'c id_env" and P :: "'c \<Rightarrow> bool"
  assumes day_keeps: "now_day env c = (d, c') \<Longrightarrow> P c \<Longrightarrow> P c'"
    and query_keeps: "ds_query env s t info c = (e, info', c') \<Longrightarrow> P c \<Longrightarrow> P c'"
    and persist_keeps: "ds_persist env s t info c = (e, c') \<Longrightarrow> P c \<Longrightarrow> P c'"
begin

lemma save_keeps: "persist env g c = (e, c') \<Longrightarrow> P c \<Longrightarrow> P c'"
  by (auto simp: persist_def intro: persist_keeps)

lemma daySwitch_keeps:
  assumes "daySwitch env g c = (e, g1, c1)" "P c"
  shows "P c1"
proof -
  obtain d1 ca where 1: "now_day env c = (d1, ca)" by fastforce
  obtain d2 cb where 2: "now_day env ca = (d2, cb)" by fastforce
  have "P ca" by (rule day_keeps [OF 1 assms(2)])
  moreover have "P cb" by (rule day_keeps [OF 2 calculation])
  ultimately show ?thesis
    using assms(1) 1 2 save_keeps by (auto simp: daySwitch_def Let_def split: if_splits prod.splits)
qed

lemma reallocValve_keeps: "reallocValve env g c = (e, g1, c1) \<Longrightarrow> P c \<Longrightarrow> P c1"
  by (auto simp: reallocValve_def Let_def split: if_splits prod.splits dest: save_keeps)

lemma spawnId_keeps:
  assumes "spawnId env g c = (e, r, g1, c1)" "P c"
  shows "P c1"
proof -
  obtain e0 g0 c0 where d: "day_checked env g c = (e0, g0, c0)" by (metis prod_cases3)
  obtain d1 ca where 1: "now_day env c = (d1, ca)" by fastforce
  have "P c0" using d 1 day_keeps [OF 1 assms(2)] daySwitch_keeps [of g ca e0 g0 c0]
    by (auto simp: day_checked_def split: if_splits)
  then show ?thesis using assms(1) d reallocValve_keeps
    by (auto simp: spawnId_parts take_number_def split: if_splits prod.splits)
qed

lemma env_fetchId_keeps: "fetchId_from env s m c = (e, r, m1, c1) \<Longrightarrow> P c \<Longrightarrow> P c1"
proof (induction m arbitrary: e r m1 c1)
  case (Cons mmap rest)
  then show ?case by (cases "mmap s") (auto split: prod.splits dest: spawnId_keeps)
qed simp

lemma engine_init_keeps:
  assumes "engine_init env g c = (e, g1, c1)" "P c"
  shows "P c1"
proof -
  obtain er gr cr where r: "readPersistance env g c = (er, gr, cr)" by (metis prod_cases3)
  have "P cr" using r assms(2) query_keeps by (auto simp: readPersistance_def split: prod.splits)
  then show ?thesis using assms(1) r
    by (auto simp: engine_init_def split: if_splits prod.splits dest: day_keeps reallocValve_keeps daySwitch_keeps)
qed

lemma env_start_engine_keeps: "mgr_start_engine env s m c = (e, m1, c1) \<Longrightarrow> P c \<Longrightarrow> P c1"
  by (auto simp: mgr_start_engine_def split: if_splits prod.splits dest: engine_init_keeps)

lemma mgr_init_keeps: "mgr_init env m c = (e, m1, c1) \<Longrightarrow> P c \<Longrightarrow> P c1"
  by (auto simp: mgr_init_def split: if_splits prod.splits dest: env_start_engine_keeps)

end

definition pool_ready :: "('s, 'r, 'p, 'w) cass_helper \<Rightarrow> bool" where
  "pool_ready h \<longleftrightarrow> h_ready h \<and> h_pool h \<noteq> None \<and> h_concurrent h < h_limit h"

lemma helper_execute_pooled:
  assumes "helper_execute drv ks cql h = Inr (e, r, h1)" "pool_ready h"
  shows "pool_ready h1"
proof -
  obtain p where p: "h_pool h = Some p" "h_ready h" "h_concurrent h < h_limit h" using assms(2) by (auto simp: pool_ready_def)
  obtain e1 s p1 w1 where "pool_session drv ks p (h_world h) = (e1, s, p1, w1)" by (metis prod_cases4)
  then show ?thesis using assms(1) p
    by (auto simp: helper_execute_def get_session_def Let_def pool_ready_def split: option.splits prod.splits if_splits)
qed

interpretation pooled: env_invariant "sid_env drv clock ds" pool_ready
  for drv :: "('s, 'f, id_row, 'p, 'w) cass_driver" and clock ds
proof unfold_locales
  fix c c' :: "('s, id_row, 'p, 'w) cass_helper" and d
  show "now_day (sid_env drv clock ds) c = (d, c') \<Longrightarrow> pool_ready c \<Longrightarrow> pool_ready c'"
    by (auto simp: sid_env_def pool_ready_def split: prod.splits)
next
  fix s t info e info' and c c' :: "('s, id_row, 'p, 'w) cass_helper"
  show "ds_query (sid_env drv clock ds) s t info c = (e, info', c') \<Longrightarrow> pool_ready c \<Longrightarrow> pool_ready c'"
    by (auto simp: sid_env_def data_source_query_def cass_query_def res_bind_def
          split: sum.splits prod.splits option.splits if_splits dest!: helper_execute_pooled)
next
  fix s t info e and c c' :: "('s, id_row, 'p, 'w) cass_helper"
  show "ds_persist (sid_env drv clock ds) s t info c = (e, c') \<Longrightarrow> pool_ready c \<Longrightarrow> pool_ready c'"
    by (auto simp: sid_env_def data_source_persist_def cass_update_def res_bind_def
          split: sum.splits prod.splits option.splits if_splits dest!: helper_execute_pooled)
qed

section \<open>No reply repeats an id\<close>

lemma handed_append: "handed (xs @ ys) = handed xs @ handed ys"
  by (simp add: handed_def)

context day_clock
begin

lemma mgr_ok_less: "mgr_ok (Suc n) L m c \<Longrightarrow> mgr_ok n L m c"
  by (auto simp: mgr_ok_def engine_room_less)

lemma mgr_ok_same: "mgr_ok n L m c \<Longrightarrow> idx c' = idx c \<Longrightarrow> mgr_ok n L m c'"
  by (simp add: mgr_ok_def)

lemma FetchId_keeps:
  assumes "FetchId env (Some ()) (Some s) (Some empty_response) m c = (st, resp, m1, c1)" "mgr_ok (Suc n) L m c" "distinct L"
  shows "mgr_ok n (L @ handed (case resp of None \<Rightarrow> [] | Some r \<Rightarrow> [(s, r)])) m1 c1
     \<and> distinct (L @ handed (case resp of None \<Rightarrow> [] | Some r \<Rightarrow> [(s, r)]))"
proof -
  obtain e r where f: "fetchId_from env s m c = (e, r, m1, c1)"
    and resp: "resp = Some \<lparr>resp_id = r, resp_code = Some (sint e)\<rparr>" using FetchId_result [OF assms(1)] by blast
  show ?thesis using fetchId_keeps [OF f assms(2)] assms(3) unfolding resp
    by (cases r) (auto simp: handed_def)
qed

end

lemma service_mgr_shutdown_world:
  assumes "service_mgr_shutdown lib a = Inr (e, a1)"
  shows "h_world (app_helper a1) = h_world (app_helper a) \<and> app_ds a1 = app_ds a \<and> app_ids a1 = app_ids a
     \<and> app_replies a1 = app_replies a"
proof -
  have c: "helper_close h = Inr (e, h1) \<Longrightarrow> h_world h1 = h_world h" for h h1 :: "('x, 'y, 'z, 'u) cass_helper"
    by (auto simp: helper_close_def split: if_splits option.splits prod.splits)
  show ?thesis using assms c
    by (auto simp: service_mgr_shutdown_def data_source_close_def Let_def res_bind_Inr_iff split: option.splits prod.splits)
qed

lemma event_step_safe:
  assumes dc: "day_clock (sid_env drv clock ds) (\<lambda>h. i (h_world h)) day"
    and ev: "sid_event_step drv clock lib ev (s, a) = Inr (s1, a1)"
    and a: "app_ds a = ds" "day_clock.mgr_ok (\<lambda>h. i (h_world h)) day (Suc n) (handed (app_replies a)) (app_ids a) (app_helper a)"
      "distinct (handed (app_replies a))"
  shows "app_ds a1 = ds \<and> day_clock.mgr_ok (\<lambda>h. i (h_world h)) day n (handed (app_replies a1)) (app_ids a1) (app_helper a1)
     \<and> distinct (handed (app_replies a1))"
proof (cases ev)
  case (Client_FetchId seed)
  show ?thesis
  proof (cases "gs_server s = Some False")
    case False
    then show ?thesis using ev a day_clock.mgr_ok_less [OF dc a(2)] by (simp add: sid_event_step_def Client_FetchId)
  next
    case True
    obtain st resp m h where F: "FetchId (sid_env drv clock ds) (Some ()) (Some seed) (Some empty_response) (app_ids a) (app_helper a)
        = (st, resp, m, h)" by (metis prod_cases4)
    have "a1 = a\<lparr>app_ids := m, app_helper := h,
        app_replies := app_replies a @ (case resp of None \<Rightarrow> [] | Some r \<Rightarrow> [(seed, r)])\<rparr>"
      using ev F a(1) True by (simp add: sid_event_step_def Client_FetchId)
    then show ?thesis using day_clock.FetchId_keeps [OF dc F a(2,3)] a(1) by (simp add: handed_append)
  qed
next
  case Client_LoadSeed
  then show ?thesis using ev a day_clock.mgr_ok_less [OF dc a(2)] by (simp add: sid_event_step_def)
next
  case Signal
  obtain e a2 where d: "service_mgr_shutdown lib
      (out (''64'' @ [CHR 0x09] @ '' InterruptedCallback is triggered......'' @ [CHR 0x0A]) (a\<lparr>app_svc := Some s\<rparr>)) = Inr (e, a2)"
    and a1: "a1 = out (''68'' @ [CHR 0x09] @ '' InterruptedCallback is closing......'' @ [CHR 0x0A]) a2"
    using ev by (auto simp: sid_event_step_def Signal InterruptedCallback_def res_bind_Inr_iff)
  have w: "h_world (app_helper a1) = h_world (app_helper a)" "app_ds a1 = ds" "app_ids a1 = app_ids a" "app_replies a1 = app_replies a"
    using service_mgr_shutdown_world [OF d] a(1) by (simp_all add: a1 out_def)
  then show ?thesis
    using day_clock.mgr_ok_same [OF dc day_clock.mgr_ok_less [OF dc a(2)], of "app_helper a1"] a(3) by simp
qed

lemma events_safe:
  assumes dc: "day_clock (sid_env drv clock ds) (\<lambda>h. i (h_world h)) day"
  shows "sid_events drv clock lib evs (s, a) = Inr (s1, a1) \<Longrightarrow> app_ds a = ds
     \<Longrightarrow> day_clock.mgr_ok (\<lambda>h. i (h_world h)) day (length evs + n) (handed (app_replies a)) (app_ids a) (app_helper a)
     \<Longrightarrow> distinct (handed (app_replies a))
     \<Longrightarrow> app_ds a1 = ds \<and> day_clock.mgr_ok (\<lambda>h. i (h_world h)) day n (handed (app_replies a1)) (app_ids a1) (app_helper a1)
       \<and> distinct (handed (app_replies a1))"
proof (induction evs arbitrary: s a)
  case (Cons ev evs)
  obtain s2 a2 where 1: "sid_event_step drv clock lib ev (s, a) = Inr (s2, a2)"
    and 2: "sid_events drv clock lib evs (s2, a2) = Inr (s1, a1)"
    using Cons.prems(1) by (auto simp: res_bind_Inr_iff)
  have "day_clock.mgr_ok (\<lambda>h. i (h_world h)) day (Suc (length evs + n)) (handed (app_replies a)) (app_ids a) (app_helper a)"
    using Cons.prems(3) by simp
  then show ?case
    using event_step_safe [OF dc 1 Cons.prems(2) _ Cons.prems(4)] Cons.IH [OF 2] by blast
qed simp

lemma on_grpc_keeps: "on_grpc f a = (x, a1) \<Longrightarrow> app_ds a1 = app_ds a \<and> app_helper a1 = app_helper a \<and> app_ids a1 = app_ids a
    \<and> app_replies a1 = app_replies a"
  by (auto simp: on_grpc_def split: prod.splits)

lemma service_mgr_init_parts:
  assumes "service_mgr_init drv clock lib a = (LCT_SUCCESS, a1)"
  shows "\<exists>h. mgr_init (sid_env drv clock (app_ds a1)) (app_ids a) h = (LCT_SUCCESS, app_ids a1, app_helper a1)
     \<and> app_replies a1 = app_replies a"
  using assms by (auto simp: service_mgr_init_def Let_def split: prod.splits if_splits)

lemma grpc_serve_cases:
  assumes "grpc_serve lib early during True s w = Inr (e, s', w')"
  obtains (no_server) b where "gl_build lib (gs_builder s) w = (b, w')" "b \<noteq> Server_started"
  | (served) w1 s1 w2 w3 ok where "gl_build lib (gs_builder s) w = (Server_started, w1)"
      "early (s\<lparr>gs_server := Some False\<rparr>, w1) = Inr (s1, w2)"
      "during (s1\<lparr>gs_isServing := True\<rparr>, w2) = Inr (s', w3)" "gl_wait lib w3 = (ok, w')"
proof -
  obtain b w1 where b: "gl_build lib (gs_builder s) w = (b, w1)" by fastforce
  show thesis
  proof (cases b)
    case Server_started
    obtain s1 w2 where e: "early (s\<lparr>gs_server := Some False\<rparr>, w1) = Inr (s1, w2)"
      using assms b by (cases "early (s\<lparr>gs_server := Some False\<rparr>, w1)") (auto simp: grpc_serve_def Server_started split: if_splits)
    obtain s3 w3 where d: "during (s1\<lparr>gs_isServing := True\<rparr>, w2) = Inr (s3, w3)"
      using assms b e by (cases "during (s1\<lparr>gs_isServing := True\<rparr>, w2)") (auto simp: grpc_serve_def Server_started Let_def split: if_splits)
    have "\<exists>ok. gl_wait lib w3 = (ok, w') \<and> s' = s3"
      using assms b e d by (auto simp: grpc_serve_def Server_started Let_def split: if_splits option.splits bool.splits prod.splits)
    then show ?thesis using served [of w1 s1 w2 w3] b e d Server_started by auto
  next
    case No_server
    then show ?thesis using no_server [of b] assms b by (auto simp: grpc_serve_def split: if_splits)
  next
    case Build_throws
    then show ?thesis using no_server [of b] assms b by (auto simp: grpc_serve_def split: if_splits)
  qed
qed


section \<open>A signal ends the service\<close>

lemma fetch_events:
  "gs_server s = Some False \<Longrightarrow> pool_ready (app_helper a) \<Longrightarrow>
     \<exists>a1 rs. sid_events drv clock lib (map Client_FetchId seeds) (s, a) = Inr (s, a1) \<and> pool_ready (app_helper a1)
       \<and> map fst (app_replies a1) = map fst (app_replies a) @ seeds \<and> app_logger a1 = app_logger a
       \<and> answer_all (sid_env drv clock (app_ds a)) seeds (app_ids a) (app_helper a) = (rs, app_ids a1, app_helper a1)
       \<and> app_replies a1 = app_replies a @ rs"
proof (induction seeds arbitrary: a)
  case (Cons seed seeds)
  obtain st resp m h where F: "FetchId (sid_env drv clock (app_ds a)) (Some ()) (Some seed) (Some empty_response) (app_ids a) (app_helper a)
      = (st, resp, m, h)" by (metis prod_cases4)
  obtain e r where f: "fetchId_from (sid_env drv clock (app_ds a)) seed (app_ids a) (app_helper a) = (e, r, m, h)"
    and resp: "resp = Some \<lparr>resp_id = r, resp_code = Some (sint e)\<rparr>" using FetchId_result [OF F] by blast
  let ?a = "a\<lparr>app_ids := m, app_helper := h, app_replies := app_replies a @ [(seed, \<lparr>resp_id = r, resp_code = Some (sint e)\<rparr>)]\<rparr>"
  have 1: "sid_event_step drv clock lib (Client_FetchId seed) (s, a) = Inr (s, ?a)"
    using F Cons.prems(1) by (simp add: sid_event_step_def resp)
  have "pool_ready (app_helper ?a)" using pooled.env_fetchId_keeps [OF f Cons.prems(2)] by simp
  from Cons.IH [OF Cons.prems(1) this] obtain a1 rs where a1: "sid_events drv clock lib (map Client_FetchId seeds) (s, ?a) = Inr (s, a1)"
    "pool_ready (app_helper a1)" "map fst (app_replies a1) = map fst (app_replies ?a) @ seeds" "app_logger a1 = app_logger ?a"
    "answer_all (sid_env drv clock (app_ds ?a)) seeds (app_ids ?a) (app_helper ?a) = (rs, app_ids a1, app_helper a1)"
    "app_replies a1 = app_replies ?a @ rs" by blast
  let ?r = "(seed, \<lparr>resp_id = r, resp_code = Some (sint e)\<rparr>)"
  have "answer_all (sid_env drv clock (app_ds a)) (seed # seeds) (app_ids a) (app_helper a) = (?r # rs, app_ids a1, app_helper a1)"
    using a1(5) F by (simp add: resp)
  moreover have "sid_events drv clock lib (map Client_FetchId (seed # seeds)) (s, a) = Inr (s, a1)" using 1 a1(1) by simp
  moreover have "app_replies a1 = app_replies a @ (?r # rs)" "map fst (app_replies a1) = map fst (app_replies a) @ (seed # seeds)"
    "app_logger a1 = app_logger a" using a1(3,4,6) by simp_all
  ultimately show ?case using a1(2) by blast
qed simp

lemma events_append:
  "sid_events drv clock lib (xs @ ys) sa = res_bind (sid_events drv clock lib xs sa) (sid_events drv clock lib ys)"
proof (induction xs arbitrary: sa)
  case (Cons x xs)
  then show ?case by (cases "sid_event_step drv clock lib x sa") simp_all
qed simp

lemma late_events:
  "gs_server s \<noteq> Some False \<Longrightarrow> sid_events drv clock lib (map Client_FetchId seeds) (s, a) = Inr (s, a)"
  by (induction seeds) (simp_all add: sid_event_step_def)

lemma signal_event:
  assumes "gs_server s = Some False" "gs_isServing s" "pool_ready (app_helper a)" "\<And>w. fst (gl_shutdown lib w)"
  shows "\<exists>a1. sid_event_step drv clock lib Signal (s, a) = Inr (s\<lparr>gs_server := Some True, gs_isServing := False\<rparr>, a1)
     \<and> app_replies a1 = app_replies a \<and> \<not> h_ready (app_helper a1) \<and> app_logger a1 = app_logger a
     \<and> h_world (app_helper a1) = h_world (app_helper a)"
proof -
  obtain g where "gl_shutdown lib (app_grpc a) = (True, g)" using assms(4) by (metis prod.collapse)
  then show ?thesis using assms(1-3)
    by (auto simp: sid_event_step_def InterruptedCallback_def service_mgr_shutdown_def grpc_shutdown_def out_def
          data_source_close_def helper_close_def pool_ready_def pool_close_def Let_def)
qed

lemma signal_run:
  assumes "\<And>b w. fst (gl_build lib b w) = Server_started" "\<And>w. fst (gl_shutdown lib w)" "\<And>w. fst (gl_wait lib w)"
    and "app_svc a = Some s" "impl_alive s" "pool_ready (app_helper a)"
  shows "\<exists>a2 s2 rs m h. service_mgr_run drv clock lib [] (map Client_FetchId seeds @ Signal # map Client_FetchId later) a = Inr (LCT_SUCCESS, a2)
     \<and> map fst (app_replies a2) = map fst (app_replies a) @ seeds
     \<and> app_svc a2 = Some s2 \<and> \<not> isServing s2 \<and> gs_server s2 = Some True \<and> \<not> h_ready (app_helper a2) \<and> app_logger a2 = app_logger a
     \<and> answer_all (sid_env drv clock (app_ds a)) seeds (app_ids a) (app_helper a) = (rs, m, h)
     \<and> app_replies a2 = app_replies a @ rs \<and> h_world (app_helper a2) = h_world h"
proof -
  obtain g1 where g1: "gl_build lib (gs_builder s) (app_grpc a) = (Server_started, g1)" using assms(1) by (metis prod.collapse)
  let ?a1 = "a\<lparr>app_grpc := g1\<rparr>"
  let ?s = "s\<lparr>gs_server := Some False, gs_isServing := True\<rparr>"
  let ?t = "?s\<lparr>gs_server := Some True, gs_isServing := False\<rparr>"
  obtain a2 rs where a2: "sid_events drv clock lib (map Client_FetchId seeds) (?s, ?a1) = Inr (?s, a2)" "pool_ready (app_helper a2)"
    "map fst (app_replies a2) = map fst (app_replies a) @ seeds" "app_logger a2 = app_logger a"
    "answer_all (sid_env drv clock (app_ds a)) seeds (app_ids a) (app_helper a) = (rs, app_ids a2, app_helper a2)"
    "app_replies a2 = app_replies a @ rs"
    using fetch_events [of ?s ?a1 drv clock lib seeds] assms(6) by auto
  obtain a3 where a3: "sid_event_step drv clock lib Signal (?s, a2) = Inr (?t, a3)"
    "app_replies a3 = app_replies a2" "\<not> h_ready (app_helper a3)" "app_logger a3 = app_logger a2"
    "h_world (app_helper a3) = h_world (app_helper a2)"
    using signal_event [of ?s a2 lib drv clock, OF _ _ a2(2) assms(2)] by auto
  have d: "sid_events drv clock lib (map Client_FetchId seeds @ Signal # map Client_FetchId later) (?s, ?a1) = Inr (?t, a3)"
    using a2(1) a3(1) late_events [of ?t drv clock lib later a3] by (simp add: events_append)
  obtain g4 where g4: "gl_wait lib (app_grpc a3) = (True, g4)" using assms(3) by (metis prod.collapse)
  have "service_mgr_run drv clock lib [] (map Client_FetchId seeds @ Signal # map Client_FetchId later) a
      = Inr (LCT_SUCCESS, a3\<lparr>app_grpc := g4, app_svc := Some ?t\<rparr>)"
    using assms(4,5) g1 d g4 by (simp add: service_mgr_run_def grpc_serve_def app_lib_def on_grpc_def Let_def)
  then show ?thesis using a2(3-6) a3(2-5)
    by (intro exI [of _ "a3\<lparr>app_grpc := g4, app_svc := Some ?t\<rparr>"] exI [of _ ?t] exI [of _ rs] exI [of _ "app_ids a2"]
        exI [of _ "app_helper a2"]) (simp add: isServing_def)
qed

text \<open>
  C15: with a database pool that was set up and an RPC library that does what it is asked, a
  service that is running and is then signalled ends with success: every request that came
  before the signal has been answered, in order and as the remote procedure answers it, none that
  came later has, the server is shut down and the pool is closed.
\<close>

theorem signal_ends_service:
  assumes "\<And>b w. fst (gl_build lib b w) = Server_started" "\<And>w. fst (gl_shutdown lib w)" "\<And>w. fst (gl_wait lib w)"
    and "app_svc a = Some s" "impl_alive s" "pool_ready (app_helper a)"
  shows "\<exists>a2 s2. service_mgr_run drv clock lib [] (map Client_FetchId seeds @ Signal # map Client_FetchId later) a = Inr (LCT_SUCCESS, a2)
     \<and> map fst (app_replies a2) = map fst (app_replies a) @ seeds
     \<and> app_svc a2 = Some s2 \<and> \<not> isServing s2 \<and> gs_server s2 = Some True \<and> \<not> h_ready (app_helper a2)
     \<and> app_replies a2 = app_replies a @ fst (answer_all (sid_env drv clock (app_ds a)) seeds (app_ids a) (app_helper a))"
proof -
  obtain a2 s2 rs m h where *: "service_mgr_run drv clock lib [] (map Client_FetchId seeds @ Signal # map Client_FetchId later) a = Inr (LCT_SUCCESS, a2)"
    "map fst (app_replies a2) = map fst (app_replies a) @ seeds"
    "app_svc a2 = Some s2" "\<not> isServing s2" "gs_server s2 = Some True" "\<not> h_ready (app_helper a2)"
    "answer_all (sid_env drv clock (app_ds a)) seeds (app_ids a) (app_helper a) = (rs, m, h)" "app_replies a2 = app_replies a @ rs"
    using signal_run [OF assms(1-6), of drv clock seeds later] by blast
  show ?thesis by (intro exI [of _ a2] exI [of _ s2] conjI) (use * in \<open>simp_all only: fst_conv not_False_eq_True\<close>)
qed

text \<open>
  A signal that arrives after the server was started and before the flag is set finds nothing
  to shut down: the pool is closed and the service waits for ever.
\<close>

lemma early_signal_lost:
  assumes "\<And>b w. fst (gl_build lib b w) = Server_started" "app_svc a = Some s" "impl_alive s" "\<not> isServing s"
    "pool_ready (app_helper a)"
  shows "service_mgr_run drv clock lib [Signal] [] a = Inl Blocked"
proof -
  obtain g1 where g1: "gl_build lib (gs_builder s) (app_grpc a) = (Server_started, g1)" using assms(1) by (metis prod.collapse)
  then show ?thesis using assms(2-)
    by (auto simp: service_mgr_run_def grpc_serve_def app_lib_def on_grpc_def Let_def sid_event_step_def isServing_def
          InterruptedCallback_def service_mgr_shutdown_def grpc_shutdown_def out_def data_source_close_def helper_close_def
          pool_ready_def pool_close_def)
qed

section \<open>A service on the reference server\<close>

lemma engine_room_le:
  assumes "m \<le> n" "engine_wf g" "engine_room g n"
  shows "engine_room g m"
proof -
  have le: "int m * k \<le> int n * k" if "0 < k" for k using assms(1) that by (intro mult_right_mono) auto
  have "int m * Step (m_engineInfo g) \<le> int n * Step (m_engineInfo g)"
    "int m * PreallocSize (m_engineInfo g) \<le> int n * PreallocSize (m_engineInfo g)"
    by (rule le; use assms(2) in \<open>simp add: engine_wf_def\<close>)+
  then show ?thesis using assms(3) unfolding engine_room_def by linarith
qed

definition calm :: "(unit, 'r, nat, 'tbl ref_world) cass_helper \<Rightarrow> bool" where
  "calm h \<longleftrightarrow> pool_ready h \<and> rw_script (h_world h) = []"

abbreviation tbl_of :: "(unit, 'r, nat, 'tbl ref_world) cass_helper \<Rightarrow> 'tbl" where
  "tbl_of h \<equiv> rw_table (h_world h)"

lemma calm_execute:
  assumes "calm h" "exec (c_str cql) (tbl_of h) = Some (rows, t)"
  shows "\<exists>h1. helper_execute (ref_driver exec) ks cql h = Inr (LCT_SUCCESS, Some (no_result\<lparr>res_rows := rows\<rparr>), h1)
     \<and> calm h1 \<and> tbl_of h1 = t \<and> rw_day (h_world h1) = rw_day (h_world h) \<and> rw_ticks (h_world h1) = rw_ticks (h_world h)"
proof -
  obtain p where p: "h_pool h = Some p" "h_ready h" "h_concurrent h < h_limit h" "rw_script (h_world h) = []"
    using assms(1) by (auto simp: calm_def pool_ready_def)
  show ?thesis using p assms(2)
    by (cases "m_sessionMap p ks")
      (auto simp: helper_execute_def get_session_def pool_session_cases ref_driver_def ref_execute_def next_outcome_def
        cass_statement_new_def Let_def calm_def pool_ready_def)
qed

lemma calm_query:
  assumes "calm h" "tbl_of h (s, seed_type_val t) = None"
  shows "\<exists>h1. ds_query ref_env s t info h = (LCT_SUCCESS, info, h1) \<and> calm h1 \<and> tbl_of h1 = tbl_of h"
  using calm_execute [OF assms(1), of id_exec "id_select_cql ref_source s t" "[]" "tbl_of h" "ds_keyspace ref_source"]
    id_exec_select [OF plain_ref_source, of s t "tbl_of h"] assms(2)
  by (auto simp: ref_env_def sid_env_def data_source_query_def cass_query_def)

lemma calm_day:
  assumes "calm h"
  shows "\<exists>k h1. now_day ref_env h = (show_nat k, h1) \<and> calm h1 \<and> tbl_of h1 = tbl_of h"
  using assms by (auto simp: ref_env_def sid_env_def ref_clock_def Let_def calm_def pool_ready_def split: list.splits)

lemma calm_persist:
  assumes "calm h" "DayStamp info = show_nat k"
  shows "\<exists>h1. ds_persist ref_env s t info h = (LCT_SUCCESS, h1) \<and> calm h1 \<and> (\<forall>s' t'. s' \<noteq> s \<longrightarrow> tbl_of h1 (s', t') = tbl_of h (s', t'))"
proof -
  let ?t = "(tbl_of h)((s, seed_type_val t) \<mapsto> (case tbl_of h (s, seed_type_val t) of None \<Rightarrow> null_row | Some r \<Rightarrow> r)
         \<lparr>col_prealloc_valve := Some (PreallocValve info), col_prealloc_time := Some (DayStamp info)\<rparr>)"
  have "id_exec (c_str (id_update_cql ref_source s t info)) (tbl_of h) = Some ([], ?t)"
    by (rule id_exec_update [OF plain_ref_source]) (simp add: assms(2) clean_show_nat)
  from calm_execute [where exec = id_exec and ks = "ds_keyspace ref_source", OF assms(1) this] show ?thesis
    by (auto simp: ref_env_def sid_env_def data_source_persist_def cass_update_def)
qed

lemma calm_start:
  assumes "calm h" "tbl_of h (s, 2) = None"
  shows "\<exists>g h1. mgr_start_engine ref_env s [mmap] h = (LCT_SUCCESS, [mmap(s \<mapsto> g)], h1) \<and> engine_wf g \<and> engine_room g 1000
     \<and> calm h1 \<and> (\<forall>s' t'. s' \<noteq> s \<longrightarrow> tbl_of h1 (s', t') = tbl_of h (s', t'))"
proof -
  let ?g = "new_day_switch_engine s"
  obtain h1 where 1: "ds_query ref_env s SEED_TYPE_DAY_SWITCH new_engine_info h = (LCT_SUCCESS, new_engine_info, h1)"
    "calm h1" "tbl_of h1 = tbl_of h"
    using calm_query [OF assms(1), of s SEED_TYPE_DAY_SWITCH new_engine_info] assms(2) by (auto simp: seed_type_val_def)
  obtain k h2 where 2: "now_day ref_env h1 = (show_nat k, h2)" "calm h2" "tbl_of h2 = tbl_of h1" using calm_day [OF 1(2)] by blast
  let ?i = "new_engine_info\<lparr>CurrentId := 0, DayStamp := show_nat k, PreallocValve := 100\<rparr>"
  obtain h3 where 3: "ds_persist ref_env s SEED_TYPE_DAY_SWITCH ?i h2 = (LCT_SUCCESS, h3)" "calm h3"
    "\<forall>s' t'. s' \<noteq> s \<longrightarrow> tbl_of h3 (s', t') = tbl_of h2 (s', t')"
    using calm_persist [OF 2(2), of ?i k s SEED_TYPE_DAY_SWITCH] by auto
  have "mgr_start_engine ref_env s [mmap] h = (LCT_SUCCESS, [mmap(s \<mapsto> ?g\<lparr>m_engineInfo := ?i\<rparr>)], h3)"
    using 1(1) 2(1) 3(1)
    by (simp add: mgr_start_engine_def engine_init_def readPersistance_def reallocValve_def persist_def appendEngine_def
        new_day_switch_engine_def new_engine_info_def to_i64_nonneg Let_def)
  moreover have "engine_wf (?g\<lparr>m_engineInfo := ?i\<rparr>)" "engine_room (?g\<lparr>m_engineInfo := ?i\<rparr>) 1000"
    by (simp_all add: engine_wf_def engine_room_def new_day_switch_engine_def new_engine_info_def)
  ultimately show ?thesis using 1(3) 2(3) 3(2,3) by auto
qed

lemma calm_mgr_init:
  assumes "calm h" "tbl_of h = Map.empty"
  shows "\<exists>m h1. mgr_init ref_env new_id_manager h = (LCT_SUCCESS, m, h1) \<and> engines_wf 1000 m \<and> calm h1"
proof -
  obtain g1 h1 where 1: "mgr_start_engine ref_env 1001 [Map.empty] h = (LCT_SUCCESS, [Map.empty(1001 \<mapsto> g1)], h1)"
    "engine_wf g1" "engine_room g1 1000" "calm h1" "\<And>s' t'. s' \<noteq> 1001 \<Longrightarrow> tbl_of h1 (s', t') = None"
    using calm_start [OF assms(1), of 1001 Map.empty] assms(2) by auto
  obtain g2 h2 where 2: "mgr_start_engine ref_env 1002 [Map.empty(1001 \<mapsto> g1)] h1 = (LCT_SUCCESS, [Map.empty(1001 \<mapsto> g1, 1002 \<mapsto> g2)], h2)"
    "engine_wf g2" "engine_room g2 1000" "calm h2" "\<And>s' t'. s' \<noteq> 1001 \<Longrightarrow> s' \<noteq> 1002 \<Longrightarrow> tbl_of h2 (s', t') = None"
    using calm_start [OF 1(4), of 1002 "Map.empty(1001 \<mapsto> g1)"] 1(5) by auto
  obtain g3 h3 where 3: "mgr_start_engine ref_env 1003 [Map.empty(1001 \<mapsto> g1, 1002 \<mapsto> g2)] h2
      = (LCT_SUCCESS, [Map.empty(1001 \<mapsto> g1, 1002 \<mapsto> g2, 1003 \<mapsto> g3)], h3)"
    "engine_wf g3" "engine_room g3 1000" "calm h3"
    using calm_start [OF 2(4), of 1003 "Map.empty(1001 \<mapsto> g1, 1002 \<mapsto> g2)"] 2(5) by auto
  have "mgr_init ref_env new_id_manager h = (LCT_SUCCESS, [Map.empty(1001 \<mapsto> g1, 1002 \<mapsto> g2, 1003 \<mapsto> g3)], h3)"
    using 1(1) 2(1) 3(1) by (simp add: mgr_init_def new_id_manager_def LCT_EVENT_ENGINE_SEED_ID_def
        LCT_TASKS_ENGINE_SEED_ID_def LCT_MODEL_ENGINE_SEED_ID_def)
  moreover have "engines_wf 1000 [Map.empty(1001 \<mapsto> g1, 1002 \<mapsto> g2, 1003 \<mapsto> g3)]"
    using 1(2,3) 2(2,3) 3(2,3) by (auto simp: engines_wf_def ran_def split: if_splits)
  ultimately show ?thesis using 3(4) by blast
qed

definition ok_lib :: "unit grpc_lib" where
  "ok_lib = \<lparr>gl_call = \<lambda>c w. (True, w), gl_build = \<lambda>b w. (Server_started, w), gl_wait = \<lambda>w. (True, w), gl_shutdown = \<lambda>w. (True, w)\<rparr>"

definition svc_entries :: "(string \<times> string) list" where
  "svc_entries = [(''Poi.Correlate.Id.Service.Port'', ''10086''), (''Poi.Correlate.Id.Service.Ip'', ''0.0.0.0''),
     (''Poi.Correlate.Id.Database.Port'', ''9042''), (''Poi.Correlate.Id.Database.Ip'', ''db''),
     (''Poi.Correlate.Id.Database.Table.Name'', ''ids''), (''Poi.Correlate.Id.Database.keyspace'', ''ks'')]"

definition demo_cfg :: sid_config where
  "demo_cfg = \<lparr>cfg_servicePort = 10086, cfg_databasePort = 9042, cfg_serviceIp = ''0.0.0.0'', cfg_databaseIp = ''db'',
     cfg_databaseName = [], cfg_databaseTableName = ''ids'', cfg_keyspace = ''ks'', cfg_logDir = []\<rparr>"

definition demo_app :: "(unit, nat, id_tbl ref_world, unit) sid_app" where
  "demo_app = (new_sid_app (ref_world_of Map.empty [] []) ()
       \<lparr>h_files = [''cfg'' \<mapsto> render svc_entries], h_out = [], h_step = 0\<rparr>)\<lparr>app_cfg := demo_cfg\<rparr>"

lemma demo_app_starts:
  "\<exists>a1 s. service_mgr_init (ref_driver id_exec) ref_clock ok_lib demo_app = (LCT_SUCCESS, a1) \<and> app_ds a1 = ref_source
     \<and> engines_wf 1000 (app_ids a1) \<and> app_svc a1 = Some s \<and> impl_alive s \<and> \<not> isServing s \<and> pool_ready (app_helper a1)
     \<and> app_replies a1 = []"
proof -
  let ?h = "snd (helper_init 9042 ''db'' (app_helper demo_app))"
  have h: "calm ?h" "tbl_of ?h = Map.empty"
    by (simp_all add: demo_app_def new_sid_app_def helper_init_def new_cass_helper_def calm_def pool_ready_def ref_world_of_def
        CASSANDRA_MAX_LIMIT_DEFAULT_SIZE_def Let_def)
  obtain m h1 where m: "mgr_init ref_env new_id_manager ?h = (LCT_SUCCESS, m, h1)" "engines_wf 1000 m" "calm h1"
    using calm_mgr_init [OF h] by blast
  obtain svc where g: "grpc_init ok_lib (new_grpc_service 10086 ''0.0.0.0'') () = (LCT_SUCCESS, svc, ())" "impl_alive svc" "\<not> isServing svc"
    by (simp add: grpc_init_def settings_calls_def new_grpc_service_def fresh_impl_def ok_lib_def impl_alive_def isServing_def Let_def)
  have d: "data_source_init 9042 ''db'' ''ks'' ''ids'' (app_ds demo_app) (app_helper demo_app) = (LCT_SUCCESS, ref_source, ?h)"
    by (simp add: data_source_init_def helper_init_def demo_app_def new_sid_app_def new_data_source_def ref_source_def Let_def)
  have f: "app_cfg demo_app = demo_cfg" "app_ids demo_app = new_id_manager" "app_svc demo_app = None"
    "app_grpc demo_app = ()" "app_replies demo_app = []"
    by (simp_all add: demo_app_def new_sid_app_def)
  have p: "to_u16 10086 = 10086" by (simp add: to_u16_id)
  have "service_mgr_init (ref_driver id_exec) ref_clock ok_lib demo_app
      = (LCT_SUCCESS, demo_app\<lparr>app_ds := ref_source, app_helper := h1, app_ids := m, app_svc := Some svc, app_grpc := ()\<rparr>)"
    using m(1) g(1) d by (simp add: service_mgr_init_def f demo_cfg_def ref_env_def p Let_def)
  then show ?thesis using m(2,3) g(2,3) f by (auto simp: calm_def)
qed


theorem signal_ends_service_witness:
  "\<exists>a1 a2. service_mgr_init (ref_driver id_exec) ref_clock ok_lib demo_app = (LCT_SUCCESS, a1)
     \<and> service_mgr_run (ref_driver id_exec) ref_clock ok_lib [] [Client_FetchId 1001, Client_FetchId 7, Signal, Client_FetchId 1002] a1
         = Inr (LCT_SUCCESS, a2)
     \<and> map fst (app_replies a2) = [1001, 7]"
proof -
  obtain a1 s where a1: "service_mgr_init (ref_driver id_exec) ref_clock ok_lib demo_app = (LCT_SUCCESS, a1)"
    "app_svc a1 = Some s" "impl_alive s" "pool_ready (app_helper a1)" "app_replies a1 = []"
    using demo_app_starts by blast
  have lib: "\<And>b w. fst (gl_build ok_lib b w) = Server_started" "\<And>w. fst (gl_shutdown ok_lib w)" "\<And>w. fst (gl_wait ok_lib w)"
    by (simp_all add: ok_lib_def)
  show ?thesis
    using signal_ends_service [OF lib a1(2-4), of "ref_driver id_exec" ref_clock "[1001, 7]" "[1002]"] a1(1,5) by auto
qed

end
