(* ===== verification/Id_Main_Correct.thy ===== *)
theory Id_Main_Correct
  imports Id_Service_Correct
begin

text \<open>
  The program of the id service as a whole: what the configuration file says reaches the parts,
  a boot with a configuration file serves until it is signalled and exits with 0, and a boot
  without one always fails.
\<close>

section \<open>The configuration file\<close>

text \<open>The text and the number of a key among entries, the last one counting.\<close>

definition entry_text :: "(string \<times> string) list \<Rightarrow> string \<Rightarrow> string" where
  "entry_text kvs k = (case entries_map kvs Map.empty k of Some v \<Rightarrow> v | None \<Rightarrow> [])"

definition entry_port :: "(string \<times> string) list \<Rightarrow> string \<Rightarrow> int" where
  "entry_port kvs k = (case entries_map kvs Map.empty k of
     Some v \<Rightarrow> (case std_stoi v of Inr n \<Rightarrow> to_u16 n | Inl _ \<Rightarrow> 0) | None \<Rightarrow> 0)"

lemma to_u16_0 [simp]: "to_u16 0 = 0"
  by (simp add: to_u16_id)

lemma getString_entry: "getString (p\<lparr>m_properties := entries_map kvs Map.empty\<rparr>) k [] = entry_text kvs k"
  by (simp add: getString_def getValue_def entry_text_def split: option.splits)

lemma getInt32_entry: "to_u16 (getInt32 (p\<lparr>m_properties := entries_map kvs Map.empty\<rparr>) k 0) = entry_port kvs k"
  by (simp add: getInt32_def getValue_def entry_port_def split: option.splits sum.splits)

lemma parse_rendered:
  assumes "\<forall>kv \<in> set kvs. plain_entry kv" "fs path = Some (render kvs)"
  shows "properties_parse fs (new_properties path) =
     (LCT_SUCCESS, (new_properties path)\<lparr>m_properties := entries_map kvs Map.empty\<rparr>)"
  using parse_lines_render [OF assms(1), of "[]" Map.empty] assms(2)
  by (simp add: properties_parse_def new_properties_def parse_lines_nil)

text \<open>
  C29: a configuration file written as \<open>key = value\<close> lines sets every member to the last value
  of its key, ports reduced to 16 bits, and members whose key is missing to 0 or the empty text.
\<close>

theorem config_reads_file:
  assumes "\<forall>kv \<in> set kvs. plain_entry kv" "files path = Some (render kvs)"
  shows "sid_config_init files path cfg = (LCT_SUCCESS,
     \<lparr>cfg_servicePort = entry_port kvs ''Poi.Correlate.Id.Service.Port'',
      cfg_databasePort = entry_port kvs ''Poi.Correlate.Id.Database.Port'',
      cfg_serviceIp = entry_text kvs ''Poi.Correlate.Id.Service.Ip'',
      cfg_databaseIp = entry_text kvs ''Poi.Correlate.Id.Database.Ip'',
      cfg_databaseName = entry_text kvs ''Poi.Correlate.Id.Database.Name'',
      cfg_databaseTableName = entry_text kvs ''Poi.Correlate.Id.Database.Table.Name'',
      cfg_keyspace = entry_text kvs ''Poi.Correlate.Id.Database.keyspace'',
      cfg_logDir = entry_text kvs ''Poi.Correlate.Id.Log.Dir''\<rparr>)"
  using parse_rendered [of kvs files path, OF assms] by (simp add: sid_config_init_def getString_entry getInt32_entry)

lemma svc_entries_plain: "\<forall>kv \<in> set svc_entries. plain_entry kv"
  by (simp add: svc_entries_def plain_entry_def plain_text_def default_delc_def)

lemma stoi_examples: "std_stoi ''10086'' = Inr 10086" "std_stoi ''9042'' = Inr 9042"
  by code_simp+

lemma svc_entries_values:
  "entry_port svc_entries ''Poi.Correlate.Id.Service.Port'' = 10086"
  "entry_port svc_entries ''Poi.Correlate.Id.Database.Port'' = 9042"
  "entry_text svc_entries ''Poi.Correlate.Id.Service.Ip'' = ''0.0.0.0''"
  "entry_text svc_entries ''Poi.Correlate.Id.Database.Ip'' = ''db''"
  "entry_text svc_entries ''Poi.Correlate.Id.Database.Name'' = []"
  "entry_text svc_entries ''Poi.Correlate.Id.Database.Table.Name'' = ''ids''"
  "entry_text svc_entries ''Poi.Correlate.Id.Database.keyspace'' = ''ks''"
  "entry_text svc_entries ''Poi.Correlate.Id.Log.Dir'' = []"
  by (simp_all add: entry_port_def entry_text_def entries_map_def svc_entries_def stoi_examples to_u16_id)

theorem config_reads_file_witness:
  "\<exists>cfg. sid_config_init [''cfg'' \<mapsto> render svc_entries] ''cfg'' new_sid_config = (LCT_SUCCESS, cfg)
     \<and> cfg_servicePort cfg = 10086 \<and> cfg_keyspace cfg = ''ks'' \<and> cfg_logDir cfg = []"
  using config_reads_file [OF svc_entries_plain, of "[''cfg'' \<mapsto> render svc_entries]" "''cfg''" new_sid_config]
  by (simp add: svc_entries_values)

text \<open>The file that is delivered with the program has other keys: it configures nothing.\<close>

definition shipped_entries :: "(string \<times> string) list" where
  "shipped_entries = [(''Lct.Id.Service.Port'', ''10086''), (''Lct.Id.Service.Ip'', ''0.0.0.0''),
     (''Lct.Id.Service.Host'', ''lct-id-service.default''), (''Lct.Id.Database.Port'', ''9042''),
     (''Lct.Id.Database.Ip'', ''cassandra-0.cassandra.infra.svc.cluster.local''), (''Lct.Id.Database.Name'', ''poi''),
     (''Lct.Id.Database.Table.Name'', ''lct_unique_id''), (''Lct.Id.Database.keyspace'', ''lct_unique_id''),
     (''Lct.Id.Log.Dir'', ''/lct_service/log'')]"

lemma shipped_keys_configure_nothing:
  "entry_port shipped_entries ''Poi.Correlate.Id.Service.Port'' = 0"
  "entry_text shipped_entries ''Poi.Correlate.Id.Database.Ip'' = []"
  "entry_text shipped_entries ''Poi.Correlate.Id.Database.keyspace'' = []"
  "entry_text shipped_entries ''Poi.Correlate.Id.Log.Dir'' = []"
  by (simp_all add: entry_port_def entry_text_def entries_map_def shipped_entries_def)

section \<open>Booting\<close>

lemma service_mgr_init_frame:
  "service_mgr_init drv clock lib (a\<lparr>app_host := h, app_logcfg := lc, app_logger := l\<rparr>) =
     (case service_mgr_init drv clock lib a of (e, b) \<Rightarrow> (e, b\<lparr>app_host := h, app_logcfg := lc, app_logger := l\<rparr>))"
  by (simp add: service_mgr_init_def Let_def split: prod.splits option.splits)

lemma print_out_files [simp]: "h_files (print_out t h) = h_files h"
  by (simp add: print_out_def)

lemma out_parts [simp]: "app_logger (out t a) = app_logger a" "app_replies (out t a) = app_replies a"
  "app_svc (out t a) = app_svc a" "app_helper (out t a) = app_helper a" "app_cfg (out t a) = app_cfg a"
  "app_logcfg (out t a) = app_logcfg a" "app_ids (out t a) = app_ids a" "app_ds (out t a) = app_ds a"
  "h_files (app_host (out t a)) = h_files (app_host a)"
  by (simp_all add: out_def)

lemma out_update: "out t a = a\<lparr>app_host := print_out t (app_host a)\<rparr>"
  by (simp add: out_def)

text \<open>
  Without a configuration file on the command line the path given to the logger is empty, and
  the boot ends with the code \<open>LCT_FAIL\<close> before anything is served, whatever the default
  file holds.
\<close>

lemma default_boot_fails:
  assumes "h_files (app_host a) [] = None"
  shows "\<exists>a1. service_main env nm drv clock lib early during [exe] a = Inr (1, a1) \<and> app_svc a1 = app_svc a
     \<and> app_replies a1 = app_replies a"
proof -
  have f: "log_config_init [] c h = (LCT_FAIL, c, print_out (''Failed to parse Lct Log properties file('' @ [] @ '') due to error(''
            @ ErrCodeFormat LCT_FAIL @ '')'' @ [CHR 0x0A]) h)" if "h_files h = h_files (app_host a)" for c h
    using assms that by (simp add: log_config_init_def properties_parse_def new_properties_def)
  show ?thesis
  proof (cases "h_files (app_host a) CONFIG_FILE_DEFAULT_PATH")
    case None
    then show ?thesis
      by (simp add: service_main_def argvHandle_def sid_config_init_def properties_parse_def new_properties_def Let_def out_def)
  next
    case (Some content)
    then obtain cfg where "sid_config_init (h_files (app_host a)) CONFIG_FILE_DEFAULT_PATH (app_cfg a) = (LCT_SUCCESS, cfg)"
      by (simp add: sid_config_init_def properties_parse_def new_properties_def)
    then show ?thesis by (simp add: service_main_def argvHandle_def logger_init_file_def f Let_def out_def)
  qed
qed

text \<open>The whole run: the replies and the world are those of the requests alone.\<close>

lemma main_run:
  assumes "path \<noteq> []" "sid_config_init (h_files (app_host a)) path (app_cfg a) = (LCT_SUCCESS, cfg)" "cfg_logDir cfg = []"
    and "app_logger a = new_logger" "service_mgr_init drv clock lib (a\<lparr>app_cfg := cfg\<rparr>) = (LCT_SUCCESS, b)"
    and "app_svc b = Some s" "impl_alive s" "pool_ready (app_helper b)"
    and "\<And>b w. fst (gl_build lib b w) = Server_started" "\<And>w. fst (gl_shutdown lib w)" "\<And>w. fst (gl_wait lib w)"
  shows "\<exists>a1 s1 rs m h. service_main env nm drv clock lib [] (map Client_FetchId seeds @ [Signal]) [exe, ''-f'', path] a = Inr (0, a1)
     \<and> map fst (app_replies a1) = map fst (app_replies b) @ seeds \<and> app_svc a1 = Some s1 \<and> \<not> isServing s1
     \<and> \<not> h_ready (app_helper a1) \<and> \<not> lg_isInitiated (app_logger a1)
     \<and> answer_all (sid_env drv clock (app_ds b)) seeds (app_ids b) (app_helper b) = (rs, m, h)
     \<and> app_replies a1 = app_replies b @ rs \<and> h_world (app_helper a1) = h_world h"
proof -
  obtain rs m h where A: "answer_all (sid_env drv clock (app_ds b)) seeds (app_ids b) (app_helper b) = (rs, m, h)" by (metis prod_cases3)
  let ?f = "h_files (app_host a)"
  obtain content where c: "?f path = Some content"
    using assms(2) by (auto simp: sid_config_init_def properties_parse_def new_properties_def split: option.splits)
  obtain lc where lc: "\<And>h. h_files h = ?f \<Longrightarrow> \<exists>h1. log_config_init path (app_logcfg a) h = (LCT_SUCCESS, lc, h1)"
    using c by (simp add: log_config_init_def properties_parse_def new_properties_def)
  have nl: "sp_worker (lg_sinkPool new_logger) = No_thread" "sp_isAsyncSink (lg_sinkPool new_logger)"
    by (simp_all add: new_logger_def initLogLevelByDefault_def new_sink_pool_def)
  obtain l1 where l1: "\<And>h. logger_init env nm lc [] LOG_ROTATE_FILE_MAX_SIZE LOG_ROTATE_FILE_MAX_COUNT new_logger h = Inr (LCT_SUCCESS, l1, h)"
    "sp_worker (lg_sinkPool l1) = Joinable"
    using nl by (simp add: logger_init_def initLogLevel_def initFormatter_def rectified_path_def initSinks_def
        appendTerminalSink_def sp_start_def Let_def)
  have li: "\<exists>h1. logger_init_file env nm [] path LOG_ROTATE_FILE_MAX_SIZE LOG_ROTATE_FILE_MAX_COUNT (app_logcfg a) new_logger h
      = Inr (LCT_SUCCESS, lc, l1, h1)" if "h_files h = ?f" for h
    using lc [OF that] l1(1) by (auto simp: logger_init_file_def)
  obtain l2 where l2: "logger_close l1 = Inr (LCT_SUCCESS, l2)" "\<not> lg_isInitiated l2"
    using l1(2) by (simp add: logger_close_def sp_stop_def Let_def)
  have serve: "\<exists>a1 s1. main_serve drv clock lib [] (map Client_FetchId seeds @ [Signal]) (a\<lparr>app_cfg := cfg, app_host := h0, app_logcfg := lc, app_logger := l1\<rparr>)
      = Inr (0, a1) \<and> map fst (app_replies a1) = map fst (app_replies b) @ seeds \<and> app_svc a1 = Some s1 \<and> \<not> isServing s1
     \<and> \<not> h_ready (app_helper a1) \<and> \<not> lg_isInitiated (app_logger a1)
     \<and> app_replies a1 = app_replies b @ rs \<and> h_world (app_helper a1) = h_world h" for h0
  proof -
    let ?b = "b\<lparr>app_host := h0, app_logcfg := lc, app_logger := l1\<rparr>"
    let ?c = "out (''lowcost IVA Unique Id Service finished initiation and start running......'' @ endl) ?b"
    have i: "service_mgr_init drv clock lib (a\<lparr>app_cfg := cfg, app_host := h0, app_logcfg := lc, app_logger := l1\<rparr>) = (LCT_SUCCESS, ?b)"
      by (simp add: service_mgr_init_frame [where a = "a\<lparr>app_cfg := cfg\<rparr>", simplified] assms(5))
    obtain a2 s2 where r: "service_mgr_run drv clock lib [] (map Client_FetchId seeds @ Signal # map Client_FetchId []) ?c = Inr (LCT_SUCCESS, a2)"
      "map fst (app_replies a2) = map fst (app_replies b) @ seeds" "app_svc a2 = Some s2" "\<not> isServing s2" "\<not> h_ready (app_helper a2)"
      "app_logger a2 = l1" "app_replies a2 = app_replies b @ rs" "h_world (app_helper a2) = h_world h"
      using signal_run [OF assms(9-11), of ?c s drv clock seeds "[]"] assms(6-8) A by auto
    show ?thesis using i r l2 by (simp add: main_serve_def Let_def)
  qed
  have "\<exists>h. service_main env nm drv clock lib [] (map Client_FetchId seeds @ [Signal]) [exe, ''-f'', path] a
      = main_serve drv clock lib [] (map Client_FetchId seeds @ [Signal]) (a\<lparr>app_cfg := cfg, app_host := h, app_logcfg := lc, app_logger := l1\<rparr>)"
  proof -
    let ?h = "print_out (''Successful to init SID Config Manager'' @ endl) (print_out (endl @ ''**********************lowcost IVA Unique Id Service**********************'' @ endl
                    @ ''Booting up lowcost IVA Unique Id Service ......'' @ endl
                    @ ''Start initiating lowcost IVA Unique Id Service......'' @ endl) (app_host a))"
    obtain h1 where h1: "logger_init_file env nm [] path LOG_ROTATE_FILE_MAX_SIZE LOG_ROTATE_FILE_MAX_COUNT (app_logcfg a) new_logger ?h
        = Inr (LCT_SUCCESS, lc, l1, h1)" using li [of ?h] by auto
    show ?thesis using assms(1-4) h1
      by (intro exI [of _ "print_out (''Successful to init IVA Log System'' @ endl) h1"])
        (cases a, simp add: service_main_def argvHandle_def Let_def out_update)
  qed
  then show ?thesis using serve A by metis
qed

text \<open>
  C13: with a configuration file given by \<open>-f\<close>, no log directory in it, a database that lets the
  engines start and an RPC library that does what it is asked, the program serves until it is
  signalled: it answers all requests in order, closes server, pool and log, and exits with 0.
\<close>

theorem main_serves_until_signalled:
  assumes "path \<noteq> []" "sid_config_init (h_files (app_host a)) path (app_cfg a) = (LCT_SUCCESS, cfg)" "cfg_logDir cfg = []"
    and "app_logger a = new_logger" "service_mgr_init drv clock lib (a\<lparr>app_cfg := cfg\<rparr>) = (LCT_SUCCESS, b)"
    and "app_svc b = Some s" "impl_alive s" "pool_ready (app_helper b)"
    and "\<And>b w. fst (gl_build lib b w) = Server_started" "\<And>w. fst (gl_shutdown lib w)" "\<And>w. fst (gl_wait lib w)"
  shows "\<exists>a1 s1. service_main env nm drv clock lib [] (map Client_FetchId seeds @ [Signal]) [exe, ''-f'', path] a = Inr (0, a1)
     \<and> map fst (app_replies a1) = map fst (app_replies b) @ seeds \<and> app_svc a1 = Some s1 \<and> \<not> isServing s1
     \<and> \<not> h_ready (app_helper a1) \<and> \<not> lg_isInitiated (app_logger a1)"
proof -
  show ?thesis using main_run [OF assms, of env nm seeds exe] by blast
qed

lemma demo_config: "sid_config_init (h_files (app_host demo_app)) ''cfg'' (app_cfg demo_app) = (LCT_SUCCESS, demo_cfg)"
proof -
  have f: "h_files (app_host demo_app) ''cfg'' = Some (render svc_entries)" by (simp add: demo_app_def new_sid_app_def)
  show ?thesis using parse_rendered [of svc_entries "h_files (app_host demo_app)" "''cfg''", OF svc_entries_plain f]
    by (simp add: sid_config_init_def getString_entry getInt32_entry svc_entries_values demo_cfg_def)
qed

theorem main_serves_until_signalled_witness:
  "\<exists>a1. service_main quiet_env ''svc'' (ref_driver id_exec) ref_clock ok_lib [] (map Client_FetchId [1001, 1002, 1001] @ [Signal])
       [''lct_id_service'', ''-f'', ''cfg''] demo_app = Inr (0, a1) \<and> map fst (app_replies a1) = [1001, 1002, 1001]"
proof -
  obtain b s where b: "service_mgr_init (ref_driver id_exec) ref_clock ok_lib demo_app = (LCT_SUCCESS, b)"
    "app_svc b = Some s" "impl_alive s" "pool_ready (app_helper b)" "app_replies b = []"
    using demo_app_starts by blast
  have lib: "\<And>b w. fst (gl_build ok_lib b w) = Server_started" "\<And>w. fst (gl_shutdown ok_lib w)" "\<And>w. fst (gl_wait ok_lib w)"
    by (simp_all add: ok_lib_def)
  have i: "service_mgr_init (ref_driver id_exec) ref_clock ok_lib (demo_app\<lparr>app_cfg := demo_cfg\<rparr>) = (LCT_SUCCESS, b)"
    using b(1) by (simp add: demo_app_def)
  have l: "cfg_logDir demo_cfg = []" "app_logger demo_app = new_logger" by (simp_all add: demo_cfg_def demo_app_def new_sid_app_def)
  show ?thesis
    using main_serves_until_signalled [OF _ demo_config l i b(2-4) lib, of quiet_env "''svc''" "[1001, 1002, 1001]" "''lct_id_service''"] b(5)
    by auto
qed

end
