(* ===== verification/Version_Manager.thy ===== *)
theory Version_Manager
  imports File_Helper String_Util Properties_File
begin

text \<open>
  \<open>version/version_manager.h/.cpp\<close> and \<open>version/maintainer.cpp\<close>: the tool that reads the version
  numbers out of \<open>version.h\<close>, increments or sets them and writes the file again.  Its copies of
  \<open>Split\<close> and \<open>Trim\<close> are those of \<open>String_Util\<close>.  Files and console are those of the host, whose
  answer to each call (open, flush, remove, rename) is an argument.  \<open>e.what()\<close> of a failed
  conversion is the text of the C++ library.
\<close>

section \<open>The parser\<close>

record version_info =
  vi_Value :: int
  vi_Key :: string

record version_parser =
  m_versionFile :: string
  m_versionMap :: "version_info list"

definition DEFAULT_VERSION_FILE :: string where "DEFAULT_VERSION_FILE = ''./common/version.h''"

definition new_version_parser :: version_parser where
  "new_version_parser = \<lparr>m_versionFile = [], m_versionMap = []\<rparr>"

definition IsVersionInfoLine :: "string \<Rightarrow> bool" where
  "IsVersionInfoLine line \<longleftrightarrow> str_find line ''constexpr'' 0 \<noteq> None"

text \<open>An input file stream: its text if the file could be opened.\<close>

definition ifs_open :: "host_env \<Rightarrow> string \<Rightarrow> host \<Rightarrow> string option \<times> host" where
  "ifs_open env path h = (case sys_call env h of (e, h1) \<Rightarrow> (if e \<noteq> 0 then None else h_files h1 path, h1))"

definition std_remove :: "host_env \<Rightarrow> string \<Rightarrow> host \<Rightarrow> bool \<times> host" where
  "std_remove env path h = (case sys_call env h of (e, h1) \<Rightarrow>
     if e \<noteq> 0 \<or> h_files h1 path = None then (False, h1) else (True, h1\<lparr>h_files := (h_files h1)(path := None)\<rparr>))"

definition std_rename :: "host_env \<Rightarrow> string \<Rightarrow> string \<Rightarrow> host \<Rightarrow> bool \<times> host" where
  "std_rename env src target h = (case sys_call env h of (e, h1) \<Rightarrow>
     if e \<noteq> 0 \<or> h_files h1 src = None then (False, h1)
     else (True, h1\<lparr>h_files := (h_files h1)(src := None, target := h_files h1 src)\<rparr>))"

text \<open>What \<open>Trim(value, " \t\r\n;")\<close> removes.\<close>

definition value_delc :: string where "value_delc = [CHR '' '', CHR 0x09, CHR 0x0D, CHR 0x0A, CHR '';'']"

definition stoi_what :: string where "stoi_what = ''stoi''"

text \<open>One line: the new map, or the exception of \<open>stoi\<close>.\<close>

definition version_line :: "string \<Rightarrow> version_info list \<Rightarrow> version_info list res" where
  "version_line buf vs =
     (case getline_str (CHR ''='') (Trim (c_str buf) default_delc) of
        None \<Rightarrow> Inr vs
      | Some (key, rest) \<Rightarrow>
          if \<not> IsVersionInfoLine key then Inr vs
          else (case rest of
             None \<Rightarrow> Inr vs
           | Some r \<Rightarrow> (case getline_str (CHR 0x0A) r of
               None \<Rightarrow> Inr vs
             | Some (value, _) \<Rightarrow>
                 res_bind (std_stoi (Trim value value_delc)) (\<lambda>k. Inr (vs @ [\<lparr>vi_Value = to_i16 k, vi_Key = key\<rparr>])))))"

text \<open>The loop: the map it has built when it ends, and whether it ended without an exception.\<close>

function version_lines :: "string \<Rightarrow> version_info list \<Rightarrow> bool \<times> version_info list" where
  "version_lines s vs = (case getline_buf 512 s of
     None \<Rightarrow> (True, vs)
   | Some (l, r) \<Rightarrow> (case version_line l vs of Inl _ \<Rightarrow> (False, vs) | Inr vs1 \<Rightarrow> version_lines r vs1))"
  by pat_completeness auto

termination by (relation "measure (\<lambda>(s, m). length s)") (auto dest: getline_buf_shorter)

declare version_lines.simps [simp del]

definition version_parse :: "host_env \<Rightarrow> version_parser \<Rightarrow> host \<Rightarrow> bool \<times> version_parser \<times> host" where
  "version_parse env p h =
     (case ifs_open env (m_versionFile p) h of
        (None, h1) \<Rightarrow> (False, p, print_out (''Failed to open file('' @ m_versionFile p @ '')'' @ [CHR 0x0A]) h1)
      | (Some content, h1) \<Rightarrow> (case version_lines content (m_versionMap p) of (ok, vs) \<Rightarrow>
          (ok, p\<lparr>m_versionMap := vs\<rparr>, if ok then h1 else print_out ('' e.what('' @ stoi_what @ '')'' @ [CHR 0x0A]) h1)))"

definition version_init :: "host_env \<Rightarrow> string \<Rightarrow> version_parser \<Rightarrow> host \<Rightarrow> bool \<times> version_parser \<times> host" where
  "version_init env versionFile p h =
     (case version_parse env (p\<lparr>m_versionFile := versionFile\<rparr>) h of (errCode, p1, h1) \<Rightarrow>
       if errCode \<noteq> True then (errCode, p1, print_out (''Failed to parse version file'' @ [CHR 0x0A]) h1)
       else (errCode, p1, h1))"

section \<open>Writing the file again\<close>

text \<open>
  One line of \<open>persist\<close>: what is written and the versions left; a version line when none is left
  reads past the end of the vector.
\<close>

definition persist_line :: "string \<Rightarrow> version_info list \<Rightarrow> (string \<times> version_info list) res" where
  "persist_line buf its =
     (case getline_str (CHR 0x0A) (Trim (c_str buf) default_delc) of
        None \<Rightarrow> Inr ([CHR 0x0A], its)
      | Some (key, _) \<Rightarrow>
          if IsVersionInfoLine key then
            (case its of
               [] \<Rightarrow> Inl Undefined
             | it # its1 \<Rightarrow> Inr (vi_Key it @ ''= '' @ to_string (vi_Value it) @ '';'' @ [CHR 0x0A], its1))
          else Inr (key @ [CHR 0x0A], its))"

function persist_lines :: "string \<Rightarrow> version_info list \<Rightarrow> string res" where
  "persist_lines s its = (case getline_buf 512 s of
     None \<Rightarrow> Inr []
   | Some (l, r) \<Rightarrow> res_bind (persist_line l its) (\<lambda>(t, its1). res_bind (persist_lines r its1) (\<lambda>ts. Inr (t @ ts))))"
  by pat_completeness auto

termination by (relation "measure (\<lambda>(s, m). length s)") (auto dest: getline_buf_shorter)

declare persist_lines.simps [simp del]

text \<open>
  \<open>persist\<close>.  Opening the backup creates or truncates it; the text reaches it at the flush, whose
  failure nobody looks at.  Whatever happened before, the version file is removed and the backup
  takes its place.
\<close>

definition backup_file :: "string \<Rightarrow> string" where "backup_file f = f @ ''-bakup''"

definition persist_copy :: "host_env \<Rightarrow> version_parser \<Rightarrow> host \<Rightarrow> (bool \<times> host) res" where
  "persist_copy env p h =
     (case ifs_open env (m_versionFile p) h of (content, h1) \<Rightarrow>
      case sys_call env h1 of (e, h2) \<Rightarrow>
        let bak = backup_file (m_versionFile p);
            h3 = (if e \<noteq> 0 then h2 else h2\<lparr>h_files := (h_files h2)(bak \<mapsto> [])\<rparr>)
        in case content of
             None \<Rightarrow> Inr (False, h3)
           | Some text_read \<Rightarrow>
               if e \<noteq> 0 then Inr (False, h3)
               else res_bind (persist_lines text_read (m_versionMap p)) (\<lambda>t.
                 case sys_call env h3 of (e2, h4) \<Rightarrow>
                   Inr (True, if e2 \<noteq> 0 then h4 else h4\<lparr>h_files := (h_files h4)(bak \<mapsto> t)\<rparr>)))"

definition version_persist :: "host_env \<Rightarrow> version_parser \<Rightarrow> host \<Rightarrow> (bool \<times> host) res" where
  "version_persist env p h =
     res_bind (persist_copy env p h) (\<lambda>(errCode, h1).
       case std_remove env (m_versionFile p) h1 of (removed, h2) \<Rightarrow>
         if \<not> removed then Inr (False, print_out (''Failed to remove file('' @ m_versionFile p @ '')'') h2)
         else case std_rename env (backup_file (m_versionFile p)) (m_versionFile p) h2 of (renamed, h3) \<Rightarrow>
           if \<not> renamed then Inr (False, print_out (''Failed to rename file('' @ backup_file (m_versionFile p) @ '')'') h3)
           else Inr (errCode, h3))"

section \<open>The operations\<close>

definition save_message :: string where "save_message = ''Failed to save version info to file'' @ [CHR 0x0A]"

definition autoVersion :: "host_env \<Rightarrow> version_parser \<Rightarrow> host \<Rightarrow> (bool \<times> version_parser \<times> host) res" where
  "autoVersion env p h =
     (if m_versionMap p = [] then Inr (False, p, print_out (''Version Info is empty'' @ [CHR 0x0A]) h)
      else
        let it = last (m_versionMap p);
            p1 = p\<lparr>m_versionMap := butlast (m_versionMap p) @ [it\<lparr>vi_Value := to_i16 (vi_Value it + 1)\<rparr>]\<rparr>
        in res_bind (version_persist env p1 h) (\<lambda>(errCode, h1).
             Inr (errCode, p1, if errCode \<noteq> True then print_out save_message h1 else h1)))"

text \<open>The loop of \<open>forceVersion\<close>: an exception of \<open>stoi\<close> leaves it to the caller.\<close>

fun force_values :: "string list \<Rightarrow> version_info list \<Rightarrow> version_info list res" where
  "force_values (v # values) (it # its) =
     res_bind (std_stoi v) (\<lambda>k. res_bind (force_values values its) (\<lambda>its1. Inr (it\<lparr>vi_Value := to_i16 k\<rparr> # its1)))"
| "force_values _ its = Inr its"

definition forceVersion :: "host_env \<Rightarrow> string \<Rightarrow> version_parser \<Rightarrow> host \<Rightarrow> (bool \<times> version_parser \<times> host) res" where
  "forceVersion env vs p h =
     res_bind (Split vs ''.'') (\<lambda>values.
       if length values \<noteq> length (m_versionMap p) then
         Inr (False, p, print_out (''vs('' @ vs @ '') is invalid'' @ [CHR 0x0A]) h)
       else res_bind (force_values values (m_versionMap p)) (\<lambda>vm.
         let p1 = p\<lparr>m_versionMap := vm\<rparr> in
         res_bind (version_persist env p1 h) (\<lambda>(errCode, h1).
           Inr (errCode, p1, if errCode \<noteq> True then print_out save_message h1 else h1))))"

definition version_text :: "version_info list \<Rightarrow> string" where
  "version_text vs = join_with (CHR ''.'') (map (\<lambda>v. to_string (vi_Value v)) vs)"

definition version_show :: "version_parser \<Rightarrow> host \<Rightarrow> bool \<times> host" where
  "version_show p h = (True, print_out (version_text (m_versionMap p) @ [CHR 0x0A, CHR 0x0A]) h)"

section \<open>The program\<close>

definition maintainer_usage :: string where
  "maintainer_usage = ''usage:'' @ [CHR 0x0A, CHR 0x09]
     @ ''make version                          # show current version number'' @ [CHR 0x0A, CHR 0x09]
     @ ''make version force-version 1.0.0.0    # force set current version'' @ [CHR 0x0A, CHR 0x09]
     @ ''make version auto                     # set version number increment automatically '' @ [CHR 0x0A, CHR 0x09]
     @ ''make version help                     # show version tool usage'' @ [CHR 0x0A, CHR 0x09, CHR 0x0A]"

definition maintainer_argvHandle ::
    "host_env \<Rightarrow> string list \<Rightarrow> version_parser \<Rightarrow> host \<Rightarrow> (bool \<times> version_parser \<times> host) res" where
  "maintainer_argvHandle env argv p h =
     (case argv of
        [_] \<Rightarrow> Inr (True, p, h)
      | [_, a1] \<Rightarrow>
          if a1 \<noteq> ''auto'' then Inr (False, p, h)
          else res_bind (autoVersion env p h) (\<lambda>(errCode, p1, h1).
            Inr (errCode, p1, if errCode \<noteq> True then print_out ''Failed to auto set version number'' h1 else h1))
      | [_, a1, a2] \<Rightarrow>
          if a1 \<noteq> ''force-version'' then Inr (False, p, h)
          else res_bind (forceVersion env a2 p h) (\<lambda>(errCode, p1, h1).
            Inr (errCode, p1, if errCode \<noteq> True then print_out (''Failed to force set version('' @ a2 @ '')'') h1 else h1))
      | _ \<Rightarrow> Inr (False, p, h))"

text \<open>The exit code is always 0; an exception that leaves \<open>forceVersion\<close> ends the process.\<close>

definition maintainer_main :: "host_env \<Rightarrow> string list \<Rightarrow> host \<Rightarrow> (int \<times> version_parser \<times> host) res" where
  "maintainer_main env argv h =
     (case version_init env DEFAULT_VERSION_FILE new_version_parser h of (errCode, p, h1) \<Rightarrow>
       if errCode \<noteq> True then Inr (0, p, print_out ''Failed to read version file'' h1)
       else (case maintainer_argvHandle env argv p h1 of
           Inl Undefined \<Rightarrow> Inl Undefined
         | Inl _ \<Rightarrow> Inl Terminated
         | Inr (errCode2, p1, h2) \<Rightarrow>
             if errCode2 \<noteq> True then Inr (0, p1, print_out maintainer_usage h2)
             else Inr (0, p1, snd (version_show p1 h2))))"

end
