(* ===== verification/Version_Correct.thy ===== *)
theory Version_Correct
  imports Version_Manager Log_Sink_Correct
begin

text \<open>
  What the version tool promises: a forced or incremented version is what the next start reads,
  with every other line of the file kept; and how a failing host costs the file.
\<close>

section \<open>Lines of a version file\<close>

datatype vline = Ver string int | Txt string

fun render_vline :: "vline \<Rightarrow> string" where
  "render_vline (Ver k v) = k @ ''= '' @ to_string v @ '';''"
| "render_vline (Txt t) = t"

definition render_version :: "vline list \<Rightarrow> string" where
  "render_version ls = concat (map (\<lambda>l. render_vline l @ [CHR 0x0A]) ls)"

fun versions :: "vline list \<Rightarrow> version_info list" where
  "versions [] = []"
| "versions (Ver k v # ls) = \<lparr>vi_Value = v, vi_Key = k\<rparr> # versions ls"
| "versions (Txt t # ls) = versions ls"

definition in_i16 :: "int \<Rightarrow> bool" where "in_i16 k \<longleftrightarrow> - (2 ^ 15) \<le> k \<and> k < 2 ^ 15"

text \<open>
  A declaration \<open>static constexpr ... NAME =\<close>, or a line without the word; both trimmed and
  fitting the line buffer.
\<close>

fun plain_vline :: "vline \<Rightarrow> bool" where
  "plain_vline (Ver k v) \<longleftrightarrow> k \<noteq> [] \<and> hd k \<notin> set default_delc \<and> CHR ''='' \<notin> set k \<and> CHR 0x00 \<notin> set k \<and> CHR 0x0A \<notin> set k
     \<and> IsVersionInfoLine k \<and> in_i16 v \<and> length k \<le> 500"
| "plain_vline (Txt t) \<longleftrightarrow> (t = [] \<or> hd t \<notin> set default_delc \<and> last t \<notin> set default_delc) \<and> CHR 0x00 \<notin> set t \<and> CHR 0x0A \<notin> set t
     \<and> \<not> IsVersionInfoLine t \<and> length t \<le> 511"

text \<open>The lines with other versions in place of theirs.\<close>

fun put_versions :: "vline list \<Rightarrow> version_info list \<Rightarrow> vline list" where
  "put_versions (Txt t # ls) its = Txt t # put_versions ls its"
| "put_versions (Ver k v # ls) (it # its) = Ver (vi_Key it) (vi_Value it) # put_versions ls its"
| "put_versions ls its = ls"

section \<open>The word \<open>constexpr\<close>\<close>

lemma find_in_occurs: "find_in d s i \<noteq> None \<longleftrightarrow> (\<exists>u v. s = u @ d @ v)"
proof (induction d s i rule: find_in.induct)
  case (1 d i)
  then show ?case by auto
next
  case (2 d c cs i)
  show ?case
  proof (cases "take (length d) (c # cs) = d")
    case True
    then have "c # cs = [] @ d @ drop (length d) (c # cs)" by (metis append_Nil append_take_drop_id)
    then have "\<exists>u v. c # cs = u @ d @ v" by (intro exI)
    then show ?thesis using True by simp
  next
    case False
    have "(\<exists>u v. c # cs = u @ d @ v) \<longleftrightarrow> (\<exists>u v. cs = u @ d @ v)"
    proof
      assume "\<exists>u v. c # cs = u @ d @ v"
      then obtain u v where uv: "c # cs = u @ d @ v" by blast
      then have "u \<noteq> []" using False by auto
      then show "\<exists>u v. cs = u @ d @ v" using uv by (cases u) auto
    next
      assume "\<exists>u v. cs = u @ d @ v"
      then show "\<exists>u v. c # cs = u @ d @ v" by (metis append_Cons)
    qed
    then show ?thesis using 2 False by simp
  qed
qed

lemma version_word: "IsVersionInfoLine s \<longleftrightarrow> (\<exists>u v. s = u @ ''constexpr'' @ v)"
  unfolding IsVersionInfoLine_def str_find_def using find_in_occurs [of "''constexpr''" s 0] by simp

lemma version_word_append: "IsVersionInfoLine a \<Longrightarrow> IsVersionInfoLine (a @ b)"
  unfolding version_word by (metis append.assoc)

lemma no_version_word_prefix: "\<not> IsVersionInfoLine (a @ b) \<Longrightarrow> \<not> IsVersionInfoLine a"
  using version_word_append by blast

section \<open>One line\<close>

lemma to_string_chars: "c \<in> set (to_string k) \<Longrightarrow> is_digit c \<or> c = CHR ''-''"
  using show_nat_digits by (auto simp: to_string_def split: if_splits)

lemma to_string_avoids:
  "CHR '' '' \<notin> set (to_string k)" "CHR 0x09 \<notin> set (to_string k)" "CHR 0x0D \<notin> set (to_string k)"
  "CHR 0x0A \<notin> set (to_string k)" "CHR '';'' \<notin> set (to_string k)" "CHR ''.'' \<notin> set (to_string k)" "CHR 0x00 \<notin> set (to_string k)"
  by (auto dest!: to_string_chars simp: is_digit_def)

lemma to_string_ends: "to_string k \<noteq> []" "hd (to_string k) \<notin> set value_delc" "last (to_string k) \<notin> set value_delc"
proof -
  show n: "to_string k \<noteq> []" by (simp add: to_string_def)
  have d: "c \<in> set (to_string k) \<Longrightarrow> c \<notin> set value_delc" for c
    using to_string_avoids [of k] by (auto simp: value_delc_def)
  show "hd (to_string k) \<notin> set value_delc" "last (to_string k) \<notin> set value_delc" using n d by simp_all
qed

lemma Trim_id: "s = [] \<or> hd s \<notin> set d \<and> last s \<notin> set d \<Longrightarrow> Trim s d = s"
  using Trim_core [of "[]" d "[]" s] by (cases "s = []") (auto simp: Trim_dropWhile)

lemma c_str_no_nul: "CHR 0x00 \<notin> set s \<Longrightarrow> c_str s = s"
  by (auto simp: c_str_def takeWhile_eq_all_conv)

lemma render_vline_trimmed:
  assumes "plain_vline l"
  shows "Trim (c_str (render_vline l)) default_delc = render_vline l"
proof (cases l)
  case (Ver k v)
  have "CHR 0x00 \<notin> set (render_vline l)" using assms to_string_avoids [of v] by (auto simp: Ver)
  moreover have "Trim (render_vline l) default_delc = render_vline l"
    by (rule Trim_id) (use assms in \<open>auto simp: Ver default_delc_def\<close>)
  ultimately show ?thesis by (simp add: c_str_no_nul)
next
  case (Txt t)
  then show ?thesis using assms by (simp add: c_str_no_nul Trim_id)
qed

lemma stoi_i16: "in_i16 v \<Longrightarrow> std_stoi (to_string v) = Inr v \<and> to_i16 v = v"
proof -
  assume v: "in_i16 v"
  then have "in_i32 v" by (simp add: in_i16_def in_i32_def)
  then show ?thesis using v std_stoi_to_string [of v] to_i16_id [of v] by (simp add: in_i16_def)
qed

lemma version_line_Ver:
  assumes "plain_vline (Ver k v)"
  shows "version_line (render_vline (Ver k v)) vs = Inr (vs @ [\<lparr>vi_Value = v, vi_Key = k\<rparr>])"
proof -
  have g: "getline_str (CHR ''='') (render_vline (Ver k v)) = Some (k, Some ('' '' @ to_string v @ '';''))"
    using getline_str_at [of "CHR ''=''" k "'' '' @ to_string v @ '';''"] assms by simp
  have n: "getline_str (CHR 0x0A) ('' '' @ to_string v @ '';'') = Some ('' '' @ to_string v @ '';'', None)"
    by (rule getline_str_last) (use to_string_avoids [of v] in auto)
  have t: "Trim ('' '' @ to_string v @ '';'') value_delc = to_string v"
    by (rule Trim_core) (use to_string_ends [of v] in \<open>auto simp: value_delc_def\<close>)
  show ?thesis
    unfolding version_line_def render_vline_trimmed [OF assms] g using n t stoi_i16 [of v] assms by simp
qed

lemma version_line_Txt:
  assumes "plain_vline (Txt t)"
  shows "version_line (render_vline (Txt t)) vs = Inr vs"
proof -
  have "\<not> IsVersionInfoLine key" if "getline_str (CHR ''='') t = Some (key, r)" for key r
  proof -
    have "key = takeWhile (\<lambda>c. c \<noteq> CHR ''='') t"
      using that by (auto simp: getline_str_def Let_def split: if_splits list.splits)
    then have "t = key @ dropWhile (\<lambda>c. c \<noteq> CHR ''='') t" by simp
    then show ?thesis using assms no_version_word_prefix [of key "dropWhile (\<lambda>c. c \<noteq> CHR ''='') t"] by simp
  qed
  then show ?thesis unfolding version_line_def render_vline_trimmed [OF assms]
    by (cases "getline_str (CHR ''='') t") (auto split: prod.splits)
qed

lemma version_line_plain: "plain_vline l \<Longrightarrow> version_line (render_vline l) vs = Inr (vs @ versions [l])"
  by (cases l) (simp_all only: version_line_Ver version_line_Txt versions.simps append_Nil2)

lemma show_nat_length: "n < 10 ^ k \<Longrightarrow> 0 < k \<Longrightarrow> length (show_nat n) \<le> k"
proof (induction k arbitrary: n)
  case (Suc k)
  show ?case
  proof (cases "n < 10")
    case True
    then show ?thesis by (subst show_nat.simps) simp
  next
    case False
    then have "0 < k" using Suc.prems(1) by (cases k) auto
    moreover have "n div 10 < 10 ^ k" using Suc.prems(1) by (simp add: less_mult_imp_div_less mult.commute)
    ultimately have "length (show_nat (n div 10)) \<le> k" by (rule Suc.IH [rotated])
    then show ?thesis using False by (subst show_nat.simps) simp
  qed
qed simp

lemma to_string_i16_length: "in_i16 v \<Longrightarrow> length (to_string v) \<le> 6"
proof -
  assume v: "in_i16 v"
  then have "v < 32768" "- v < 100000" by (simp_all add: in_i16_def)
  then have "nat v < 10 ^ 5" "nat (- v) < 10 ^ 5" by (simp; arith)+
  then have "length (show_nat (nat v)) \<le> 5" "length (show_nat (nat (- v))) \<le> 5" by (auto intro: show_nat_length)
  then show ?thesis by (simp add: to_string_def)
qed

lemma render_vline_fits:
  assumes "plain_vline l"
  shows "CHR 0x0A \<notin> set (render_vline l) \<and> length (render_vline l) \<le> 511"
  using assms to_string_avoids to_string_i16_length by (cases l) fastforce+

lemma getline_vline: "plain_vline l \<Longrightarrow> getline_buf 512 (render_vline l @ CHR 0x0A # rest) = Some (render_vline l, rest)"
  using render_vline_fits [of l] by (intro getline_buf_entry) auto

lemma persist_line_plain:
  assumes "plain_vline l"
  shows "persist_line (render_vline l) its =
    (case l of Txt t \<Rightarrow> Inr (t @ [CHR 0x0A], its)
     | Ver k v \<Rightarrow> (case its of [] \<Rightarrow> Inl Undefined
         | it # its1 \<Rightarrow> Inr (render_vline (Ver (vi_Key it) (vi_Value it)) @ [CHR 0x0A], its1)))"
proof (cases "render_vline l = []")
  case True
  then have "l = Txt []" by (cases l) auto
  then show ?thesis unfolding persist_line_def render_vline_trimmed [OF assms] by (simp add: getline_str_def)
next
  case False
  have g: "getline_str (CHR 0x0A) (render_vline l) = Some (render_vline l, None)"
    by (rule getline_str_last) (use render_vline_fits [OF assms] False in auto)
  have "IsVersionInfoLine (render_vline l) \<longleftrightarrow> (case l of Ver k v \<Rightarrow> True | Txt t \<Rightarrow> False)"
    using assms version_word_append by (cases l) auto
  then show ?thesis unfolding persist_line_def render_vline_trimmed [OF assms] g
    by (cases l) (auto split: list.splits)
qed

section \<open>The whole file\<close>

lemma version_lines_render:
  "list_all plain_vline ls \<Longrightarrow> version_lines (render_version ls) vs = (True, vs @ versions ls)"
proof (induction ls arbitrary: vs)
  case Nil
  then show ?case by (subst version_lines.simps) (simp add: render_version_def getline_buf_def)
next
  case (Cons l ls)
  then have l: "plain_vline l" by simp
  have "versions (l # ls) = versions [l] @ versions ls" by (cases l) simp_all
  then show ?case using Cons getline_vline [OF l, of "render_version ls"] version_line_plain [OF l, of vs]
    by (subst version_lines.simps) (simp add: render_version_def)
qed

lemma persist_lines_render:
  "list_all plain_vline ls \<Longrightarrow> length its = length (versions ls)
     \<Longrightarrow> persist_lines (render_version ls) its = Inr (render_version (put_versions ls its))"
proof (induction ls arbitrary: its)
  case Nil
  then show ?case by (subst persist_lines.simps) (simp add: render_version_def getline_buf_def)
next
  case (Cons l ls)
  then have l: "plain_vline l" by simp
  have g: "getline_buf 512 (render_version (l # ls)) = Some (render_vline l, render_version ls)"
    using getline_vline [OF l, of "render_version ls"] by (simp add: render_version_def)
  show ?case
  proof (cases l)
    case (Txt t)
    then have "persist_line (render_vline l) its = Inr (t @ [CHR 0x0A], its)" using persist_line_plain [OF l] by simp
    then show ?thesis using g Cons.IH [of its] Cons.prems
      by (subst persist_lines.simps) (simp add: Txt render_version_def)
  next
    case (Ver k v)
    then obtain it its1 where its: "its = it # its1" using Cons.prems(2) by (cases its) auto
    have "persist_line (render_vline l) its = Inr (render_vline (Ver (vi_Key it) (vi_Value it)) @ [CHR 0x0A], its1)"
      using persist_line_plain [OF l] by (simp add: Ver its)
    then show ?thesis using g Cons.IH [of its1] Cons.prems
      by (subst persist_lines.simps) (simp add: Ver its render_version_def)
  qed
qed

text \<open>Only the numbers of the versions change.\<close>

definition with_values :: "version_info list \<Rightarrow> int list \<Rightarrow> version_info list" where
  "with_values vs ks = map2 (\<lambda>v k. v\<lparr>vi_Value := k\<rparr>) vs ks"

lemma put_versions_plain:
  "list_all plain_vline ls \<Longrightarrow> length ks = length (versions ls) \<Longrightarrow> list_all in_i16 ks
     \<Longrightarrow> list_all plain_vline (put_versions ls (with_values (versions ls) ks))
       \<and> versions (put_versions ls (with_values (versions ls) ks)) = with_values (versions ls) ks"
proof (induction ls arbitrary: ks)
  case (Cons l ls)
  then show ?case by (cases l; cases ks) (auto simp: with_values_def)
qed (simp add: with_values_def)

lemma force_values_all:
  "length ks = length its \<Longrightarrow> list_all in_i16 ks \<Longrightarrow> force_values (map to_string ks) its = Inr (with_values its ks)"
  by (induction ks its rule: list_induct2) (simp_all add: stoi_i16 with_values_def)

lemma split_on_join:
  "ps \<noteq> [] \<Longrightarrow> (\<forall>p \<in> set ps. d \<notin> set p) \<Longrightarrow> split_on d (join_with d ps) = ps"
  by (induction ps rule: join_with.induct) (auto simp: split_on_no_delim split_on_at)

lemma Split_versions: "ks \<noteq> [] \<Longrightarrow> Split (join_with (CHR ''.'') (map to_string ks)) ''.'' = Inr (map to_string ks)"
  using Split_loop_char [of 0 "join_with (CHR ''.'') (map to_string ks)" "CHR ''.''" "[]"]
    split_on_join [of "map to_string ks" "CHR ''.''"] to_string_avoids
  by (simp add: Split_def)

lemma version_init_reads:
  assumes "quiet env" "h_files h f = Some (render_version ls)" "list_all plain_vline ls"
  shows "version_init env f new_version_parser h
     = (True, \<lparr>m_versionFile = f, m_versionMap = versions ls\<rparr>, h\<lparr>h_step := Suc (h_step h)\<rparr>)"
  using assms version_lines_render [OF assms(3), of "[]"]
  by (simp add: version_init_def version_parse_def ifs_open_def sys_call_quiet new_version_parser_def)

lemma version_persist_writes:
  assumes "quiet env" "h_files h (m_versionFile p) = Some (render_version ls)" "list_all plain_vline ls"
    "length (m_versionMap p) = length (versions ls)"
  shows "\<exists>h1. version_persist env p h = Inr (True, h1) \<and> h_files h1 = (h_files h)
     (m_versionFile p \<mapsto> render_version (put_versions ls (m_versionMap p)), backup_file (m_versionFile p) := None)"
proof -
  have "backup_file (m_versionFile p) \<noteq> m_versionFile p" by (simp add: backup_file_def)
  then show ?thesis using assms persist_lines_render [OF assms(3,4)]
    by (simp add: version_persist_def persist_copy_def ifs_open_def std_remove_def std_rename_def sys_call_quiet Let_def fun_eq_iff)
qed

text \<open>
  C31: forcing a version on a file of declarations and other lines succeeds, and the next start
  reads exactly the numbers given, under the same names; the other lines of the file and all
  other files stay as they were.
\<close>

theorem force_version_round_trip:
  assumes "quiet env" "h_files h f = Some (render_version ls)" "list_all plain_vline ls"
    "ks \<noteq> []" "length ks = length (versions ls)" "list_all in_i16 ks"
  shows "\<exists>p h1 p2 h2 h3. version_init env f new_version_parser h = (True, p, h1)
     \<and> forceVersion env (join_with (CHR ''.'') (map to_string ks)) p h1 = Inr (True, p2, h2)
     \<and> h_files h2 = (h_files h)(f \<mapsto> render_version (put_versions ls (with_values (versions ls) ks)), backup_file f := None)
     \<and> version_init env f new_version_parser h2 = (True, p2, h3) \<and> m_versionMap p2 = with_values (versions ls) ks"
proof -
  let ?p = "\<lparr>m_versionFile = f, m_versionMap = versions ls\<rparr>"
  let ?h1 = "h\<lparr>h_step := Suc (h_step h)\<rparr>"
  let ?vs = "with_values (versions ls) ks"
  have i: "version_init env f new_version_parser h = (True, ?p, ?h1)" by (rule version_init_reads [OF assms(1-3)])
  have l: "length ?vs = length (versions ls)" using assms(5) by (simp add: with_values_def)
  obtain h2 where h2: "version_persist env (?p\<lparr>m_versionMap := ?vs\<rparr>) ?h1 = Inr (True, h2)"
    "h_files h2 = (h_files h)(f \<mapsto> render_version (put_versions ls ?vs), backup_file f := None)"
    using version_persist_writes [OF assms(1), of ?h1 "?p\<lparr>m_versionMap := ?vs\<rparr>" ls] assms(2,3) l by auto
  have F: "forceVersion env (join_with (CHR ''.'') (map to_string ks)) ?p ?h1 = Inr (True, ?p\<lparr>m_versionMap := ?vs\<rparr>, h2)"
    using h2(1) Split_versions [OF assms(4)] force_values_all [OF assms(5,6)] assms(5) by (simp add: forceVersion_def Let_def)
  have "backup_file f \<noteq> f" by (simp add: backup_file_def)
  then have f2: "h_files h2 f = Some (render_version (put_versions ls ?vs))" by (simp add: h2(2))
  have r: "version_init env f new_version_parser h2 = (True, ?p\<lparr>m_versionMap := ?vs\<rparr>, h2\<lparr>h_step := Suc (h_step h2)\<rparr>)"
    using version_init_reads [OF assms(1) f2] put_versions_plain [OF assms(3,5,6)] by simp
  show ?thesis
    by (intro exI conjI, rule i, rule F, rule h2(2), rule r) simp
qed

definition demo_version :: "vline list" where
  "demo_version = [Txt ''#include <cstdint>'', Txt [], Ver ''static constexpr int16_t BRANCH_MAJOR_VERSION  '' 1,
     Ver ''static constexpr int16_t BRANCH_MINOR_VERSION  '' 0, Txt ''#endif'']"

lemma demo_version_plain: "list_all plain_vline demo_version"
  by code_simp

theorem force_version_round_trip_witness:
  "\<exists>p h1 p2 h2. version_init quiet_env ''v.h'' new_version_parser
        \<lparr>h_files = [''v.h'' \<mapsto> render_version demo_version], h_out = [], h_step = 0\<rparr> = (True, p, h1)
     \<and> forceVersion quiet_env ''2.7'' p h1 = Inr (True, p2, h2) \<and> map vi_Value (m_versionMap p2) = [2, 7]"
proof -
  have q: "quiet quiet_env" by (rule quiet_env_facts(1))
  have v: "length [2, 7] = length (versions demo_version)" by (simp add: demo_version_def)
  have j: "join_with (CHR ''.'') (map to_string [2, 7]) = ''2.7''" by code_simp
  show ?thesis
    using force_version_round_trip [OF q _ demo_version_plain _ v, of "\<lparr>h_files = [''v.h'' \<mapsto> render_version demo_version], h_out = [], h_step = 0\<rparr>" "''v.h''"]
    unfolding j by (auto simp: in_i16_def with_values_def demo_version_def)
qed

section \<open>Where the file is lost\<close>

text \<open>
  When the backup cannot be created the version file is removed all the same, and the rename
  finds nothing to put in its place.
\<close>

lemma failed_backup_loses_file:
  assumes "he_errno env (Suc (h_step h)) \<noteq> 0" "\<And>n. n \<noteq> Suc (h_step h) \<Longrightarrow> he_errno env n = 0"
    "h_files h (m_versionFile p) = Some content" "h_files h (backup_file (m_versionFile p)) = None"
  shows "\<exists>h1. version_persist env p h = Inr (False, h1) \<and> h_files h1 (m_versionFile p) = None
     \<and> h_files h1 (backup_file (m_versionFile p)) = None"
  using assms by (simp add: version_persist_def persist_copy_def ifs_open_def std_remove_def std_rename_def sys_call_def print_out_def Let_def)

text \<open>
  A comment with the word \<open>constexpr\<close> is no declaration for \<open>parse\<close>, which looks before the
  equals sign and wants a value, but is one for \<open>persist\<close>: the number of the first declaration is
  written over the comment, and the last declaration reads past the end of the vector.
\<close>

definition commented_version :: string where
  "commented_version = ''// constexpr numbers'' @ [CHR 0x0A] @ ''constexpr int A = 1;'' @ [CHR 0x0A]"

lemma comment_breaks_persist:
  "version_lines commented_version [] = (True, [\<lparr>vi_Value = 1, vi_Key = ''constexpr int A ''\<rparr>])"
  "persist_lines commented_version [\<lparr>vi_Value = 2, vi_Key = ''constexpr int A ''\<rparr>] = Inl Undefined"
  by code_simp+

end
