(* ===== verification/Cass_Restrain.thy ===== *)
theory Cass_Restrain
  imports Cass_Helper
begin

text \<open>
  \<open>wrapper/cassandra/detail/lct_cass_access_restrain.h/.cpp\<close>: the guard that bounds the number of
  requests under way.  The statics are a record; every section under \<open>s_mutex\<close> is one step.  A
  thread in \<open>wait_for\<close> tests the count again whenever it is woken, by a notification, after its
  waiting time or spuriously: that is a step it may take at any time.
\<close>

definition CASSANDRA_RESTRAIN_WAITING_SECONDS :: nat where "CASSANDRA_RESTRAIN_WAITING_SECONDS = 30"

datatype restrain_pc = Outside | In_wait | Inside

record restrain =
  s_concurrent :: nat
  s_limit :: nat
  s_waitingMaxTime :: nat
  s_pc :: "nat \<Rightarrow> restrain_pc"

definition restrain_start :: restrain where
  "restrain_start = \<lparr>s_concurrent = 0, s_limit = CASSANDRA_MAX_LIMIT_DEFAULT_SIZE,
     s_waitingMaxTime = CASSANDRA_RESTRAIN_WAITING_SECONDS, s_pc = (\<lambda>_. Outside)\<rparr>"

text \<open>The test at the head of the constructor's loop, by thread \<open>t\<close>.\<close>

definition restrain_enter :: "nat \<Rightarrow> restrain \<Rightarrow> restrain" where
  "restrain_enter t s =
     (if s_concurrent s \<ge> s_limit s then s\<lparr>s_pc := (s_pc s)(t := In_wait)\<rparr>
      else s\<lparr>s_concurrent := s_concurrent s + 1, s_pc := (s_pc s)(t := Inside)\<rparr>)"

text \<open>The destructor; the notification wakes the waiting threads, which then test again.\<close>

definition restrain_leave :: "nat \<Rightarrow> restrain \<Rightarrow> restrain" where
  "restrain_leave t s = s\<lparr>s_concurrent := s_concurrent s - 1, s_pc := (s_pc s)(t := Outside)\<rparr>"

definition restrain_limit :: "restrain \<Rightarrow> nat" where "restrain_limit s = s_limit s"

text \<open>\<open>close\<close> only notifies.\<close>

definition restrain_close :: "restrain \<Rightarrow> restrain" where "restrain_close s = s"

definition setConcurrentMax :: "nat \<Rightarrow> restrain \<Rightarrow> restrain" where "setConcurrentMax m s = s\<lparr>s_limit := m\<rparr>"

definition setWaitingTime :: "nat \<Rightarrow> restrain \<Rightarrow> restrain" where "setWaitingTime k s = s\<lparr>s_waitingMaxTime := k\<rparr>"

inductive restrain_step :: "restrain \<Rightarrow> restrain \<Rightarrow> bool" where
  arrive: "s_pc s t = Outside \<Longrightarrow> restrain_step s (restrain_enter t s)"
| retest: "s_pc s t = In_wait \<Longrightarrow> restrain_step s (restrain_enter t s)"
| leave: "s_pc s t = Inside \<Longrightarrow> restrain_step s (restrain_leave t s)"
| closing: "restrain_step s (restrain_close s)"
| limiting: "restrain_step s (setConcurrentMax m s)"
| timing: "restrain_step s (setWaitingTime k s)"

inductive_cases restrain_stepE: "restrain_step s s'"

inductive restrain_run :: "restrain list \<Rightarrow> bool" where
  start: "restrain_run [restrain_start]"
| step: "restrain_run (s # ss) \<Longrightarrow> restrain_step s s' \<Longrightarrow> restrain_run (s' # s # ss)"

section \<open>The bound\<close>

definition insiders :: "restrain \<Rightarrow> nat set" where "insiders s = {t. s_pc s t = Inside}"

definition restrain_inv :: "restrain \<Rightarrow> bool" where
  "restrain_inv s \<longleftrightarrow> finite (insiders s) \<and> card (insiders s) = s_concurrent s"

lemma insiders_enter:
  "s_pc s t \<noteq> Inside \<Longrightarrow> insiders (restrain_enter t s) = (if s_concurrent s \<ge> s_limit s then insiders s else insert t (insiders s))"
  by (auto simp: insiders_def restrain_enter_def)

lemma insiders_leave: "insiders (restrain_leave t s) = insiders s - {t}"
  by (auto simp: insiders_def restrain_leave_def)

lemma restrain_inv_enter: "s_pc s t \<noteq> Inside \<Longrightarrow> restrain_inv s \<Longrightarrow> restrain_inv (restrain_enter t s)"
  unfolding restrain_inv_def by (simp add: insiders_enter) (auto simp: insiders_def restrain_enter_def)

lemma restrain_inv_leave: "s_pc s t = Inside \<Longrightarrow> restrain_inv s \<Longrightarrow> restrain_inv (restrain_leave t s)"
  unfolding restrain_inv_def insiders_leave by (auto simp: insiders_def restrain_leave_def)

lemma restrain_inv_step: "restrain_step s s' \<Longrightarrow> restrain_inv s \<Longrightarrow> restrain_inv s'"
proof (induction rule: restrain_step.induct)
  case (limiting s m)
  then show ?case by (simp add: restrain_inv_def insiders_def setConcurrentMax_def)
next
  case (timing s k)
  then show ?case by (simp add: restrain_inv_def insiders_def setWaitingTime_def)
qed (auto intro: restrain_inv_enter restrain_inv_leave simp: restrain_close_def)

lemma restrain_run_inv: "restrain_run ss \<Longrightarrow> \<forall>s \<in> set ss. restrain_inv s"
proof (induction rule: restrain_run.induct)
  case start
  then show ?case by (simp add: restrain_inv_def insiders_def restrain_start_def)
qed (auto dest: restrain_inv_step)

lemma restrain_run_nonempty: "restrain_run ss \<Longrightarrow> ss \<noteq> []"
  by (erule restrain_run.cases) auto

text \<open>The count never exceeds the largest limit there has been.\<close>

lemma restrain_step_bound: "restrain_step s s' \<Longrightarrow> s_concurrent s \<le> b \<Longrightarrow> s_limit s \<le> b \<Longrightarrow> s_concurrent s' \<le> b"
  by (erule restrain_stepE) (auto simp: restrain_enter_def restrain_leave_def restrain_close_def setConcurrentMax_def setWaitingTime_def)

lemma restrain_run_bound:
  "restrain_run ss \<Longrightarrow> s_concurrent (hd ss) \<le> b \<or> (\<exists>s \<in> set (tl ss). b < s_limit s)"
proof (induction rule: restrain_run.induct)
  case start
  then show ?case by (simp add: restrain_start_def)
next
  case (step s ss s')
  then show ?case using restrain_step_bound [OF step(2), of b] by (cases "s_limit s \<le> b") auto
qed

text \<open>
  C32: in every interleaving of threads that enter, wait, leave and change the limit, the count
  is the number of threads inside, and it never exceeds the largest limit set so far; a thread
  gets in only while fewer than the current limit are inside.
\<close>

theorem requests_are_bounded:
  assumes "restrain_run (s # ss)" "\<forall>x \<in> set ss. s_limit x \<le> b"
  shows "card (insiders s) = s_concurrent s \<and> card (insiders s) \<le> b
     \<and> (\<forall>t s'. restrain_step s s' \<longrightarrow> t \<in> insiders s' - insiders s \<longrightarrow> card (insiders s) < s_limit s)"
proof -
  have i: "card (insiders s) = s_concurrent s" using restrain_run_inv [OF assms(1)] by (simp add: restrain_inv_def)
  have "s_concurrent s \<le> b" using restrain_run_bound [OF assms(1), of b] assms(2) by fastforce
  moreover have "s_concurrent s < s_limit s" if "restrain_step s s'" "t \<in> insiders s' - insiders s" for t s'
    using that
    by (elim restrain_stepE) (auto simp: insiders_def restrain_enter_def restrain_leave_def restrain_close_def
        setConcurrentMax_def setWaitingTime_def split: if_splits)
  ultimately show ?thesis using i by simp
qed

theorem requests_are_bounded_witness:
  "\<exists>s ss. restrain_run (s # ss) \<and> insiders s = {7} \<and> card (insiders s) \<le> 20"
proof -
  have r: "restrain_run [restrain_enter 7 restrain_start, restrain_start]"
    by (intro restrain_run.step restrain_run.start restrain_step.arrive) (simp add: restrain_start_def)
  have "insiders (restrain_enter 7 restrain_start) = {7}"
    by (auto simp: insiders_def restrain_enter_def restrain_start_def CASSANDRA_MAX_LIMIT_DEFAULT_SIZE_def)
  then show ?thesis
    using requests_are_bounded [OF r, of 20] r by (auto simp: restrain_start_def CASSANDRA_MAX_LIMIT_DEFAULT_SIZE_def)
qed

text \<open>A waiting thread gets in as soon as there is room, unless the limit is 0: then nobody ever does, closed or not.\<close>

lemma waiter_gets_in:
  "s_pc s t = In_wait \<Longrightarrow> s_concurrent s < s_limit s \<Longrightarrow> restrain_step s (restrain_enter t s) \<and> t \<in> insiders (restrain_enter t s)"
  using restrain_step.retest [of s t] by (auto simp: insiders_def restrain_enter_def)

lemma limit_zero_blocks:
  "s_limit s = 0 \<Longrightarrow> restrain_enter t s = s\<lparr>s_pc := (s_pc s)(t := In_wait)\<rparr> \<and> restrain_enter t (restrain_close s) = restrain_enter t s"
  by (simp add: restrain_enter_def restrain_close_def)

end
