(* ===== verification/Common_Objects.thy ===== *)
theory Common_Objects
  imports Error_Code
begin

text \<open>
  Small parts of \<open>common\<close>: the singleton (\<open>lct_singleton.h\<close>), the reader-writer lock and
  its guard (\<open>lct_rw_lock.h/.cpp\<close>) over the POSIX lock, the id generator
  (\<open>lct_id_generator.h/.cpp\<close>), and the tuple access by type (\<open>lct_cplusplus_14.h\<close>).
\<close>

section \<open>The singleton\<close>

text \<open>
  \<open>sg_once\<close> is \<open>m_onceFlag\<close>: whether a call under \<open>call_once\<close> has returned.  Making the \<open>n\<close>-th
  object throws or ends with the code of \<open>initialize\<close>; objects are numbered.
\<close>

datatype made = Ctor_throws | Init_code lct_err

record singleton =
  sg_instanced :: bool
  sg_once :: bool
  sg_instance :: "nat option"
  sg_made :: nat

definition new_singleton :: singleton where
  "new_singleton = \<lparr>sg_instanced = False, sg_once = False, sg_instance = None, sg_made = 0\<rparr>"

definition InitInstance :: "(nat \<Rightarrow> made) \<Rightarrow> singleton \<Rightarrow> singleton res" where
  "InitInstance mk s =
     (let s1 = s\<lparr>sg_made := Suc (sg_made s)\<rparr> in
      case mk (sg_made s) of
        Ctor_throws \<Rightarrow> Inl System_error
      | Init_code errCode \<Rightarrow>
          let s2 = s1\<lparr>sg_instance := Some (sg_made s)\<rparr> in
          if LCT_SUCCESS \<noteq> errCode then Inr s2 else Inr (s2\<lparr>sg_instanced := True\<rparr>))"

text \<open>An exception leaves \<open>call_once\<close> unfinished: the next call tries again, with the next object.\<close>

definition sg_get :: "(nat \<Rightarrow> made) \<Rightarrow> singleton \<Rightarrow> nat option res \<times> singleton" where
  "sg_get mk s =
     (if sg_instanced s \<or> sg_once s then (Inr (sg_instance s), s)
      else case InitInstance mk s of
        Inl e \<Rightarrow> (Inl e, s\<lparr>sg_made := Suc (sg_made s)\<rparr>)
      | Inr s1 \<Rightarrow> (Inr (sg_instance s1), s1\<lparr>sg_once := True\<rparr>))"

fun sg_gets :: "(nat \<Rightarrow> made) \<Rightarrow> nat \<Rightarrow> singleton \<Rightarrow> nat option res list \<times> singleton" where
  "sg_gets mk 0 s = ([], s)"
| "sg_gets mk (Suc n) s = (case sg_get mk s of (r, s1) \<Rightarrow> case sg_gets mk n s1 of (rs, s2) \<Rightarrow> (r # rs, s2))"

definition sg_inv :: "singleton \<Rightarrow> bool" where
  "sg_inv s \<longleftrightarrow> (sg_instanced s \<longrightarrow> sg_once s) \<and> (if sg_once s then sg_instance s = Some (sg_made s - 1) \<and> 0 < sg_made s else sg_instance s = None)"

lemma sg_get_done: "sg_once s \<Longrightarrow> sg_get mk s = (Inr (sg_instance s), s)"
  by (simp add: sg_get_def)

lemma sg_gets_done: "sg_once s \<Longrightarrow> sg_gets mk n s = (replicate n (Inr (sg_instance s)), s)"
  by (induction n) (simp_all add: sg_get_done)

lemma sg_get_inv:
  assumes "sg_get mk s = (r, s1)" "sg_inv s"
  shows "sg_inv s1 \<and> (case r of Inl _ \<Rightarrow> \<not> sg_once s1 | Inr x \<Rightarrow> sg_once s1 \<and> x = sg_instance s1)"
  using assms
  by (auto simp: sg_get_def InitInstance_def sg_inv_def Let_def split: if_splits made.splits)

text \<open>
  All calls that return give the same object, whatever throws before and whatever \<open>initialize\<close>
  answers; a failed \<open>initialize\<close> goes unnoticed.
\<close>

lemma singleton_is_single:
  "sg_gets mk n s = (rs, s1) \<Longrightarrow> sg_inv s \<Longrightarrow>
     \<exists>k i. map (\<lambda>r. case r of Inl _ \<Rightarrow> None | Inr x \<Rightarrow> x) rs = replicate k None @ replicate (n - k) (Some i) \<and> k \<le> n"
proof (induction n arbitrary: s rs)
  case 0
  then show ?case by simp
next
  case (Suc n)
  obtain r sa where g: "sg_get mk s = (r, sa)" by fastforce
  obtain rs' where gs: "sg_gets mk n sa = (rs', s1)" and rs: "rs = r # rs'"
    using Suc.prems(1) g by (auto split: prod.splits)
  note i = sg_get_inv [OF g Suc.prems(2)]
  show ?case
  proof (cases r)
    case (Inl e)
    obtain k j where "map (\<lambda>r. case r of Inl _ \<Rightarrow> None | Inr x \<Rightarrow> x) rs' = replicate k None @ replicate (n - k) (Some j)" "k \<le> n"
      using Suc.IH [OF gs] i by blast
    then show ?thesis using Inl rs by (intro exI [of _ "Suc k"] exI [of _ j]) simp
  next
    case (Inr x)
    then have o1: "sg_once sa" "x = sg_instance sa" using i by auto
    then obtain j where "sg_instance sa = Some j" using i by (auto simp: sg_inv_def)
    then show ?thesis using sg_gets_done [OF o1(1), of mk n] gs o1 Inr rs
      by (intro exI [of _ 0] exI [of _ j]) simp
  qed
qed

section \<open>The reader-writer lock\<close>

text \<open>
  The POSIX lock with writer preference: who holds it and which writers wait.  \<open>None\<close> is a call
  that blocks.
\<close>

record rw_lock =
  rw_readers :: "nat list"
  rw_writer :: "nat option"
  rw_waiting :: "nat list"

definition new_rw_lock :: rw_lock where "new_rw_lock = \<lparr>rw_readers = [], rw_writer = None, rw_waiting = []\<rparr>"

definition wrlock :: "nat \<Rightarrow> rw_lock \<Rightarrow> rw_lock option" where
  "wrlock t l = (if rw_writer l = None \<and> rw_readers l = [] then Some (l\<lparr>rw_writer := Some t, rw_waiting := remove1 t (rw_waiting l)\<rparr>) else None)"

definition rdlock :: "nat \<Rightarrow> rw_lock \<Rightarrow> rw_lock option" where
  "rdlock t l = (if rw_writer l = None \<and> rw_waiting l = [] then Some (l\<lparr>rw_readers := t # rw_readers l\<rparr>) else None)"

definition rw_wait :: "nat \<Rightarrow> rw_lock \<Rightarrow> rw_lock" where
  "rw_wait t l = l\<lparr>rw_waiting := rw_waiting l @ [t]\<rparr>"

definition rw_unlock :: "nat \<Rightarrow> rw_lock \<Rightarrow> rw_lock" where
  "rw_unlock t l = (if rw_writer l = Some t then l\<lparr>rw_writer := None\<rparr> else l\<lparr>rw_readers := remove1 t (rw_readers l)\<rparr>)"

definition rw_guard :: "bool \<Rightarrow> nat \<Rightarrow> rw_lock \<Rightarrow> rw_lock option" where
  "rw_guard write t l = (if write then wrlock t l else rdlock t l)"

definition rw_guard_end :: "nat \<Rightarrow> rw_lock \<Rightarrow> rw_lock" where "rw_guard_end t l = rw_unlock t l"

inductive rw_reach :: "rw_lock \<Rightarrow> bool" where
  rw_reach_new: "rw_reach new_rw_lock"
| rw_reach_guard: "rw_reach l \<Longrightarrow> rw_guard write t l = Some l' \<Longrightarrow> rw_reach l'"
| rw_reach_wait: "rw_reach l \<Longrightarrow> rw_reach (rw_wait t l)"
| rw_reach_end: "rw_reach l \<Longrightarrow> rw_reach (rw_guard_end t l)"

text \<open>A writer excludes everyone; without one, readers share.\<close>

lemma writer_excludes: "rw_reach l \<Longrightarrow> rw_writer l = None \<or> rw_readers l = []"
  by (induction rule: rw_reach.induct)
    (auto simp: new_rw_lock_def rw_guard_def wrlock_def rdlock_def rw_wait_def rw_guard_end_def rw_unlock_def split: if_splits)

lemma default_guards_share:
  "rdlock a new_rw_lock = Some l \<Longrightarrow> \<exists>l2. rw_guard False b l = Some l2 \<and> rw_readers l2 = [b, a]"
  by (auto simp: rw_guard_def rdlock_def new_rw_lock_def)

section \<open>The id generator\<close>

definition LCT_BIZ_EVENT_TYPE :: int where "LCT_BIZ_EVENT_TYPE = 1"
definition LCT_BIZ_TASKS_TYPE :: int where "LCT_BIZ_TASKS_TYPE = 2"
definition LCT_BIZ_MODEL_TYPE :: int where "LCT_BIZ_MODEL_TYPE = 3"

type_synonym id_container = "int \<Rightarrow> int option"

definition gen_init :: lct_err where "gen_init = LCT_SUCCESS"

definition getIdImpl :: "int \<Rightarrow> id_container \<Rightarrow> lct_err \<times> int \<times> id_container" where
  "getIdImpl bizType m =
     (let i = (case m bizType of
          None \<Rightarrow>
            if bizType = LCT_BIZ_EVENT_TYPE then 1000000
            else if bizType = LCT_BIZ_TASKS_TYPE then 100000
            else if bizType = LCT_BIZ_MODEL_TYPE then 2000000
            else 10000
        | Some k \<Rightarrow> to_i64 (1 + k))
      in (LCT_SUCCESS, i, m(bizType \<mapsto> i)))"

definition getId :: "int \<Rightarrow> id_container \<Rightarrow> int \<times> id_container" where
  "getId bizType m = (case getIdImpl bizType m of (_, i, m1) \<Rightarrow> (i, m1))"

fun getIds :: "int list \<Rightarrow> id_container \<Rightarrow> (int \<times> int) list \<times> id_container" where
  "getIds [] m = ([], m)"
| "getIds (b # bs) m = (case getId b m of (i, m1) \<Rightarrow> case getIds bs m1 of (ids, m2) \<Rightarrow> ((b, i) # ids, m2))"

definition gen_base :: "int \<Rightarrow> int" where
  "gen_base b = (if b = 1 then 1000000 else if b = 2 then 100000 else if b = 3 then 2000000 else 10000)"

text \<open>The ids of one type count up from its base, whatever is asked in between.\<close>

lemma getIds_consecutive:
  assumes "getIds bs m = (ids, m1)" "length bs < 2 ^ 62"
    "\<And>b. m b = (if n b = 0 then None else Some (gen_base b + int (n b) - 1))" "\<And>b. int (n b) + int (length bs) < 2 ^ 62"
  shows "\<forall>b. map snd (filter (\<lambda>x. fst x = b) ids)
     = map (\<lambda>j. gen_base b + int (n b) + int j) [0..<count_list bs b]"
  using assms
proof (induction bs arbitrary: m ids n)
  case Nil
  then show ?case by simp
next
  case (Cons c bs)
  have base: "gen_base c \<le> 2000000" "0 \<le> gen_base c" by (auto simp: gen_base_def)
  have nc: "int (n c) + int (length (c # bs)) < 2 ^ 62" by (rule Cons.prems(4))
  have "to_i64 (1 + (gen_base c + int (n c) - 1)) = gen_base c + int (n c)"
    using base nc by (subst to_i64_nonneg) auto
  then have g: "getId c m = (gen_base c + int (n c), m(c \<mapsto> gen_base c + int (n c)))"
    using Cons.prems(3) [of c]
    by (auto simp: getId_def getIdImpl_def gen_base_def LCT_BIZ_EVENT_TYPE_def LCT_BIZ_TASKS_TYPE_def LCT_BIZ_MODEL_TYPE_def Let_def)
  let ?n = "n(c := Suc (n c))"
  obtain ids' where ids: "getIds bs (m(c \<mapsto> gen_base c + int (n c))) = (ids', m1)" "ids = (c, gen_base c + int (n c)) # ids'"
    using Cons.prems(1) g by (auto split: prod.splits)
  have l: "int (?n b) + int (length bs) < 2 ^ 62" for b using Cons.prems(4) [of b] nc by (cases "b = c") auto
  have "\<forall>b. map snd (filter (\<lambda>x. fst x = b) ids') = map (\<lambda>j. gen_base b + int (?n b) + int j) [0..<count_list bs b]"
  proof (rule Cons.IH [OF ids(1)])
    show "length bs < 2 ^ 62" using Cons.prems(2) by simp
    show "(m(c \<mapsto> gen_base c + int (n c))) b = (if ?n b = 0 then None else Some (gen_base b + int (?n b) - 1))" for b
      using Cons.prems(3) by simp
  qed (rule l)
  then show ?case unfolding ids(2)
    by (auto simp: upt_conv_Cons map_Suc_upt [symmetric] simp del: upt_Suc map_Suc_upt)
qed

section \<open>Elements of a tuple by type\<close>

text \<open>
  \<open>lct_cplusplus_14.h\<close>: the index of the first element of a type, computed by template
  specialisation over the types of a tuple; \<open>None\<close> is a program that does not compile.
\<close>

fun get_number_of_element :: "'t \<Rightarrow> nat \<Rightarrow> 't list \<Rightarrow> nat" where
  "get_number_of_element T N [] = N"
| "get_number_of_element T N (U # Args) = (if U = T then N else get_number_of_element T (N + 1) Args)"

definition tuple_get :: "'t \<Rightarrow> ('t \<times> 'v) list \<Rightarrow> 'v option" where
  "tuple_get T t = (let i = get_number_of_element T 0 (map fst t) in if i < length t then Some (snd (t ! i)) else None)"

lemma get_number_of_element_offset: "get_number_of_element T (n + k) ts = n + get_number_of_element T k ts"
proof (induction ts arbitrary: k)
  case (Cons t ts)
  then show ?case using Cons.IH [of "Suc k"] by simp
qed simp

lemma tuple_get_is_first: "tuple_get T t = map_of t T"
proof (induction t)
  case (Cons p t)
  have "get_number_of_element T (Suc 0) ts = Suc (get_number_of_element T 0 ts)" for ts
    using get_number_of_element_offset [of T 1 0 ts] by simp
  then show ?case using Cons by (auto simp: tuple_get_def Let_def)
qed (simp add: tuple_get_def)

end
