(* ===== verification/Id_Table_Prep.thy ===== *)
theory Id_Table_Prep
  imports Id_Service_Correct
begin

text \<open>
  \<open>tool/lct_id_table_prep\<close>: the tool that creates the keyspace and the table of the id service and
  inserts a row per engine, with its own configuration class \<open>CScConfigMgr\<close>.  Its \<open>CEngineInfo\<close>
  has the members and defaults of the one of the id service.  Log lines are left out.
\<close>

section \<open>The tool\<close>

definition LOCAL_CONFIG_FILE_PATH :: string where
  "LOCAL_CONFIG_FILE_PATH = ''./config/lct_service_config.properties''"

record sc_config =
  sc_servicePort :: int
  sc_databasePort :: int
  sc_serviceIp :: string
  sc_databaseIp :: string
  sc_databaseName :: string
  sc_databaseTableName :: string
  sc_keyspace :: string
  sc_logDir :: string

definition new_sc_config :: sc_config where
  "new_sc_config = \<lparr>sc_servicePort = 0, sc_databasePort = 0, sc_serviceIp = [], sc_databaseIp = [],
     sc_databaseName = [], sc_databaseTableName = [], sc_keyspace = [], sc_logDir = []\<rparr>"

definition sc_config_init :: "file_map \<Rightarrow> string \<Rightarrow> sc_config \<Rightarrow> lct_err \<times> sc_config" where
  "sc_config_init files configFilePath cfg =
     (case properties_parse files (new_properties configFilePath) of (errCode, properties) \<Rightarrow>
       if LCT_SUCCESS \<noteq> errCode then (errCode, cfg)
       else (LCT_SUCCESS, cfg\<lparr>
         sc_servicePort := to_u16 (getInt32 properties ''Poi.Correlate.Id.Service.Port'' 0),
         sc_databasePort := to_u16 (getInt32 properties ''Poi.Correlate.Id.Database.Port'' 0),
         sc_serviceIp := getString properties ''Poi.Correlate.Id.Service.Ip'' [],
         sc_databaseIp := getString properties ''Poi.Correlate.Id.Database.Ip'' [],
         sc_databaseName := getString properties ''Poi.Correlate.Id.Database.Name'' [],
         sc_databaseTableName := getString properties ''Poi.Correlate.Id.Database.Table.Name'' [],
         sc_keyspace := getString properties ''Poi.Correlate.Id.Database.keyspace'' [],
         sc_logDir := getString properties ''Poi.Correlate.Id.Log.Dir'' []\<rparr>))"

definition prep_usage :: "string \<Rightarrow> string" where
  "prep_usage executive = ''usage:'' @ [CHR 0x0A, CHR 0x09]
     @ executive @ ''                    # service booting up with default config_file'' @ [CHR 0x0A, CHR 0x09]
     @ executive @ '' -f config_file     # service booting up with specified config_file'' @ [CHR 0x0A, CHR 0x09, CHR 0x0A]"

definition prep_argvHandle :: "string list \<Rightarrow> string \<Rightarrow> lct_err \<times> string" where
  "prep_argvHandle argv configFilePath =
     (case argv of
        [_] \<Rightarrow> (LCT_SUCCESS, configFilePath)
      | [_, a1, a2] \<Rightarrow> if a1 \<noteq> ''-f'' then (LCT_FAIL, configFilePath) else (LCT_SUCCESS, a2)
      | _ \<Rightarrow> (LCT_FAIL, configFilePath))"

definition create_table_cql :: "sc_config \<Rightarrow> string" where
  "create_table_cql cfg =
     '' CREATE TABLE IF NOT EXISTS '' @ sc_keyspace cfg @ ''.'' @ sc_databaseTableName cfg @ '' (''
     @ '' seed_id int, '' @ '' seed_type int, '' @ '' id_max bigint, '' @ '' seed_step int, ''
     @ '' prealloc_valve bigint, '' @ '' prealloc_size bigint, '' @ '' prealloc_time text, ''
     @ '' PRIMARY KEY (seed_id, seed_type)'' @ '' ); ''"

definition createIdTable ::
    "('s, 'f, 'r, 'p, 'w) cass_driver \<Rightarrow> sc_config \<Rightarrow> ('s, 'r, 'p, 'w) cass_helper
       \<Rightarrow> (lct_err \<times> ('s, 'r, 'p, 'w) cass_helper) res" where
  "createIdTable drv cfg h = cass_createTable drv (sc_keyspace cfg) (create_table_cql cfg) h"

definition insert_id_cql :: "sc_config \<Rightarrow> int \<Rightarrow> int \<Rightarrow> engine_info \<Rightarrow> string" where
  "insert_id_cql cfg seedId seedType engineInfo =
     '' INSERT INTO '' @ sc_keyspace cfg @ ''.'' @ sc_databaseTableName cfg @ '' (''
     @ '' seed_id,         '' @ '' seed_type,       '' @ '' id_max,          '' @ '' seed_step,       ''
     @ '' prealloc_valve,  '' @ '' prealloc_size,   '' @ '' prealloc_time )  '' @ '' VALUES (''
     @ to_string seedId @ '' , '' @ to_string seedType @ '' , '' @ to_string (Max_id engineInfo) @ '' , ''
     @ to_string (Step engineInfo) @ '' , '' @ to_string (PreallocValve engineInfo) @ '' , ''
     @ to_string (PreallocSize engineInfo) @ '' , ''
     @ '' '' @ [CHR 0x27] @ '' '' @ DayStamp engineInfo @ [CHR 0x27] @ ''  '' @ '' ); ''"

definition insertIdTable ::
    "('s, 'f, 'r, 'p, 'w) cass_driver \<Rightarrow> sc_config \<Rightarrow> int \<Rightarrow> int \<Rightarrow> engine_info \<Rightarrow> ('s, 'r, 'p, 'w) cass_helper
       \<Rightarrow> (lct_err \<times> ('s, 'r, 'p, 'w) cass_helper) res" where
  "insertIdTable drv cfg seedId seedType engineInfo h =
     cass_insert drv (sc_keyspace cfg) (insert_id_cql cfg seedId seedType engineInfo) h"

text \<open>Steps that stop at the first code that is not success.\<close>

fun prep_steps :: "('h \<Rightarrow> (lct_err \<times> 'h) res) list \<Rightarrow> 'h \<Rightarrow> (lct_err \<times> 'h) res" where
  "prep_steps [] h = Inr (LCT_SUCCESS, h)"
| "prep_steps (f # fs) h = res_bind (f h) (\<lambda>(e, h1). if LCT_SUCCESS \<noteq> e then Inr (e, h1) else prep_steps fs h1)"

definition initEngine ::
    "('s, 'f, 'r, 'p, 'w) cass_driver \<Rightarrow> sc_config \<Rightarrow> ('s, 'r, 'p, 'w) cass_helper
       \<Rightarrow> (lct_err \<times> ('s, 'r, 'p, 'w) cass_helper) res" where
  "initEngine drv cfg = prep_steps
     [insertIdTable drv cfg LCT_EVENT_ENGINE_SEED_ID 2 new_engine_info,
      insertIdTable drv cfg LCT_TASKS_ENGINE_SEED_ID 2 new_engine_info,
      insertIdTable drv cfg LCT_MODEL_ENGINE_SEED_ID 2 new_engine_info]"

text \<open>The body of \<open>main\<close> once the helper is ready; its code is overwritten by that of \<open>close\<close>.\<close>

definition prep_body ::
    "('s, 'f, 'r, 'p, 'w) cass_driver \<Rightarrow> sc_config \<Rightarrow> ('s, 'r, 'p, 'w) cass_helper
       \<Rightarrow> (lct_err \<times> ('s, 'r, 'p, 'w) cass_helper) res" where
  "prep_body drv cfg h =
     res_bind (prep_steps [createKeyspace drv (sc_keyspace cfg) 3, createIdTable drv cfg, initEngine drv cfg] h)
       (\<lambda>(_, h1). helper_close h1)"

definition prep_main ::
    "('s, 'f, 'r, 'p, 'w) cass_driver \<Rightarrow> string list \<Rightarrow> ('s, 'r, 'p, 'w) cass_helper \<Rightarrow> host
       \<Rightarrow> (int \<times> ('s, 'r, 'p, 'w) cass_helper \<times> host) res" where
  "prep_main drv argv h host =
     (case prep_argvHandle argv [] of (e0, configFilePath) \<Rightarrow>
       if LCT_SUCCESS \<noteq> e0 then
         (if LCT_VERSION_INFO = e0 then Inr (0, h, host)
          else case argv of [] \<Rightarrow> Inl Undefined | exe # _ \<Rightarrow> Inr (sint e0, h, print_out (prep_usage exe) host))
       else case sc_config_init (h_files host) (if configFilePath = [] then LOCAL_CONFIG_FILE_PATH else configFilePath) new_sc_config of
         (e1, cfg) \<Rightarrow>
           if LCT_SUCCESS \<noteq> e1 then Inr (sint e1, h, host)
           else case helper_init (sc_databasePort cfg) (sc_databaseIp cfg) h of (e2, h1) \<Rightarrow>
             if LCT_SUCCESS \<noteq> e2 then Inr (sint e2, h1, host)
             else res_bind (prep_body drv cfg h1) (\<lambda>(e3, h2).
               if LCT_SUCCESS \<noteq> e3 then Inr (sint e3, h2, host) else Inr (0, h2, host)))"

section \<open>What it sends\<close>

definition prep_statements :: "sc_config \<Rightarrow> string list" where
  "prep_statements cfg =
     [createKeyspace_cql (sc_keyspace cfg) 3, create_table_cql cfg,
      insert_id_cql cfg 1001 2 new_engine_info, insert_id_cql cfg 1002 2 new_engine_info,
      insert_id_cql cfg 1003 2 new_engine_info]"

text \<open>A step that sends one statement.\<close>

definition sends :: "('w \<Rightarrow> string list list) \<Rightarrow> string \<Rightarrow> (('s, 'r, 'p, 'w) cass_helper \<Rightarrow> (lct_err \<times> ('s, 'r, 'p, 'w) cass_helper) res) \<Rightarrow> bool" where
  "sends trace cql f \<longleftrightarrow> (\<forall>h. helper_ok h \<longrightarrow> (\<exists>e h1. f h = Inr (e, h1) \<and> helper_ok h1
     \<and> trace (h_world h1) = (if e = LCT_SUCCESS then trace (h_world h) @ [[c_str cql]] else trace (h_world h))))"

lemma prep_steps_append:
  "prep_steps (fs @ gs) h = res_bind (prep_steps fs h) (\<lambda>(e, h1). if LCT_SUCCESS \<noteq> e then Inr (e, h1) else prep_steps gs h1)"
proof (induction fs arbitrary: h)
  case (Cons f fs)
  then show ?case by (cases "f h") auto
qed simp

lemma prep_steps_sends:
  "list_all2 (sends trace) cqls fs \<Longrightarrow> helper_ok h \<Longrightarrow>
     \<exists>e h1 k. prep_steps fs h = Inr (e, h1) \<and> helper_ok h1 \<and> k \<le> length cqls \<and> (e = LCT_SUCCESS \<longleftrightarrow> k = length cqls)
       \<and> trace (h_world h1) = trace (h_world h) @ map (\<lambda>s. [c_str s]) (take k cqls)"
proof (induction cqls fs arbitrary: h rule: list_all2_induct)
  case Nil
  then show ?case by auto
next
  case (Cons cql cqls f fs)
  obtain e h1 where f: "f h = Inr (e, h1)" "helper_ok h1"
    "trace (h_world h1) = (if e = LCT_SUCCESS then trace (h_world h) @ [[c_str cql]] else trace (h_world h))"
    using Cons(1) Cons.prems unfolding sends_def by blast
  show ?case
  proof (cases "e = LCT_SUCCESS")
    case False
    then show ?thesis using f by (intro exI [of _ e] exI [of _ h1] exI [of _ 0]) simp
  next
    case True
    obtain e2 h2 k where "prep_steps fs h1 = Inr (e2, h2)" "helper_ok h2" "k \<le> length cqls"
      "e2 = LCT_SUCCESS \<longleftrightarrow> k = length cqls"
      "trace (h_world h2) = trace (h_world h1) @ map (\<lambda>s. [c_str s]) (take k cqls)"
      using Cons.IH [OF f(2)] by blast
    then show ?thesis using f True by (intro exI [of _ e2] exI [of _ h2] exI [of _ "Suc k"]) simp
  qed
qed

lemma prep_steps_ok:
  "\<forall>f \<in> set fs. \<forall>h. helper_ok h \<longrightarrow> (\<exists>h1. f h = Inr (LCT_SUCCESS, h1) \<and> helper_ok h1) \<Longrightarrow> helper_ok h
     \<Longrightarrow> \<exists>h1. prep_steps fs h = Inr (LCT_SUCCESS, h1)"
proof (induction fs arbitrary: h)
  case (Cons f fs)
  obtain h1 where "f h = Inr (LCT_SUCCESS, h1)" "helper_ok h1" using Cons.prems by auto
  then show ?case using Cons.IH [of h1] Cons.prems(1) by auto
qed simp

context recording_driver
begin

lemma insert_sends: "sends trace cql (cass_insert drv ks cql)"
  using insert_trace unfolding sends_def by blast

lemma create_sends:
  assumes "\<And>s st w. fst (drv_execute drv s st w) \<noteq> CASS_ERROR_SERVER_ALREADY_EXISTS"
  shows "sends trace cql (cass_createTable drv ks cql)" "sends trace (createKeyspace_cql ks n) (createKeyspace drv ks n)"
proof -
  have ne: "e \<noteq> LCT_RECORD_EXISTS" if "helper_execute drv ks cql h = Inr (e, r, h1)" for e r h h1 cql
  proof -
    have p: "e1 \<noteq> LCT_RECORD_EXISTS" if "pool_session drv ks p w = (e1, so, p1, w1)" for e1 so p p1 w w1
      using that by (auto simp: pool_session_cases Let_def split: option.splits prod.splits if_splits)
    show ?thesis
      using that assms p
      by (auto simp: helper_execute_def get_session_def CassAutoFlowControl_def Let_def split: if_splits option.splits prod.splits)
        (metis fst_conv)+
  qed
  have c: "cass_createTable drv ks cql h = cass_insert drv ks cql h" for h cql
    using ne [of cql h] by (cases "helper_execute drv ks cql h") (auto simp: cass_createTable_def cass_insert_def)
  have k: "createKeyspace drv ks n h = cass_insert drv ks (createKeyspace_cql ks n) h" for h n
    using ne [of "createKeyspace_cql ks n" h]
    by (cases "helper_execute drv ks (createKeyspace_cql ks n) h") (auto simp: createKeyspace_def cass_insert_def)
  show "sends trace cql (cass_createTable drv ks cql)" using insert_sends [of cql ks] by (simp add: sends_def c)
  show "sends trace (createKeyspace_cql ks n) (createKeyspace drv ks n)"
    using insert_sends [of "createKeyspace_cql ks n" ks] by (simp add: sends_def k)
qed

text \<open>With a database that accepts everything, every step succeeds.\<close>

lemma steps_ok:
  assumes "\<forall>cl w. fst (drv_connect drv cl w) = CASS_OK" "\<forall>s st w. fst (drv_execute drv s st w) = CASS_OK" "helper_ok h"
  shows "\<exists>h1. cass_insert drv ks cql h = Inr (LCT_SUCCESS, h1) \<and> helper_ok h1"
    "\<exists>h1. createKeyspace drv ks n h = Inr (LCT_SUCCESS, h1) \<and> helper_ok h1"
    "\<exists>h1. createIdTable drv cfg h = Inr (LCT_SUCCESS, h1) \<and> helper_ok h1"
    "\<exists>h1. insertIdTable drv cfg i j info h = Inr (LCT_SUCCESS, h1) \<and> helper_ok h1"
proof -
  have x: "\<exists>r h1. helper_execute drv ks cql h = Inr (LCT_SUCCESS, r, h1) \<and> helper_ok h1" for ks cql
  proof -
    obtain p where p: "h_pool h = Some p" "h_ready h" "h_concurrent h < h_limit h" using assms(3) by (auto simp: helper_ok_def)
    obtain so p1 w1 where q: "pool_session drv ks p (h_world h) = (LCT_SUCCESS, Some so, p1, w1)"
    proof (cases "m_sessionMap p ks")
      case None
      obtain sx wx where "drv_connect drv (LctCreateCluster\<lparr>cl_contact_points := c_str (m_dbHost p), cl_port := m_dbPort p\<rparr>) (h_world h) = (CASS_OK, sx, wx)"
        using assms(1) by (metis prod_cases3 fst_conv)
      then show ?thesis using that None by (simp add: pool_session_cases Let_def)
    qed (use that in \<open>simp add: pool_session_cases\<close>)
    obtain r w2 where "drv_execute drv so (cass_statement_new cql) w1 = (CASS_OK, r, w2)"
      using assms(2) by (metis prod_cases3 fst_conv)
    then show ?thesis using p q by (simp add: helper_execute_def get_session_def helper_ok_def Let_def)
  qed
  show "\<exists>h1. cass_insert drv ks cql h = Inr (LCT_SUCCESS, h1) \<and> helper_ok h1"
    using x [of ks cql] by (auto simp: cass_insert_def)
  show "\<exists>h1. createKeyspace drv ks n h = Inr (LCT_SUCCESS, h1) \<and> helper_ok h1"
    using x [of ks "createKeyspace_cql ks n"] by (auto simp: createKeyspace_def)
  show "\<exists>h1. createIdTable drv cfg h = Inr (LCT_SUCCESS, h1) \<and> helper_ok h1"
    using x [of "sc_keyspace cfg" "create_table_cql cfg"] by (auto simp: createIdTable_def cass_createTable_def)
  show "\<exists>h1. insertIdTable drv cfg i j info h = Inr (LCT_SUCCESS, h1) \<and> helper_ok h1"
    using x [of "sc_keyspace cfg" "insert_id_cql cfg i j info"] by (auto simp: insertIdTable_def cass_insert_def)
qed

lemma prep_body_sends:
  assumes "\<And>s st w. fst (drv_execute drv s st w) \<noteq> CASS_ERROR_SERVER_ALREADY_EXISTS" "helper_ok h"
  shows "\<exists>h1 k. prep_body drv cfg h = Inr (LCT_SUCCESS, h1) \<and> k \<le> 5
     \<and> trace (h_world h1) = trace (h_world h) @ map (\<lambda>s. [c_str s]) (take k (prep_statements cfg))
     \<and> ((\<forall>cl w. fst (drv_connect drv cl w) = CASS_OK) \<longrightarrow> (\<forall>s st w. fst (drv_execute drv s st w) = CASS_OK) \<longrightarrow> k = 5)"
proof -
  let ?ins = "\<lambda>s. insertIdTable drv cfg s 2 new_engine_info"
  let ?fs = "[createKeyspace drv (sc_keyspace cfg) 3, createIdTable drv cfg, ?ins 1001, ?ins 1002, ?ins 1003]"
  have flat: "prep_steps [createKeyspace drv (sc_keyspace cfg) 3, createIdTable drv cfg, initEngine drv cfg] h' = prep_steps ?fs h'" for h'
  proof -
    have one: "prep_steps [g] h2 = g h2" for g and h2 :: "('s, 'r, 'p, 'w) cass_helper" by (cases "g h2") auto
    have "prep_steps [initEngine drv cfg] h2 = prep_steps [?ins 1001, ?ins 1002, ?ins 1003] h2" for h2
      unfolding one [of "initEngine drv cfg"]
      by (simp only: initEngine_def LCT_EVENT_ENGINE_SEED_ID_def LCT_TASKS_ENGINE_SEED_ID_def LCT_MODEL_ENGINE_SEED_ID_def)
    then show ?thesis
      using prep_steps_append [of "[createKeyspace drv (sc_keyspace cfg) 3, createIdTable drv cfg]" "[initEngine drv cfg]" h']
        prep_steps_append [of "[createKeyspace drv (sc_keyspace cfg) 3, createIdTable drv cfg]" "[?ins 1001, ?ins 1002, ?ins 1003]" h']
      by (simp only: append_Cons append_Nil)
  qed
  have "createIdTable drv cfg = cass_createTable drv (sc_keyspace cfg) (create_table_cql cfg)"
    "?ins s = cass_insert drv (sc_keyspace cfg) (insert_id_cql cfg s 2 new_engine_info)" for s
    by (simp_all add: fun_eq_iff createIdTable_def insertIdTable_def)
  then have "list_all2 (sends trace) (prep_statements cfg) ?fs"
    using create_sends [OF assms(1)] insert_sends by (simp add: prep_statements_def)
  from prep_steps_sends [OF this assms(2)]
  obtain e h1 k where s: "prep_steps ?fs h = Inr (e, h1)" "helper_ok h1" "k \<le> length (prep_statements cfg)"
    "e = LCT_SUCCESS \<longleftrightarrow> k = length (prep_statements cfg)"
    "trace (h_world h1) = trace (h_world h) @ map (\<lambda>s. [c_str s]) (take k (prep_statements cfg))" by blast
  obtain h2 where c: "helper_close h1 = Inr (LCT_SUCCESS, h2)" "h_world h2 = h_world h1"
    using s(2) by (auto simp: helper_close_def helper_ok_def pool_close_def)
  have b: "prep_body drv cfg h = Inr (LCT_SUCCESS, h2)"
    unfolding prep_body_def flat s(1) using c(1) by simp
  have l: "length (prep_statements cfg) = 5" by (simp add: prep_statements_def)
  have "e = LCT_SUCCESS" if ok: "\<forall>cl w. fst (drv_connect drv cl w) = CASS_OK" "\<forall>s st w. fst (drv_execute drv s st w) = CASS_OK"
    using prep_steps_ok [of ?fs h] steps_ok [OF ok] assms(2) s(1) by fastforce
  then show ?thesis using s(3-5) b c(2) l by (intro exI [of _ h2] exI [of _ k]) auto
qed

end

text \<open>
  C33: with a configuration file, and on a helper as the tool constructs it (nobody else uses it, and
  its request limit is not 0), the tool sends the keyspace, the table and the three rows in this
  order and nothing else, stopping at the first that fails; a database that accepts everything
  gets all five.  In every case it exits with 0.
\<close>

theorem prep_sends_in_order:
  assumes "recording_driver drv trace" "\<And>s st w. fst (drv_execute drv s st w) \<noteq> CASS_ERROR_SERVER_ALREADY_EXISTS"
    "path \<noteq> []" "sc_config_init (h_files host) path new_sc_config = (LCT_SUCCESS, cfg)" "h_concurrent h = 0" "0 < h_limit h"
  shows "\<exists>h1 k. prep_main drv [exe, ''-f'', path] h host = Inr (0, h1, host) \<and> k \<le> 5
     \<and> trace (h_world h1) = trace (h_world h) @ map (\<lambda>s. [c_str s]) (take k (prep_statements cfg))
     \<and> ((\<forall>cl w. fst (drv_connect drv cl w) = CASS_OK) \<longrightarrow> (\<forall>s st w. fst (drv_execute drv s st w) = CASS_OK) \<longrightarrow> k = 5)"
proof -
  obtain h0 where h0: "helper_init (sc_databasePort cfg) (sc_databaseIp cfg) h = (LCT_SUCCESS, h0)" "helper_ok h0" "h_world h0 = h_world h"
    using assms(5,6) by (auto simp: helper_init_def helper_ok_def setRequestMax_def CASSANDRA_MAX_LIMIT_DEFAULT_SIZE_def Let_def)
  show ?thesis
    using recording_driver.prep_body_sends [OF assms(1,2) h0(2), of cfg] assms(3,4) h0(1,3)
    by (auto simp: prep_main_def prep_argvHandle_def)
qed

text \<open>A driver that answers every call with success and records the statements.\<close>

definition always_ok_driver :: "(unit, cass_error \<times> (unit, nat) cass_result, unit, nat, unit ref_world) cass_driver" where
  "always_ok_driver = (ref_driver accept_all)\<lparr>
     drv_execute := \<lambda>s st w. (CASS_OK, no_result, w\<lparr>rw_log := rw_log w @ [[st_cql st]]\<rparr>)\<rparr>"

interpretation always: recording_driver always_ok_driver rw_log
proof unfold_locales
  fix s b e and w w' :: "unit ref_world"
  assume "drv_execute_batch always_ok_driver s b w = (e, w')"
  then show "rw_log w' = (if e = CASS_OK then rw_log w @ [b] else rw_log w)"
    using ref.batch_trace [of accept_all s b w e w'] by (simp add: always_ok_driver_def)
qed (auto simp: always_ok_driver_def ref_driver_def)

theorem prep_sends_in_order_witness:
  "\<exists>h1. prep_main always_ok_driver [''prep'', ''-f'', ''cfg''] (new_cass_helper (ref_world_of () [] []))
        \<lparr>h_files = [''cfg'' \<mapsto> render svc_entries], h_out = [], h_step = 0\<rparr>
      = Inr (0, h1, \<lparr>h_files = [''cfg'' \<mapsto> render svc_entries], h_out = [], h_step = 0\<rparr>)
    \<and> length (rw_log (h_world h1)) = 5"
proof -
  let ?host = "\<lparr>h_files = [''cfg'' \<mapsto> render svc_entries], h_out = [], h_step = 0\<rparr>"
  let ?h = "new_cass_helper (ref_world_of () [] []) :: (unit, unit, nat, unit ref_world) cass_helper"
  obtain cfg where c: "sc_config_init (h_files ?host) ''cfg'' new_sc_config = (LCT_SUCCESS, cfg)"
    by (simp add: sc_config_init_def properties_parse_def new_properties_def)
  have f: "h_concurrent ?h = 0" "0 < h_limit ?h" by (simp_all add: new_cass_helper_def CASSANDRA_MAX_LIMIT_DEFAULT_SIZE_def)
  have x: "fst (drv_connect always_ok_driver cl w) = CASS_OK" "fst (drv_execute always_ok_driver s st w) = CASS_OK" for cl s st w
    by (simp_all add: always_ok_driver_def ref_driver_def)
  obtain h1 k where "prep_main always_ok_driver [''prep'', ''-f'', ''cfg''] ?h ?host = Inr (0, h1, ?host)" "k = 5"
    "rw_log (h_world h1) = rw_log (h_world ?h) @ map (\<lambda>s. [c_str s]) (take k (prep_statements cfg))"
    using prep_sends_in_order [OF always.recording_driver_axioms, of "''cfg''" ?host cfg ?h "''prep''"] c x f by auto
  moreover have "rw_log (h_world ?h) = []" by (simp add: new_cass_helper_def ref_world_of_def)
  ultimately show ?thesis by (auto simp: prep_statements_def)
qed

end
