(* ===== verification/Id_Prep_Service.thy ===== *)
theory Id_Prep_Service
  imports Id_Table_Prep Id_Main_Correct
begin

text \<open>
  The id-table tool and the id service together, on a database that does what CQL says for the
  statements both send: the tool fills the table, the service counts from what it finds there, a
  service started again goes on where the last one had reserved numbers, and the tool run again
  starts anew.  The database is the locale \<open>id_database\<close>; the reference server of
  \<open>Cass_Reference\<close> with \<open>prep_exec\<close> is an instance.
\<close>

section \<open>The database both programs need\<close>

definition fresh_row :: "int \<Rightarrow> id_row" where
  "fresh_row v = \<lparr>col_id_max = Some (2 ^ 63 - 1), col_seed_step = Some 1, col_prealloc_valve = Some v,
     col_prealloc_size = Some 100, col_prealloc_time = Some '' ''\<rparr>"

text \<open>
  \<open>good\<close> says that no call fails and the day does not end from here on; \<open>tbl\<close> is what the id table
  \<open>ks.tn\<close> holds and \<open>day\<close> the current day.  A \<open>SELECT\<close> by primary key returns the row, an \<open>UPDATE\<close>
  sets two columns of the row or makes one, an \<open>INSERT\<close> writes the whole row whatever was there,
  \<open>CREATE ... IF NOT EXISTS\<close> leaves the table as it is.
\<close>

locale id_database =
  fixes drv :: "('s, 'f, id_row, 'p, 'w) cass_driver" and clock :: "'w \<Rightarrow> string \<times> 'w"
    and good :: "'w \<Rightarrow> bool" and tbl :: "'w \<Rightarrow> id_tbl" and day :: "'w \<Rightarrow> string" and ks tn :: string
  assumes connects: "good w \<Longrightarrow> drv_connect drv cl w = (e, s, w1) \<Longrightarrow> e = CASS_OK \<and> good w1 \<and> tbl w1 = tbl w \<and> day w1 = day w"
    and clock_says: "good w \<Longrightarrow> clock w = (d, w1) \<Longrightarrow> d = day w \<and> good w1 \<and> tbl w1 = tbl w \<and> day w1 = day w"
    and selects: "good w \<Longrightarrow> ds_keyspace ds = ks \<Longrightarrow> ds_idTable ds = tn
      \<Longrightarrow> drv_execute drv s (cass_statement_new (id_select_cql ds i ty)) w = (e, res, w1)
      \<Longrightarrow> e = CASS_OK \<and> good w1 \<and> day w1 = day w \<and> tbl w1 = tbl w
        \<and> res_rows res = (case tbl w (i, seed_type_val ty) of None \<Rightarrow> [] | Some r \<Rightarrow> [r])"
    and updates: "good w \<Longrightarrow> ds_keyspace ds = ks \<Longrightarrow> ds_idTable ds = tn \<Longrightarrow> DayStamp info = day w
      \<Longrightarrow> drv_execute drv s (cass_statement_new (id_update_cql ds i ty info)) w = (e, res, w1)
      \<Longrightarrow> e = CASS_OK \<and> good w1 \<and> day w1 = day w
        \<and> tbl w1 = (tbl w)((i, seed_type_val ty) \<mapsto> (case tbl w (i, seed_type_val ty) of None \<Rightarrow> null_row | Some r \<Rightarrow> r)
            \<lparr>col_prealloc_valve := Some (PreallocValve info), col_prealloc_time := Some (DayStamp info)\<rparr>)"
    and inserts: "good w \<Longrightarrow> sc_keyspace cfg = ks \<Longrightarrow> sc_databaseTableName cfg = tn
      \<Longrightarrow> drv_execute drv s (cass_statement_new (insert_id_cql cfg i n new_engine_info)) w = (e, res, w1)
      \<Longrightarrow> e = CASS_OK \<and> good w1 \<and> day w1 = day w \<and> tbl w1 = (tbl w)((i, n) \<mapsto> fresh_row 0)"
    and creates: "good w \<Longrightarrow> sc_keyspace cfg = ks \<Longrightarrow> sc_databaseTableName cfg = tn
      \<Longrightarrow> cql \<in> {createKeyspace_cql ks 3, create_table_cql cfg} \<Longrightarrow> drv_execute drv s (cass_statement_new cql) w = (e, res, w1)
      \<Longrightarrow> e = CASS_OK \<and> good w1 \<and> day w1 = day w \<and> tbl w1 = tbl w"

section \<open>One engine over its row\<close>

definition row_at :: "id_tbl \<Rightarrow> int \<Rightarrow> int \<Rightarrow> bool" where
  "row_at t s v \<longleftrightarrow> (\<exists>tm. t (s, 2) = Some ((fresh_row v)\<lparr>col_prealloc_time := tm\<rparr>))"

definition engine_at :: "int \<Rightarrow> string \<Rightarrow> int \<Rightarrow> int \<Rightarrow> sid_engine" where
  "engine_at s d c v = \<lparr>m_seedType = SEED_TYPE_DAY_SWITCH, m_seedId = s,
     m_engineInfo = \<lparr>Step = 1, PreallocSize = 100, Max_id = 2 ^ 63 - 1, PreallocValve = v, CurrentId = c, DayStamp = d\<rparr>\<rparr>"

definition other_rows :: "int \<Rightarrow> id_tbl \<Rightarrow> id_tbl \<Rightarrow> bool" where
  "other_rows s t t' \<longleftrightarrow> (\<forall>s'. s' \<noteq> s \<longrightarrow> t' (s', 2) = t (s', 2))"

lemma row_at_other: "other_rows s t t' \<Longrightarrow> s' \<noteq> s \<Longrightarrow> row_at t s' v \<Longrightarrow> row_at t' s' v"
  by (simp add: other_rows_def row_at_def)

text \<open>What the service promises: a counter per seed, all under the date of the day.\<close>

definition served :: "int set" where
  "served = {1001, 1002, 1003}"

fun counter_replies :: "string \<Rightarrow> int list \<Rightarrow> (int \<Rightarrow> int) \<Rightarrow> (int \<times> id_response) list" where
  "counter_replies d [] c = []"
| "counter_replies d (s # seeds) c =
     (if s \<in> served then (s, \<lparr>resp_id = Some (d, c s), resp_code = Some 0\<rparr>) # counter_replies d seeds (c(s := c s + 1))
      else (s, \<lparr>resp_id = None, resp_code = Some (sint LCT_INVALID_BIZ_TYPE)\<rparr>) # counter_replies d seeds c)"

lemma counter_ids:
  "(s, d', i) \<in> set (handed (counter_replies d seeds c)) \<longleftrightarrow> s \<in> served \<and> d' = d \<and> c s \<le> i \<and> i < c s + int (count_list seeds s)"
  by (induction seeds arbitrary: c) (auto simp: handed_def)

lemma counter_distinct: "distinct (handed (counter_replies d seeds c))"
proof (induction seeds arbitrary: c)
  case (Cons s seeds)
  have one: "handed ((s, r) # rs) = (case resp_id r of Some (d, i) \<Rightarrow> [(s, d, i)] | None \<Rightarrow> []) @ handed rs" for r rs
    by (simp add: handed_def)
  show ?case using Cons by (auto simp: one counter_ids)
qed (simp add: handed_def)

text \<open>Every engine is at its counter, and its row says how far it may count.\<close>

definition engine_serves :: "id_tbl \<Rightarrow> engine_map \<Rightarrow> string \<Rightarrow> (int \<Rightarrow> int) \<Rightarrow> int \<Rightarrow> bool" where
  "engine_serves t mm d c s \<longleftrightarrow> (\<exists>v. mm s = Some (engine_at s d (c s) v) \<and> row_at t s v \<and> 0 \<le> c s \<and> c s \<le> v \<and> v \<le> c s + 100)"

text \<open>An RPC library that does what it is asked.\<close>

definition lib_obeys :: "'g grpc_lib \<Rightarrow> bool" where
  "lib_obeys lib \<longleftrightarrow> (\<forall>c w. fst (gl_call lib c w)) \<and> (\<forall>b w. fst (gl_build lib b w) = Server_started)
     \<and> (\<forall>w. fst (gl_wait lib w)) \<and> (\<forall>w. fst (gl_shutdown lib w))"

text \<open>The two configuration classes read the same keys.\<close>

lemma prep_config_same:
  assumes "sid_config_init files path new_sid_config = (LCT_SUCCESS, cfg)"
  shows "\<exists>sc. sc_config_init files path new_sc_config = (LCT_SUCCESS, sc) \<and> sc_keyspace sc = cfg_keyspace cfg
     \<and> sc_databaseTableName sc = cfg_databaseTableName cfg"
  using assms by (auto simp: sid_config_init_def sc_config_init_def new_sid_config_def new_sc_config_def split: prod.splits if_splits)

lemma fresh_helper_init: "\<exists>h. helper_init port hosts (new_cass_helper w) = (LCT_SUCCESS, h) \<and> pool_ready h \<and> h_world h = w"
  by (auto simp: helper_init_def new_cass_helper_def pool_ready_def setRequestMax_def CASSANDRA_MAX_LIMIT_DEFAULT_SIZE_def Let_def)

context id_database
begin

definition still :: "('s, id_row, 'p, 'w) cass_helper \<Rightarrow> string \<Rightarrow> bool" where
  "still h d \<longleftrightarrow> pool_ready h \<and> good (h_world h) \<and> day (h_world h) = d"

abbreviation tbl_at :: "('s, id_row, 'p, 'w) cass_helper \<Rightarrow> id_tbl" where
  "tbl_at h \<equiv> tbl (h_world h)"

abbreviation env_of :: "sid_data_source \<Rightarrow> ('s, id_row, 'p, 'w) cass_helper id_env" where
  "env_of ds \<equiv> sid_env drv clock ds"

definition ours :: "sid_data_source \<Rightarrow> bool" where
  "ours ds \<longleftrightarrow> ds_keyspace ds = ks \<and> ds_idTable ds = tn"

lemma still_day:
  assumes "still h d"
  shows "\<exists>h1. now_day (env_of ds) h = (d, h1) \<and> still h1 d \<and> tbl_at h1 = tbl_at h"
proof -
  obtain d1 w where c: "clock (h_world h) = (d1, w)" by fastforce
  show ?thesis using clock_says [OF _ c] c assms by (auto simp: still_def sid_env_def pool_ready_def)
qed

text \<open>A call of the helper whose statement the database accepts.\<close>

lemma still_execute:
  assumes "still h d" and "\<And>s w e res w1. good w \<Longrightarrow> tbl w = tbl_at h \<Longrightarrow> day w = d
      \<Longrightarrow> drv_execute drv s (cass_statement_new cql) w = (e, res, w1)
      \<Longrightarrow> e = CASS_OK \<and> good w1 \<and> day w1 = day w \<and> tbl w1 = t \<and> P res"
  shows "\<exists>res h1. helper_execute drv k cql h = Inr (LCT_SUCCESS, Some res, h1) \<and> still h1 d \<and> tbl_at h1 = t \<and> P res"
proof -
  obtain p where p: "h_pool h = Some p" "h_ready h" "h_concurrent h < h_limit h" using assms(1) by (auto simp: still_def pool_ready_def)
  have g: "good (h_world h)" "day (h_world h) = d" using assms(1) by (simp_all add: still_def)
  obtain s p1 w1 where q: "pool_session drv k p (h_world h) = (LCT_SUCCESS, Some s, p1, w1)" "good w1" "tbl w1 = tbl_at h" "day w1 = d"
  proof (cases "m_sessionMap p k")
    case None
    let ?cl = "LctCreateCluster\<lparr>cl_contact_points := c_str (m_dbHost p), cl_port := m_dbPort p\<rparr>"
    obtain e s w1 where c: "drv_connect drv ?cl (h_world h) = (e, s, w1)" by (metis prod_cases3)
    show ?thesis using that connects [OF g(1) c] c None g(2) by (simp add: pool_session_cases Let_def)
  qed (use that g in \<open>simp add: pool_session_cases\<close>)
  obtain e res w2 where x: "drv_execute drv s (cass_statement_new cql) w1 = (e, res, w2)" by (metis prod_cases3)
  have y: "e = CASS_OK" "good w2" "day w2 = day w1" "tbl w2 = t" "P res" using assms(2) [OF q(2-4) x] by blast+
  show ?thesis using p q x y by (simp add: helper_execute_def get_session_def still_def pool_ready_def Let_def)
qed

lemma still_query:
  assumes "ours ds" "still h d" "row_at (tbl_at h) s v"
  shows "\<exists>tm h1. ds_query (env_of ds) s SEED_TYPE_DAY_SWITCH new_engine_info h
     = (LCT_SUCCESS, (m_engineInfo (engine_at s d 0 v))\<lparr>DayStamp := tm\<rparr>, h1) \<and> still h1 d \<and> tbl_at h1 = tbl_at h"
proof -
  obtain tm where r: "tbl_at h (s, 2) = Some ((fresh_row v)\<lparr>col_prealloc_time := tm\<rparr>)" using assms(3) by (auto simp: row_at_def)
  have acc: "e = CASS_OK \<and> good w1 \<and> day w1 = day w \<and> tbl w1 = tbl_at h \<and> res_rows res = [(fresh_row v)\<lparr>col_prealloc_time := tm\<rparr>]"
    if "good w" "tbl w = tbl_at h" "drv_execute drv x (cass_statement_new (id_select_cql ds s SEED_TYPE_DAY_SWITCH)) w = (e, res, w1)" for x w e res w1
    using selects [OF that(1) _ _ that(3)] assms(1) that(2) r by (simp add: ours_def seed_type_val_def)
  have "\<exists>res h1. helper_execute drv (ds_keyspace ds) (id_select_cql ds s SEED_TYPE_DAY_SWITCH) h = Inr (LCT_SUCCESS, Some res, h1)
      \<and> still h1 d \<and> tbl_at h1 = tbl_at h \<and> res_rows res = [(fresh_row v)\<lparr>col_prealloc_time := tm\<rparr>]"
    by (rule still_execute [OF assms(2)]) (rule acc)
  then show ?thesis
    by (auto simp: sid_env_def data_source_query_def cass_query_def read_id_row_def fresh_row_def new_engine_info_def engine_at_def)
qed

lemma still_persist:
  assumes "ours ds" "still h d" "row_at (tbl_at h) s v"
  shows "\<exists>h1. ds_persist (env_of ds) s SEED_TYPE_DAY_SWITCH (m_engineInfo (engine_at s d c u)) h = (LCT_SUCCESS, h1)
     \<and> still h1 d \<and> row_at (tbl_at h1) s u \<and> other_rows s (tbl_at h) (tbl_at h1)"
proof -
  obtain tm where r: "tbl_at h (s, 2) = Some ((fresh_row v)\<lparr>col_prealloc_time := tm\<rparr>)" using assms(3) by (auto simp: row_at_def)
  let ?i = "m_engineInfo (engine_at s d c u)"
  let ?t = "(tbl_at h)((s, 2) \<mapsto> (fresh_row u)\<lparr>col_prealloc_time := Some d\<rparr>)"
  have acc: "e = CASS_OK \<and> good w1 \<and> day w1 = day w \<and> tbl w1 = ?t \<and> True"
    if "good w" "tbl w = tbl_at h" "day w = d" "drv_execute drv x (cass_statement_new (id_update_cql ds s SEED_TYPE_DAY_SWITCH ?i)) w = (e, res, w1)"
    for x w e res w1
  proof -
    have i: "DayStamp ?i = day w" using that(3) by (simp add: engine_at_def)
    show ?thesis using updates [OF that(1) _ _ i that(4)] assms(1) that(2) r
      by (simp add: ours_def seed_type_val_def engine_at_def fresh_row_def)
  qed
  have "\<exists>res h1. helper_execute drv (ds_keyspace ds) (id_update_cql ds s SEED_TYPE_DAY_SWITCH ?i) h = Inr (LCT_SUCCESS, Some res, h1)
      \<and> still h1 d \<and> tbl_at h1 = ?t \<and> True"
    by (rule still_execute [OF assms(2)]) (rule acc)
  then
  obtain res h1 where x: "helper_execute drv (ds_keyspace ds) (id_update_cql ds s SEED_TYPE_DAY_SWITCH ?i) h = Inr (LCT_SUCCESS, Some res, h1)"
    "still h1 d" "tbl_at h1 = ?t" by blast
  have "row_at (tbl_at h1) s u" "other_rows s (tbl_at h) (tbl_at h1)" unfolding x(3) by (auto simp: row_at_def other_rows_def)
  then show ?thesis using x(1,2) by (auto simp: sid_env_def data_source_persist_def cass_update_def)
qed

lemma still_init:
  assumes "ours ds" "still h d" "row_at (tbl_at h) s v" "0 \<le> v" "v + 100 < 2 ^ 63"
  shows "\<exists>h1. engine_init (env_of ds) (new_day_switch_engine s) h = (LCT_SUCCESS, engine_at s d v (v + 100), h1)
     \<and> still h1 d \<and> row_at (tbl_at h1) s (v + 100) \<and> other_rows s (tbl_at h) (tbl_at h1)"
proof -
  obtain ds0 h1 where 1: "ds_query (env_of ds) s SEED_TYPE_DAY_SWITCH new_engine_info h
     = (LCT_SUCCESS, (m_engineInfo (engine_at s d 0 v))\<lparr>DayStamp := ds0\<rparr>, h1)" "still h1 d" "tbl_at h1 = tbl_at h"
    using still_query [OF assms(1-3)] by blast
  obtain h1' where n: "now_day (env_of ds) h1 = (d, h1')" "still h1' d" "tbl_at h1' = tbl_at h1" using still_day [OF 1(2)] by blast
  obtain h2 where 2: "ds_persist (env_of ds) s SEED_TYPE_DAY_SWITCH (m_engineInfo (engine_at s d v (v + 100))) h1' = (LCT_SUCCESS, h2)"
     "still h2 d" "row_at (tbl_at h2) s (v + 100)" "other_rows s (tbl_at h1') (tbl_at h2)"
    using still_persist [OF assms(1) n(2), of s v v "v + 100"] 1(3) n(3) assms(3) by auto
  have j: "to_i64 (v + 100) = v + 100" using assms(4,5) by (intro to_i64_nonneg) auto
  have "engine_init (env_of ds) (new_day_switch_engine s) h = (LCT_SUCCESS, engine_at s d v (v + 100), h2)"
    using 1(1) 2(1) n(1) j
    by (simp add: engine_init_def readPersistance_def new_day_switch_engine_def reallocValve_def persist_def engine_at_def Let_def)
  then show ?thesis using 2 1(3) n(3) by auto
qed

lemma still_spawn:
  assumes "ours ds" "still h d" "row_at (tbl_at h) s v" "0 \<le> c" "c \<le> v" "v \<le> c + 100" "c + 200 < 2 ^ 63"
  shows "\<exists>w h1. spawnId (env_of ds) (engine_at s d c v) h = (LCT_SUCCESS, Some (d, c), engine_at s d (c + 1) w, h1)
     \<and> still h1 d \<and> row_at (tbl_at h1) s w \<and> other_rows s (tbl_at h) (tbl_at h1) \<and> c + 1 \<le> w \<and> w \<le> c + 1 + 100"
proof -
  have i: "to_i64 (c + 1) = c + 1" using assms(4,7) by (intro to_i64_nonneg) auto
  obtain h0 where n: "now_day (env_of ds) h = (d, h0)" "still h0 d" "tbl_at h0 = tbl_at h" using still_day [OF assms(2)] by blast
  show ?thesis
  proof (cases "c < v")
    case True
    then have "spawnId (env_of ds) (engine_at s d c v) h = (LCT_SUCCESS, Some (d, c), engine_at s d (c + 1) v, h0)"
      using n(1) i by (simp add: spawnId_def engine_at_def Let_def)
    then show ?thesis using assms True n by (intro exI [of _ v] exI [of _ h0]) (simp add: other_rows_def)
  next
    case False
    then have v: "v = c" using assms(5) by simp
    have j: "to_i64 (c + 100) = c + 100" using assms(4,7) by (intro to_i64_nonneg) auto
    obtain h1 where 1: "ds_persist (env_of ds) s SEED_TYPE_DAY_SWITCH (m_engineInfo (engine_at s d (c + 1) (c + 100))) h0 = (LCT_SUCCESS, h1)"
      "still h1 d" "row_at (tbl_at h1) s (c + 100)" "other_rows s (tbl_at h) (tbl_at h1)"
      using still_persist [OF assms(1) n(2), of s v] n(3) assms(3) by auto
    have "spawnId (env_of ds) (engine_at s d c v) h = (LCT_SUCCESS, Some (d, c), engine_at s d (c + 1) (c + 100), h1)"
      using n(1) i j 1(1) v
      by (simp add: spawnId_def engine_at_def reallocValve_def persist_def Let_def)
    then show ?thesis using 1 by (intro exI [of _ "c + 100"] exI [of _ h1]) simp
  qed
qed

definition serving :: "('s, id_row, 'p, 'w) cass_helper \<Rightarrow> id_manager \<Rightarrow> string \<Rightarrow> (int \<Rightarrow> int) \<Rightarrow> bool" where
  "serving h m d c \<longleftrightarrow> still h d \<and> (\<exists>mm. m = [mm] \<and> dom mm = served \<and> (\<forall>s \<in> served. engine_serves (tbl_at h) mm d c s))"

lemma serving_cong: "(\<And>s. s \<in> served \<Longrightarrow> c s = c' s) \<Longrightarrow> serving h m d c \<Longrightarrow> serving h m d c'"
  by (auto simp: serving_def engine_serves_def)

lemma still_fetch:
  assumes "ours ds" "serving h m d c" "s \<in> served" "c s + 200 < 2 ^ 63"
  shows "\<exists>m1 h1. FetchId (env_of ds) (Some ()) (Some s) (Some empty_response) m h
      = (OK, Some \<lparr>resp_id = Some (d, c s), resp_code = Some 0\<rparr>, m1, h1) \<and> serving h1 m1 d (c(s := c s + 1))"
proof -
  obtain mm where m: "m = [mm]" "dom mm = served" "\<And>s. s \<in> served \<Longrightarrow> engine_serves (tbl_at h) mm d c s" "still h d"
    using assms(2) by (auto simp: serving_def)
  obtain v where v: "mm s = Some (engine_at s d (c s) v)" "row_at (tbl_at h) s v" "0 \<le> c s" "c s \<le> v" "v \<le> c s + 100"
    using m(3) [OF assms(3)] by (auto simp: engine_serves_def)
  obtain w h1 where 1: "spawnId (env_of ds) (engine_at s d (c s) v) h = (LCT_SUCCESS, Some (d, c s), engine_at s d (c s + 1) w, h1)"
    "still h1 d" "row_at (tbl_at h1) s w" "other_rows s (tbl_at h) (tbl_at h1)" "c s + 1 \<le> w" "w \<le> c s + 1 + 100"
    using still_spawn [OF assms(1) m(4) v(2-5) assms(4)] by blast
  let ?mm = "mm(s \<mapsto> engine_at s d (c s + 1) w)"
  have f: "FetchId (env_of ds) (Some ()) (Some s) (Some empty_response) m h
      = (OK, Some \<lparr>resp_id = Some (d, c s), resp_code = Some 0\<rparr>, [?mm], h1)"
    using v(1) 1(1) by (simp add: FetchId_def mgr_fetchId_def m(1) empty_response_def Let_def)
  have e: "engine_serves (tbl_at h1) ?mm d (c(s := c s + 1)) s'" if "s' \<in> served" for s'
  proof (cases "s' = s")
    case True
    then show ?thesis using 1(3,5,6) v(3) by (auto simp: engine_serves_def)
  next
    case False
    then show ?thesis using m(3) [OF that] row_at_other [OF 1(4) False] by (auto simp: engine_serves_def)
  qed
  have "dom ?mm = served" using m(2) assms(3) by auto
  then have "serving h1 [?mm] d (c(s := c s + 1))" using 1(2) e by (simp add: serving_def)
  then show ?thesis using f by blast
qed

lemma still_refuse:
  assumes "serving h m d c" "s \<notin> served"
  shows "FetchId env (Some ()) (Some s) (Some empty_response) m h
      = (OK, Some \<lparr>resp_id = None, resp_code = Some (sint LCT_INVALID_BIZ_TYPE)\<rparr>, m, h)"
proof -
  obtain mm where m: "m = [mm]" "dom mm = served" using assms(1) by (auto simp: serving_def)
  then have "mm s = None" using assms(2) by (metis domIff)
  then show ?thesis by (simp add: FetchId_def mgr_fetchId_def m(1) empty_response_def Let_def)
qed

lemma answers_count:
  "ours ds \<Longrightarrow> serving h m d c \<Longrightarrow> \<forall>s \<in> served. c s + int (length seeds) + 200 < 2 ^ 63 \<Longrightarrow>
     \<exists>m1 h1. answer_all (env_of ds) seeds m h = (counter_replies (d) seeds c, m1, h1)
       \<and> serving h1 m1 d (\<lambda>s. c s + int (count_list seeds s))"
proof (induction seeds arbitrary: h m c)
  case Nil
  then show ?case by simp
next
  case (Cons s seeds)
  show ?case
  proof (cases "s \<in> served")
    case True
    have r: "c s + 200 < 2 ^ 63" using Cons.prems(3) True by fastforce
    obtain m1 h1 where 1: "FetchId (env_of ds) (Some ()) (Some s) (Some empty_response) m h
      = (OK, Some \<lparr>resp_id = Some (d, c s), resp_code = Some 0\<rparr>, m1, h1)" "serving h1 m1 d (c(s := c s + 1))"
      using still_fetch [OF Cons.prems(1,2) True r] by blast
    have b: "\<forall>s' \<in> served. (c(s := c s + 1)) s' + int (length seeds) + 200 < 2 ^ 63" using Cons.prems(3) by auto
    obtain m2 h2 where 2: "answer_all (env_of ds) seeds m1 h1 = (counter_replies (d) seeds (c(s := c s + 1)), m2, h2)"
      "serving h2 m2 d (\<lambda>s'. (c(s := c s + 1)) s' + int (count_list seeds s'))"
      using Cons.IH [OF Cons.prems(1) 1(2) b] by blast
    have e: "(\<lambda>s'. (c(s := c s + 1)) s' + int (count_list seeds s')) = (\<lambda>s'. c s' + int (count_list (s # seeds) s'))" by auto
    have a: "answer_all (env_of ds) (s # seeds) m h = (counter_replies (d) (s # seeds) c, m2, h2)"
      using 1(1) 2(1) True by simp
    show ?thesis using a 2(2) unfolding e by blast
  next
    case False
    have b: "\<forall>s' \<in> served. c s' + int (length seeds) + 200 < 2 ^ 63" using Cons.prems(3) by auto
    obtain m2 h2 where 2: "answer_all (env_of ds) seeds m h = (counter_replies (d) seeds c, m2, h2)"
      "serving h2 m2 d (\<lambda>s'. c s' + int (count_list seeds s'))"
      using Cons.IH [OF Cons.prems(1,2) b] by blast
    have a: "answer_all (env_of ds) (s # seeds) m h = (counter_replies (d) (s # seeds) c, m2, h2)"
      using still_refuse [OF Cons.prems(2) False, of "env_of ds"] 2(1) False by simp
    have "serving h2 m2 d (\<lambda>s'. c s' + int (count_list (s # seeds) s'))"
      by (rule serving_cong [OF _ 2(2)]) (use False in auto)
    then show ?thesis using a by blast
  qed
qed

text \<open>The start of the three engines.\<close>

lemma still_start:
  assumes "ours ds" "still h d" "row_at (tbl_at h) s v" "0 \<le> v" "v + 100 < 2 ^ 63"
  shows "\<exists>h1. mgr_start_engine (env_of ds) s [mm] h = (LCT_SUCCESS, [mm(s \<mapsto> engine_at s d v (v + 100))], h1)
     \<and> still h1 d \<and> row_at (tbl_at h1) s (v + 100) \<and> other_rows s (tbl_at h) (tbl_at h1)"
  using still_init [OF assms] by (auto simp: mgr_start_engine_def appendEngine_def engine_at_def)

lemma still_mgr_init:
  assumes "ours ds" "still h d" "\<forall>s \<in> served. row_at (tbl_at h) s (v s) \<and> 0 \<le> v s \<and> v s + 100 < 2 ^ 63"
  shows "\<exists>m h1. mgr_init (env_of ds) new_id_manager h = (LCT_SUCCESS, m, h1) \<and> serving h1 m d v"
proof -
  have a: "row_at (tbl_at h) 1001 (v 1001)" "0 \<le> v 1001" "v 1001 + 100 < 2 ^ 63" "row_at (tbl_at h) 1002 (v 1002)" "0 \<le> v 1002"
    "v 1002 + 100 < 2 ^ 63" "row_at (tbl_at h) 1003 (v 1003)" "0 \<le> v 1003" "v 1003 + 100 < 2 ^ 63"
    using assms(3) by (simp_all add: served_def)
  let ?g = "\<lambda>s. engine_at s d (v s) (v s + 100)"
  obtain h1 where 1: "mgr_start_engine (env_of ds) 1001 [Map.empty] h = (LCT_SUCCESS, [Map.empty(1001 \<mapsto> ?g 1001)], h1)" "still h1 d"
    "row_at (tbl_at h1) 1001 (v 1001 + 100)" "other_rows 1001 (tbl_at h) (tbl_at h1)"
    using still_start [OF assms(1,2) a(1-3), of Map.empty] by blast
  have r1: "row_at (tbl_at h1) 1002 (v 1002)" "row_at (tbl_at h1) 1003 (v 1003)"
    using row_at_other [OF 1(4)] a(4,7) by simp_all
  obtain h2 where 2: "mgr_start_engine (env_of ds) 1002 [Map.empty(1001 \<mapsto> ?g 1001)] h1
      = (LCT_SUCCESS, [Map.empty(1001 \<mapsto> ?g 1001, 1002 \<mapsto> ?g 1002)], h2)" "still h2 d"
    "row_at (tbl_at h2) 1002 (v 1002 + 100)" "other_rows 1002 (tbl_at h1) (tbl_at h2)"
    using still_start [OF assms(1) 1(2) r1(1) a(5,6)] by blast
  have r2: "row_at (tbl_at h2) 1001 (v 1001 + 100)" "row_at (tbl_at h2) 1003 (v 1003)"
    using row_at_other [OF 2(4)] 1(3) r1(2) by simp_all
  obtain h3 where 3: "mgr_start_engine (env_of ds) 1003 [Map.empty(1001 \<mapsto> ?g 1001, 1002 \<mapsto> ?g 1002)] h2
      = (LCT_SUCCESS, [Map.empty(1001 \<mapsto> ?g 1001, 1002 \<mapsto> ?g 1002, 1003 \<mapsto> ?g 1003)], h3)" "still h3 d"
    "row_at (tbl_at h3) 1003 (v 1003 + 100)" "other_rows 1003 (tbl_at h2) (tbl_at h3)"
    using still_start [OF assms(1) 2(2) r2(2) a(8,9)] by blast
  have r3: "row_at (tbl_at h3) 1001 (v 1001 + 100)" "row_at (tbl_at h3) 1002 (v 1002 + 100)"
    using row_at_other [OF 3(4)] r2(1) 2(3) by simp_all
  let ?mm = "Map.empty(1001 \<mapsto> ?g 1001, 1002 \<mapsto> ?g 1002, 1003 \<mapsto> ?g 1003)"
  have "mgr_init (env_of ds) new_id_manager h = (LCT_SUCCESS, [?mm], h3)"
    using 1(1) 2(1) 3(1) by (simp add: mgr_init_def new_id_manager_def LCT_EVENT_ENGINE_SEED_ID_def
        LCT_TASKS_ENGINE_SEED_ID_def LCT_MODEL_ENGINE_SEED_ID_def)
  moreover have "serving h3 [?mm] d v"
    using a r3 3(2,3) by (auto simp: serving_def engine_serves_def served_def)
  ultimately show ?thesis by blast
qed

text \<open>The tool.\<close>

lemma prep_step_runs:
  assumes "still h d" and "\<And>s w e res w1. good w \<Longrightarrow> tbl w = tbl_at h \<Longrightarrow> day w = d
      \<Longrightarrow> drv_execute drv s (cass_statement_new cql) w = (e, res, w1) \<Longrightarrow> e = CASS_OK \<and> good w1 \<and> day w1 = day w \<and> tbl w1 = t"
  shows "\<exists>h1. cass_insert drv k cql h = Inr (LCT_SUCCESS, h1) \<and> still h1 d \<and> tbl_at h1 = t"
    "\<exists>h1. cass_createTable drv k cql h = Inr (LCT_SUCCESS, h1) \<and> still h1 d \<and> tbl_at h1 = t"
proof -
  have "\<exists>res h1. helper_execute drv k cql h = Inr (LCT_SUCCESS, Some res, h1) \<and> still h1 d \<and> tbl_at h1 = t \<and> True"
    by (rule still_execute [OF assms(1)]) (use assms(2) in blast)
  then show "\<exists>h1. cass_insert drv k cql h = Inr (LCT_SUCCESS, h1) \<and> still h1 d \<and> tbl_at h1 = t"
    "\<exists>h1. cass_createTable drv k cql h = Inr (LCT_SUCCESS, h1) \<and> still h1 d \<and> tbl_at h1 = t"
    by (auto simp: cass_insert_def cass_createTable_def)
qed

lemma prep_insert_runs:
  assumes "still h d" "sc_keyspace cfg = ks" "sc_databaseTableName cfg = tn"
  shows "\<exists>h1. insertIdTable drv cfg s 2 new_engine_info h = Inr (LCT_SUCCESS, h1) \<and> still h1 d \<and> tbl_at h1 = (tbl_at h)((s, 2) \<mapsto> fresh_row 0)"
  unfolding insertIdTable_def by (rule prep_step_runs(1) [OF assms(1)]) (use inserts [OF _ assms(2,3)] in auto)

lemma prep_creates_run:
  assumes "still h d" "sc_keyspace cfg = ks" "sc_databaseTableName cfg = tn"
  shows "\<exists>h1. createKeyspace drv (sc_keyspace cfg) 3 h = Inr (LCT_SUCCESS, h1) \<and> still h1 d \<and> tbl_at h1 = tbl_at h"
    "\<exists>h1. createIdTable drv cfg h = Inr (LCT_SUCCESS, h1) \<and> still h1 d \<and> tbl_at h1 = tbl_at h"
proof -
  have "createKeyspace drv (sc_keyspace cfg) 3 h = cass_createTable drv (sc_keyspace cfg) (createKeyspace_cql (sc_keyspace cfg) 3) h"
    by (simp add: createKeyspace_def cass_createTable_def)
  moreover have "\<exists>h1. cass_createTable drv (sc_keyspace cfg) (createKeyspace_cql (sc_keyspace cfg) 3) h = Inr (LCT_SUCCESS, h1) \<and> still h1 d \<and> tbl_at h1 = tbl_at h"
    by (rule prep_step_runs(2) [OF assms(1)]) (use creates [OF _ assms(2,3), where cql = "createKeyspace_cql (sc_keyspace cfg) 3"] assms(2) in force)
  ultimately show "\<exists>h1. createKeyspace drv (sc_keyspace cfg) 3 h = Inr (LCT_SUCCESS, h1) \<and> still h1 d \<and> tbl_at h1 = tbl_at h" by simp
  show "\<exists>h1. createIdTable drv cfg h = Inr (LCT_SUCCESS, h1) \<and> still h1 d \<and> tbl_at h1 = tbl_at h"
    unfolding createIdTable_def by (rule prep_step_runs(2) [OF assms(1)]) (use creates [OF _ assms(2,3), where cql = "create_table_cql cfg"] in force)
qed

lemma prep_body_fills:
  assumes "still h d" "sc_keyspace cfg = ks" "sc_databaseTableName cfg = tn"
  shows "\<exists>h1. prep_body drv cfg h = Inr (LCT_SUCCESS, h1) \<and> good (h_world h1) \<and> day (h_world h1) = d
     \<and> (\<forall>s \<in> served. row_at (tbl_at h1) s 0)"
proof -
  obtain h1 where 1: "createKeyspace drv (sc_keyspace cfg) 3 h = Inr (LCT_SUCCESS, h1)" "still h1 d"
    using prep_creates_run(1) [OF assms] by blast
  obtain h2 where 2: "createIdTable drv cfg h1 = Inr (LCT_SUCCESS, h2)" "still h2 d"
    using prep_creates_run(2) [OF 1(2) assms(2,3)] by blast
  obtain h3 where 3: "insertIdTable drv cfg 1001 2 new_engine_info h2 = Inr (LCT_SUCCESS, h3)" "still h3 d"
    "tbl_at h3 = (tbl_at h2)((1001, 2) \<mapsto> fresh_row 0)" using prep_insert_runs [OF 2(2) assms(2,3)] by blast
  obtain h4 where 4: "insertIdTable drv cfg 1002 2 new_engine_info h3 = Inr (LCT_SUCCESS, h4)" "still h4 d"
    "tbl_at h4 = (tbl_at h3)((1002, 2) \<mapsto> fresh_row 0)" using prep_insert_runs [OF 3(2) assms(2,3)] by blast
  obtain h5 where 5: "insertIdTable drv cfg 1003 2 new_engine_info h4 = Inr (LCT_SUCCESS, h5)" "still h5 d"
    "tbl_at h5 = (tbl_at h4)((1003, 2) \<mapsto> fresh_row 0)" using prep_insert_runs [OF 4(2) assms(2,3)] by blast
  obtain h6 where 6: "helper_close h5 = Inr (LCT_SUCCESS, h6)" "h_world h6 = h_world h5"
    using 5(2) by (auto simp: helper_close_def still_def pool_ready_def pool_close_def)
  have e: "initEngine drv cfg h2 = Inr (LCT_SUCCESS, h5)"
    using 3(1) 4(1) 5(1) by (simp add: initEngine_def LCT_EVENT_ENGINE_SEED_ID_def LCT_TASKS_ENGINE_SEED_ID_def LCT_MODEL_ENGINE_SEED_ID_def)
  have "prep_body drv cfg h = Inr (LCT_SUCCESS, h6)"
    using 1(1) 2(1) e 6(1) by (simp add: prep_body_def)
  moreover have "row_at (tbl_at h6) s 0" if "s \<in> served" for s
    using that by (auto simp: served_def row_at_def 3(3) 4(3) 5(3) 6(2) fresh_row_def)
  ultimately show ?thesis using 5(2) 6(2) by (auto simp: still_def)
qed

lemma prep_main_fills:
  assumes "path \<noteq> []" "sid_config_init (h_files host) path new_sid_config = (LCT_SUCCESS, cfg)"
    and "cfg_keyspace cfg = ks" "cfg_databaseTableName cfg = tn" "good w"
  shows "\<exists>h1. prep_main drv [tool, ''-f'', path] (new_cass_helper w) host = Inr (0, h1, host)
     \<and> good (h_world h1) \<and> day (h_world h1) = day w \<and> (\<forall>s \<in> served. row_at (tbl_at h1) s 0)"
proof -
  obtain sc where sc: "sc_config_init (h_files host) path new_sc_config = (LCT_SUCCESS, sc)" "sc_keyspace sc = cfg_keyspace cfg"
    "sc_databaseTableName sc = cfg_databaseTableName cfg" using prep_config_same [OF assms(2)] by blast
  obtain h0 where h0: "helper_init (sc_databasePort sc) (sc_databaseIp sc) (new_cass_helper w) = (LCT_SUCCESS, h0)" "still h0 (day w)"
    using fresh_helper_init [of "sc_databasePort sc" "sc_databaseIp sc" w] assms(5) by (auto simp: still_def)
  show ?thesis using prep_body_fills [of h0 "day w" sc] sc h0 assms(1,3,4) by (auto simp: prep_main_def prep_argvHandle_def)
qed

text \<open>The service.\<close>

lemma service_starts_on_rows:
  fixes lib :: "'g grpc_lib"
  assumes "cfg_keyspace cfg = ks" "cfg_databaseTableName cfg = tn" "good w" "lib_obeys lib"
    and "\<forall>s \<in> served. row_at (tbl w) s (v s) \<and> 0 \<le> v s \<and> v s + 100 < 2 ^ 63"
  shows "\<exists>b s. service_mgr_init drv clock lib ((new_sid_app w g host)\<lparr>app_cfg := cfg\<rparr>) = (LCT_SUCCESS, b)
     \<and> app_svc b = Some s \<and> impl_alive s \<and> ours (app_ds b) \<and> serving (app_helper b) (app_ids b) (day w) v \<and> app_replies b = []"
proof -
  let ?a = "(new_sid_app w g host)\<lparr>app_cfg := cfg\<rparr> :: ('s, 'p, 'w, 'g) sid_app"
  obtain h :: "('s, id_row, 'p, 'w) cass_helper" where h: "helper_init (cfg_databasePort cfg) (cfg_databaseIp cfg) (new_cass_helper w) = (LCT_SUCCESS, h)" "pool_ready h" "h_world h = w"
    using fresh_helper_init [of "cfg_databasePort cfg" "cfg_databaseIp cfg" w] by (elim exE conjE) (rule that)
  let ?ds = "new_data_source\<lparr>ds_keyspace := cfg_keyspace cfg, ds_dbPort := cfg_databasePort cfg, ds_dbHosts := cfg_databaseIp cfg,
     ds_idTable := cfg_databaseTableName cfg\<rparr>"
  have d0: "data_source_init (cfg_databasePort cfg) (cfg_databaseIp cfg) (cfg_keyspace cfg) (cfg_databaseTableName cfg)
      (app_ds ?a) (app_helper ?a) = (LCT_SUCCESS, ?ds, h)"
  proof -
    have "app_ds ?a = new_data_source" "app_helper ?a = new_cass_helper w" by (simp_all add: new_sid_app_def)
    then show ?thesis by (simp only: data_source_init_def Let_def h(1) prod.case)
  qed
  have p0: "ours ?ds" using assms(1,2) by (simp add: ours_def)
  obtain ds where d: "data_source_init (cfg_databasePort cfg) (cfg_databaseIp cfg) (cfg_keyspace cfg) (cfg_databaseTableName cfg)
      (app_ds ?a) (app_helper ?a) = (LCT_SUCCESS, ds, h)" and p: "ours ds" using d0 p0 by blast
  have st: "still h (day w)" using assms(3) h(2,3) by (simp only: still_def simp_thms)
  have rows: "\<forall>s \<in> served. row_at (tbl_at h) s (v s) \<and> 0 \<le> v s \<and> v s + 100 < 2 ^ 63" using assms(5) by (simp only: h(3))
  obtain m h1 where m: "mgr_init (env_of ds) new_id_manager h = (LCT_SUCCESS, m, h1)" "serving h1 m (day w) v"
    using still_mgr_init [OF p st rows] by blast
  let ?svc = "new_grpc_service (to_u16 (cfg_servicePort cfg)) (cfg_serviceIp cfg)"
  have c: "fst (gl_call lib c w)" for c w using assms(4) by (simp add: lib_obeys_def)
  obtain s1 w1 where g: "grpc_init lib ?svc (app_grpc ?a) = (LCT_SUCCESS, s1, w1)" "impl_alive s1"
    using grpc_init_ok [of lib ?svc "app_grpc ?a"] c by (auto simp: impl_alive_def new_grpc_service_def settings_calls_def fresh_impl_def)
  let ?n = "new_sid_app w g host :: ('s, 'p, 'w, 'g) sid_app"
  have f: "app_ids ?n = new_id_manager" "app_svc ?n = None" "app_replies ?n = []"
    by (simp_all add: new_sid_app_def)
  have "service_mgr_init drv clock lib ?a
      = (LCT_SUCCESS, ?a\<lparr>app_ds := ds, app_helper := h1, app_ids := m, app_svc := Some s1, app_grpc := w1\<rparr>)"
    using d m(1) g(1) by (simp add: service_mgr_init_def f Let_def)
  then show ?thesis using m(2) g(2) p f(3) by auto
qed

text \<open>A life of the service over rows with valves \<open>v\<close>.\<close>

lemma service_counts_from_rows:
  assumes "path \<noteq> []" "sid_config_init (h_files host) path new_sid_config = (LCT_SUCCESS, cfg)" "cfg_logDir cfg = []"
    and "cfg_keyspace cfg = ks" "cfg_databaseTableName cfg = tn" "good w" "lib_obeys lib"
    and "\<forall>s \<in> served. row_at (tbl w) s (v s) \<and> 0 \<le> v s \<and> v s + int (length seeds) + 200 < 2 ^ 63"
  shows "\<exists>a. service_main env nm drv clock lib [] (map Client_FetchId seeds @ [Signal]) [exe, ''-f'', path]
        (new_sid_app w g host) = Inr (0, a)
     \<and> app_replies a = counter_replies (day w) seeds v \<and> good (h_world (app_helper a)) \<and> day (h_world (app_helper a)) = day w
     \<and> (\<forall>s \<in> served. \<exists>u. row_at (tbl_at (app_helper a)) s u \<and> v s + int (count_list seeds s) \<le> u
         \<and> u \<le> v s + int (count_list seeds s) + 100)"
proof -
  let ?a = "new_sid_app w g host"
  have lib: "\<And>b w. fst (gl_build lib b w) = Server_started" "\<And>w. fst (gl_shutdown lib w)" "\<And>w. fst (gl_wait lib w)"
    using assms(7) by (simp_all add: lib_obeys_def)
  have rows: "\<forall>s \<in> served. row_at (tbl w) s (v s) \<and> 0 \<le> v s \<and> v s + 100 < 2 ^ 63" using assms(8) by fastforce
  obtain b s where b: "service_mgr_init drv clock lib (?a\<lparr>app_cfg := cfg\<rparr>) = (LCT_SUCCESS, b)"
    "app_svc b = Some s" "impl_alive s" "ours (app_ds b)" "serving (app_helper b) (app_ids b) (day w) v" "app_replies b = []"
    using service_starts_on_rows [OF assms(4-7) rows, of g host] by blast
  have p: "pool_ready (app_helper b)" using b(5) by (simp add: serving_def still_def)
  have c: "sid_config_init (h_files (app_host ?a)) path (app_cfg ?a) = (LCT_SUCCESS, cfg)" "app_logger ?a = new_logger"
    using assms(2) by (simp_all add: new_sid_app_def)
  obtain a rs m h where a: "service_main env nm drv clock lib [] (map Client_FetchId seeds @ [Signal]) [exe, ''-f'', path] ?a
      = Inr (0, a)" "answer_all (env_of (app_ds b)) seeds (app_ids b) (app_helper b) = (rs, m, h)" "app_replies a = app_replies b @ rs"
      "h_world (app_helper a) = h_world h"
    using main_run [OF assms(1) c(1) assms(3) c(2) b(1-3) p lib, of env nm seeds exe] by blast
  obtain m1 h1 where A: "answer_all (env_of (app_ds b)) seeds (app_ids b) (app_helper b) = (counter_replies (day w) seeds v, m1, h1)"
    "serving h1 m1 (day w) (\<lambda>s. v s + int (count_list seeds s))"
    using answers_count [OF b(4,5), of seeds] assms(8) by blast
  have e: "rs = counter_replies (day w) seeds v" "h = h1" using a(2) A(1) by simp_all
  have "\<forall>s \<in> served. \<exists>u. row_at (tbl_at (app_helper a)) s u \<and> v s + int (count_list seeds s) \<le> u
         \<and> u \<le> v s + int (count_list seeds s) + 100"
    using A(2) unfolding serving_def engine_serves_def a(4) e(2) by blast
  moreover have "good (h_world (app_helper a)) \<and> day (h_world (app_helper a)) = day w" using A(2) by (simp add: serving_def still_def a(4) e(2))
  ultimately show ?thesis using a(1,3) b(6) e(1) by auto
qed

end

section \<open>The two programs\<close>

text \<open>
  C6: over a database that does what CQL says, whatever the id table held before, running the
  id-table tool and then the service with the same configuration file answers every request with
  the next number of its seed, counted from 0 under the day's date, and requests for other seeds
  with an error code; both programs exit with 0.
\<close>

theorem prepared_service_counts:
  assumes "id_database drv clock good tbl day (cfg_keyspace cfg) (cfg_databaseTableName cfg)" "good w" "lib_obeys lib"
    and "path \<noteq> []" "sid_config_init (h_files host) path new_sid_config = (LCT_SUCCESS, cfg)" "cfg_logDir cfg = []"
    and "int (length seeds) + 200 < 2 ^ 63"
  shows "\<exists>h1 a. prep_main drv [tool, ''-f'', path] (new_cass_helper w) host = Inr (0, h1, host)
     \<and> service_main env nm drv clock lib [] (map Client_FetchId seeds @ [Signal]) [svc, ''-f'', path]
         (new_sid_app (h_world h1) g host) = Inr (0, a)
     \<and> app_replies a = counter_replies (day w) seeds (\<lambda>_. 0)"
proof -
  obtain h1 where h1: "prep_main drv [tool, ''-f'', path] (new_cass_helper w) host = Inr (0, h1, host)"
    "good (h_world h1)" "day (h_world h1) = day w" "\<forall>s \<in> served. row_at (tbl (h_world h1)) s 0"
    using id_database.prep_main_fills [OF assms(1,4,5) refl refl assms(2)] by blast
  have "\<forall>s \<in> served. row_at (tbl (h_world h1)) s 0 \<and> (0::int) \<le> 0 \<and> 0 + int (length seeds) + 200 < 2 ^ 63" using h1(4) assms(7) by simp
  from id_database.service_counts_from_rows [OF assms(1,4-6) refl refl h1(2) assms(3) this, of env nm svc g]
  show ?thesis unfolding h1(3) using h1(1) by blast
qed


text \<open>
  The tool run again between two lives on one day resets the rows: the second life answers the same
  requests with the same ids.
\<close>

lemma tool_rerun_repeats_ids:
  assumes "id_database drv clock good tbl day (cfg_keyspace cfg) (cfg_databaseTableName cfg)" "good w" "lib_obeys lib"
    and "path \<noteq> []" "sid_config_init (h_files host) path new_sid_config = (LCT_SUCCESS, cfg)" "cfg_logDir cfg = []"
    and "\<forall>s \<in> served. row_at (tbl w) s 0" "int (length seeds) + 200 < 2 ^ 63"
  shows "\<exists>a h b. service_main env nm drv clock lib [] (map Client_FetchId seeds @ [Signal]) [svc, ''-f'', path]
         (new_sid_app w g host) = Inr (0, a)
     \<and> prep_main drv [tool, ''-f'', path] (new_cass_helper (h_world (app_helper a))) host = Inr (0, h, host)
     \<and> service_main env nm drv clock lib [] (map Client_FetchId seeds @ [Signal]) [svc, ''-f'', path]
         (new_sid_app (h_world h) g' host) = Inr (0, b) \<and> app_replies b = app_replies a"
proof -
  have r: "\<forall>s \<in> served. row_at t s 0 \<and> (0::int) \<le> 0 \<and> 0 + int (length seeds) + 200 < 2 ^ 63" if "\<forall>s \<in> served. row_at t s 0" for t
    using that assms(8) by simp
  obtain a where a: "service_main env nm drv clock lib [] (map Client_FetchId seeds @ [Signal]) [svc, ''-f'', path]
        (new_sid_app w g host) = Inr (0, a)" "app_replies a = counter_replies (day w) seeds (\<lambda>_. 0)" "good (h_world (app_helper a))"
        "day (h_world (app_helper a)) = day w"
    using id_database.service_counts_from_rows [OF assms(1,4-6) refl refl assms(2,3) r [OF assms(7)]] by blast
  obtain h where h: "prep_main drv [tool, ''-f'', path] (new_cass_helper (h_world (app_helper a))) host = Inr (0, h, host)"
    "good (h_world h)" "day (h_world h) = day (h_world (app_helper a))" "\<forall>s \<in> served. row_at (tbl (h_world h)) s 0"
    using id_database.prep_main_fills [OF assms(1,4,5) refl refl a(3)] by blast
  obtain b where b: "service_main env nm drv clock lib [] (map Client_FetchId seeds @ [Signal]) [svc, ''-f'', path]
        (new_sid_app (h_world h) g' host) = Inr (0, b)" "app_replies b = counter_replies (day (h_world h)) seeds (\<lambda>_. 0)"
    using id_database.service_counts_from_rows [OF assms(1,4-6) refl refl h(2) assms(3) r [OF h(4)]] by blast
  show ?thesis using a(1,2) h(1) b unfolding h(3) a(4) by auto
qed

section \<open>The reference server is such a database\<close>

definition prep_exec :: "(id_row, id_tbl) cql_exec" where
  "prep_exec cql t =
     (let ws = words_from [] cql in
      if ws \<noteq> [] \<and> ws ! 0 = ''CREATE'' then Some ([], t)
      else if length ws = 28 \<and> ws ! 0 = ''INSERT'' then
        (case (strtol10 (tl (ws ! 13)), strtol10 (ws ! 15), strtol10 (ws ! 17), strtol10 (ws ! 19),
               strtol10 (ws ! 21), strtol10 (ws ! 23)) of
           (Some s, Some ty, Some mx, Some st, Some v, Some sz) \<Rightarrow>
             Some ([], t((s, ty) \<mapsto> \<lparr>col_id_max = Some mx, col_seed_step = Some st, col_prealloc_valve = Some v,
               col_prealloc_size = Some sz, col_prealloc_time = Some '' ''\<rparr>))
         | _ \<Rightarrow> None)
      else id_exec cql t)"

definition insert_words :: "sc_config \<Rightarrow> int \<Rightarrow> int \<Rightarrow> engine_info \<Rightarrow> string list" where
  "insert_words cfg s ty info =
     [''INSERT'', ''INTO'', sc_keyspace cfg @ ''.'' @ sc_databaseTableName cfg, ''('', ''seed_id,'', ''seed_type,'',
      ''id_max,'', ''seed_step,'', ''prealloc_valve,'', ''prealloc_size,'', ''prealloc_time'', '')'', ''VALUES'',
      ''('' @ to_string s, '','', to_string ty, '','', to_string (Max_id info), '','', to_string (Step info), '','',
      to_string (PreallocValve info), '','', to_string (PreallocSize info), '','', [CHR 0x27], [CHR 0x27], '');'']"

lemma words_insert:
  assumes "clean_word (sc_keyspace cfg)" "clean_word (sc_databaseTableName cfg)" "DayStamp info = []"
  shows "words_from [] (c_str (insert_id_cql cfg s ty info)) = insert_words cfg s ty info"
proof -
  have c: "CHR '' '' \<notin> set (sc_keyspace cfg)" "CHR '' '' \<notin> set (sc_databaseTableName cfg)"
    "CHR 0x00 \<notin> set (sc_keyspace cfg)" "CHR 0x00 \<notin> set (sc_databaseTableName cfg)"
    "CHR '' '' \<notin> set (to_string k)" "CHR 0x00 \<notin> set (to_string k)" for k
    using assms clean_to_string by (auto simp: clean_word_def)
  have "c_str (insert_id_cql cfg s ty info) = insert_id_cql cfg s ty info"
    by (rule c_str_id) (simp add: insert_id_cql_def c assms(3))
  moreover have "words_from w (to_string k) = words_from (w @ to_string k) []" for w k
    using words_from_clean [of "to_string k" w "[]"] c(5) by simp
  ultimately show ?thesis by (simp add: insert_id_cql_def insert_words_def words_from_clean c assms(3))
qed

lemma prep_exec_create:
  "prep_exec (c_str (createKeyspace_cql ks n)) t = Some ([], t)"
  "prep_exec (c_str (create_table_cql cfg)) t = Some ([], t)"
  by (simp_all add: prep_exec_def createKeyspace_cql_def create_table_cql_def c_str_def)

lemma prep_exec_insert:
  assumes "clean_word (sc_keyspace cfg)" "clean_word (sc_databaseTableName cfg)"
  shows "prep_exec (c_str (insert_id_cql cfg s ty new_engine_info)) t = Some ([], t((s, ty) \<mapsto> fresh_row 0))"
proof -
  have "DayStamp new_engine_info = []" by (simp add: new_engine_info_def)
  from words_insert [OF assms this] show ?thesis
    by (simp add: prep_exec_def insert_words_def strtol10_to_string fresh_row_def) (simp add: new_engine_info_def)
qed

lemma prep_exec_id:
  assumes "plain_source ds"
  shows "prep_exec (c_str (id_select_cql ds s t)) tbl = Some (case tbl (s, seed_type_val t) of None \<Rightarrow> [] | Some r \<Rightarrow> [r], tbl)"
    "clean_word (DayStamp info) \<Longrightarrow> prep_exec (c_str (id_update_cql ds s t info)) tbl
     = Some ([], tbl((s, seed_type_val t) \<mapsto> (case tbl (s, seed_type_val t) of None \<Rightarrow> null_row | Some r \<Rightarrow> r)
         \<lparr>col_prealloc_valve := Some (PreallocValve info), col_prealloc_time := Some (DayStamp info)\<rparr>))"
  using id_exec_select [OF assms, of s t tbl] id_exec_update [OF assms, of info s t tbl] words_select [OF assms, of s t]
    words_update [OF assms, of info s t]
  by (simp_all add: prep_exec_def select_words_def update_words_def)

definition still_world :: "'tbl ref_world \<Rightarrow> bool" where
  "still_world w \<longleftrightarrow> rw_script w = [] \<and> rw_ticks w = []"

lemma still_ref_execute:
  assumes "still_world w" "exec (c_str cql) (rw_table w) = Some (rows, t)" "drv_execute (ref_driver exec) s (cass_statement_new cql) w = (e, res, w1)"
  shows "e = CASS_OK \<and> still_world w1 \<and> rw_day w1 = rw_day w \<and> rw_table w1 = t \<and> res_rows res = rows"
  using assms by (auto simp: ref_driver_def ref_execute_def next_outcome_def still_world_def cass_statement_new_def)

interpretation prep_db: id_database "ref_driver prep_exec" ref_clock still_world rw_table "\<lambda>w. show_nat (rw_day w)" "''ks''" "''ids''"
proof unfold_locales
  fix w w1 :: "id_tbl ref_world" and cl e s
  assume "still_world w" "drv_connect (ref_driver prep_exec) cl w = (e, s, w1)"
  then show "e = CASS_OK \<and> still_world w1 \<and> rw_table w1 = rw_table w \<and> show_nat (rw_day w1) = show_nat (rw_day w)"
    by (simp add: ref_driver_def)
next
  fix w w1 :: "id_tbl ref_world" and d
  assume "still_world w" "ref_clock w = (d, w1)"
  then show "d = show_nat (rw_day w) \<and> still_world w1 \<and> rw_table w1 = rw_table w \<and> show_nat (rw_day w1) = show_nat (rw_day w)"
    by (auto simp: still_world_def ref_clock_def)
next
  fix w w1 :: "id_tbl ref_world" and ds s i ty e res
  assume a: "still_world w" "ds_keyspace ds = ''ks''" "ds_idTable ds = ''ids''"
    "drv_execute (ref_driver prep_exec) s (cass_statement_new (id_select_cql ds i ty)) w = (e, res, w1)"
  have p: "plain_source ds" by (simp add: plain_source_def clean_word_def a(2,3))
  show "e = CASS_OK \<and> still_world w1 \<and> show_nat (rw_day w1) = show_nat (rw_day w) \<and> rw_table w1 = rw_table w
    \<and> res_rows res = (case rw_table w (i, seed_type_val ty) of None \<Rightarrow> [] | Some r \<Rightarrow> [r])"
    using still_ref_execute [OF a(1) prep_exec_id(1) [OF p] a(4)] by simp
next
  fix w w1 :: "id_tbl ref_world" and ds info s i ty e res
  assume a: "still_world w" "ds_keyspace ds = ''ks''" "ds_idTable ds = ''ids''" "DayStamp info = show_nat (rw_day w)"
    "drv_execute (ref_driver prep_exec) s (cass_statement_new (id_update_cql ds i ty info)) w = (e, res, w1)"
  have p: "plain_source ds" "clean_word (DayStamp info)" by (simp_all add: plain_source_def a(2-4) clean_show_nat) (simp_all add: clean_word_def)
  show "e = CASS_OK \<and> still_world w1 \<and> show_nat (rw_day w1) = show_nat (rw_day w)
    \<and> rw_table w1 = (rw_table w)((i, seed_type_val ty) \<mapsto> (case rw_table w (i, seed_type_val ty) of None \<Rightarrow> null_row | Some r \<Rightarrow> r)
            \<lparr>col_prealloc_valve := Some (PreallocValve info), col_prealloc_time := Some (DayStamp info)\<rparr>)"
    using still_ref_execute [OF a(1) prep_exec_id(2) [OF p] a(5)] by simp
next
  fix w w1 :: "id_tbl ref_world" and cfg s i n e res
  assume a: "still_world w" "sc_keyspace cfg = ''ks''" "sc_databaseTableName cfg = ''ids''"
    "drv_execute (ref_driver prep_exec) s (cass_statement_new (insert_id_cql cfg i n new_engine_info)) w = (e, res, w1)"
  have p: "clean_word (sc_keyspace cfg)" "clean_word (sc_databaseTableName cfg)" by (simp_all add: a(2,3) clean_word_def)
  show "e = CASS_OK \<and> still_world w1 \<and> show_nat (rw_day w1) = show_nat (rw_day w) \<and> rw_table w1 = (rw_table w)((i, n) \<mapsto> fresh_row 0)"
    using still_ref_execute [OF a(1) prep_exec_insert [OF p] a(4)] by simp
next
  fix w w1 :: "id_tbl ref_world" and cfg cql s e res
  assume a: "still_world w" "cql \<in> {createKeyspace_cql ''ks'' 3, create_table_cql cfg}"
    "drv_execute (ref_driver prep_exec) s (cass_statement_new cql) w = (e, res, w1)"
  have "prep_exec (c_str cql) (rw_table w) = Some ([], rw_table w)" using a(2) prep_exec_create by blast
  from still_ref_execute [OF a(1) this a(3)]
  show "e = CASS_OK \<and> still_world w1 \<and> show_nat (rw_day w1) = show_nat (rw_day w) \<and> rw_table w1 = rw_table w" by simp
qed

definition prep_host :: host where
  "prep_host = \<lparr>h_files = [''cfg'' \<mapsto> render svc_entries], h_out = [], h_step = 0\<rparr>"

lemma prep_demo:
  "id_database (ref_driver prep_exec) ref_clock still_world rw_table (\<lambda>w. show_nat (rw_day w)) (cfg_keyspace demo_cfg) (cfg_databaseTableName demo_cfg)"
  "still_world (ref_world_of t [] [])" "lib_obeys ok_lib" "''cfg'' \<noteq> []"
  "sid_config_init (h_files prep_host) ''cfg'' new_sid_config = (LCT_SUCCESS, demo_cfg)" "cfg_logDir demo_cfg = []"
proof -
  have f: "h_files prep_host ''cfg'' = Some (render svc_entries)" by (simp add: prep_host_def)
  show "sid_config_init (h_files prep_host) ''cfg'' new_sid_config = (LCT_SUCCESS, demo_cfg)"
    using parse_rendered [of svc_entries "h_files prep_host" "''cfg''", OF svc_entries_plain f]
    by (simp add: sid_config_init_def getString_entry getInt32_entry svc_entries_values demo_cfg_def new_sid_config_def)
  show "id_database (ref_driver prep_exec) ref_clock still_world rw_table (\<lambda>w. show_nat (rw_day w)) (cfg_keyspace demo_cfg) (cfg_databaseTableName demo_cfg)"
    using prep_db.id_database_axioms by (simp add: demo_cfg_def)
qed (simp_all add: demo_cfg_def still_world_def ref_world_of_def lib_obeys_def ok_lib_def)

theorem prepared_service_counts_witness:
  "\<exists>h1 a. prep_main (ref_driver prep_exec) [''prep'', ''-f'', ''cfg''] (new_cass_helper (ref_world_of Map.empty [] [])) prep_host = Inr (0, h1, prep_host)
     \<and> service_main quiet_env ''svc'' (ref_driver prep_exec) ref_clock ok_lib [] (map Client_FetchId [1001, 1002, 1001] @ [Signal])
         [''svc'', ''-f'', ''cfg''] (new_sid_app (h_world h1) () prep_host) = Inr (0, a)
     \<and> app_replies a = [(1001, \<lparr>resp_id = Some (''0'', 0), resp_code = Some 0\<rparr>), (1002, \<lparr>resp_id = Some (''0'', 0), resp_code = Some 0\<rparr>),
         (1001, \<lparr>resp_id = Some (''0'', 1), resp_code = Some 0\<rparr>)]"
proof -
  let ?w = "ref_world_of Map.empty [] [] :: id_tbl ref_world"
  have z: "show_nat 0 = ''0''" by code_simp
  have c: "counter_replies (show_nat (rw_day ?w)) [1001, 1002, 1001] (\<lambda>_. 0)
      = [(1001, \<lparr>resp_id = Some (''0'', 0), resp_code = Some 0\<rparr>), (1002, \<lparr>resp_id = Some (''0'', 0), resp_code = Some 0\<rparr>),
         (1001, \<lparr>resp_id = Some (''0'', 1), resp_code = Some 0\<rparr>)]"
    using z by (simp add: served_def ref_world_of_def)
  have "int (length [1001, 1002, 1001 :: int]) + 200 < 2 ^ 63" by simp
  from prepared_service_counts [OF prep_demo(1) prep_demo(2) [of Map.empty] prep_demo(3-6) this,
      where tool = "''prep''" and svc = "''svc''" and env = quiet_env and nm = "''svc''" and g = "()"]
  show ?thesis unfolding c .
qed


end
