(* ===== verification/Mongo_Helper.thy ===== *)
theory Mongo_Helper
  imports Std_String Error_Code "HOL-Library.Char_ord" "HOL-Library.List_Lexorder"
begin

text \<open>
  \<open>wrapper/mongodb\<close>: the connection pools by server and the operations of the helper.  The
  driver \<open>mongocxx\<close> is a record of functions over the outside world \<open>'w\<close>; every call of it may
  throw, and the three \<open>catch\<close> clauses of every operation are alike.  Log lines are left out.
  \<open>add2Collection\<close> and \<open>removeFromCollection\<close> name members that do not exist and cannot be
  instantiated, so they have no behaviour; what they mean to call is modelled.
\<close>

section \<open>The driver and the models\<close>

datatype 'a mongo_call = Mongo_throws | Answer 'a

text \<open>A document of a listing: with a text under \<open>name\<close>, without the key, or one at which the cursor or \<open>get_utf8\<close> throws.\<close>

datatype name_entry = Named string | Unnamed | Entry_throws

record count_options =
  co_skip :: "int option"
  co_limit :: "int option"

record 'd find_options =
  fo_skip :: "int option"
  fo_limit :: "int option"
  fo_projection :: "'d option"

record 'c collection =
  col_conn :: 'c
  col_db :: string
  col_name :: string

record ('p, 'c, 'd, 'cur, 'w) mongo_driver =
  md_pool_new :: "string \<Rightarrow> 'w \<Rightarrow> 'p mongo_call \<times> 'w"
  md_acquire :: "'p \<Rightarrow> 'w \<Rightarrow> 'c option mongo_call \<times> 'w"
  md_try_acquire :: "'p \<Rightarrow> 'w \<Rightarrow> 'c option mongo_call \<times> 'w"
  md_release :: "'c \<Rightarrow> 'w \<Rightarrow> 'w"
  md_count :: "'c collection \<Rightarrow> 'd \<Rightarrow> count_options \<Rightarrow> 'w \<Rightarrow> int mongo_call \<times> 'w"
  md_find :: "'c collection \<Rightarrow> 'd \<Rightarrow> 'd find_options \<Rightarrow> 'w \<Rightarrow> 'cur mongo_call \<times> 'w"
  md_update_one :: "'c collection \<Rightarrow> 'd \<Rightarrow> 'd \<Rightarrow> bool \<Rightarrow> 'w \<Rightarrow> bool mongo_call \<times> 'w"
  md_create_index :: "'c collection \<Rightarrow> 'd \<Rightarrow> bool \<Rightarrow> 'w \<Rightarrow> unit mongo_call \<times> 'w"
  md_insert_one :: "'c collection \<Rightarrow> 'd \<Rightarrow> 'w \<Rightarrow> bool mongo_call \<times> 'w"
  md_bulk_write :: "'c collection \<Rightarrow> 'd list \<Rightarrow> 'w \<Rightarrow> bool mongo_call \<times> 'w"
  md_delete_many :: "'c collection \<Rightarrow> 'd \<Rightarrow> 'w \<Rightarrow> bool mongo_call \<times> 'w"
  md_list_collections :: "'c \<Rightarrow> string \<Rightarrow> 'w \<Rightarrow> name_entry list mongo_call \<times> 'w"
  md_list_databases :: "'c \<Rightarrow> 'w \<Rightarrow> name_entry list mongo_call \<times> 'w"
  md_empty_doc :: 'd
  md_put_zero :: "string \<Rightarrow> 'd \<Rightarrow> 'd"
  md_or :: "'d list \<Rightarrow> 'd"

text \<open>The methods of a model class the operations call; its own state is part of the world.\<close>

record ('d, 'cur, 'w) mongo_model =
  mm_DatabasePort :: int
  mm_DatabaseIp :: string
  mm_DatabaseNm :: string
  mm_TableNm :: string
  mm_Assign :: "int \<Rightarrow> 'cur \<Rightarrow> 'w \<Rightarrow> lct_err mongo_call \<times> 'w"
  mm_FetchOnFilter :: "'w \<Rightarrow> (lct_err \<times> 'd list \<times> 'd list) mongo_call \<times> 'w"
  mm_Fetch2Index :: "'w \<Rightarrow> (lct_err \<times> 'd) mongo_call \<times> 'w"

section \<open>The stamp of a server\<close>

datatype mongo_stamp = Stamp (stamp_Port: int) (stamp_Ip: string)

definition stamp_eq :: "mongo_stamp \<Rightarrow> mongo_stamp \<Rightarrow> bool" where
  "stamp_eq a b \<longleftrightarrow> stamp_Port a = stamp_Port b \<and> stamp_Ip a = stamp_Ip b"

definition stamp_less :: "mongo_stamp \<Rightarrow> mongo_stamp \<Rightarrow> bool" where
  "stamp_less a b =
     (if stamp_Ip a < stamp_Ip b then True
      else if stamp_Ip a > stamp_Ip b then False
      else if stamp_Port a < stamp_Port b then True
      else False)"

instantiation mongo_stamp :: linorder
begin

definition less_mongo_stamp :: "mongo_stamp \<Rightarrow> mongo_stamp \<Rightarrow> bool" where
  "less_mongo_stamp = stamp_less"

definition less_eq_mongo_stamp :: "mongo_stamp \<Rightarrow> mongo_stamp \<Rightarrow> bool" where
  "less_eq_mongo_stamp a b \<longleftrightarrow> stamp_less a b \<or> stamp_eq a b"

instance
  by standard
    (auto simp: less_mongo_stamp_def less_eq_mongo_stamp_def stamp_less_def stamp_eq_def mongo_stamp.expand split: if_splits)

end

text \<open>The keys the ordered map takes for the same are the equal ones, so it is a map on stamps.\<close>

lemma stamp_equivalent: "\<not> stamp_less a b \<and> \<not> stamp_less b a \<longleftrightarrow> a = b"
  using less_linear [of a b] by (auto simp: less_mongo_stamp_def [symmetric])

section \<open>The connection pool\<close>

record 'p mongo_pool =
  cp_initiated :: bool
  cp_port :: int
  cp_connCount :: int
  cp_ip :: string
  cp_mongoPool :: "'p option"

definition new_mongo_pool :: "int \<Rightarrow> string \<Rightarrow> int \<Rightarrow> 'p mongo_pool" where
  "new_mongo_pool port ip connCount = \<lparr>cp_initiated = False, cp_port = port, cp_connCount = connCount, cp_ip = ip, cp_mongoPool = None\<rparr>"

definition mongo_url :: "'p mongo_pool \<Rightarrow> string" where
  "mongo_url p = ''mongodb://'' @ cp_ip p @ '':'' @ to_string (cp_port p)
     @ ''/?minPoolSize='' @ to_string (cp_connCount p) @ ''&maxPoolSize='' @ to_string (cp_connCount p)"

definition mongo_pool_init ::
    "('p, 'c, 'd, 'cur, 'w) mongo_driver \<Rightarrow> 'p mongo_pool \<Rightarrow> 'w \<Rightarrow> lct_err \<times> 'p mongo_pool \<times> 'w" where
  "mongo_pool_init d p w =
     (if cp_initiated p \<or> cp_mongoPool p \<noteq> None then (LCT_FAIL, p, w)
      else case md_pool_new d (mongo_url p) w of
        (Mongo_throws, w1) \<Rightarrow> (LCT_UNEXPECTED, p, w1)
      | (Answer x, w1) \<Rightarrow> (LCT_SUCCESS, p\<lparr>cp_mongoPool := Some x, cp_initiated := True\<rparr>, w1))"

definition getConnection ::
    "('p, 'c, 'd, 'cur, 'w) mongo_driver \<Rightarrow> 'p mongo_pool \<Rightarrow> 'w \<Rightarrow> lct_err \<times> 'c option \<times> 'w" where
  "getConnection d p w =
     (if \<not> cp_initiated p then (LCT_FAIL, None, w)
      else case cp_mongoPool p of
        None \<Rightarrow> (LCT_FAIL, None, w)
      | Some x \<Rightarrow> (case md_acquire d x w of
            (Mongo_throws, w1) \<Rightarrow> (LCT_UNEXPECTED, None, w1)
          | (Answer c, w1) \<Rightarrow> (LCT_SUCCESS, c, w1)))"

definition tryGetConnection ::
    "('p, 'c, 'd, 'cur, 'w) mongo_driver \<Rightarrow> 'p mongo_pool \<Rightarrow> 'w \<Rightarrow> lct_err \<times> 'c option \<times> 'w" where
  "tryGetConnection d p w =
     (if \<not> cp_initiated p then (LCT_FAIL, None, w)
      else case cp_mongoPool p of
        None \<Rightarrow> (LCT_FAIL, None, w)
      | Some x \<Rightarrow> (case md_try_acquire d x w of
            (Mongo_throws, w1) \<Rightarrow> (LCT_UNEXPECTED, None, w1)
          | (Answer None, w1) \<Rightarrow> (LCT_FAIL, None, w1)
          | (Answer (Some c), w1) \<Rightarrow> (LCT_SUCCESS, Some c, w1)))"

section \<open>The helper and its pools\<close>

record ('p, 'w) mongo_helper =
  mg_pools :: "mongo_stamp \<Rightarrow> 'p mongo_pool option"
  mg_connMaxCount :: int
  mg_world :: 'w

definition DEFAULT_CONN_MAX_COUNT :: int where "DEFAULT_CONN_MAX_COUNT = 16"

definition new_mongo_helper :: "'w \<Rightarrow> ('p, 'w) mongo_helper" where
  "new_mongo_helper w = \<lparr>mg_pools = Map.empty, mg_connMaxCount = DEFAULT_CONN_MAX_COUNT, mg_world = w\<rparr>"

definition setConnCount :: "int \<Rightarrow> ('p, 'w) mongo_helper \<Rightarrow> lct_err \<times> ('p, 'w) mongo_helper" where
  "setConnCount n h = (LCT_SUCCESS, h\<lparr>mg_connMaxCount := n\<rparr>)"

text \<open>Under the reader's lock.\<close>

definition getMongoConnPool :: "mongo_stamp \<Rightarrow> ('p, 'w) mongo_helper \<Rightarrow> lct_err \<times> 'p mongo_pool option" where
  "getMongoConnPool st h =
     (case mg_pools h st of None \<Rightarrow> (LCT_EMPTY_RECORD, None) | Some p \<Rightarrow> (LCT_SUCCESS, Some p))"

text \<open>Under the writer's lock.\<close>

definition addMongoConnPool ::
    "('p, 'c, 'd, 'cur, 'w) mongo_driver \<Rightarrow> mongo_stamp \<Rightarrow> ('p, 'w) mongo_helper \<Rightarrow> lct_err \<times> ('p, 'w) mongo_helper" where
  "addMongoConnPool d st h =
     (if mg_pools h st \<noteq> None then (LCT_FAIL, h)
      else case mongo_pool_init d (new_mongo_pool (stamp_Port st) (stamp_Ip st) (mg_connMaxCount h)) (mg_world h) of
        (errCode, p, w1) \<Rightarrow>
          if LCT_SUCCESS \<noteq> errCode then (errCode, h\<lparr>mg_world := w1\<rparr>)
          else (errCode, h\<lparr>mg_pools := (mg_pools h)(st \<mapsto> p), mg_world := w1\<rparr>))"

definition retrieveMongoConnPool ::
    "('p, 'c, 'd, 'cur, 'w) mongo_driver \<Rightarrow> mongo_stamp \<Rightarrow> ('p, 'w) mongo_helper
       \<Rightarrow> lct_err \<times> 'p mongo_pool option \<times> ('p, 'w) mongo_helper" where
  "retrieveMongoConnPool d st h =
     (case getMongoConnPool st h of (e1, p1) \<Rightarrow>
       if LCT_SUCCESS \<noteq> e1 then
         (case addMongoConnPool d st h of (_, h1) \<Rightarrow>
          case getMongoConnPool st h1 of (e2, p2) \<Rightarrow> (e2, p2, h1))
       else (e1, p1, h))"

section \<open>The operations\<close>

text \<open>
  The frame of every operation: the pool, a connection, the body under \<open>try\<close>, and the end of the
  connection's scope, which gives it back.  The body has an out parameter \<open>'a\<close>.
\<close>

definition with_connection ::
    "('p, 'c, 'd, 'cur, 'w) mongo_driver \<Rightarrow> int \<Rightarrow> string \<Rightarrow> ('c \<Rightarrow> 'a \<Rightarrow> 'w \<Rightarrow> lct_err mongo_call \<times> 'a \<times> 'w)
       \<Rightarrow> 'a \<Rightarrow> ('p, 'w) mongo_helper \<Rightarrow> (lct_err \<times> 'a \<times> ('p, 'w) mongo_helper) res" where
  "with_connection d port ip body a h =
     (case retrieveMongoConnPool d (Stamp port ip) h of (errCode, connPoolShp, h1) \<Rightarrow>
       if LCT_SUCCESS \<noteq> errCode then Inr (errCode, a, h1)
       else case connPoolShp of
         None \<Rightarrow> Inl Undefined
       | Some p \<Rightarrow> (case getConnection d p (mg_world h1) of (e2, conn, w2) \<Rightarrow>
           case conn of
             None \<Rightarrow> Inr (e2, a, h1\<lparr>mg_world := w2\<rparr>)
           | Some c \<Rightarrow>
               if LCT_SUCCESS \<noteq> e2 then Inr (e2, a, h1\<lparr>mg_world := md_release d c w2\<rparr>)
               else (case body c a w2 of (r, a3, w3) \<Rightarrow>
                 Inr (case r of Mongo_throws \<Rightarrow> LCT_UNEXPECTED | Answer e3 \<Rightarrow> e3, a3, h1\<lparr>mg_world := md_release d c w3\<rparr>))))"

text \<open>\<open>countCollection\<close>, without and with a filter.\<close>

definition no_count_options :: count_options where "no_count_options = \<lparr>co_skip = None, co_limit = None\<rparr>"

definition countCollection_on ::
    "('p, 'c, 'd, 'cur, 'w) mongo_driver \<Rightarrow> int \<Rightarrow> string \<Rightarrow> string \<Rightarrow> string \<Rightarrow> 'd \<Rightarrow> int \<Rightarrow> ('p, 'w) mongo_helper
       \<Rightarrow> (lct_err \<times> int \<times> ('p, 'w) mongo_helper) res" where
  "countCollection_on d port ip dbNm tableNm filterView =
     with_connection d port ip (\<lambda>c n w.
       case md_count d \<lparr>col_conn = c, col_db = dbNm, col_name = tableNm\<rparr> filterView no_count_options w of
         (Mongo_throws, w1) \<Rightarrow> (Mongo_throws, n, w1)
       | (Answer k, w1) \<Rightarrow> (Answer LCT_SUCCESS, k, w1))"

definition countCollection ::
    "('p, 'c, 'd, 'cur, 'w) mongo_driver \<Rightarrow> int \<Rightarrow> string \<Rightarrow> string \<Rightarrow> string \<Rightarrow> int \<Rightarrow> ('p, 'w) mongo_helper
       \<Rightarrow> (lct_err \<times> int \<times> ('p, 'w) mongo_helper) res" where
  "countCollection d port ip dbNm tableNm =
     with_connection d port ip (\<lambda>c n w.
       case md_count d \<lparr>col_conn = c, col_db = dbNm, col_name = tableNm\<rparr> (md_empty_doc d) no_count_options w of
         (Mongo_throws, w1) \<Rightarrow> (Mongo_throws, n, w1)
       | (Answer k, w1) \<Rightarrow> (Answer LCT_SUCCESS, k, w1))"

text \<open>The loop over a listing; the names found before an exception stay in the vector.\<close>

fun push_names :: "name_entry list \<Rightarrow> string list \<Rightarrow> lct_err mongo_call \<times> string list" where
  "push_names [] ns = (Answer LCT_SUCCESS, ns)"
| "push_names (Named n # es) ns = push_names es (ns @ [n])"
| "push_names (Unnamed # es) ns = push_names es ns"
| "push_names (Entry_throws # es) ns = (Mongo_throws, ns)"

definition listCollectionName ::
    "('p, 'c, 'd, 'cur, 'w) mongo_driver \<Rightarrow> int \<Rightarrow> string \<Rightarrow> string \<Rightarrow> string list \<Rightarrow> ('p, 'w) mongo_helper
       \<Rightarrow> (lct_err \<times> string list \<times> ('p, 'w) mongo_helper) res" where
  "listCollectionName d port ip dbName =
     with_connection d port ip (\<lambda>c ns w.
       case md_list_collections d c dbName w of
         (Mongo_throws, w1) \<Rightarrow> (Mongo_throws, ns, w1)
       | (Answer es, w1) \<Rightarrow> (case push_names es ns of (r, ns1) \<Rightarrow> (r, ns1, w1)))"

definition listDatabaseName ::
    "('p, 'c, 'd, 'cur, 'w) mongo_driver \<Rightarrow> int \<Rightarrow> string \<Rightarrow> string list \<Rightarrow> ('p, 'w) mongo_helper
       \<Rightarrow> (lct_err \<times> string list \<times> ('p, 'w) mongo_helper) res" where
  "listDatabaseName d port ip =
     with_connection d port ip (\<lambda>c ns w.
       case md_list_databases d c w of
         (Mongo_throws, w1) \<Rightarrow> (Mongo_throws, ns, w1)
       | (Answer es, w1) \<Rightarrow> (case push_names es ns of (r, ns1) \<Rightarrow> (r, ns1, w1)))"

definition query_skip :: "int \<Rightarrow> int option" where "query_skip offset = (if offset \<ge> 0 then Some offset else None)"

definition query_limit :: "int \<Rightarrow> int option" where "query_limit batchSize = (if batchSize \<noteq> -1 then Some batchSize else None)"

definition exclude_columns :: "('p, 'c, 'd, 'cur, 'w) mongo_driver \<Rightarrow> string list \<Rightarrow> 'd" where
  "exclude_columns d cols = fold (md_put_zero d) cols (md_empty_doc d)"

text \<open>The arguments of \<open>Assign\<close>: the count, then the cursor (C++ leaves their order open).\<close>

definition assign_found ::
    "('p, 'c, 'd, 'cur, 'w) mongo_driver \<Rightarrow> ('d, 'cur, 'w) mongo_model \<Rightarrow> 'c \<Rightarrow> 'd \<Rightarrow> count_options \<Rightarrow> 'd find_options
       \<Rightarrow> 'w \<Rightarrow> lct_err mongo_call \<times> 'w" where
  "assign_found d m c flt co fo w =
     (let col = \<lparr>col_conn = c, col_db = mm_DatabaseNm m, col_name = mm_TableNm m\<rparr> in
      case md_count d col flt co w of
        (Mongo_throws, w1) \<Rightarrow> (Mongo_throws, w1)
      | (Answer n, w1) \<Rightarrow> (case md_find d col flt fo w1 of
            (Mongo_throws, w2) \<Rightarrow> (Mongo_throws, w2)
          | (Answer cur, w2) \<Rightarrow> mm_Assign m n cur w2))"

definition queryCollection ::
    "('p, 'c, 'd, 'cur, 'w) mongo_driver \<Rightarrow> ('d, 'cur, 'w) mongo_model \<Rightarrow> int \<Rightarrow> int \<Rightarrow> string list \<Rightarrow> ('p, 'w) mongo_helper
       \<Rightarrow> (lct_err \<times> unit \<times> ('p, 'w) mongo_helper) res" where
  "queryCollection d m offset batchSize filterExColumns =
     with_connection d (mm_DatabasePort m) (mm_DatabaseIp m) (\<lambda>c u w.
       case assign_found d m c (md_empty_doc d)
           \<lparr>co_skip = query_skip offset, co_limit = query_limit batchSize\<rparr>
           \<lparr>fo_skip = query_skip offset, fo_limit = query_limit batchSize, fo_projection = Some (exclude_columns d filterExColumns)\<rparr> w
       of (r, w1) \<Rightarrow> (r, u, w1)) ()"

definition queryCollection_window ::
    "('p, 'c, 'd, 'cur, 'w) mongo_driver \<Rightarrow> ('d, 'cur, 'w) mongo_model \<Rightarrow> int \<Rightarrow> int \<Rightarrow> ('p, 'w) mongo_helper
       \<Rightarrow> (lct_err \<times> unit \<times> ('p, 'w) mongo_helper) res" where
  "queryCollection_window d m offset batchSize = queryCollection d m offset batchSize []"

definition queryCollection_all ::
    "('p, 'c, 'd, 'cur, 'w) mongo_driver \<Rightarrow> ('d, 'cur, 'w) mongo_model \<Rightarrow> ('p, 'w) mongo_helper
       \<Rightarrow> (lct_err \<times> unit \<times> ('p, 'w) mongo_helper) res" where
  "queryCollection_all d m = queryCollection d m 0 (-1) []"

definition queryOnFilter ::
    "('p, 'c, 'd, 'cur, 'w) mongo_driver \<Rightarrow> 'd \<Rightarrow> int \<Rightarrow> int \<Rightarrow> ('d, 'cur, 'w) mongo_model \<Rightarrow> ('p, 'w) mongo_helper
       \<Rightarrow> (lct_err \<times> unit \<times> ('p, 'w) mongo_helper) res" where
  "queryOnFilter d flt offset batchSize m =
     with_connection d (mm_DatabasePort m) (mm_DatabaseIp m) (\<lambda>c u w.
       case assign_found d m c flt
           \<lparr>co_skip = query_skip offset, co_limit = query_limit batchSize\<rparr>
           \<lparr>fo_skip = query_skip offset, fo_limit = query_limit batchSize, fo_projection = None\<rparr> w
       of (r, w1) \<Rightarrow> (r, u, w1)) ()"

definition queryOnFilter_all ::
    "('p, 'c, 'd, 'cur, 'w) mongo_driver \<Rightarrow> 'd \<Rightarrow> ('d, 'cur, 'w) mongo_model \<Rightarrow> ('p, 'w) mongo_helper
       \<Rightarrow> (lct_err \<times> unit \<times> ('p, 'w) mongo_helper) res" where
  "queryOnFilter_all d flt m = queryOnFilter d flt 0 (-1) m"

fun update_loop ::
    "('p, 'c, 'd, 'cur, 'w) mongo_driver \<Rightarrow> 'c collection \<Rightarrow> bool \<Rightarrow> ('d \<times> 'd) list \<Rightarrow> 'w \<Rightarrow> lct_err mongo_call \<times> 'w" where
  "update_loop d col upsert [] w = (Answer LCT_SUCCESS, w)"
| "update_loop d col upsert ((flt, doc) # rest) w =
     (case md_update_one d col flt doc upsert w of
        (Mongo_throws, w1) \<Rightarrow> (Mongo_throws, w1)
      | (Answer acked, w1) \<Rightarrow> if \<not> acked then (Answer LCT_FAIL, w1) else update_loop d col upsert rest w1)"

definition update2Collection ::
    "('p, 'c, 'd, 'cur, 'w) mongo_driver \<Rightarrow> ('d, 'cur, 'w) mongo_model \<Rightarrow> bool \<Rightarrow> ('p, 'w) mongo_helper
       \<Rightarrow> (lct_err \<times> unit \<times> ('p, 'w) mongo_helper) res" where
  "update2Collection d m upsert =
     with_connection d (mm_DatabasePort m) (mm_DatabaseIp m) (\<lambda>c u w.
       case mm_FetchOnFilter m w of
         (Mongo_throws, w1) \<Rightarrow> (Mongo_throws, u, w1)
       | (Answer (errCode, filterVector, docVector), w1) \<Rightarrow>
           if LCT_SUCCESS \<noteq> errCode then (Answer errCode, u, w1)
           else (case update_loop d \<lparr>col_conn = c, col_db = mm_DatabaseNm m, col_name = mm_TableNm m\<rparr> upsert
                     (zip filterVector docVector) w1 of (r, w2) \<Rightarrow> (r, u, w2))) ()"

definition createIndex2Collection ::
    "('p, 'c, 'd, 'cur, 'w) mongo_driver \<Rightarrow> ('d, 'cur, 'w) mongo_model \<Rightarrow> ('p, 'w) mongo_helper
       \<Rightarrow> (lct_err \<times> unit \<times> ('p, 'w) mongo_helper) res" where
  "createIndex2Collection d m =
     with_connection d (mm_DatabasePort m) (mm_DatabaseIp m) (\<lambda>c u w.
       case mm_Fetch2Index m w of
         (Mongo_throws, w1) \<Rightarrow> (Mongo_throws, u, w1)
       | (Answer (errCode, doc), w1) \<Rightarrow>
           if LCT_SUCCESS \<noteq> errCode then (Answer errCode, u, w1)
           else (case md_create_index d \<lparr>col_conn = c, col_db = mm_DatabaseNm m, col_name = mm_TableNm m\<rparr> doc True w1 of
               (Mongo_throws, w2) \<Rightarrow> (Mongo_throws, u, w2)
             | (Answer _, w2) \<Rightarrow> (Answer LCT_SUCCESS, u, w2))) ()"

text \<open>The result of a write: a driver that throws, no acknowledgement, success.\<close>

definition write_code :: "bool mongo_call \<times> 'w \<Rightarrow> lct_err \<times> 'w" where
  "write_code x = (case x of
       (Mongo_throws, w) \<Rightarrow> (LCT_UNEXPECTED, w)
     | (Answer acked, w) \<Rightarrow> if \<not> acked then (LCT_FAIL, w) else (LCT_SUCCESS, w))"

definition insertOne :: "('p, 'c, 'd, 'cur, 'w) mongo_driver \<Rightarrow> 'd \<Rightarrow> 'c collection \<Rightarrow> 'w \<Rightarrow> lct_err \<times> 'w" where
  "insertOne d doc col w = write_code (md_insert_one d col doc w)"

definition insertBulk :: "('p, 'c, 'd, 'cur, 'w) mongo_driver \<Rightarrow> 'd list \<Rightarrow> 'c collection \<Rightarrow> 'w \<Rightarrow> lct_err \<times> 'w" where
  "insertBulk d docVec col w = write_code (md_bulk_write d col docVec w)"

definition deleteOne :: "('p, 'c, 'd, 'cur, 'w) mongo_driver \<Rightarrow> 'd \<Rightarrow> 'c collection \<Rightarrow> 'w \<Rightarrow> lct_err \<times> 'w" where
  "deleteOne d doc col w = write_code (md_delete_many d col doc w)"

definition deleteMany :: "('p, 'c, 'd, 'cur, 'w) mongo_driver \<Rightarrow> 'd list \<Rightarrow> 'c collection \<Rightarrow> 'w \<Rightarrow> lct_err \<times> 'w" where
  "deleteMany d filterVec col w = write_code (md_delete_many d col (md_or d filterVec) w)"

definition deleteAll :: "('p, 'c, 'd, 'cur, 'w) mongo_driver \<Rightarrow> 'c collection \<Rightarrow> 'w \<Rightarrow> lct_err \<times> 'w" where
  "deleteAll d col w = write_code (md_delete_many d col (md_empty_doc d) w)"

end
