(* ===== verification/Mongo_Correct.thy ===== *)
theory Mongo_Correct
  imports Mongo_Helper
begin

text \<open>
  Threads that ask for the pool of one server share a single one, whatever the interleaving, and
  the ways in which the frame of an operation may end.  The locale says what is assumed of the
  driver.
\<close>

section \<open>Pools\<close>

definition mongo_pool_ready :: "'p mongo_pool \<Rightarrow> bool" where
  "mongo_pool_ready p \<longleftrightarrow> cp_initiated p \<and> cp_mongoPool p \<noteq> None"

definition pools_ready :: "('p, 'w) mongo_helper \<Rightarrow> bool" where
  "pools_ready h \<longleftrightarrow> (\<forall>p \<in> ran (mg_pools h). mongo_pool_ready p)"

lemma add_cases:
  assumes "addMongoConnPool d st h = (e, h1)"
  obtains (kept) "mg_pools h1 = mg_pools h" "mg_pools h st \<noteq> None \<Longrightarrow> h1 = h"
    | (added) p where "mg_pools h st = None" "mongo_pool_ready p" "mg_pools h1 = (mg_pools h)(st \<mapsto> p)"
proof (cases "mg_pools h st")
  case None
  let ?p = "new_mongo_pool (stamp_Port st) (stamp_Ip st) (mg_connMaxCount h) :: 'a mongo_pool"
  obtain r w1 where n: "md_pool_new d (mongo_url ?p) (mg_world h) = (r, w1)" by fastforce
  show ?thesis
  proof (cases r)
    case Mongo_throws
    then have "mg_pools h1 = mg_pools h" using assms None n
      by (auto simp: addMongoConnPool_def mongo_pool_init_def new_mongo_pool_def)
    then show ?thesis using kept None by simp
  next
    case (Answer x)
    have "mg_pools h1 = (mg_pools h)(st \<mapsto> ?p\<lparr>cp_mongoPool := Some x, cp_initiated := True\<rparr>)"
      using assms None n Answer by (auto simp: addMongoConnPool_def mongo_pool_init_def new_mongo_pool_def)
    then show ?thesis by (intro added [OF None, of "?p\<lparr>cp_mongoPool := Some x, cp_initiated := True\<rparr>"]) (simp_all add: mongo_pool_ready_def)
  qed
next
  case (Some p)
  then have "h1 = h" using assms by (simp add: addMongoConnPool_def)
  then show ?thesis using kept by simp
qed

lemma add_pools_le: "addMongoConnPool d st h = (e, h1) \<Longrightarrow> mg_pools h \<subseteq>\<^sub>m mg_pools h1"
  by (erule add_cases) (auto simp: map_le_def)

lemma add_pools_ready: "addMongoConnPool d st h = (e, h1) \<Longrightarrow> pools_ready h \<Longrightarrow> pools_ready h1"
  by (erule add_cases) (auto simp: pools_ready_def ran_def split: if_splits)

lemma retrieve_pool:
  assumes "retrieveMongoConnPool d st h = (e, po, h1)" "pools_ready h"
  shows "pools_ready h1 \<and> mg_pools h \<subseteq>\<^sub>m mg_pools h1 \<and> po = mg_pools h1 st
     \<and> (if po = None then e = LCT_EMPTY_RECORD else e = LCT_SUCCESS)"
proof (cases "mg_pools h st")
  case None
  obtain ea ha where a: "addMongoConnPool d st h = (ea, ha)" by fastforce
  then have "h1 = ha" "po = mg_pools ha st" "e = (if po = None then LCT_EMPTY_RECORD else LCT_SUCCESS)"
    using assms(1) None
    by (cases "mg_pools ha st"; simp add: retrieveMongoConnPool_def getMongoConnPool_def LCT_EMPTY_RECORD_def)+
  then show ?thesis using add_pools_ready [OF a assms(2)] add_pools_le [OF a] by simp
next
  case (Some p)
  then have "po = Some p" "e = LCT_SUCCESS" "h1 = h" using assms(1) by (simp_all add: retrieveMongoConnPool_def getMongoConnPool_def)
  then show ?thesis using assms(2) Some by simp
qed

text \<open>How an operation may end: without a pool, without a connection, or with its body run.\<close>

lemma with_connection_cases:
  assumes "pools_ready h"
  obtains (no_pool) po h1 where "retrieveMongoConnPool d (Stamp port ip) h = (LCT_EMPTY_RECORD, po, h1)"
      "with_connection d port ip body a h = Inr (LCT_EMPTY_RECORD, a, h1)"
    | (no_conn) po h1 x r w2 where "retrieveMongoConnPool d (Stamp port ip) h = (LCT_SUCCESS, po, h1)"
      "md_acquire d x (mg_world h1) = (r, w2)" "\<forall>c. r \<noteq> Answer (Some c)"
      "with_connection d port ip body a h
         = Inr (if r = Mongo_throws then LCT_UNEXPECTED else LCT_SUCCESS, a, h1\<lparr>mg_world := w2\<rparr>)"
    | (ran) po h1 x c w2 r a3 w3 where "retrieveMongoConnPool d (Stamp port ip) h = (LCT_SUCCESS, po, h1)"
      "md_acquire d x (mg_world h1) = (Answer (Some c), w2)" "body c a w2 = (r, a3, w3)"
      "with_connection d port ip body a h
         = Inr (case r of Mongo_throws \<Rightarrow> LCT_UNEXPECTED | Answer e \<Rightarrow> e, a3, h1\<lparr>mg_world := md_release d c w3\<rparr>)"
proof -
  obtain e po h1 where r: "retrieveMongoConnPool d (Stamp port ip) h = (e, po, h1)" by (metis prod_cases3)
  note rp = retrieve_pool [OF r assms]
  show ?thesis
  proof (cases po)
    case None
    then have "e = LCT_EMPTY_RECORD" using rp by simp
    then show ?thesis using no_pool [of po h1] r by (simp add: with_connection_def LCT_EMPTY_RECORD_def)
  next
    case (Some p)
    then have m: "mg_pools h1 (Stamp port ip) = Some p" "e = LCT_SUCCESS" using rp by (metis, metis option.discI)
    then have "mongo_pool_ready p" using rp by (auto simp: pools_ready_def ran_def)
    then obtain x where x: "cp_initiated p" "cp_mongoPool p = Some x" by (auto simp: mongo_pool_ready_def)
    obtain ra w2 where a: "md_acquire d x (mg_world h1) = (ra, w2)" by fastforce
    note f = r m(2) Some x a
    show ?thesis
    proof (cases ra)
      case Mongo_throws
      then show ?thesis using f by (intro no_conn [of po h1 x ra w2]) (simp_all add: with_connection_def getConnection_def)
    next
      case (Answer co)
      show ?thesis
      proof (cases co)
        case None
        then show ?thesis using f Answer by (intro no_conn [of po h1 x ra w2]) (simp_all add: with_connection_def getConnection_def)
      next
        case (Some c)
        obtain rb a3 w3 where "body c a w2 = (rb, a3, w3)" by (metis prod_cases3)
        then show ?thesis using f Answer Some \<open>po = Some p\<close>
          by (intro ran [of po h1 x c w2 rb a3 w3]) (simp_all add: with_connection_def getConnection_def)
      qed
    qed
  qed
qed

section \<open>Threads that ask for pools\<close>

datatype 'p retrieve_pc = Get_first | Adding | Get_again | Got lct_err "'p mongo_pool option"

text \<open>
  The locked sections of \<open>retrieveMongoConnPool\<close> by thread \<open>t\<close>, which asks for \<open>req t\<close>; the number
  of connections may be set at any time.
\<close>

type_synonym ('p, 'w) mongo_system = "('p, 'w) mongo_helper \<times> (nat \<Rightarrow> 'p retrieve_pc)"

definition got :: "lct_err \<times> 'p mongo_pool option \<Rightarrow> 'p retrieve_pc" where "got x = (case x of (e, p) \<Rightarrow> Got e p)"

inductive mongo_step ::
    "('p, 'c, 'd, 'cur, 'w) mongo_driver \<Rightarrow> (nat \<Rightarrow> mongo_stamp) \<Rightarrow> ('p, 'w) mongo_system \<Rightarrow> ('p, 'w) mongo_system \<Rightarrow> bool"
  for d and req where
  found: "pcs t = Get_first \<Longrightarrow> getMongoConnPool (req t) h = (e, p) \<Longrightarrow> e = LCT_SUCCESS
     \<Longrightarrow> mongo_step d req (h, pcs) (h, pcs(t := Got e p))"
| missing: "pcs t = Get_first \<Longrightarrow> getMongoConnPool (req t) h = (e, p) \<Longrightarrow> e \<noteq> LCT_SUCCESS
     \<Longrightarrow> mongo_step d req (h, pcs) (h, pcs(t := Adding))"
| add: "pcs t = Adding \<Longrightarrow> addMongoConnPool d (req t) h = (e, h1)
     \<Longrightarrow> mongo_step d req (h, pcs) (h1, pcs(t := Get_again))"
| again: "pcs t = Get_again \<Longrightarrow> mongo_step d req (h, pcs) (h, pcs(t := got (getMongoConnPool (req t) h)))"
| conns: "mongo_step d req (h, pcs) (snd (setConnCount n h), pcs)"

inductive_cases mongo_stepE: "mongo_step d req s s'"

inductive mongo_reach ::
    "('p, 'c, 'd, 'cur, 'w) mongo_driver \<Rightarrow> (nat \<Rightarrow> mongo_stamp) \<Rightarrow> 'w \<Rightarrow> ('p, 'w) mongo_system \<Rightarrow> bool"
  for d and req and w0 where
  reach_start: "mongo_reach d req w0 (new_mongo_helper w0, \<lambda>_. Get_first)"
| reach_step: "mongo_reach d req w0 s \<Longrightarrow> mongo_step d req s s' \<Longrightarrow> mongo_reach d req w0 s'"

definition system_inv :: "('w \<Rightarrow> nat) \<Rightarrow> nat \<Rightarrow> (nat \<Rightarrow> mongo_stamp) \<Rightarrow> ('p, 'w) mongo_system \<Rightarrow> bool" where
  "system_inv created k req s \<longleftrightarrow> (case s of (h, pcs) \<Rightarrow>
     pools_ready h \<and> finite (dom (mg_pools h)) \<and> created (mg_world h) = k + card (dom (mg_pools h))
     \<and> (\<forall>t e p. pcs t = Got e p \<longrightarrow> (if e = LCT_SUCCESS then p \<noteq> None \<and> mg_pools h (req t) = p else p = None)))"

locale counting_driver =
  fixes drv :: "('p, 'c, 'd, 'cur, 'w) mongo_driver" and created :: "'w \<Rightarrow> nat"
  assumes pool_new: "md_pool_new drv url w = (r, w')
    \<Longrightarrow> created w' = (case r of Mongo_throws \<Rightarrow> created w | Answer _ \<Rightarrow> created w + 1)"
begin

lemma add_counts:
  assumes "addMongoConnPool drv st h = (e, h1)" "finite (dom (mg_pools h))"
    "created (mg_world h) = k + card (dom (mg_pools h))"
  shows "finite (dom (mg_pools h1)) \<and> created (mg_world h1) = k + card (dom (mg_pools h1))"
proof (cases "mg_pools h st")
  case None
  then have n: "st \<notin> dom (mg_pools h)" by blast
  show ?thesis
    using assms None n
    by (auto simp: addMongoConnPool_def mongo_pool_init_def card_insert_if split: if_splits prod.splits mongo_call.splits
        dest!: pool_new)
next
  case (Some p)
  then show ?thesis using add_cases [OF assms(1)] assms(2,3) by auto
qed

lemma system_inv_start: "system_inv created (created w0) req (new_mongo_helper w0, \<lambda>_. Get_first)"
  by (simp add: system_inv_def new_mongo_helper_def pools_ready_def)

lemma get_result:
  "getMongoConnPool st h = (e, p) \<Longrightarrow> if e = LCT_SUCCESS then p \<noteq> None \<and> mg_pools h st = p else p = None"
proof (cases "mg_pools h st")
  case (Some x)
  then show "getMongoConnPool st h = (e, p) \<Longrightarrow> ?thesis" by (simp add: getMongoConnPool_def) (metis option.discI)
qed (simp add: getMongoConnPool_def LCT_EMPTY_RECORD_def)

lemma system_inv_step: "mongo_step drv req s s' \<Longrightarrow> system_inv created k req s \<Longrightarrow> system_inv created k req s'"
proof (induction rule: mongo_step.induct)
  case (found pcs t h e p)
  then show ?case using get_result [OF found(2)] by (auto simp: system_inv_def)
next
  case (add pcs t h e h1)
  have i: "pools_ready h" "finite (dom (mg_pools h))" "created (mg_world h) = k + card (dom (mg_pools h))"
    using add.prems by (auto simp: system_inv_def)
  have le: "mg_pools h x \<noteq> None \<Longrightarrow> mg_pools h1 x = mg_pools h x" for x
    using add_pools_le [OF add(2)] unfolding map_le_def by (metis domIff)
  have "if e = LCT_SUCCESS then p \<noteq> None \<and> mg_pools h1 (req u) = p else p = None" if "(pcs(t := Get_again)) u = Got e p" for u e p
  proof -
    have "pcs u = Got e p" using that by (cases "u = t") auto
    then have g: "if e = LCT_SUCCESS then p \<noteq> None \<and> mg_pools h (req u) = p else p = None"
      using add.prems unfolding system_inv_def by blast
    then show ?thesis using le [of "req u"] by (cases "e = LCT_SUCCESS") auto
  qed
  then show ?case
    using add_pools_ready [OF add(2) i(1)] add_counts [OF add(2) i(2,3)] unfolding system_inv_def by blast
next
  case (again pcs t h)
  obtain e p where g: "getMongoConnPool (req t) h = (e, p)" by fastforce
  then show ?case using again get_result [OF g] by (auto simp: system_inv_def got_def)
qed (auto simp: system_inv_def setConnCount_def pools_ready_def)

lemma reach_inv: "mongo_reach drv req w0 s \<Longrightarrow> system_inv created (created w0) req s"
  by (induction rule: mongo_reach.induct) (auto intro: system_inv_start system_inv_step)

end

text \<open>
  C34: whatever the interleaving of threads asking for pools, the driver has made exactly one pool
  for each server known, and any two threads that were answered with success for the same server
  hold the same ready pool; without success a thread holds none.
\<close>

theorem mongo_pool_created_once:
  assumes "counting_driver drv created" "mongo_reach drv req w0 (h, pcs)"
  shows "created (mg_world h) = created w0 + card (dom (mg_pools h))
     \<and> (\<forall>t e p. pcs t = Got e p \<longrightarrow> (e = LCT_SUCCESS \<longleftrightarrow> p \<noteq> None) \<and> (\<forall>x. p = Some x \<longrightarrow> mongo_pool_ready x))
     \<and> (\<forall>t u p q. pcs t = Got LCT_SUCCESS p \<longrightarrow> pcs u = Got LCT_SUCCESS q \<longrightarrow> req t = req u \<longrightarrow> p = q)"
proof -
  have i: "pools_ready h" "created (mg_world h) = created w0 + card (dom (mg_pools h))"
    "\<And>t e p. pcs t = Got e p \<Longrightarrow> if e = LCT_SUCCESS then p \<noteq> None \<and> mg_pools h (req t) = p else p = None"
    using counting_driver.reach_inv [OF assms] unfolding system_inv_def by auto
  have "mongo_pool_ready x" if "pcs t = Got e (Some x)" for t e x
    using i(3) [OF that] i(1) by (auto simp: pools_ready_def ran_def split: if_splits)
  moreover have "e = LCT_SUCCESS \<longleftrightarrow> p \<noteq> None" if "pcs t = Got e p" for t e p
    using i(3) [OF that] by (auto split: if_splits)
  moreover have "p = q" if "pcs t = Got LCT_SUCCESS p" "pcs u = Got LCT_SUCCESS q" "req t = req u" for t u p q
    using i(3) [OF that(1)] i(3) [OF that(2)] that(3) by simp
  ultimately show ?thesis using i(2) by blast
qed

text \<open>A thread alone does what \<open>retrieveMongoConnPool\<close> does.\<close>

lemma retrieve_by_steps:
  assumes "pcs t = Get_first" "retrieveMongoConnPool d (req t) h = (e, p, h1)"
  shows "(mongo_step d req)\<^sup>*\<^sup>* (h, pcs) (h1, pcs(t := Got e p))"
proof -
  obtain e1 p1 where g: "getMongoConnPool (req t) h = (e1, p1)" by fastforce
  show ?thesis
  proof (cases "e1 = LCT_SUCCESS")
    case True
    then show ?thesis using assms g mongo_step.found [of pcs t req h e1 p1 d] by (simp add: retrieveMongoConnPool_def r_into_rtranclp)
  next
    case False
    obtain ea ha where a: "addMongoConnPool d (req t) h = (ea, ha)" by fastforce
    have r: "h1 = ha" "getMongoConnPool (req t) ha = (e, p)"
      using assms(2) g a False by (auto simp: retrieveMongoConnPool_def split: prod.splits)
    have 1: "mongo_step d req (h, pcs) (h, pcs(t := Adding))" by (use mongo_step.missing [of pcs t req h e1 p1 d] assms(1) g False in blast)
    have 2: "mongo_step d req (h, pcs(t := Adding)) (ha, pcs(t := Get_again))"
      using mongo_step.add [of "pcs(t := Adding)" t d req h ea ha] a by simp
    have 3: "mongo_step d req (ha, pcs(t := Get_again)) (ha, pcs(t := Got e p))"
      using mongo_step.again [of "pcs(t := Get_again)" t d req ha] r(2) by (simp add: got_def)
    show ?thesis unfolding r(1) using 1 2 3 by (meson converse_rtranclp_into_rtranclp r_into_rtranclp)
  qed
qed

end
