(* ===== verification/Mongo_Ops_Correct.thy ===== *)
theory Mongo_Ops_Correct
  imports Mongo_Correct
begin

text \<open>
  Every operation of the helper gives back the connection it borrows, on every path, and an update
  executes its pairs in order up to the first failure.  A reference driver interprets the
  locales and serves the witnesses.
\<close>

section \<open>Programs over the helper\<close>

datatype ('d, 'cur, 'w) mongo_op =
    Op_conns int
  | Op_count int string string string
  | Op_count_on int string string string 'd
  | Op_tables int string string
  | Op_databases int string
  | Op_query "('d, 'cur, 'w) mongo_model" int int "string list"
  | Op_query_on 'd int int "('d, 'cur, 'w) mongo_model"
  | Op_update "('d, 'cur, 'w) mongo_model" bool
  | Op_index "('d, 'cur, 'w) mongo_model"

definition drop_out :: "(lct_err \<times> 'a \<times> 'h) res \<Rightarrow> (lct_err \<times> 'h) res" where
  "drop_out r = res_bind r (\<lambda>(e, _, h). Inr (e, h))"

fun mongo_do ::
    "('p, 'c, 'd, 'cur, 'w) mongo_driver \<Rightarrow> ('d, 'cur, 'w) mongo_op \<Rightarrow> ('p, 'w) mongo_helper
       \<Rightarrow> (lct_err \<times> ('p, 'w) mongo_helper) res" where
  "mongo_do d (Op_conns n) h = Inr (setConnCount n h)"
| "mongo_do d (Op_count port ip db tb) h = drop_out (countCollection d port ip db tb 0 h)"
| "mongo_do d (Op_count_on port ip db tb flt) h = drop_out (countCollection_on d port ip db tb flt 0 h)"
| "mongo_do d (Op_tables port ip db) h = drop_out (listCollectionName d port ip db [] h)"
| "mongo_do d (Op_databases port ip) h = drop_out (listDatabaseName d port ip [] h)"
| "mongo_do d (Op_query m off n cols) h = drop_out (queryCollection d m off n cols h)"
| "mongo_do d (Op_query_on flt off n m) h = drop_out (queryOnFilter d flt off n m h)"
| "mongo_do d (Op_update m upsert) h = drop_out (update2Collection d m upsert h)"
| "mongo_do d (Op_index m) h = drop_out (createIndex2Collection d m h)"

fun mongo_run ::
    "('p, 'c, 'd, 'cur, 'w) mongo_driver \<Rightarrow> ('d, 'cur, 'w) mongo_op list \<Rightarrow> ('p, 'w) mongo_helper
       \<Rightarrow> (lct_err list \<times> ('p, 'w) mongo_helper) res" where
  "mongo_run d [] h = Inr ([], h)"
| "mongo_run d (x # xs) h = res_bind (mongo_do d x h) (\<lambda>(e, h1). res_bind (mongo_run d xs h1) (\<lambda>(es, h2). Inr (e # es, h2)))"

text \<open>A model whose methods leave a figure of the world alone.\<close>

definition model_keeps :: "('w \<Rightarrow> 'x) \<Rightarrow> ('d, 'cur, 'w) mongo_model \<Rightarrow> bool" where
  "model_keeps f m \<longleftrightarrow> (\<forall>n cur w. f (snd (mm_Assign m n cur w)) = f w) \<and> (\<forall>w. f (snd (mm_FetchOnFilter m w)) = f w)
     \<and> (\<forall>w. f (snd (mm_Fetch2Index m w)) = f w)"

fun op_keeps :: "('w \<Rightarrow> 'x) \<Rightarrow> ('d, 'cur, 'w) mongo_op \<Rightarrow> bool" where
  "op_keeps f (Op_query m off n cols) = model_keeps f m"
| "op_keeps f (Op_query_on flt off n m) = model_keeps f m"
| "op_keeps f (Op_update m upsert) = model_keeps f m"
| "op_keeps f (Op_index m) = model_keeps f m"
| "op_keeps f _ = True"

section \<open>Drivers that lend connections\<close>

locale lending_driver =
  fixes drv :: "('p, 'c, 'd, 'cur, 'w) mongo_driver" and out :: "'w \<Rightarrow> int"
  assumes acquire_lends: "md_acquire drv p w = (r, w')
      \<Longrightarrow> out w' = (case r of Answer (Some c) \<Rightarrow> out w + 1 | _ \<Rightarrow> out w)"
    and release_returns: "out (md_release drv c w) = out w - 1"
    and pool_new_out: "out (snd (md_pool_new drv url w)) = out w"
    and count_out: "out (snd (md_count drv col flt co w)) = out w"
    and find_out: "out (snd (md_find drv col flt fo w)) = out w"
    and update_out: "out (snd (md_update_one drv col flt doc upsert w)) = out w"
    and index_out: "out (snd (md_create_index drv col doc u w)) = out w"
    and tables_out: "out (snd (md_list_collections drv c db w)) = out w"
    and databases_out: "out (snd (md_list_databases drv c w)) = out w"
begin

lemma add_out: "addMongoConnPool drv st h = (e, h1) \<Longrightarrow> out (mg_world h1) = out (mg_world h)"
proof -
  assume a: "addMongoConnPool drv st h = (e, h1)"
  let ?p = "new_mongo_pool (stamp_Port st) (stamp_Ip st) (mg_connMaxCount h) :: 'p mongo_pool"
  obtain r w1 where n: "md_pool_new drv (mongo_url ?p) (mg_world h) = (r, w1)" by fastforce
  then have "out w1 = out (mg_world h)" using pool_new_out [of "mongo_url ?p" "mg_world h"] by simp
  then show ?thesis
    using a n by (cases "mg_pools h st"; cases r)
      (auto simp: addMongoConnPool_def mongo_pool_init_def new_mongo_pool_def)
qed

lemma retrieve_out: "retrieveMongoConnPool drv st h = (e, po, h1) \<Longrightarrow> out (mg_world h1) = out (mg_world h)"
  by (auto simp: retrieveMongoConnPool_def split: prod.splits if_splits dest: add_out)

text \<open>The frame borrows at most one connection and gives it back, whatever the body does.\<close>

lemma with_connection_balanced:
  assumes "pools_ready h" "\<And>c a w. out (snd (snd (body c a w))) = out w"
  shows "\<exists>e a' h'. with_connection drv port ip body a h = Inr (e, a', h') \<and> pools_ready h'
     \<and> mg_pools h \<subseteq>\<^sub>m mg_pools h' \<and> out (mg_world h') = out (mg_world h)"
proof (rule with_connection_cases [OF assms(1), of drv port ip body a])
  fix po h1
  assume r: "retrieveMongoConnPool drv (Stamp port ip) h = (LCT_EMPTY_RECORD, po, h1)"
    and x: "with_connection drv port ip body a h = Inr (LCT_EMPTY_RECORD, a, h1)"
  show ?thesis using x retrieve_pool [OF r assms(1)] retrieve_out [OF r] by simp
next
  fix po h1 p r w2
  assume r: "retrieveMongoConnPool drv (Stamp port ip) h = (LCT_SUCCESS, po, h1)"
    and a: "md_acquire drv p (mg_world h1) = (r, w2)" "\<forall>c. r \<noteq> Answer (Some c)"
    and x: "with_connection drv port ip body a h
         = Inr (if r = Mongo_throws then LCT_UNEXPECTED else LCT_SUCCESS, a, h1\<lparr>mg_world := w2\<rparr>)"
  have "out w2 = out (mg_world h1)" using acquire_lends [OF a(1)] a(2) by (auto split: mongo_call.splits option.splits)
  then show ?thesis using x retrieve_pool [OF r assms(1)] retrieve_out [OF r] by (simp add: pools_ready_def)
next
  fix po h1 p c w2 r a3 w3
  assume r: "retrieveMongoConnPool drv (Stamp port ip) h = (LCT_SUCCESS, po, h1)"
    and a: "md_acquire drv p (mg_world h1) = (Answer (Some c), w2)"
    and b: "body c a w2 = (r, a3, w3)"
    and x: "with_connection drv port ip body a h
         = Inr (case r of Mongo_throws \<Rightarrow> LCT_UNEXPECTED | Answer e \<Rightarrow> e, a3, h1\<lparr>mg_world := md_release drv c w3\<rparr>)"
  have "out w3 = out w2" using assms(2) [of c a w2] b by simp
  then show ?thesis
    using x retrieve_pool [OF r assms(1)] retrieve_out [OF r] acquire_lends [OF a] release_returns [of c w3]
    by (simp add: pools_ready_def)
qed

lemma assign_found_out:
  assumes "model_keeps out m"
  shows "out (snd (assign_found drv m c flt co fo w)) = out w"
proof -
  let ?col = "\<lparr>col_conn = c, col_db = mm_DatabaseNm m, col_name = mm_TableNm m\<rparr>"
  obtain r1 w1 where 1: "md_count drv ?col flt co w = (r1, w1)" by fastforce
  obtain r2 w2 where 2: "md_find drv ?col flt fo w1 = (r2, w2)" by fastforce
  have "out w1 = out w" "out w2 = out w1"
    using count_out [of ?col flt co w] find_out [of ?col flt fo w1] 1 2 by simp_all
  then show ?thesis
    using assms 1 2 by (cases r1; cases r2) (simp_all add: assign_found_def model_keeps_def)
qed

lemma update_loop_out: "out (snd (update_loop drv col upsert ps w)) = out w"
proof (induction ps arbitrary: w)
  case (Cons p ps)
  obtain flt doc where p: "p = (flt, doc)" by fastforce
  obtain r w1 where u: "md_update_one drv col flt doc upsert w = (r, w1)" by fastforce
  then have "out w1 = out w" using update_out [of col flt doc upsert w] by simp
  then show ?case using Cons.IH [of w1] p u by (cases r) simp_all
qed simp

lemma update_loop_out_eq: "update_loop drv col upsert ps w = (r, w') \<Longrightarrow> out w' = out w"
  using update_loop_out [of col upsert ps w] by simp

lemma index_out_eq: "md_create_index drv col doc u w = (r, w') \<Longrightarrow> out w' = out w"
  using index_out [of col doc u w] by simp

lemma do_balanced:
  assumes "pools_ready h" "op_keeps out op"
  shows "\<exists>e h'. mongo_do drv op h = Inr (e, h') \<and> pools_ready h' \<and> mg_pools h \<subseteq>\<^sub>m mg_pools h'
     \<and> out (mg_world h') = out (mg_world h)"
proof -
  have fin: "\<exists>e h'. drop_out (with_connection drv port ip body a h) = Inr (e, h') \<and> pools_ready h' \<and> mg_pools h \<subseteq>\<^sub>m mg_pools h'
      \<and> out (mg_world h') = out (mg_world h)" if "\<And>c a w. out (snd (snd (body c a w))) = out w" for port ip body and a :: 'x
    using with_connection_balanced [OF assms(1), of body port ip a] that by (auto simp: drop_out_def)
  have fin1: "\<exists>e h'. drop_out (with_connection drv port ip (\<lambda>c a w. fin1 a (f c w)) a h) = Inr (e, h') \<and> pools_ready h' \<and> mg_pools h \<subseteq>\<^sub>m mg_pools h'
      \<and> out (mg_world h') = out (mg_world h)" if "\<And>c w. out (snd (f c w)) = out w" "\<And>a r w. snd (snd (fin1 a (r, w))) = w" for port ip f fin1 and a :: 'x
    by (rule fin) (metis that prod.collapse)
  show ?thesis
  proof (cases op)
    case (Op_conns n)
    then show ?thesis using assms(1) by (simp add: setConnCount_def pools_ready_def)
  next
    case (Op_count port ip db tb)
    show ?thesis unfolding Op_count mongo_do.simps countCollection_def
      by (rule fin1) (auto simp: count_out split: mongo_call.splits)
  next
    case (Op_count_on port ip db tb flt)
    show ?thesis unfolding Op_count_on mongo_do.simps countCollection_on_def
      by (rule fin1) (auto simp: count_out split: mongo_call.splits)
  next
    case (Op_tables port ip db)
    show ?thesis unfolding Op_tables mongo_do.simps listCollectionName_def
      by (rule fin1) (auto simp: tables_out split: mongo_call.splits prod.splits)
  next
    case (Op_databases port ip)
    show ?thesis unfolding Op_databases mongo_do.simps listDatabaseName_def
      by (rule fin1) (auto simp: databases_out split: mongo_call.splits prod.splits)
  next
    case (Op_query m off n cols)
    then have "model_keeps out m" using assms(2) by simp
    then show ?thesis unfolding Op_query mongo_do.simps queryCollection_def
      by (intro fin1) (auto simp: assign_found_out)
  next
    case (Op_query_on flt off n m)
    then have "model_keeps out m" using assms(2) by simp
    then show ?thesis unfolding Op_query_on mongo_do.simps queryOnFilter_def
      by (intro fin1) (auto simp: assign_found_out)
  next
    case (Op_update m upsert)
    then have "\<And>w. out (snd (mm_FetchOnFilter m w)) = out w" using assms(2) by (simp add: model_keeps_def)
    then have "out (snd (snd (case mm_FetchOnFilter m w of
        (Mongo_throws, w1) \<Rightarrow> (Mongo_throws, u, w1)
      | (Answer (errCode, fs, ds), w1) \<Rightarrow>
          if LCT_SUCCESS \<noteq> errCode then (Answer errCode, u, w1)
          else (case update_loop drv \<lparr>col_conn = c, col_db = mm_DatabaseNm m, col_name = mm_TableNm m\<rparr> upsert (zip fs ds) w1 of
              (r, w2) \<Rightarrow> (r, u, w2))))) = out w" for c w and u :: unit
      by (cases "mm_FetchOnFilter m w"; cases "fst (mm_FetchOnFilter m w)")
        (auto split: prod.split dest!: update_loop_out_eq dest: arg_cong [of _ _ "\<lambda>x. out (snd x)"])
    then show ?thesis unfolding Op_update mongo_do.simps update2Collection_def by (rule fin)
  next
    case (Op_index m)
    then have "\<And>w. out (snd (mm_Fetch2Index m w)) = out w" using assms(2) by (simp add: model_keeps_def)
    then have "out (snd (snd (case mm_Fetch2Index m w of
        (Mongo_throws, w1) \<Rightarrow> (Mongo_throws, u, w1)
      | (Answer (errCode, doc), w1) \<Rightarrow>
          if LCT_SUCCESS \<noteq> errCode then (Answer errCode, u, w1)
          else (case md_create_index drv \<lparr>col_conn = c, col_db = mm_DatabaseNm m, col_name = mm_TableNm m\<rparr> doc True w1 of
              (Mongo_throws, w2) \<Rightarrow> (Mongo_throws, u, w2)
            | (Answer _, w2) \<Rightarrow> (Answer LCT_SUCCESS, u, w2))))) = out w" for c w and u :: unit
      by (cases "mm_Fetch2Index m w"; cases "fst (mm_Fetch2Index m w)")
        (auto split: prod.split mongo_call.split dest!: index_out_eq dest: arg_cong [of _ _ "\<lambda>x. out (snd x)"])
    then show ?thesis unfolding Op_index mongo_do.simps createIndex2Collection_def by (rule fin)
  qed
qed

lemma run_balanced:
  "pools_ready h \<Longrightarrow> \<forall>x \<in> set ops. op_keeps out x \<Longrightarrow>
     \<exists>es h'. mongo_run drv ops h = Inr (es, h') \<and> length es = length ops \<and> pools_ready h' \<and> mg_pools h \<subseteq>\<^sub>m mg_pools h'
       \<and> out (mg_world h') = out (mg_world h)"
proof (induction ops arbitrary: h)
  case (Cons x xs)
  obtain e h1 where d: "mongo_do drv x h = Inr (e, h1)" "pools_ready h1" "mg_pools h \<subseteq>\<^sub>m mg_pools h1"
    "out (mg_world h1) = out (mg_world h)"
    using do_balanced [OF Cons.prems(1), of x] Cons.prems(2) by auto
  obtain es h2 where "mongo_run drv xs h1 = Inr (es, h2)" "length es = length xs" "pools_ready h2"
    "mg_pools h1 \<subseteq>\<^sub>m mg_pools h2" "out (mg_world h2) = out (mg_world h1)"
    using Cons.IH [OF d(2)] Cons.prems(2) by auto
  then show ?case using d by (auto intro: map_le_trans)
qed simp

end

section \<open>Drivers that acknowledge updates\<close>

locale acknowledging_driver = lending_driver drv out
  for drv :: "('p, 'c, 'd, 'cur, 'w) mongo_driver" and out :: "'w \<Rightarrow> int" +
  fixes updates :: "'w \<Rightarrow> ('d \<times> 'd) list"
  assumes update_logged: "md_update_one drv col flt doc upsert w = (r, w')
      \<Longrightarrow> updates w' = (if r = Answer True then updates w @ [(flt, doc)] else updates w)"
    and acquire_quiet: "md_acquire drv p w = (conn, w') \<Longrightarrow> updates w' = updates w \<and> conn \<noteq> Answer None"
    and release_quiet: "updates (md_release drv c w) = updates w"
    and pool_new_quiet: "updates (snd (md_pool_new drv url w)) = updates w"
begin

lemma retrieve_quiet: "retrieveMongoConnPool drv st h = (e, po, h1) \<Longrightarrow> updates (mg_world h1) = updates (mg_world h)"
proof -
  have a: "updates (mg_world ha) = updates (mg_world h)" if a: "addMongoConnPool drv st h = (ea, ha)" for ea ha
  proof -
    let ?p = "new_mongo_pool (stamp_Port st) (stamp_Ip st) (mg_connMaxCount h) :: 'p mongo_pool"
    obtain r w1 where n: "md_pool_new drv (mongo_url ?p) (mg_world h) = (r, w1)" by fastforce
    then have "updates w1 = updates (mg_world h)" using pool_new_quiet [of "mongo_url ?p" "mg_world h"] by simp
    then show ?thesis
      using a n by (cases "mg_pools h st"; cases r)
        (auto simp: addMongoConnPool_def mongo_pool_init_def new_mongo_pool_def)
  qed
  then show "retrieveMongoConnPool drv st h = (e, po, h1) \<Longrightarrow> ?thesis"
    by (auto simp: retrieveMongoConnPool_def split: prod.splits if_splits)
qed

lemma update_loop_prefix:
  "\<exists>r w' k. update_loop drv col upsert ps w = (r, w') \<and> k \<le> length ps \<and> updates w' = updates w @ take k ps
     \<and> (if k = length ps then r = Answer LCT_SUCCESS else r = Mongo_throws \<or> r = Answer LCT_FAIL)"
proof (induction ps arbitrary: w)
  case (Cons p ps)
  obtain flt doc where p: "p = (flt, doc)" by fastforce
  obtain r w1 where u: "md_update_one drv col flt doc upsert w = (r, w1)" by fastforce
  note l = update_logged [OF u]
  show ?case
  proof (cases "r = Answer True")
    case True
    obtain r2 w2 k where "update_loop drv col upsert ps w1 = (r2, w2)" "k \<le> length ps" "updates w2 = updates w1 @ take k ps"
      "if k = length ps then r2 = Answer LCT_SUCCESS else r2 = Mongo_throws \<or> r2 = Answer LCT_FAIL"
      using Cons.IH [of w1] by blast
    then show ?thesis using u p l True by (intro exI [of _ r2] exI [of _ w2] exI [of _ "Suc k"]) simp
  next
    case False
    then show ?thesis using u p l by (cases r) (auto intro!: exI [of _ "0 :: nat"])
  qed
qed simp

lemma update_prefix:
  assumes "pools_ready h" "\<And>w. \<exists>w'. mm_FetchOnFilter m w = (Answer (LCT_SUCCESS, fs, ds), w') \<and> updates w' = updates w"
  shows "\<exists>e h' k. update2Collection drv m upsert h = Inr (e, (), h') \<and> k \<le> length (zip fs ds)
     \<and> updates (mg_world h') = updates (mg_world h) @ take k (zip fs ds)
     \<and> (if e = LCT_SUCCESS then k = length (zip fs ds) else e \<in> {LCT_EMPTY_RECORD, LCT_UNEXPECTED, LCT_FAIL})"
proof -
  let ?ps = "zip fs ds"
  let ?body = "\<lambda>c (u :: unit) w. case mm_FetchOnFilter m w of
        (Mongo_throws, w1) \<Rightarrow> (Mongo_throws, u, w1)
      | (Answer (errCode, fs, ds), w1) \<Rightarrow>
          if LCT_SUCCESS \<noteq> errCode then (Answer errCode, u, w1)
          else (case update_loop drv \<lparr>col_conn = c, col_db = mm_DatabaseNm m, col_name = mm_TableNm m\<rparr> upsert (zip fs ds) w1 of
              (r, w2) \<Rightarrow> (r, u, w2))"
  have u: "update2Collection drv m upsert h = with_connection drv (mm_DatabasePort m) (mm_DatabaseIp m) ?body () h"
    by (simp add: update2Collection_def)
  show ?thesis
  proof (rule with_connection_cases [OF assms(1), of drv "mm_DatabasePort m" "mm_DatabaseIp m" ?body "()"])
    fix po h1
    assume "retrieveMongoConnPool drv (Stamp (mm_DatabasePort m) (mm_DatabaseIp m)) h = (LCT_EMPTY_RECORD, po, h1)"
      and "with_connection drv (mm_DatabasePort m) (mm_DatabaseIp m) ?body () h = Inr (LCT_EMPTY_RECORD, (), h1)"
    then show ?thesis using retrieve_quiet unfolding u
      by (intro exI [of _ LCT_EMPTY_RECORD] exI [of _ h1] exI [of _ 0]) (simp add: LCT_EMPTY_RECORD_def)
  next
    fix po h1 p r w2
    assume "retrieveMongoConnPool drv (Stamp (mm_DatabasePort m) (mm_DatabaseIp m)) h = (LCT_SUCCESS, po, h1)"
      and a: "md_acquire drv p (mg_world h1) = (r, w2)" "\<forall>c. r \<noteq> Answer (Some c)"
      and x: "with_connection drv (mm_DatabasePort m) (mm_DatabaseIp m) ?body () h
         = Inr (if r = Mongo_throws then LCT_UNEXPECTED else LCT_SUCCESS, (), h1\<lparr>mg_world := w2\<rparr>)"
    moreover have "r = Mongo_throws" using acquire_quiet [OF a(1)] a(2) by (metis mongo_call.exhaust option.exhaust)
    ultimately show ?thesis using retrieve_quiet acquire_quiet [OF a(1)] unfolding u
      by (intro exI [of _ LCT_UNEXPECTED] exI [of _ "h1\<lparr>mg_world := w2\<rparr>"] exI [of _ 0]) (simp add: LCT_UNEXPECTED_def)
  next
    fix po h1 p c w2 r a3 w3
    assume q: "retrieveMongoConnPool drv (Stamp (mm_DatabasePort m) (mm_DatabaseIp m)) h = (LCT_SUCCESS, po, h1)"
      and a: "md_acquire drv p (mg_world h1) = (Answer (Some c), w2)" and b: "?body c () w2 = (r, a3, w3)"
      and x: "with_connection drv (mm_DatabasePort m) (mm_DatabaseIp m) ?body () h
         = Inr (case r of Mongo_throws \<Rightarrow> LCT_UNEXPECTED | Answer e \<Rightarrow> e, a3, h1\<lparr>mg_world := md_release drv c w3\<rparr>)"
    obtain wf where f: "mm_FetchOnFilter m w2 = (Answer (LCT_SUCCESS, fs, ds), wf)" "updates wf = updates w2" using assms(2) by blast
    obtain k where k: "k \<le> length ?ps" "updates w3 = updates wf @ take k ?ps"
      "if k = length ?ps then r = Answer LCT_SUCCESS else r = Mongo_throws \<or> r = Answer LCT_FAIL"
      using b f(1) update_loop_prefix [of "\<lparr>col_conn = c, col_db = mm_DatabaseNm m, col_name = mm_TableNm m\<rparr>" upsert ?ps wf] by auto
    then have "if (case r of Mongo_throws \<Rightarrow> LCT_UNEXPECTED | Answer e \<Rightarrow> e) = LCT_SUCCESS then k = length ?ps
        else (case r of Mongo_throws \<Rightarrow> LCT_UNEXPECTED | Answer e \<Rightarrow> e) \<in> {LCT_EMPTY_RECORD, LCT_UNEXPECTED, LCT_FAIL}"
      by (auto simp: LCT_UNEXPECTED_def LCT_FAIL_def split: if_splits)
    then show ?thesis using x k(1,2) f(2) retrieve_quiet [OF q] acquire_quiet [OF a] release_quiet [of c w3] unfolding u
      by (intro exI [of _ "case r of Mongo_throws \<Rightarrow> LCT_UNEXPECTED | Answer e \<Rightarrow> e"]
          exI [of _ "h1\<lparr>mg_world := md_release drv c w3\<rparr>"] exI [of _ k]) simp
  qed
qed

end

section \<open>A reference driver\<close>

text \<open>
  One collection of documents; \<open>mw_faults\<close> says of the calls to come which of them throw (none
  once it is used up).  \<open>limit\<close> 0 is no limit, as \<open>mongocxx\<close> documents it.
\<close>

type_synonym mongo_doc = "(string \<times> int) list"

record mongo_world =
  mw_out :: int
  mw_made :: nat
  mw_faults :: "bool list"
  mw_docs :: "mongo_doc list"
  mw_updates :: "(mongo_doc \<times> mongo_doc) list"

definition mongo_world_of :: "mongo_doc list \<Rightarrow> bool list \<Rightarrow> mongo_world" where
  "mongo_world_of docs faults = \<lparr>mw_out = 0, mw_made = 0, mw_faults = faults, mw_docs = docs, mw_updates = []\<rparr>"

definition faulty :: "(mongo_world \<Rightarrow> 'a \<times> mongo_world) \<Rightarrow> mongo_world \<Rightarrow> 'a mongo_call \<times> mongo_world" where
  "faulty f w = (case mw_faults w of
       True # fs \<Rightarrow> (Mongo_throws, w\<lparr>mw_faults := fs\<rparr>)
     | False # fs \<Rightarrow> (case f (w\<lparr>mw_faults := fs\<rparr>) of (a, w1) \<Rightarrow> (Answer a, w1))
     | [] \<Rightarrow> (case f w of (a, w1) \<Rightarrow> (Answer a, w1)))"

definition window :: "int option \<Rightarrow> int option \<Rightarrow> 'a list \<Rightarrow> 'a list" where
  "window skip limit xs =
     (let ys = drop (case skip of None \<Rightarrow> 0 | Some k \<Rightarrow> nat k) xs in
      case limit of None \<Rightarrow> ys | Some n \<Rightarrow> if n = 0 then ys else take (nat \<bar>n\<bar>) ys)"

definition matching :: "mongo_doc \<Rightarrow> mongo_doc list \<Rightarrow> mongo_doc list" where
  "matching flt docs = filter (\<lambda>x. set flt \<subseteq> set x) docs"

definition mongo_ref :: "(unit, unit, mongo_doc, mongo_doc list, mongo_world) mongo_driver" where
  "mongo_ref = \<lparr>
     md_pool_new = \<lambda>url. faulty (\<lambda>w. ((), w\<lparr>mw_made := mw_made w + 1\<rparr>)),
     md_acquire = \<lambda>p. faulty (\<lambda>w. (Some (), w\<lparr>mw_out := mw_out w + 1\<rparr>)),
     md_try_acquire = \<lambda>p. faulty (\<lambda>w. (Some (), w\<lparr>mw_out := mw_out w + 1\<rparr>)),
     md_release = \<lambda>c w. w\<lparr>mw_out := mw_out w - 1\<rparr>,
     md_count = \<lambda>col flt co. faulty (\<lambda>w. (int (length (window (co_skip co) (co_limit co) (matching flt (mw_docs w)))), w)),
     md_find = \<lambda>col flt fo. faulty (\<lambda>w. (window (fo_skip fo) (fo_limit fo) (matching flt (mw_docs w)), w)),
     md_update_one = \<lambda>col flt doc upsert. faulty (\<lambda>w. (True, w\<lparr>mw_updates := mw_updates w @ [(flt, doc)]\<rparr>)),
     md_create_index = \<lambda>col doc u. faulty (\<lambda>w. ((), w)),
     md_insert_one = \<lambda>col doc. faulty (\<lambda>w. (True, w\<lparr>mw_docs := mw_docs w @ [doc]\<rparr>)),
     md_bulk_write = \<lambda>col docs. faulty (\<lambda>w. (True, w\<lparr>mw_docs := mw_docs w @ docs\<rparr>)),
     md_delete_many = \<lambda>col flt. faulty (\<lambda>w. (True, w\<lparr>mw_docs := filter (\<lambda>x. \<not> set flt \<subseteq> set x) (mw_docs w)\<rparr>)),
     md_list_collections = \<lambda>c db. faulty (\<lambda>w. ([Named ''tb''], w)),
     md_list_databases = \<lambda>c. faulty (\<lambda>w. ([Named ''db''], w)),
     md_empty_doc = [],
     md_put_zero = \<lambda>k doc. doc @ [(k, 0)],
     md_or = concat\<rparr>"

lemma faulty_cases:
  assumes "faulty f w = (r, w')"
  obtains (throws) fs where "r = Mongo_throws" "w' = w\<lparr>mw_faults := fs\<rparr>"
    | (answers) fs a where "f (w\<lparr>mw_faults := fs\<rparr>) = (a, w')" "r = Answer a"
proof (cases "mw_faults w")
  case Nil
  then have e: "w\<lparr>mw_faults := []\<rparr> = w" by (cases w) simp
  obtain a w1 where f: "f w = (a, w1)" by fastforce
  then have "w' = w1" "r = Answer a" using assms Nil by (simp_all add: faulty_def)
  then show ?thesis using answers [of "[]" a] f unfolding e by simp
next
  case (Cons b fs)
  then show ?thesis using assms throws [of fs] answers [of fs] by (cases b) (auto simp: faulty_def split: prod.splits)
qed

lemma faulty_keeps:
  assumes f: "\<And>w. g (snd (f w)) = g w" and u: "\<And>w fs. g (w\<lparr>mw_faults := fs\<rparr>) = g w"
  shows "g (snd (faulty f w)) = g w"
proof -
  obtain r w' where r: "faulty f w = (r, w')" by fastforce
  then have "g w' = g w"
  proof (cases rule: faulty_cases)
    case (throws fs)
    then show ?thesis using u by simp
  next
    case (answers fs a)
    then show ?thesis using f [of "w\<lparr>mw_faults := fs\<rparr>"] u by simp
  qed
  then show ?thesis using r by simp
qed

interpretation ref_count: counting_driver mongo_ref mw_made
  by unfold_locales (auto simp: mongo_ref_def elim!: faulty_cases)

interpretation ref_ack: acknowledging_driver mongo_ref mw_out mw_updates
proof unfold_locales
  fix p r and w w' :: mongo_world
  assume a: "md_acquire mongo_ref p w = (r, w')"
  then show "mw_out w' = (case r of Answer (Some c) \<Rightarrow> mw_out w + 1 | _ \<Rightarrow> mw_out w)"
    by (auto simp: mongo_ref_def elim!: faulty_cases)
  show "mw_updates w' = mw_updates w \<and> r \<noteq> Answer None" using a by (auto simp: mongo_ref_def elim!: faulty_cases)
qed (auto simp: mongo_ref_def intro!: faulty_keeps elim!: faulty_cases)

text \<open>
  C35: every program of operations of the helper runs to its end whatever the driver throws or
  refuses, answers each operation with a code, forgets no pool, and has given back every
  connection it borrowed.
\<close>

theorem mongo_connections_balanced:
  assumes "lending_driver drv out" "\<forall>x \<in> set ops. op_keeps out x"
  shows "\<exists>es h'. mongo_run drv ops (new_mongo_helper w) = Inr (es, h') \<and> length es = length ops
     \<and> pools_ready h' \<and> out (mg_world h') = out w"
  using lending_driver.run_balanced [OF assms(1) _ assms(2), of "new_mongo_helper w"]
  by (auto simp: new_mongo_helper_def pools_ready_def)

text \<open>
  C36: an update sends the pairs of filter and document the model gives, in order, to the end or to
  the first that fails; only with all of them acknowledged it answers success, and what was sent
  before a failure stays.
\<close>

theorem mongo_update_prefix:
  assumes "acknowledging_driver drv out updates" "pools_ready h"
    "\<And>w. \<exists>w'. mm_FetchOnFilter m w = (Answer (LCT_SUCCESS, fs, ds), w') \<and> updates w' = updates w"
  shows "\<exists>e h' k. update2Collection drv m upsert h = Inr (e, (), h') \<and> k \<le> length (zip fs ds)
     \<and> updates (mg_world h') = updates (mg_world h) @ take k (zip fs ds)
     \<and> (if e = LCT_SUCCESS then k = length (zip fs ds) else e \<in> {LCT_EMPTY_RECORD, LCT_UNEXPECTED, LCT_FAIL})"
  by (rule acknowledging_driver.update_prefix [OF assms])

section \<open>The theorems at concrete inputs\<close>

definition demo_model :: "(mongo_doc, mongo_doc list, mongo_world) mongo_model" where
  "demo_model = \<lparr>mm_DatabasePort = 27017, mm_DatabaseIp = ''db'', mm_DatabaseNm = ''n'', mm_TableNm = ''t'',
     mm_Assign = \<lambda>n cur w. (Answer LCT_SUCCESS, w),
     mm_FetchOnFilter = \<lambda>w. (Answer (LCT_SUCCESS, [[(''a'', 1)], [(''a'', 2)], [(''a'', 3)]], [[(''b'', 4)], [(''b'', 5)]]), w),
     mm_Fetch2Index = \<lambda>w. (Answer (LCT_SUCCESS, [(''a'', 1)]), w)\<rparr>"

text \<open>Two threads that both miss the pool: the second one's attempt to add it fails, and both hold the first one's.\<close>

theorem mongo_pool_created_once_witness:
  "\<exists>h pcs p. mongo_reach mongo_ref (\<lambda>_. Stamp 27017 ''db'') (mongo_world_of [] []) (h, pcs)
     \<and> pcs 0 = Got LCT_SUCCESS p \<and> pcs 1 = Got LCT_SUCCESS p \<and> mw_made (mg_world h) = card (dom (mg_pools h))"
proof -
  let ?req = "\<lambda>_ :: nat. Stamp 27017 ''db''" and ?h0 = "new_mongo_helper (mongo_world_of [] []) :: (unit, mongo_world) mongo_helper"
  obtain e1 h1 where a: "addMongoConnPool mongo_ref (Stamp 27017 ''db'') ?h0 = (e1, h1)" by fastforce
  have m: "mg_pools h1 (Stamp 27017 ''db'') \<noteq> None"
    using a by (auto simp: addMongoConnPool_def mongo_pool_init_def new_mongo_pool_def new_mongo_helper_def mongo_ref_def faulty_def mongo_world_of_def)
  then obtain p where g1: "getMongoConnPool (Stamp 27017 ''db'') h1 = (LCT_SUCCESS, Some p)" by (auto simp: getMongoConnPool_def)
  have a2: "addMongoConnPool mongo_ref (Stamp 27017 ''db'') h1 = (LCT_FAIL, h1)" using m by (simp add: addMongoConnPool_def)
  have g0: "getMongoConnPool (Stamp 27017 ''db'') ?h0 = (LCT_EMPTY_RECORD, None)" by (simp add: getMongoConnPool_def new_mongo_helper_def)
  let ?R = "mongo_reach mongo_ref ?req (mongo_world_of [] [])"
  have r0: "?R (?h0, \<lambda>_. Get_first)" by (rule mongo_reach.reach_start)
  have r1: "?R (?h0, (\<lambda>_. Get_first)(0 := Adding))"
    by (rule mongo_reach.reach_step [OF r0], rule mongo_step.missing [OF _ g0]) (simp_all add: LCT_EMPTY_RECORD_def)
  have r2: "?R (?h0, (\<lambda>_. Get_first)(0 := Adding, 1 := Adding))"
    by (rule mongo_reach.reach_step [OF r1], rule mongo_step.missing [OF _ g0]) (simp_all add: LCT_EMPTY_RECORD_def)
  have r3: "?R (h1, (\<lambda>_. Get_first)(0 := Adding, 1 := Adding, 0 := Get_again))"
    by (rule mongo_reach.reach_step [OF r2], rule mongo_step.add [OF _ a]) simp
  have r4: "?R (h1, (\<lambda>_. Get_first)(0 := Adding, 1 := Adding, 0 := Get_again, 1 := Get_again))"
    by (rule mongo_reach.reach_step [OF r3], rule mongo_step.add [OF _ a2]) simp
  have st: "mongo_step mongo_ref ?req (h1, pcs) (h1, pcs(t := Got LCT_SUCCESS (Some p)))" if "pcs t = Get_again" for pcs t
    using mongo_step.again [of pcs t mongo_ref ?req h1] that by (simp add: g1 got_def)
  have r5: "?R (h1, (\<lambda>_. Get_first)(0 := Adding, 1 := Adding, 0 := Get_again, 1 := Get_again, 0 := Got LCT_SUCCESS (Some p)))"
    by (rule mongo_reach.reach_step [OF r4], rule st) simp
  have r: "?R (h1, (\<lambda>_. Get_first)(0 := Adding, 1 := Adding, 0 := Get_again, 1 := Get_again, 0 := Got LCT_SUCCESS (Some p), 1 := Got LCT_SUCCESS (Some p)))"
    by (rule mongo_reach.reach_step [OF r5], rule st) simp
  have "mw_made (mg_world h1) = card (dom (mg_pools h1))"
    using mongo_pool_created_once [OF ref_count.counting_driver_axioms r] by (simp add: mongo_world_of_def)
  then show ?thesis using r by (intro exI [of _ h1] exI [of _ "(\<lambda>_. Get_first)(0 := Adding, 1 := Adding, 0 := Get_again,
    1 := Get_again, 0 := Got LCT_SUCCESS (Some p), 1 := Got LCT_SUCCESS (Some p))"] exI [of _ "Some p"] conjI) simp_all
qed

theorem mongo_connections_balanced_witness:
  "\<exists>es h'. mongo_run mongo_ref [Op_count 27017 ''db'' ''n'' ''t'', Op_update demo_model True, Op_index demo_model]
       (new_mongo_helper (mongo_world_of [] [False, False, True])) = Inr (es, h') \<and> length es = 3 \<and> mw_out (mg_world h') = 0"
proof -
  let ?ops = "[Op_count 27017 ''db'' ''n'' ''t'', Op_update demo_model True, Op_index demo_model]"
  let ?w = "mongo_world_of [] [False, False, True]"
  have k: "\<forall>x \<in> set ?ops. op_keeps mw_out x" by (simp add: model_keeps_def demo_model_def)
  have l: "length ?ops = 3" "mw_out ?w = 0" by (simp_all add: mongo_world_of_def)
  obtain es h' where "mongo_run mongo_ref ?ops (new_mongo_helper ?w) = Inr (es, h')" "length es = length ?ops" "mw_out (mg_world h') = mw_out ?w"
    using mongo_connections_balanced [OF ref_ack.lending_driver_axioms k, of ?w] by (elim exE conjE)
  then show ?thesis unfolding l by (intro exI conjI)
qed

theorem mongo_update_prefix_witness:
  "\<exists>e h' k. update2Collection mongo_ref demo_model True (new_mongo_helper (mongo_world_of [] [False, False, False, True])) = Inr (e, (), h')
     \<and> k \<le> 2 \<and> mw_updates (mg_world h') = take k [([(''a'', 1)], [(''b'', 4)]), ([(''a'', 2)], [(''b'', 5)])]"
proof -
  let ?h = "new_mongo_helper (mongo_world_of [] [False, False, False, True]) :: (unit, mongo_world) mongo_helper"
  have f: "\<exists>w'. mm_FetchOnFilter demo_model w = (Answer (LCT_SUCCESS, [[(''a'', 1)], [(''a'', 2)], [(''a'', 3)]], [[(''b'', 4)], [(''b'', 5)]]), w')
      \<and> mw_updates w' = mw_updates w" for w
    by (simp add: demo_model_def)
  have h: "pools_ready ?h" by (simp add: new_mongo_helper_def pools_ready_def)
  have z: "zip [[(''a'', 1 :: int)], [(''a'', 2)], [(''a'', 3)]] [[(''b'', 4 :: int)], [(''b'', 5)]]
      = [([(''a'', 1)], [(''b'', 4)]), ([(''a'', 2)], [(''b'', 5)])]" by simp
  have l: "length [([(''a'', 1 :: int)], [(''b'', 4 :: int)]), ([(''a'', 2)], [(''b'', 5)])] = 2" by simp
  have u: "mw_updates (mg_world ?h) = []" by (simp add: new_mongo_helper_def mongo_world_of_def)
  obtain e h' k where "update2Collection mongo_ref demo_model True ?h = Inr (e, (), h')" "k \<le> 2"
    "mw_updates (mg_world h') = take k [([(''a'', 1)], [(''b'', 4)]), ([(''a'', 2)], [(''b'', 5)])]"
    using mongo_update_prefix [OF ref_ack.acknowledging_driver_axioms h f, of True] unfolding z l u append_Nil by (elim exE conjE)
  then show ?thesis by (intro exI conjI)
qed

end
