(* ===== verification/Cass_Multi_Correct.thy ===== *)
theory Cass_Multi_Correct
  imports Cass_Reference "HOL-Library.Multiset"
begin

text \<open>
  Parallel queries end and hand every row to the callback: each future once, whatever the order in
  which they get ready.  The locale says what is assumed of the driver: a future that is not ready
  after a wait has come nearer to it, and its result is fixed.
\<close>

section \<open>Futures that settle\<close>

definition future_rows :: "('f \<Rightarrow> cass_error \<times> ('r, 'p) cass_result) \<Rightarrow> 'f \<Rightarrow> 'r list" where
  "future_rows fres f = (if fst (fres f) = CASS_OK then res_rows (snd (fres f)) else [])"

locale settling_driver =
  fixes drv :: "('s, 'f, 'r, 'p, 'w) cass_driver"
    and fres :: "'f \<Rightarrow> cass_error \<times> ('r, 'p) cass_result" and lag :: "'f \<Rightarrow> 'w \<Rightarrow> nat"
  assumes settles: "drv_wait_timed drv f w = (ready, w') \<Longrightarrow> ready \<or> lag f w' < lag f w"
    and nearer: "drv_wait_timed drv f w = (ready, w') \<Longrightarrow> lag g w' \<le> lag g w"
    and result: "drv_future_result drv f w = fres f"
begin

definition potential :: "'f list \<Rightarrow> 'w \<Rightarrow> nat" where "potential fs w = sum_list (map (\<lambda>f. Suc (lag f w)) fs)"

lemma potential_mono: "(\<And>g. lag g w' \<le> lag g w) \<Longrightarrow> potential fs w' \<le> potential fs w"
  unfolding potential_def by (rule sum_list_mono) simp

text \<open>One pass erases the ready futures and brings the others nearer.\<close>

lemma pass_settles:
  "\<exists>rest ended w'. poll_pass drv fn fs a w = (rest, fold fn (concat (map (future_rows fres) ended)) a, w')
     \<and> mset fs = mset ended + mset rest \<and> (\<forall>g. lag g w' \<le> lag g w)
     \<and> potential rest w' \<le> potential fs w \<and> (fs \<noteq> [] \<longrightarrow> potential rest w' < potential fs w)"
proof (induction fs arbitrary: a w)
  case Nil
  then show ?case by (auto intro: exI [of _ "[]"])
next
  case (Cons f fs)
  obtain ready w1 where wt: "drv_wait_timed drv f w = (ready, w1)" by fastforce
  obtain e res where r: "fres f = (e, res)" by fastforce
  note mono = potential_mono [of w1 w fs, OF nearer [OF wt]]
  let ?a = "if ready then fold fn (future_rows fres f) a else a"
  obtain rest ended w2 where p: "poll_pass drv fn fs ?a w1 = (rest, fold fn (concat (map (future_rows fres) ended)) ?a, w2)"
    "mset fs = mset ended + mset rest" "\<forall>g. lag g w2 \<le> lag g w1" "potential rest w2 \<le> potential fs w1"
    using Cons.IH [of ?a w1] by blast
  have l: "lag g w2 \<le> lag g w" for g using nearer [OF wt, of g] p(3) le_trans by blast
  show ?case
  proof (cases ready)
    case True
    have "(if CASS_OK \<noteq> e then a else fold fn (res_rows res) a) = fold fn (future_rows fres f) a"
      using r by (simp add: future_rows_def)
    then have "poll_pass drv fn (f # fs) a w = poll_pass drv fn fs (fold fn (future_rows fres f) a) w1"
      using wt r True by (simp add: result)
    then have "poll_pass drv fn (f # fs) a w = (rest, fold fn (concat (map (future_rows fres) (f # ended))) a, w2)"
      using p(1) True by simp
    then show ?thesis using p(2,4) mono l
      by (intro exI [of _ rest] exI [of _ "f # ended"] exI [of _ w2]) (simp add: potential_def)
  next
    case False
    then have "lag f w1 < lag f w" using settles [OF wt] by simp
    then have s: "lag f w2 < lag f w" using p(3) le_less_trans by blast
    have "poll_pass drv fn (f # fs) a w = (f # rest, fold fn (concat (map (future_rows fres) ended)) a, w2)"
      using p(1) wt False by simp
    then show ?thesis using p(2,4) mono l s
      by (intro exI [of _ "f # rest"] exI [of _ ended] exI [of _ w2]) (simp add: potential_def)
  qed
qed

lemma poll_all_ends:
  "\<exists>order w'. poll_all drv fn fs a w = Some (fold fn (concat (map (future_rows fres) order)) a, w') \<and> mset order = mset fs"
proof (induction "potential fs w" arbitrary: fs a w rule: less_induct)
  case less
  show ?case
  proof (cases "fs = []")
    case True
    then show ?thesis by (subst poll_all.simps) (auto intro: exI [of _ "[]"])
  next
    case False
    obtain rest ended w1 where p: "poll_pass drv fn fs a w = (rest, fold fn (concat (map (future_rows fres) ended)) a, w1)"
      "mset fs = mset ended + mset rest" "potential rest w1 < potential fs w"
      using pass_settles [of fn fs a w] False by blast
    obtain order w2 where q: "poll_all drv fn rest (fold fn (concat (map (future_rows fres) ended)) a) w1
        = Some (fold fn (concat (map (future_rows fres) order)) (fold fn (concat (map (future_rows fres) ended)) a), w2)"
      "mset order = mset rest"
      using less [OF p(3)] by blast
    have "poll_all drv fn fs a w = Some (fold fn (concat (map (future_rows fres) (ended @ order))) a, w2)"
      using p(1) q(1) False by (subst poll_all.simps) simp
    then show ?thesis using p(2) q(2) by (intro exI [of _ "ended @ order"] exI [of _ w2]) simp
  qed
qed

lemma multiQuery_ends:
  assumes "execute_all drv ks cqls h = Inr (e, futs, h1)"
  shows "if e = LCT_SUCCESS
     then \<exists>order h2. multiQuery drv ks cqls fn a h = Some (Inr (LCT_SUCCESS, fold fn (concat (map (future_rows fres) order)) a, h2))
       \<and> mset order = mset futs
     else multiQuery drv ks cqls fn a h = Some (Inr (e, a, h1))"
proof (cases "e = LCT_SUCCESS")
  case True
  obtain order w2 where "poll_all drv fn futs a (h_world h1) = Some (fold fn (concat (map (future_rows fres) order)) a, w2)"
    "mset order = mset futs"
    using poll_all_ends [of fn futs a "h_world h1"] by blast
  then show ?thesis using assms True by (auto simp: multiQuery_def)
qed (use assms in \<open>simp add: multiQuery_def\<close>)

end

text \<open>One future per statement, in order.\<close>

lemma start_all_length: "start_all drv s cqls futs w = (futs', w') \<Longrightarrow> length futs' = length futs + length cqls"
  by (induction cqls arbitrary: futs w) (auto split: prod.splits)

lemma execute_all_total:
  assumes "helper_ok h"
  shows "\<exists>e futs h1. execute_all drv ks cqls h = Inr (e, futs, h1) \<and> (e = LCT_SUCCESS \<longrightarrow> length futs = length cqls)"
proof -
  obtain p where p: "h_ready h" "h_pool h = Some p" "CassAutoFlowControl h = Inr ()" using assms by (auto simp: helper_ok_def)
  obtain e so p1 w1 where q: "pool_session drv ks p (h_world h) = (e, so, p1, w1)" by (metis prod_cases4)
  have so: "e = LCT_SUCCESS \<Longrightarrow> so \<noteq> None"
  proof (cases "m_sessionMap p ks")
    case (Some x)
    then have "so = Some x" using q by (simp add: pool_session_cases)
    then show ?thesis by simp
  qed (use q in \<open>auto simp: pool_session_cases Let_def split: prod.splits if_splits\<close>)
  show ?thesis
  proof (cases "e = LCT_SUCCESS")
    case True
    then obtain s where s: "so = Some s" using so by blast
    obtain futs w2 where "start_all drv s cqls [] w1 = (futs, w2)" by fastforce
    then show ?thesis using p q True s start_all_length [of drv s cqls "[]" w1 futs w2]
      by (simp add: execute_all_def get_session_def)
  next
    case False
    then show ?thesis using p q by (simp add: execute_all_def get_session_def)
  qed
qed


text \<open>Without room, for one at a limit of 0, the call is held at the guard before anything is sent.\<close>

lemma multi_query_without_room_blocks:
  "h_ready h \<Longrightarrow> h_limit h \<le> h_concurrent h \<Longrightarrow> multiQuery drv ks cqls fn a h = Some (Inl Blocked)"
  by (simp add: multiQuery_def execute_all_def)

section \<open>A server that takes its time\<close>

text \<open>A future is ready \<open>k\<close> readings of the clock after it was asked for; every wait is one.\<close>

definition slow_driver ::
    "nat \<Rightarrow> ('r, 'tbl) cql_exec \<Rightarrow> (unit, int \<times> cass_error \<times> ('r, nat) cass_result, 'r, nat, 'tbl ref_world) cass_driver" where
  "slow_driver k exec =
     \<lparr>drv_connect = \<lambda>cl w. (CASS_OK, (), w),
      drv_execute = \<lambda>s st w. ref_execute exec (st_cql st) w,
      drv_execute_async = \<lambda>s st w. (case ref_execute exec (st_cql st) w of (e, r, w1) \<Rightarrow> ((rw_now w + int k, e, r), w1)),
      drv_wait_timed = \<lambda>f w. (fst f \<le> rw_now w, w\<lparr>rw_now := rw_now w + 1\<rparr>),
      drv_future_result = \<lambda>f w. snd f,
      drv_batch_add = \<lambda>b c. CASS_OK,
      drv_execute_batch = \<lambda>s b w. ref_execute_batch exec b w,
      drv_set_paging_size = \<lambda>n. CASS_OK,
      drv_set_paging_state = \<lambda>p. CASS_OK,
      drv_now_millis = \<lambda>w. (rw_now w, w)\<rparr>"

interpretation slow: settling_driver "slow_driver k exec" snd "\<lambda>f w. nat (fst f - rw_now w)"
  for k :: nat and exec :: "('r, 'tbl) cql_exec"
  by unfold_locales (auto simp: slow_driver_def)


end
