(* ===== verification/Cass_Programs.thy ===== *)
theory Cass_Programs
  imports Cass_Query Cass_Reference
begin

text \<open>
  Programs of calls of the Cassandra helper: any sequence of its public operations that keeps the
  two rules the code relies on (no batch before \<open>init\<close>, no empty statement in a batch) runs without
  undefined behaviour on every driver and leaves the helper well formed.  The program is run by one
  thread while no other uses the helper; a call that the request limit holds back then waits for
  ever, which only a limit of 0 can do.
\<close>

section \<open>Calls\<close>

text \<open>A public operation with its arguments; callbacks only matter for the code they return.\<close>

datatype 'r cass_call =
  Call_init int string | Call_close | Call_setRequestMax nat | Call_setChunkSize nat
| Call_createTable string string | Call_insert string string | Call_update string string | Call_remove string string
| Call_createKeyspace string int | Call_query string string | Call_batchExec string "string list"
| Call_pageQuery string string bool int "'r \<Rightarrow> lct_err" | Call_multiQuery string "string list"

text \<open>
  The outer \<open>None\<close> is a parallel query that polls for ever, the fault \<open>Blocked\<close> a call that waits
  for ever at its guard.
\<close>

fun cass_call_run ::
    "('s, 'f, 'r, 'p, 'w) cass_driver \<Rightarrow> 'r cass_call \<Rightarrow> ('s, 'r, 'p, 'w) cass_helper \<Rightarrow> ('s, 'r, 'p, 'w) cass_helper res option" where
  "cass_call_run drv (Call_init port hosts) h = Some (Inr (snd (helper_init port hosts h)))"
| "cass_call_run drv Call_close h = Some (res_bind (helper_close h) (\<lambda>(e, h1). Inr h1))"
| "cass_call_run drv (Call_setRequestMax k) h = Some (Inr (snd (setRequestMax k h)))"
| "cass_call_run drv (Call_setChunkSize k) h = Some (Inr (snd (setChunkSize k h)))"
| "cass_call_run drv (Call_createTable ks cql) h = Some (res_bind (cass_createTable drv ks cql h) (\<lambda>(e, h1). Inr h1))"
| "cass_call_run drv (Call_insert ks cql) h = Some (res_bind (cass_insert drv ks cql h) (\<lambda>(e, h1). Inr h1))"
| "cass_call_run drv (Call_update ks cql) h = Some (res_bind (cass_update drv ks cql h) (\<lambda>(e, h1). Inr h1))"
| "cass_call_run drv (Call_remove ks cql) h = Some (res_bind (cass_remove drv ks cql h) (\<lambda>(e, h1). Inr h1))"
| "cass_call_run drv (Call_createKeyspace ks n) h = Some (res_bind (createKeyspace drv ks n h) (\<lambda>(e, h1). Inr h1))"
| "cass_call_run drv (Call_query ks cql) h = Some (res_bind (cass_query drv ks cql (\<lambda>_ _. ()) () h) (\<lambda>(e, _, h1). Inr h1))"
| "cass_call_run drv (Call_batchExec ks cqls) h = Some (res_bind (batchExec drv ks cqls h) (\<lambda>(e, h1). Inr h1))"
| "cass_call_run drv (Call_pageQuery ks cql isFirst sz fn) h =
     Some (res_bind (pageQuery drv ks cql isFirst sz (\<lambda>r _. (fn r, ())) () h) (\<lambda>(e, _, h1). Inr h1))"
| "cass_call_run drv (Call_multiQuery ks cqls) h =
     map_option (\<lambda>x. res_bind x (\<lambda>(e, _, h1). Inr h1)) (multiQuery drv ks cqls (\<lambda>_ _. ()) () h)"

fun cass_run ::
    "('s, 'f, 'r, 'p, 'w) cass_driver \<Rightarrow> 'r cass_call list \<Rightarrow> ('s, 'r, 'p, 'w) cass_helper \<Rightarrow> ('s, 'r, 'p, 'w) cass_helper res option" where
  "cass_run drv [] h = Some (Inr h)"
| "cass_run drv (c # cs) h =
     (case cass_call_run drv c h of None \<Rightarrow> None | Some (Inl e) \<Rightarrow> Some (Inl e) | Some (Inr h1) \<Rightarrow> cass_run drv cs h1)"

text \<open>The rules; \<open>inited\<close> says that \<open>init\<close> has been called.\<close>

fun call_allowed :: "bool \<Rightarrow> 'r cass_call \<Rightarrow> bool" where
  "call_allowed inited (Call_batchExec ks cqls) \<longleftrightarrow> cqls = [] \<or> inited \<and> [] \<notin> set cqls"
| "call_allowed inited _ \<longleftrightarrow> True"

fun call_inits :: "'r cass_call \<Rightarrow> bool" where
  "call_inits (Call_init port hosts) \<longleftrightarrow> True"
| "call_inits _ \<longleftrightarrow> False"

fun calls_allowed :: "bool \<Rightarrow> 'r cass_call list \<Rightarrow> bool" where
  "calls_allowed inited [] \<longleftrightarrow> True"
| "calls_allowed inited (c # cs) \<longleftrightarrow> call_allowed inited c \<and> calls_allowed (inited \<or> call_inits c) cs"

section \<open>Well-formed helpers\<close>

definition page_ok :: "string \<Rightarrow> ('r, 'p) page_info \<Rightarrow> bool" where
  "page_ok cql i \<longleftrightarrow> res_more_pages (pi_result i) \<and> st_cql (pi_statement i) = c_str cql"

definition cass_ok :: "bool \<Rightarrow> ('s, 'r, 'p, 'w) cass_helper \<Rightarrow> bool" where
  "cass_ok inited h \<longleftrightarrow> (h_ready h \<longrightarrow> inited) \<and> (inited \<longrightarrow> h_pool h \<noteq> None) \<and> (\<forall>p. h_pool h = Some p \<longrightarrow> conn_pool_inv p)
     \<and> (\<forall>cql i. h_vessel h cql = Some i \<longrightarrow> page_ok cql i) \<and> h_concurrent h = 0"

lemma get_session_runs:
  assumes "h_pool h \<noteq> None" "cass_ok b h"
  shows "\<exists>so e h1. get_session drv ks h = Inr (so, e, h1) \<and> cass_ok b h1 \<and> h_ready h1 = h_ready h \<and> h_pool h1 \<noteq> None
     \<and> h_vessel h1 = h_vessel h \<and> h_chunk h1 = h_chunk h \<and> h_limit h1 = h_limit h"
proof -
  obtain p where p: "h_pool h = Some p" using assms(1) by blast
  obtain e s p1 w1 where q: "pool_session drv ks p (h_world h) = (e, s, p1, w1)" by (metis prod_cases4)
  have "conn_pool_inv p1" using pool_session_inv [OF _ q] assms(2) p by (simp add: cass_ok_def)
  then show ?thesis using p q assms(2) by (simp add: get_session_def cass_ok_def)
qed

lemma cass_ok_flow: "cass_ok b h \<Longrightarrow> 0 < h_limit h \<Longrightarrow> CassAutoFlowControl h = Inr ()"
  by (simp add: cass_ok_def)

subsection \<open>Calls with room\<close>

lemma execute_runs:
  assumes "cass_ok b h" "0 < h_limit h"
  shows "\<exists>e r h1. helper_execute drv ks cql h = Inr (e, r, h1) \<and> cass_ok b h1 \<and> h_limit h1 = h_limit h
     \<and> (e = LCT_SUCCESS \<longrightarrow> r \<noteq> None)"
proof (cases "h_ready h")
  case True
  then have "h_pool h \<noteq> None" using assms by (simp add: cass_ok_def)
  from get_session_runs [OF this assms(1), of drv ks] obtain so e h1 where g: "get_session drv ks h = Inr (so, e, h1)" "cass_ok b h1"
    "h_limit h1 = h_limit h" by blast
  have "so = None \<Longrightarrow> e \<noteq> LCT_SUCCESS"
  proof -
    obtain p where "h_pool h = Some p" using \<open>h_pool h \<noteq> None\<close> by blast
    then show "so = None \<Longrightarrow> e \<noteq> LCT_SUCCESS" using g(1)
      by (auto simp: get_session_def pool_session_cases Let_def split: option.splits prod.splits if_splits)
  qed
  then show ?thesis using True g cass_ok_flow [OF assms]
    by (cases so) (auto simp: helper_execute_def Let_def cass_ok_def split: prod.splits)
qed (use assms in \<open>simp add: helper_execute_def\<close>)

lemma cass_ok_world [simp]: "cass_ok b (h\<lparr>h_world := w\<rparr>) = cass_ok b h"
  by (simp add: cass_ok_def)

lemma exec_batch_runs:
  assumes "cass_ok True h" "0 < h_limit h"
  shows "\<exists>e h1. exec_batch drv ks batch h = Inr (e, h1) \<and> cass_ok True h1 \<and> h_limit h1 = h_limit h"
proof -
  have "h_pool h \<noteq> None" using assms by (simp add: cass_ok_def)
  from get_session_runs [OF this assms(1), of drv ks] obtain so e h1 where "get_session drv ks h = Inr (so, e, h1)" "cass_ok True h1"
    "h_limit h1 = h_limit h" by blast
  then show ?thesis using cass_ok_flow [OF assms] by (cases so) (auto simp: exec_batch_def split: prod.splits)
qed

lemma insert_runs:
  assumes "cass_ok b h" "0 < h_limit h"
  shows "\<exists>e h1. cass_insert drv ks cql h = Inr (e, h1) \<and> cass_ok b h1 \<and> h_limit h1 = h_limit h"
  using execute_runs [OF assms, of drv ks cql] by (auto simp: cass_insert_def)

lemma batch_loop_runs:
  "cass_ok True h \<Longrightarrow> [] \<notin> set cqls \<Longrightarrow> 0 < h_limit h \<Longrightarrow>
     \<exists>e h1. batchExec_loop drv ks cqls batch n h = Inr (e, h1) \<and> cass_ok True h1 \<and> h_limit h1 = h_limit h"
proof (induction drv ks cqls batch n h rule: batchExec_loop.induct)
  case (2 drv ks cql rest batch n h)
  have ne: "0 < length cql" "[] \<notin> set rest" using "2.prems"(2) by auto
  obtain e1 h1 where i: "cass_insert drv ks cql h = Inr (e1, h1)" "cass_ok True h1" "h_limit h1 = h_limit h"
    using insert_runs [OF "2.prems"(1,3)] by blast
  obtain e2 h2 where b: "exec_batch drv ks batch h = Inr (e2, h2)" "cass_ok True h2" "h_limit h2 = h_limit h"
    using exec_batch_runs [OF "2.prems"(1,3)] by blast
  obtain e3 h3 where l: "exec_batch drv ks (batch @ [c_str cql]) h = Inr (e3, h3)" "cass_ok True h3"
    "h_limit h3 = h_limit h" using exec_batch_runs [OF "2.prems"(1,3)] by blast
  consider (fits) "n + length cql < h_chunk h" | (large) "\<not> n + length cql < h_chunk h" "n = 0"
    | (full) "\<not> n + length cql < h_chunk h" "n \<noteq> 0" by blast
  then show ?case
  proof cases
    case fits
    then show ?thesis using "2.IH"(1) [OF fits] "2.prems"(1,3) ne l by (auto simp: Let_def)
  next
    case large
    then show ?thesis using "2.IH"(2) [OF large, of e1 h1] i ne(2) "2.prems"(3) by auto
  next
    case full
    then show ?thesis using "2.IH"(3) [OF full, of e2 h2] b "2.prems"(2,3) by auto
  qed
qed simp

lemma vessel_save_ok:
  assumes "vessel_save drv cql i m w = (e, m1, w1)" "\<forall>c j. m c = Some j \<longrightarrow> page_ok c j" "page_ok cql i"
  shows "m1 c = Some j \<Longrightarrow> page_ok c j"
  using assms by (auto simp: vessel_save_def vessel_tidy_def page_ok_def split: prod.splits if_splits option.splits)

lemma vessel_retrieve_ok:
  assumes "vessel_retrieve drv cql m w = (e, i, m1, w1)" "\<forall>c j. m c = Some j \<longrightarrow> page_ok c j"
  shows "m1 c = Some j \<Longrightarrow> page_ok c j" "i = Some k \<Longrightarrow> page_ok cql k"
  using assms by (auto simp: vessel_retrieve_def vessel_tidy_def Let_def split: prod.splits if_splits option.splits)

lemma cass_ok_vessel:
  assumes "cass_ok b h" "\<And>c j. m c = Some j \<Longrightarrow> page_ok c j"
  shows "cass_ok b (h\<lparr>h_vessel := m\<rparr>)"
  using assms by (simp add: cass_ok_def)

lemma cass_ok_pages: "cass_ok b h \<Longrightarrow> \<forall>c j. h_vessel h c = Some j \<longrightarrow> page_ok c j"
  by (simp add: cass_ok_def)

text \<open>A page that has come: its rows are read and its state is kept, or dropped at the end.\<close>

lemma first_page_runs:
  assumes "cass_ok b h" "0 < h_limit h"
  shows "\<exists>e a1 h1. queryFirstPage drv ks cql sz fn a h = Inr (e, a1, h1) \<and> cass_ok b h1 \<and> h_limit h1 = h_limit h"
proof (cases "h_ready h \<and> drv_set_paging_size drv sz = CASS_OK")
  case True
  then have "h_pool h \<noteq> None" using assms by (simp add: cass_ok_def)
  from get_session_runs [OF this assms(1), of drv ks] obtain so e h1 where g: "get_session drv ks h = Inr (so, e, h1)" "cass_ok b h1"
    "h_limit h1 = h_limit h" by blast
  note flow = cass_ok_flow [OF assms]
  let ?st = "(cass_statement_new cql)\<lparr>st_page_size := Some sz\<rparr>"
  show ?thesis
  proof (cases so)
    case None
    then show ?thesis using True g flow by (auto simp: queryFirstPage_def Let_def)
  next
    case (Some x)
    obtain c r w2 where x: "drv_execute drv x ?st (h_world h1) = (c, r, w2)" by (metis prod_cases3)
    obtain e2 a2 where p: "page_rows fn (res_rows r) a = (e2, a2)" by fastforce
    obtain e3 m w3 where v: "vessel_save drv cql (new_page_info ?st r) (h_vessel h1) w2 = (e3, m, w3)" by (metis prod_cases3)
    have "res_more_pages r \<Longrightarrow> page_ok cql (new_page_info ?st r)" by (simp add: page_ok_def new_page_info_def cass_statement_new_def)
    from vessel_save_ok [OF v cass_ok_pages [OF g(2)] this]
    have "res_more_pages r \<Longrightarrow> cass_ok b (h1\<lparr>h_vessel := m, h_world := w3\<rparr>)" using cass_ok_vessel [OF g(2), of m] by simp
    then show ?thesis using True g flow Some x p v by (auto simp: queryFirstPage_def Let_def)
  qed
qed (use assms in \<open>auto simp: queryFirstPage_def Let_def\<close>)

lemma rest_page_runs:
  assumes "cass_ok b h" "0 < h_limit h"
  shows "\<exists>e a1 h1. queryRestPage drv ks cql sz fn a h = Inr (e, a1, h1) \<and> cass_ok b h1 \<and> h_limit h1 = h_limit h"
proof (cases "h_ready h")
  case True
  obtain e0 info m0 w0 where r: "vessel_retrieve drv cql (h_vessel h) (h_world h) = (e0, info, m0, w0)" by (metis prod_cases4)
  let ?h0 = "h\<lparr>h_vessel := m0, h_world := w0\<rparr>"
  have ok0: "cass_ok b ?h0" using cass_ok_vessel [OF assms(1), of m0] vessel_retrieve_ok(1) [OF r cass_ok_pages [OF assms(1)]] by simp
  have flow: "CassAutoFlowControl ?h0 = Inr ()" by (rule cass_ok_flow [OF ok0]) (simp add: assms(2))
  show ?thesis
  proof (cases info)
    case None
    then show ?thesis using True r ok0 by (auto simp: queryRestPage_def Let_def)
  next
    case (Some i)
    let ?st = "(pi_statement i)\<lparr>st_paging_state := Some (res_paging_state (pi_result i))\<rparr>"
    have i: "st_cql (pi_statement i) = c_str cql" using vessel_retrieve_ok(2) [OF r cass_ok_pages [OF assms(1)] Some] by (simp add: page_ok_def)
    have "h_pool ?h0 \<noteq> None" using assms True by (simp add: cass_ok_def)
    from get_session_runs [OF this ok0, of drv ks] obtain so e h1 where g: "get_session drv ks ?h0 = Inr (so, e, h1)" "cass_ok b h1"
      "h_limit h1 = h_limit ?h0" by blast
    show ?thesis
    proof (cases so)
      case None
      then show ?thesis using True g r Some ok0 flow by (auto simp: queryRestPage_def Let_def)
    next
      case (Some x)
      obtain c res w2 where x: "drv_execute drv x ?st (h_world h1) = (c, res, w2)" by (metis prod_cases3)
      obtain e2 a2 where p: "page_rows fn (res_rows res) a = (e2, a2)" by fastforce
      obtain e3 m w3 where v: "vessel_save drv cql (new_page_info ?st res) (h_vessel h1) w2 = (e3, m, w3)" by (metis prod_cases3)
      obtain e4 m4 where d: "vessel_remove cql (h_vessel h1) = (e4, m4)" by fastforce
      have "res_more_pages res \<Longrightarrow> page_ok cql (new_page_info ?st res)" by (simp add: page_ok_def new_page_info_def i)
      from vessel_save_ok [OF v cass_ok_pages [OF g(2)] this]
      have s: "res_more_pages res \<Longrightarrow> cass_ok b (h1\<lparr>h_vessel := m, h_world := w3\<rparr>)" using cass_ok_vessel [OF g(2), of m] by simp
      have "m4 c = Some j \<Longrightarrow> page_ok c j" for c j
        using d cass_ok_pages [OF g(2)] by (auto simp: vessel_remove_def split: option.splits if_splits)
      then have "cass_ok b (h1\<lparr>h_world := w2, h_vessel := m4\<rparr>)" using cass_ok_vessel [of b "h1\<lparr>h_world := w2\<rparr>" m4] g(2) by simp
      then show ?thesis using True g r \<open>info = Some i\<close> Some x p v d s ok0 flow by (auto simp: queryRestPage_def Let_def)
    qed
  qed
qed (use assms in \<open>simp add: queryRestPage_def\<close>)

lemma execute_all_runs:
  assumes "cass_ok b h" "0 < h_limit h"
  shows "\<exists>e fs h1. execute_all drv ks cqls h = Inr (e, fs, h1) \<and> cass_ok b h1 \<and> h_limit h1 = h_limit h"
proof (cases "h_ready h")
  case True
  then have "h_pool h \<noteq> None" using assms by (simp add: cass_ok_def)
  from get_session_runs [OF this assms(1), of drv ks] obtain so e h1 where "get_session drv ks h = Inr (so, e, h1)" "cass_ok b h1"
    "h_limit h1 = h_limit h" by blast
  then show ?thesis using True cass_ok_flow [OF assms] by (cases so) (auto simp: execute_all_def split: prod.splits)
qed (use assms in \<open>simp add: execute_all_def\<close>)

lemma cass_ok_init: "cass_ok b h \<Longrightarrow> cass_ok True (snd (helper_init port hosts h))"
  by (auto simp: helper_init_def setRequestMax_def cass_ok_def conn_pool_inv_def new_conn_pool_def Let_def)

subsection \<open>Calls at a limit of 0\<close>

lemma execute_without_room:
  "h_limit h \<le> h_concurrent h \<Longrightarrow>
     helper_execute drv ks cql h = (if h_ready h then Inl Blocked else Inr (LCT_NOT_INITIATED_YET, None, h))"
  "h_limit h \<le> h_concurrent h \<Longrightarrow>
     cass_insert drv ks cql h = (if h_ready h then Inl Blocked else Inr (LCT_NOT_INITIATED_YET, h))"
  "h_limit h \<le> h_concurrent h \<Longrightarrow> exec_batch drv ks batch h = Inl Blocked"
  by (simp_all add: helper_execute_def cass_insert_def exec_batch_def)

lemma batch_without_room:
  "h_limit h \<le> h_concurrent h \<Longrightarrow> [] \<notin> set cqls \<Longrightarrow>
     batchExec_loop drv ks cqls batch n h = Inl Blocked \<or> (\<exists>e. batchExec_loop drv ks cqls batch n h = Inr (e, h))"
proof (induction drv ks cqls batch n h rule: batchExec_loop.induct)
  case (2 drv ks cql rest batch n h)
  then have "0 < length cql" "[] \<notin> set rest" by auto
  then show ?case using "2.IH"(1) "2.prems"(1) by (auto simp: execute_without_room Let_def)
qed simp

text \<open>
  What a call leaves behind when the limit was \<open>l\<close>: a parallel query may poll for ever, any call may
  be blocked if \<open>l\<close> is 0, and the limit is 0 afterwards only if it was or is set so.
\<close>

definition call_result_ok :: "bool \<Rightarrow> 'r cass_call \<Rightarrow> nat \<Rightarrow> ('s, 'r, 'p, 'w) cass_helper res option \<Rightarrow> bool" where
  "call_result_ok b c l x \<longleftrightarrow> (case x of
     None \<Rightarrow> \<exists>ks cqls. c = Call_multiQuery ks cqls
   | Some (Inl e) \<Rightarrow> e = Blocked \<and> l = 0
   | Some (Inr h1) \<Rightarrow> cass_ok b h1 \<and> (h_limit h1 = 0 \<longrightarrow> l = 0 \<or> c = Call_setRequestMax 0))"

lemma call_runs_setting:
  assumes "cass_ok b h"
  shows "call_result_ok True (Call_init port hosts) (h_limit h) (cass_call_run drv (Call_init port hosts) h)"
    "call_result_ok b Call_close (h_limit h) (cass_call_run drv Call_close h)"
    "call_result_ok b (Call_setRequestMax k) (h_limit h) (cass_call_run drv (Call_setRequestMax k) h)"
    "call_result_ok b (Call_setChunkSize k) (h_limit h) (cass_call_run drv (Call_setChunkSize k) h)"
proof -
  have "h_limit (snd (helper_init port hosts h)) = 0 \<Longrightarrow> h_limit h = 0"
    by (auto simp: helper_init_def setRequestMax_def Let_def CASSANDRA_MAX_LIMIT_DEFAULT_SIZE_def split: if_splits)
  then show "call_result_ok True (Call_init port hosts) (h_limit h) (cass_call_run drv (Call_init port hosts) h)"
    using cass_ok_init [OF assms(1)] by (auto simp: call_result_ok_def)
  have "\<exists>e h1. helper_close h = Inr (e, h1) \<and> cass_ok b h1 \<and> h_limit h1 = h_limit h"
    using assms(1) by (cases "h_pool h") (auto simp: helper_close_def cass_ok_def pool_close_def conn_pool_inv_def)
  then show "call_result_ok b Call_close (h_limit h) (cass_call_run drv Call_close h)" by (auto simp: call_result_ok_def)
  show "call_result_ok b (Call_setRequestMax k) (h_limit h) (cass_call_run drv (Call_setRequestMax k) h)"
    using assms(1) by (auto simp: call_result_ok_def setRequestMax_def cass_ok_def)
  show "call_result_ok b (Call_setChunkSize k) (h_limit h) (cass_call_run drv (Call_setChunkSize k) h)"
    using assms(1) by (simp add: call_result_ok_def setChunkSize_def cass_ok_def)
qed

lemma call_runs_with_room:
  assumes ok: "cass_ok b h" "0 < h_limit h" and allowed: "call_allowed b c"
  shows "call_result_ok (b \<or> call_inits c) c (h_limit h) (cass_call_run drv c h)"
proof (cases c)
  case (Call_createTable ks cql)
  then show ?thesis using execute_runs [OF ok, of drv ks cql] by (auto simp: call_result_ok_def cass_createTable_def)
next
  case (Call_insert ks cql)
  then show ?thesis using execute_runs [OF ok, of drv ks cql] by (auto simp: call_result_ok_def cass_insert_def)
next
  case (Call_update ks cql)
  then show ?thesis using execute_runs [OF ok, of drv ks cql] by (auto simp: call_result_ok_def cass_update_def)
next
  case (Call_remove ks cql)
  then show ?thesis using execute_runs [OF ok, of drv ks cql] by (auto simp: call_result_ok_def cass_remove_def)
next
  case (Call_createKeyspace ks n)
  then show ?thesis using execute_runs [OF ok, of drv ks "createKeyspace_cql ks n"] by (auto simp: call_result_ok_def createKeyspace_def)
next
  case (Call_query ks cql)
  then show ?thesis using execute_runs [OF ok, of drv ks cql] by (auto simp: call_result_ok_def cass_query_def split: option.splits)
next
  case (Call_batchExec ks cqls)
  show ?thesis
  proof (cases "cqls = []")
    case True
    then show ?thesis using ok(1) by (simp add: call_result_ok_def Call_batchExec batchExec_def)
  next
    case False
    then have "b" "[] \<notin> set cqls" using allowed by (auto simp: Call_batchExec)
    then show ?thesis using batch_loop_runs [of h cqls drv ks "[]" 0] ok False
      by (auto simp: call_result_ok_def Call_batchExec batchExec_def)
  qed
next
  case (Call_pageQuery ks cql isFirst sz fn)
  then show ?thesis
    using first_page_runs [OF ok, of drv ks cql sz "\<lambda>r _. (fn r, ())" "()"] rest_page_runs [OF ok, of drv ks cql sz "\<lambda>r _. (fn r, ())" "()"]
    by (auto simp: call_result_ok_def pageQuery_def)
next
  case (Call_multiQuery ks cqls)
  obtain e fs h1 where "execute_all drv ks cqls h = Inr (e, fs, h1)" "cass_ok b h1" "h_limit h1 = h_limit h"
    using execute_all_runs [OF ok] by blast
  then show ?thesis
    by (cases "poll_all drv (\<lambda>_ _. ()) fs () (h_world h1)") (auto simp: call_result_ok_def Call_multiQuery multiQuery_def split: prod.splits)
qed (use call_runs_setting [OF ok(1), where drv = drv] in simp_all)

lemma call_runs_without_room:
  assumes ok: "cass_ok b h" "h_limit h = 0" and allowed: "call_allowed b c"
  shows "call_result_ok (b \<or> call_inits c) c (h_limit h) (cass_call_run drv c h)"
proof -
  have full: "h_limit h \<le> h_concurrent h" using ok by (simp add: cass_ok_def)
  note x = execute_without_room [OF full]
  show ?thesis
  proof (cases c)
    case (Call_batchExec ks cqls)
    show ?thesis
    proof (cases "cqls = []")
      case True
      then show ?thesis using ok by (simp add: call_result_ok_def Call_batchExec batchExec_def)
    next
      case False
      then have "[] \<notin> set cqls" using allowed by (auto simp: Call_batchExec)
      then show ?thesis using batch_without_room [OF full, of cqls drv ks "[]" 0] ok False
        by (auto simp: call_result_ok_def Call_batchExec batchExec_def)
    qed
  next
    case (Call_pageQuery ks cql isFirst sz fn)
    have "queryFirstPage drv ks cql sz (\<lambda>r _. (fn r, ())) () h = Inl Blocked
        \<or> (\<exists>e. queryFirstPage drv ks cql sz (\<lambda>r _. (fn r, ())) () h = Inr (e, (), h))"
      using full by (auto simp: queryFirstPage_def Let_def)
    moreover have "queryRestPage drv ks cql sz (\<lambda>r _. (fn r, ())) () h = Inl Blocked
        \<or> (\<exists>e h1. queryRestPage drv ks cql sz (\<lambda>r _. (fn r, ())) () h = Inr (e, (), h1) \<and> cass_ok b h1 \<and> h_limit h1 = 0)"
    proof (cases "h_ready h")
      case True
      obtain e0 info m0 w0 where r: "vessel_retrieve drv cql (h_vessel h) (h_world h) = (e0, info, m0, w0)" by (metis prod_cases4)
      have "cass_ok b (h\<lparr>h_vessel := m0, h_world := w0\<rparr>)"
        using cass_ok_vessel [OF ok(1), of m0] vessel_retrieve_ok(1) [OF r cass_ok_pages [OF ok(1)]] by simp
      then show ?thesis using True r full ok(2) by (auto simp: queryRestPage_def Let_def split: option.splits)
    qed (use ok in \<open>simp add: queryRestPage_def\<close>)
    ultimately show ?thesis using ok by (auto simp: call_result_ok_def Call_pageQuery pageQuery_def)
  qed (use call_runs_setting [OF ok(1), where drv = drv] full ok in
       \<open>auto simp: x call_result_ok_def cass_createTable_def cass_update_def cass_remove_def createKeyspace_def cass_query_def
          multiQuery_def execute_all_def\<close>)
qed

lemma call_runs:
  "cass_ok b h \<Longrightarrow> call_allowed b c \<Longrightarrow> call_result_ok (b \<or> call_inits c) c (h_limit h) (cass_call_run drv c h)"
  using call_runs_with_room [of b h c drv] call_runs_without_room [of b h c drv] by blast

lemma program_runs:
  "cass_ok b h \<Longrightarrow> calls_allowed b cs \<Longrightarrow> (case cass_run drv cs h of
     None \<Rightarrow> \<exists>ks cqls. Call_multiQuery ks cqls \<in> set cs
   | Some (Inl e) \<Rightarrow> e = Blocked \<and> (h_limit h = 0 \<or> Call_setRequestMax 0 \<in> set cs)
   | Some (Inr h1) \<Rightarrow> \<exists>b1. cass_ok b1 h1)"
proof (induction cs arbitrary: b h)
  case (Cons c cs)
  have r: "call_result_ok (b \<or> call_inits c) c (h_limit h) (cass_call_run drv c h)" using call_runs [of b h c drv] Cons.prems by simp
  show ?case
  proof (cases "cass_call_run drv c h")
    case None
    then show ?thesis using r by (auto simp: call_result_ok_def)
  next
    case (Some x)
    show ?thesis
    proof (cases x)
      case (Inl e)
      then show ?thesis using r Some by (simp add: call_result_ok_def)
    next
      case (Inr h1)
      then have h1: "cass_ok (b \<or> call_inits c) h1" "h_limit h1 = 0 \<longrightarrow> h_limit h = 0 \<or> c = Call_setRequestMax 0"
        using r Some by (simp_all add: call_result_ok_def)
      then show ?thesis using Cons.IH [OF h1(1)] Cons.prems(2) Some Inr by (auto split: option.splits sum.splits)
    qed
  qed
qed auto

lemma fresh_limit: "h_limit (new_cass_helper w) \<noteq> 0"
  by (simp add: new_cass_helper_def CASSANDRA_MAX_LIMIT_DEFAULT_SIZE_def)



text \<open>Setting the limit to 0 does block the next call that would send something.\<close>

lemma limit_zero_blocks_calls:
  "cass_run drv [Call_init 9042 ''db'', Call_setRequestMax 0, Call_insert ks cql] (new_cass_helper w) = Some (Inl Blocked)"
  "cass_run drv [Call_init 9042 ''db'', Call_setRequestMax 0, Call_multiQuery ks cqls] (new_cass_helper w) = Some (Inl Blocked)"
  by (simp_all add: helper_init_def new_cass_helper_def setRequestMax_def cass_insert_def helper_execute_def multiQuery_def
      execute_all_def Let_def)

text \<open>The two rules are needed.\<close>

lemma batch_before_init_undefined:
  "cqls \<noteq> [] \<Longrightarrow> 0 < length (hd cqls) \<Longrightarrow> length (hd cqls) < CASSANDRA_BATCH_CHUNK_DEFAULT_SIZE
     \<Longrightarrow> drv_batch_add drv [] (c_str (hd cqls)) = CASS_OK \<Longrightarrow> tl cqls = []
     \<Longrightarrow> cass_run drv [Call_batchExec ks cqls] (new_cass_helper w) = Some (Inl Undefined)"
  by (cases cqls) (auto simp: batchExec_def new_cass_helper_def exec_batch_def get_session_def Let_def CASSANDRA_MAX_LIMIT_DEFAULT_SIZE_def)

text \<open>A batch on a helper that was closed connects again: the batch has no test of the ready flag.\<close>

lemma batch_after_close_connects:
  "\<exists>h. cass_run (ref_driver accept_all) [Call_init 9042 ''db'', Call_close, Call_batchExec ''ks'' [''x'']] (new_cass_helper (ref_world_of () [] []))
      = Some (Inr h) \<and> \<not> h_ready h \<and> (\<exists>p. h_pool h = Some p \<and> m_sessionMap p ''ks'' \<noteq> None) \<and> rw_log (h_world h) = [[''x'']]"
  by (simp add: helper_init_def new_cass_helper_def new_conn_pool_def helper_close_def pool_close_def batchExec_def ref_world_of_def
      CASSANDRA_BATCH_CHUNK_DEFAULT_SIZE_def CASSANDRA_MAX_LIMIT_DEFAULT_SIZE_def exec_batch_def get_session_def pool_session_cases ref_driver_def ref_execute_batch_def
      next_outcome_def accept_all_def c_str_def Let_def)

end
