(* ===== verification/Cass_Pool_Threads.thy ===== *)
theory Cass_Pool_Threads
  imports Cass_Conn_Pool Common_Objects
begin

text \<open>
  The pool of Cassandra sessions under threads (\<open>lct_cass_conn_pool.h/.inl/.cpp\<close> with the guard of
  \<open>lct_rw_lock.h/.cpp\<close>): threads call \<open>session\<close>, \<open>release\<close> and \<open>close\<close>, one guarded section or one
  driver call per step.  All sections of the pool take the guard with its default argument, the
  shared lock, also those that change the maps: a section that meets another one on the maps, where
  one of the two changes them, is a data race and \<open>Undefined\<close>.
\<close>

section \<open>Threads on one pool\<close>

text \<open>
  The points of a call: before a guard (\<open>N_find\<close>, \<open>N_append\<close>, \<open>N_refind\<close>, \<open>N_release\<close>, \<open>N_close\<close>),
  inside its section (the same with \<open>-ing\<close>), at \<open>connect\<close>, and the end of \<open>session\<close>.
\<close>

datatype 's pool_pc =
  N_idle
| N_find string | N_finding string
| N_connect string
| N_append string 's cass_cluster | N_appending string 's cass_cluster
| N_refind string | N_refinding string
| N_got string lct_err "'s option"
| N_release string | N_releasing string
| N_close | N_closing

datatype pool_request = Want_session string | Want_release string | Want_close

record ('s, 'w) session_sys =
  np_pool :: "'s conn_pool"
  np_world :: 'w
  np_lock :: rw_lock
  np_pc :: "nat \<Rightarrow> 's pool_pc"

fun inside :: "'s pool_pc \<Rightarrow> bool" where
  "inside (N_finding k) = True"
| "inside (N_appending k s cl) = True"
| "inside (N_refinding k) = True"
| "inside (N_releasing k) = True"
| "inside N_closing = True"
| "inside _ = False"

fun changes_maps :: "'s pool_pc \<Rightarrow> bool" where
  "changes_maps (N_appending k s cl) = True"
| "changes_maps (N_releasing k) = True"
| "changes_maps N_closing = True"
| "changes_maps _ = False"

text \<open>Thread \<open>t\<close> meets another thread that holds the lock, and one of them changes the maps.\<close>

definition races :: "nat \<Rightarrow> ('s, 'w) session_sys \<Rightarrow> bool" where
  "races t S \<longleftrightarrow> list_ex (\<lambda>u. u \<noteq> t \<and> (changes_maps (np_pc S t) \<or> changes_maps (np_pc S u))) (rw_readers (np_lock S))"

definition np_goto :: "nat \<Rightarrow> 's pool_pc \<Rightarrow> ('s, 'w) session_sys \<Rightarrow> ('s, 'w) session_sys" where
  "np_goto t p S = S\<lparr>np_pc := (np_pc S)(t := p)\<rparr>"

text \<open>\<open>CCassConnLockGuard lg(m_rwlock)\<close>, and the end of its scope.\<close>

definition enter :: "nat \<Rightarrow> 's pool_pc \<Rightarrow> ('s, 'w) session_sys \<Rightarrow> ('s, 'w) session_sys res option" where
  "enter t p S = (case rw_guard False t (np_lock S) of None \<Rightarrow> None | Some l \<Rightarrow> Some (Inr (np_goto t p (S\<lparr>np_lock := l\<rparr>))))"

definition leave :: "nat \<Rightarrow> 's pool_pc \<Rightarrow> 's conn_pool \<Rightarrow> ('s, 'w) session_sys \<Rightarrow> ('s, 'w) session_sys res option" where
  "leave t p pool S = Some (if races t S then Inl Undefined
     else Inr (np_goto t p (S\<lparr>np_pool := pool, np_lock := rw_guard_end t (np_lock S)\<rparr>)))"

definition pool_cluster :: "'s conn_pool \<Rightarrow> cass_cluster" where
  "pool_cluster p = LctCreateCluster\<lparr>cl_contact_points := c_str (m_dbHost p), cl_port := m_dbPort p\<rparr>"

text \<open>One step of thread \<open>t\<close>; an idle thread takes up the request; \<open>None\<close> where it waits for the lock.\<close>

definition pool_thread_step ::
    "('s, 'f, 'r, 'p, 'w) cass_driver \<Rightarrow> nat \<Rightarrow> pool_request \<Rightarrow> ('s, 'w) session_sys \<Rightarrow> ('s, 'w) session_sys res option" where
  "pool_thread_step drv t req S = (case np_pc S t of
     N_idle \<Rightarrow> Some (Inr (np_goto t (case req of Want_session k \<Rightarrow> N_find k | Want_release k \<Rightarrow> N_release k | Want_close \<Rightarrow> N_close) S))
   | N_find k \<Rightarrow> enter t (N_finding k) S
   | N_finding k \<Rightarrow> (case retrieveSession k (np_pool S) of (errCode, s) \<Rightarrow>
       leave t (if LCT_SUCCESS \<noteq> errCode then N_connect k else N_got k errCode s) (np_pool S) S)
   | N_connect k \<Rightarrow> (case drv_connect drv (pool_cluster (np_pool S)) (np_world S) of (csErr, s, w1) \<Rightarrow>
       Some (Inr (np_goto t (if CASS_OK \<noteq> csErr then N_got k LCT_FAIL None else N_append k s (pool_cluster (np_pool S)))
         (S\<lparr>np_world := w1\<rparr>))))
   | N_append k s cl \<Rightarrow> enter t (N_appending k s cl) S
   | N_appending k s cl \<Rightarrow> (case appendSession k s (np_pool S) of (errCode, p1) \<Rightarrow>
       if LCT_SUCCESS \<noteq> errCode then leave t (N_got k errCode None) p1 S
       else case appendCluster k cl p1 of (errCode2, p2) \<Rightarrow>
         leave t (if LCT_SUCCESS \<noteq> errCode2 then N_got k errCode2 None else N_refind k) p2 S)
   | N_refind k \<Rightarrow> enter t (N_refinding k) S
   | N_refinding k \<Rightarrow> (case retrieveSession k (np_pool S) of (errCode, s) \<Rightarrow> leave t (N_got k errCode s) (np_pool S) S)
   | N_got k e s \<Rightarrow> Some (Inr (np_goto t N_idle S))
   | N_release k \<Rightarrow> enter t (N_releasing k) S
   | N_releasing k \<Rightarrow> (case pool_release k (np_pool S) of (_, p1) \<Rightarrow> leave t N_idle p1 S)
   | N_close \<Rightarrow> enter t N_closing S
   | N_closing \<Rightarrow> (case pool_close (np_pool S) of (_, p1) \<Rightarrow> leave t N_idle p1 S))"

definition fresh_sys :: "int \<Rightarrow> string \<Rightarrow> 'w \<Rightarrow> ('s, 'w) session_sys" where
  "fresh_sys port host w = \<lparr>np_pool = new_conn_pool port host, np_world = w, np_lock = new_rw_lock, np_pc = (\<lambda>t. N_idle)\<rparr>"

text \<open>Runs of any number of threads with requests from \<open>R\<close>, and the run that a schedule gives.\<close>

inductive pool_run ::
    "('s, 'f, 'r, 'p, 'w) cass_driver \<Rightarrow> pool_request set \<Rightarrow> ('s, 'w) session_sys \<Rightarrow> ('s, 'w) session_sys \<Rightarrow> bool"
  for drv R S0 where
  pool_start: "pool_run drv R S0 S0"
| pool_step: "pool_run drv R S0 S \<Longrightarrow> req \<in> R \<Longrightarrow> pool_thread_step drv t req S = Some (Inr S') \<Longrightarrow> pool_run drv R S0 S'"

fun session_schedule ::
    "('s, 'f, 'r, 'p, 'w) cass_driver \<Rightarrow> (nat \<times> pool_request) list \<Rightarrow> ('s, 'w) session_sys \<Rightarrow> ('s, 'w) session_sys res option" where
  "session_schedule drv [] S = Some (Inr S)"
| "session_schedule drv ((t, req) # ts) S = (case pool_thread_step drv t req S of
     None \<Rightarrow> None | Some (Inl e) \<Rightarrow> Some (Inl e) | Some (Inr S1) \<Rightarrow> session_schedule drv ts S1)"

lemma np_goto_simps [simp]:
  "np_pool (np_goto t p S) = np_pool S" "np_world (np_goto t p S) = np_world S" "np_lock (np_goto t p S) = np_lock S"
  "np_pc (np_goto t p S) = (np_pc S)(t := p)"
  by (simp_all add: np_goto_def)

lemma session_schedule_run:
  "session_schedule drv ts S = Some (Inr S') \<Longrightarrow> pool_run drv R S0 S \<Longrightarrow> snd ` set ts \<subseteq> R \<Longrightarrow> pool_run drv R S0 S'"
proof (induction ts arbitrary: S)
  case (Cons a ts)
  obtain t req where a: "a = (t, req)" by fastforce
  then obtain S1 where S1: "pool_thread_step drv t req S = Some (Inr S1)" "session_schedule drv ts S1 = Some (Inr S')"
    using Cons.prems(1) by (auto split: option.splits sum.splits)
  have "pool_run drv R S0 S1" using pool_run.pool_step [OF Cons.prems(2) _ S1(1)] Cons.prems(3) a by simp
  then show ?case using Cons.IH [OF S1(2)] Cons.prems(3) by simp
qed simp

section \<open>The guard\<close>

text \<open>Nobody asks for the lock exclusively, so its readers are the threads inside a section.\<close>

definition guard_inv :: "('s, 'w) session_sys \<Rightarrow> bool" where
  "guard_inv S \<longleftrightarrow> rw_writer (np_lock S) = None \<and> rw_waiting (np_lock S) = [] \<and> distinct (rw_readers (np_lock S))
     \<and> set (rw_readers (np_lock S)) = {t. inside (np_pc S t)}"

text \<open>What a step leaves alone, and the three kinds of step.\<close>

lemma enter_eq:
  assumes "guard_inv S"
  shows "enter t p S = Some (Inr (np_goto t p (S\<lparr>np_lock := (np_lock S)\<lparr>rw_readers := t # rw_readers (np_lock S)\<rparr>\<rparr>)))"
  using assms by (simp add: enter_def rw_guard_def rdlock_def guard_inv_def)

lemma leave_eq:
  "leave t p pool S = Some (Inr S') \<longleftrightarrow> \<not> races t S \<and> S' = np_goto t p (S\<lparr>np_pool := pool, np_lock := rw_guard_end t (np_lock S)\<rparr>)"
  by (auto simp: leave_def)

lemma guard_inv_enter:
  assumes "guard_inv S" "\<not> inside (np_pc S t)" "inside p" "enter t p S = Some (Inr S')"
  shows "guard_inv S'"
  using assms by (auto simp: enter_eq guard_inv_def)

lemma guard_inv_leave:
  assumes "guard_inv S" "\<not> inside p" "leave t p pool S = Some (Inr S')"
  shows "guard_inv S'"
  using assms by (auto simp: leave_eq guard_inv_def rw_guard_end_def rw_unlock_def)

lemma guard_inv_goto:
  assumes "guard_inv S" "\<not> inside (np_pc S t)" "\<not> inside p" "np_lock S1 = np_lock S" "np_pc S1 = np_pc S"
  shows "guard_inv (np_goto t p S1)"
  using assms by (auto simp: guard_inv_def)

lemma guard_inv_step:
  assumes inv: "guard_inv S" and step: "pool_thread_step drv t req S = Some (Inr S')"
  shows "guard_inv S'"
proof (cases "np_pc S t")
  case N_idle
  then show ?thesis using step by (auto simp: pool_thread_step_def intro!: guard_inv_goto [OF inv] split: pool_request.splits)
next
  case (N_connect k)
  then show ?thesis using step by (auto simp: pool_thread_step_def intro!: guard_inv_goto [OF inv] split: prod.splits if_splits)
next
  case (N_got k e s)
  then show ?thesis using step by (auto simp: pool_thread_step_def intro!: guard_inv_goto [OF inv])
next
  case (N_finding k)
  then show ?thesis using step by (auto simp: pool_thread_step_def retrieveSession_def elim!: guard_inv_leave [OF inv, rotated] split: option.splits)
qed (use step in \<open>auto simp: pool_thread_step_def retrieveSession_def appendSession_def appendCluster_def pool_release_def pool_close_def
      elim!: guard_inv_leave [OF inv, rotated] guard_inv_enter [OF inv, rotated 2] split: option.splits prod.splits\<close>)

text \<open>So no thread ever waits.\<close>

lemma step_never_waits: "guard_inv S \<Longrightarrow> pool_thread_step drv t req S \<noteq> None"
  by (cases "np_pc S t")
    (auto simp: pool_thread_step_def enter_eq leave_def retrieveSession_def appendSession_def appendCluster_def pool_release_def pool_close_def
      split: prod.splits option.splits)

lemma fresh_guard_inv: "guard_inv (fresh_sys port host w)"
  by (simp add: guard_inv_def fresh_sys_def new_rw_lock_def)

lemma pool_run_guard_inv: "pool_run drv R (fresh_sys port host w) S \<Longrightarrow> guard_inv S"
  by (induction rule: pool_run.induct) (auto intro: fresh_guard_inv guard_inv_step)

section \<open>Sessions\<close>

text \<open>
  The law about the driver: every connection it reports as made is a new entry in \<open>made\<close>, the
  record of connections behind it.
\<close>

locale connecting_driver =
  fixes drv :: "('s, 'f, 'r, 'p, 'w) cass_driver" and made :: "'w \<Rightarrow> (cass_cluster \<times> 's) set"
  assumes connect: "drv_connect drv cl w = (e, s, w1) \<Longrightarrow> made w1 = (if e = CASS_OK then insert (cl, s) (made w) else made w)"
begin

definition pc_ok :: "cass_cluster \<Rightarrow> 'w \<Rightarrow> 's pool_pc \<Rightarrow> bool" where
  "pc_ok cl w p \<longleftrightarrow> (\<forall>k s c. p = N_append k s c \<or> p = N_appending k s c \<longrightarrow> c = cl \<and> (cl, s) \<in> made w)
     \<and> (\<forall>k e r. p = N_got k e r \<longrightarrow> (case r of None \<Rightarrow> e = LCT_FAIL \<or> e = LCT_NOT_SUCH_RECORD
          | Some s \<Rightarrow> e = LCT_SUCCESS \<and> (cl, s) \<in> made w))"

lemma pc_ok_simps [simp]:
  "pc_ok cl w N_idle" "pc_ok cl w (N_find k)" "pc_ok cl w (N_finding k)" "pc_ok cl w (N_connect k)" "pc_ok cl w (N_refind k)"
  "pc_ok cl w (N_refinding k)" "pc_ok cl w (N_release k)" "pc_ok cl w (N_releasing k)" "pc_ok cl w N_close" "pc_ok cl w N_closing"
  "pc_ok cl w (N_append k s c) \<longleftrightarrow> c = cl \<and> (cl, s) \<in> made w" "pc_ok cl w (N_appending k s c) \<longleftrightarrow> c = cl \<and> (cl, s) \<in> made w"
  "pc_ok cl w (N_got k e r) \<longleftrightarrow> (case r of None \<Rightarrow> e = LCT_FAIL \<or> e = LCT_NOT_SUCH_RECORD
     | Some s \<Rightarrow> e = LCT_SUCCESS \<and> (cl, s) \<in> made w)"
  by (auto simp: pc_ok_def split: option.splits)

definition sessions_inv :: "int \<Rightarrow> string \<Rightarrow> ('s, 'w) session_sys \<Rightarrow> bool" where
  "sessions_inv port host S \<longleftrightarrow> m_dbPort (np_pool S) = port \<and> m_dbHost (np_pool S) = host \<and> conn_pool_inv (np_pool S)
     \<and> (\<forall>s \<in> ran (m_sessionMap (np_pool S)). (pool_cluster (np_pool S), s) \<in> made (np_world S))
     \<and> (\<forall>t. pc_ok (pool_cluster (np_pool S)) (np_world S) (np_pc S t))"

lemma connect_made: "drv_connect drv cl w = (e, s, w1) \<Longrightarrow> made w \<subseteq> made w1 \<and> (e = CASS_OK \<longrightarrow> (cl, s) \<in> made w1)"
  using connect by (auto split: if_splits)

lemma pc_ok_mono: "pc_ok cl w p \<Longrightarrow> made w \<subseteq> made w1 \<Longrightarrow> pc_ok cl w1 p"
  by (fastforce simp: pc_ok_def split: option.splits)

text \<open>A step that keeps the pool, one that puts a session, and one that takes sessions away.\<close>

lemma sessions_inv_goto:
  assumes "sessions_inv port host S" "pc_ok (pool_cluster (np_pool S)) (np_world S1) p"
    "np_pool S1 = np_pool S" "np_pc S1 = np_pc S" "made (np_world S) \<subseteq> made (np_world S1)"
  shows "sessions_inv port host (np_goto t p S1)"
  using assms pc_ok_mono [OF _ assms(5)] by (auto simp: sessions_inv_def)

lemma sessions_inv_take:
  assumes "sessions_inv port host S" "pool_cluster P = pool_cluster (np_pool S)" "m_dbPort P = port" "m_dbHost P = host"
    "conn_pool_inv P" "\<forall>s \<in> ran (m_sessionMap P). (pool_cluster P, s) \<in> made (np_world S)" "pc_ok (pool_cluster P) (np_world S) p"
  shows "sessions_inv port host (np_goto t p (S\<lparr>np_pool := P, np_lock := l\<rparr>))"
  using assms by (auto simp: sessions_inv_def)

lemma conn_pool_inv_put:
  assumes "conn_pool_inv p"
  shows "conn_pool_inv (p\<lparr>m_sessionMap := (m_sessionMap p)(k \<mapsto> s), m_clusterMap := (m_clusterMap p)(k \<mapsto> pool_cluster p)\<rparr>)"
  using assms by (auto simp: conn_pool_inv_def pool_cluster_def ran_def split: if_splits)

lemma conn_pool_inv_release: "conn_pool_inv p \<Longrightarrow> conn_pool_inv (snd (pool_release k p))"
  by (auto simp: conn_pool_inv_def pool_release_def ran_def split: if_splits)

lemma conn_pool_inv_close: "conn_pool_inv (snd (pool_close p))"
  by (simp add: conn_pool_inv_def pool_close_def)

lemma sessions_inv_step:
  assumes inv: "sessions_inv port host S" and step: "pool_thread_step drv t req S = Some (Inr S')"
  shows "sessions_inv port host S'"
proof -
  let ?p = "np_pool S" and ?cl = "pool_cluster (np_pool S)"
  have i: "m_dbPort ?p = port" "m_dbHost ?p = host" "conn_pool_inv ?p"
    "\<forall>s \<in> ran (m_sessionMap ?p). (?cl, s) \<in> made (np_world S)" "\<And>u. pc_ok ?cl (np_world S) (np_pc S u)"
    using inv by (auto simp: sessions_inv_def)
  have found: "pc_ok ?cl (np_world S) (N_got k (fst (retrieveSession k ?p)) (snd (retrieveSession k ?p)))" for k
    using i(4) by (auto simp: retrieveSession_def ran_def split: option.splits)
  have same: "sessions_inv port host (np_goto t p (S\<lparr>np_lock := l\<rparr>))" if "pc_ok ?cl (np_world S) p" for p l
    using sessions_inv_goto [OF inv, of "S\<lparr>np_lock := l\<rparr>" p t] that by simp
  have kept: "sessions_inv port host (np_goto t p (S\<lparr>np_pool := ?p, np_lock := l\<rparr>))" if "pc_ok ?cl (np_world S) p" for p l
    using sessions_inv_take [OF inv, of ?p p t l] that i by simp
  have ent: "sessions_inv port host S'" if "enter t p S = Some (Inr S')" "pc_ok ?cl (np_world S) p" for p
    using that same by (auto simp: enter_def split: option.splits)
  have out: "sessions_inv port host S'" if "leave t p ?p S = Some (Inr S')" "pc_ok ?cl (np_world S) p" for p
    using that kept by (auto simp: leave_eq)
  show ?thesis
  proof (cases "np_pc S t")
    case N_idle
    then show ?thesis using step sessions_inv_goto [OF inv, of S _ t]
      by (auto simp: pool_thread_step_def split: pool_request.splits)
  next
    case (N_finding k)
    obtain e r where r: "retrieveSession k ?p = (e, r)" by fastforce
    have ok: "pc_ok ?cl (np_world S) (if LCT_SUCCESS \<noteq> e then N_connect k else N_got k e r)"
      using found [of k] r by (cases "e = LCT_SUCCESS") simp_all
    then show ?thesis using step N_finding r by (intro out [OF _ ok]) (simp add: pool_thread_step_def)
  next
    case (N_connect k)
    obtain e s w1 where c: "drv_connect drv ?cl (np_world S) = (e, s, w1)" by (metis prod_cases3)
    then show ?thesis using step N_connect connect_made [OF c] sessions_inv_goto [OF inv, of "S\<lparr>np_world := w1\<rparr>" _ t]
      by (auto simp: pool_thread_step_def)
  next
    case (N_append k s cl)
    then show ?thesis using step ent [of "N_appending k s cl"] i(5) [of t] by (auto simp: pool_thread_step_def)
  next
    case (N_appending k s cl)
    let ?P = "?p\<lparr>m_sessionMap := (m_sessionMap ?p)(k \<mapsto> s), m_clusterMap := (m_clusterMap ?p)(k \<mapsto> cl)\<rparr>"
    have s: "cl = ?cl" "(?cl, s) \<in> made (np_world S)" using i(5) [of t] N_appending by simp_all
    have S': "S' = np_goto t (N_refind k) (S\<lparr>np_pool := ?P, np_lock := rw_guard_end t (np_lock S)\<rparr>)"
      using step N_appending by (auto simp: pool_thread_step_def appendSession_def appendCluster_def leave_eq)
    show ?thesis unfolding S'
    proof (rule sessions_inv_take [OF inv])
      show "conn_pool_inv ?P" using conn_pool_inv_put [OF i(3), of k s] s(1) by simp
      show "\<forall>x \<in> ran (m_sessionMap ?P). (pool_cluster ?P, x) \<in> made (np_world S)"
        using i(4) s(2) by (auto simp: pool_cluster_def ran_def split: if_splits)
    qed (use i in \<open>simp_all add: pool_cluster_def\<close>)
  next
    case (N_refinding k)
    obtain e r where r: "retrieveSession k ?p = (e, r)" by fastforce
    have ok: "pc_ok ?cl (np_world S) (N_got k e r)" using found [of k] r by simp
    then show ?thesis using step N_refinding r by (intro out [OF _ ok]) (simp add: pool_thread_step_def)
  next
    case (N_got k e s)
    then show ?thesis using step sessions_inv_goto [OF inv, of S _ t] by (auto simp: pool_thread_step_def)
  next
    case (N_releasing k)
    let ?P = "snd (pool_release k ?p)"
    have S': "S' = np_goto t N_idle (S\<lparr>np_pool := ?P, np_lock := rw_guard_end t (np_lock S)\<rparr>)"
      using step N_releasing by (auto simp: pool_thread_step_def leave_eq split: prod.splits)
    show ?thesis unfolding S'
      by (rule sessions_inv_take [OF inv _ _ _ conn_pool_inv_release [OF i(3)]])
        (use i in \<open>auto simp: pool_cluster_def pool_release_def ran_def split: if_splits\<close>)
  next
    case N_closing
    let ?P = "snd (pool_close ?p)"
    have S': "S' = np_goto t N_idle (S\<lparr>np_pool := ?P, np_lock := rw_guard_end t (np_lock S)\<rparr>)"
      using step N_closing by (auto simp: pool_thread_step_def leave_eq split: prod.splits)
    show ?thesis unfolding S'
      by (rule sessions_inv_take [OF inv _ _ _ conn_pool_inv_close])
        (use i in \<open>auto simp: pool_cluster_def pool_close_def ran_def\<close>)
  qed (use step ent in \<open>auto simp: pool_thread_step_def\<close>)
qed

lemma fresh_sessions_inv: "sessions_inv port host (fresh_sys port host w)"
  by (simp add: sessions_inv_def fresh_sys_def new_conn_pool_def conn_pool_inv_def)

lemma pool_run_sessions_inv: "pool_run drv R (fresh_sys port host w) S \<Longrightarrow> sessions_inv port host S"
  by (induction rule: pool_run.induct) (auto intro: fresh_sessions_inv sessions_inv_step)

end

text \<open>While nobody releases or closes, a session once put stays.\<close>

definition only_sessions :: "pool_request set \<Rightarrow> bool" where
  "only_sessions R \<longleftrightarrow> R \<subseteq> range Want_session"

fun keeps :: "'s conn_pool \<Rightarrow> 's pool_pc \<Rightarrow> bool" where
  "keeps p (N_refind k) \<longleftrightarrow> m_sessionMap p k \<noteq> None"
| "keeps p (N_refinding k) \<longleftrightarrow> m_sessionMap p k \<noteq> None"
| "keeps p (N_got k e r) \<longleftrightarrow> e \<noteq> LCT_NOT_SUCH_RECORD \<and> (e = LCT_SUCCESS \<longrightarrow> m_sessionMap p k \<noteq> None)"
| "keeps p (N_release k) \<longleftrightarrow> False"
| "keeps p (N_releasing k) \<longleftrightarrow> False"
| "keeps p N_close \<longleftrightarrow> False"
| "keeps p N_closing \<longleftrightarrow> False"
| "keeps p _ \<longleftrightarrow> True"

definition kept_inv :: "('s, 'w) session_sys \<Rightarrow> bool" where
  "kept_inv S \<longleftrightarrow> (\<forall>t. keeps (np_pool S) (np_pc S t))"

lemma keeps_mono: "keeps p c \<Longrightarrow> dom (m_sessionMap p) \<subseteq> dom (m_sessionMap p') \<Longrightarrow> keeps p' c"
  by (cases c) auto

lemma kept_inv_goto:
  assumes "kept_inv S" "np_pc S1 = np_pc S" "dom (m_sessionMap (np_pool S)) \<subseteq> dom (m_sessionMap (np_pool S1))" "keeps (np_pool S1) p"
  shows "kept_inv (np_goto t p S1)"
  using assms keeps_mono [OF _ assms(3)] by (simp add: kept_inv_def)

lemma kept_inv_step:
  assumes inv: "kept_inv S" and R: "only_sessions R" "req \<in> R" and step: "pool_thread_step drv t req S = Some (Inr S')"
  shows "kept_inv S'"
proof -
  have own: "keeps (np_pool S) (np_pc S t)" using inv by (simp add: kept_inv_def)
  obtain k where req: "req = Want_session k" using R by (auto simp: only_sessions_def)
  have same: "kept_inv (np_goto t p S1)" if "np_pc S1 = np_pc S" "np_pool S1 = np_pool S" "keeps (np_pool S) p" for p S1
    using kept_inv_goto [OF inv, of S1 p t] that by simp
  show ?thesis
  proof (cases "np_pc S t")
    case (N_appending k s cl)
    then show ?thesis using step
      by (auto simp: pool_thread_step_def leave_eq appendSession_def appendCluster_def intro!: kept_inv_goto [OF inv])
  next
    case (N_connect k)
    then show ?thesis using step
      by (auto simp: pool_thread_step_def LCT_FAIL_def LCT_NOT_SUCH_RECORD_def intro!: same split: prod.splits if_splits)
  next
    case (N_finding k)
    then show ?thesis using step
      by (auto simp: pool_thread_step_def leave_eq retrieveSession_def LCT_NOT_SUCH_RECORD_def intro!: same split: option.splits)
  next
    case (N_refinding k)
    then show ?thesis using step own
      by (auto simp: pool_thread_step_def leave_eq retrieveSession_def LCT_NOT_SUCH_RECORD_def intro!: same split: option.splits)
  qed (use step own req in \<open>auto simp: pool_thread_step_def enter_def intro!: same split: option.splits\<close>)
qed

lemma pool_run_kept_inv: "pool_run drv R (fresh_sys port host w) S \<Longrightarrow> only_sessions R \<Longrightarrow> kept_inv S"
proof (induction rule: pool_run.induct)
  case pool_start
  then show ?case by (simp add: kept_inv_def fresh_sys_def)
next
  case (pool_step S req t S')
  show ?case by (rule kept_inv_step [OF pool_step.IH [OF pool_step.prems] pool_step.prems pool_step.hyps(2,3)])
qed

section \<open>What threads get\<close>

text \<open>A driver that numbers its connections; the script holds the outcomes of those to come.\<close>

type_synonym numbered = "cass_error list \<times> (cass_cluster \<times> nat) list"

definition numbering_driver :: "(nat, unit, unit, unit, numbered) cass_driver" where
  "numbering_driver =
     \<lparr>drv_connect = \<lambda>cl (es, L). (case es of
          [] \<Rightarrow> (CASS_OK, length L, ([], L @ [(cl, length L)]))
        | e # es1 \<Rightarrow> if e = CASS_OK then (CASS_OK, length L, (es1, L @ [(cl, length L)])) else (e, 0, (es1, L))),
      drv_execute = \<lambda>s st w. (CASS_ERROR_OTHER 1, \<lparr>res_rows = [], res_more_pages = False, res_paging_state = ()\<rparr>, w),
      drv_execute_async = \<lambda>s st w. ((), w),
      drv_wait_timed = \<lambda>f w. (True, w),
      drv_future_result = \<lambda>f w. (CASS_ERROR_OTHER 1, \<lparr>res_rows = [], res_more_pages = False, res_paging_state = ()\<rparr>),
      drv_batch_add = \<lambda>b c. CASS_OK,
      drv_execute_batch = \<lambda>s b w. (CASS_ERROR_OTHER 1, w),
      drv_set_paging_size = \<lambda>n. CASS_OK,
      drv_set_paging_state = \<lambda>p. CASS_OK,
      drv_now_millis = \<lambda>w. (0, w)\<rparr>"

interpretation numbering: connecting_driver numbering_driver "\<lambda>w. set (snd w)"
  by unfold_locales (auto simp: numbering_driver_def split: list.splits if_splits prod.splits)

lemmas numbering_connecting = numbering.connecting_driver_axioms

text \<open>
  C40: whatever the interleaving of threads that ask for sessions, release and close, as long as
  no two of them meet on the maps: no thread ever waits; the two maps stay in step and hold only
  sessions connected to the pool's own host and port; and every answer is truthful: a success
  comes with such a session, a failure without one, and a keyspace is reported missing only where
  some thread may release or close.  Otherwise a keyspace answered with success stays in the pool.
\<close>

theorem pool_threads_get_sessions:
  assumes "connecting_driver drv made" "pool_run drv R (fresh_sys port host w) S"
  shows "conn_pool_inv (np_pool S)
     \<and> (\<forall>k x. m_sessionMap (np_pool S) k = Some x \<longrightarrow> (pool_cluster (np_pool S), x) \<in> made (np_world S))
     \<and> m_dbPort (np_pool S) = port \<and> m_dbHost (np_pool S) = host
     \<and> (\<forall>t k e r. np_pc S t = N_got k e r \<longrightarrow> (case r of
            Some x \<Rightarrow> e = LCT_SUCCESS \<and> (pool_cluster (np_pool S), x) \<in> made (np_world S)
          | None \<Rightarrow> e = LCT_FAIL \<or> e = LCT_NOT_SUCH_RECORD \<and> \<not> only_sessions R))
     \<and> (\<forall>t k r. np_pc S t = N_got k LCT_SUCCESS r \<longrightarrow> only_sessions R \<longrightarrow> m_sessionMap (np_pool S) k \<noteq> None)
     \<and> (\<forall>t req. pool_thread_step drv t req S \<noteq> None)"
proof -
  have i: "connecting_driver.sessions_inv made port host S"
    by (rule connecting_driver.pool_run_sessions_inv [OF assms])
  note inv = i [unfolded connecting_driver.sessions_inv_def [OF assms(1)]]
  have pc: "connecting_driver.pc_ok made (pool_cluster (np_pool S)) (np_world S) (np_pc S t)" for t using inv by blast
  have k: "only_sessions R \<Longrightarrow> keeps (np_pool S) (np_pc S t)" for t
    using pool_run_kept_inv [OF assms(2)] by (simp add: kept_inv_def)
  have "case r of Some x \<Rightarrow> e = LCT_SUCCESS \<and> (pool_cluster (np_pool S), x) \<in> made (np_world S)
      | None \<Rightarrow> e = LCT_FAIL \<or> e = LCT_NOT_SUCH_RECORD \<and> \<not> only_sessions R" if "np_pc S t = N_got k e r" for t k e r
    using pc [of t] k [of t] that connecting_driver.pc_ok_simps(13) [OF assms(1)] by (auto split: option.splits)
  moreover have "m_sessionMap (np_pool S) k \<noteq> None" if "np_pc S t = N_got k LCT_SUCCESS r" "only_sessions R" for t k r
    using k [OF that(2), of t] that(1) by simp
  moreover have "(pool_cluster (np_pool S), x) \<in> made (np_world S)" if "m_sessionMap (np_pool S) k = Some x" for k x
  proof -
    have "x \<in> ran (m_sessionMap (np_pool S))" using that by (rule ranI)
    then show ?thesis using inv by blast
  qed
  ultimately show ?thesis using inv step_never_waits [OF pool_run_guard_inv [OF assms(2)]] by blast
qed

lemmas pool_eval = pool_thread_step_def np_goto_def enter_def leave_def races_def rw_guard_def rdlock_def rw_guard_end_def
  rw_unlock_def fresh_sys_def new_rw_lock_def new_conn_pool_def retrieveSession_def appendSession_def appendCluster_def
  numbering_driver_def

theorem pool_threads_get_sessions_witness:
  "\<exists>S. pool_run numbering_driver {Want_session ''ks''} (fresh_sys 9042 ''h'' ([], [])) S
     \<and> np_pc S 0 = N_got ''ks'' LCT_SUCCESS (Some 0) \<and> m_sessionMap (np_pool S) ''ks'' \<noteq> None
     \<and> (\<forall>t req. pool_thread_step numbering_driver t req S \<noteq> None)"
proof -
  let ?r = "(0, Want_session ''ks'')"
  obtain S where S: "session_schedule numbering_driver [?r, ?r, ?r, ?r, ?r, ?r, ?r, ?r] (fresh_sys 9042 ''h'' ([], [])) = Some (Inr S)"
    "np_pc S 0 = N_got ''ks'' LCT_SUCCESS (Some 0)"
    by (simp add: pool_eval)
  have r: "pool_run numbering_driver {Want_session ''ks''} (fresh_sys 9042 ''h'' ([], [])) S"
    by (rule session_schedule_run [OF S(1) pool_run.pool_start]) auto
  have "only_sessions {Want_session ''ks''}" by (auto simp: only_sessions_def)
  then show ?thesis
    using pool_threads_get_sessions [OF numbering_connecting r] r S(2) by blast
qed

section \<open>A thread alone is \<open>session\<close>\<close>

lemma session_by_steps:
  assumes "guard_inv S" "\<And>u. \<not> inside (np_pc S u)" "np_pc S t = N_idle"
    "pool_session drv k (np_pool S) (np_world S) = (e, s, p, w)"
  shows "\<exists>n S'. session_schedule drv (replicate n (t, Want_session k)) S = Some (Inr S')
     \<and> np_pc S' = (np_pc S)(t := N_got k e s) \<and> np_pool S' = p \<and> np_world S' = w \<and> np_lock S' = np_lock S"
proof -
  let ?r = "(t, Want_session k)" and ?cl = "LctCreateCluster\<lparr>cl_contact_points := c_str (m_dbHost (np_pool S)), cl_port := m_dbPort (np_pool S)\<rparr>"
  have l: "rw_readers (np_lock S) = []" "rw_writer (np_lock S) = None" "rw_waiting (np_lock S) = []"
    using assms(1,2) by (simp_all add: guard_inv_def)
  have q: "np_lock S = \<lparr>rw_readers = [], rw_writer = None, rw_waiting = []\<rparr>" using l by simp
  show ?thesis
  proof (cases "m_sessionMap (np_pool S) k")
    case (Some x)
    then have "e = LCT_SUCCESS" "s = Some x" "p = np_pool S" "w = np_world S" using assms(4) by (simp_all add: pool_session_cases)
    moreover have "\<exists>S'. session_schedule drv [?r, ?r, ?r] S = Some (Inr S') \<and> np_pc S' = (np_pc S)(t := N_got k LCT_SUCCESS (Some x))
        \<and> np_pool S' = np_pool S \<and> np_world S' = np_world S \<and> np_lock S' = np_lock S"
      using Some assms(3) by (simp add: pool_eval q)
    ultimately show ?thesis by (intro exI [of _ 3]) (simp add: numeral_3_eq_3)
  next
    case None
    obtain ce x w1 where c: "drv_connect drv ?cl (np_world S) = (ce, x, w1)" by (metis prod_cases3)
    show ?thesis
    proof (cases "ce = CASS_OK")
      case False
      then have "e = LCT_FAIL" "s = None" "p = np_pool S" "w = w1" using assms(4) c None by (simp_all add: pool_session_cases Let_def)
      moreover have "\<exists>S'. session_schedule drv [?r, ?r, ?r, ?r] S = Some (Inr S') \<and> np_pc S' = (np_pc S)(t := N_got k LCT_FAIL None)
          \<and> np_pool S' = np_pool S \<and> np_world S' = w1 \<and> np_lock S' = np_lock S"
        using None assms(3) c False by (simp add: pool_eval pool_cluster_def q)
      ultimately show ?thesis by (intro exI [of _ "Suc 3"]) (simp add: numeral_3_eq_3)
    next
      case True
      let ?P = "(np_pool S)\<lparr>m_sessionMap := (m_sessionMap (np_pool S))(k \<mapsto> x), m_clusterMap := (m_clusterMap (np_pool S))(k \<mapsto> ?cl)\<rparr>"
      have "e = LCT_SUCCESS" "s = Some x" "p = ?P" "w = w1" using assms(4) c None True by (auto simp: pool_session_cases Let_def)
      moreover have "\<exists>S'. session_schedule drv [?r, ?r, ?r, ?r, ?r, ?r, ?r, ?r] S = Some (Inr S')
          \<and> np_pc S' = (np_pc S)(t := N_got k LCT_SUCCESS (Some x)) \<and> np_pool S' = ?P \<and> np_world S' = w1 \<and> np_lock S' = np_lock S"
        using None assms(3) c True by (simp add: pool_eval pool_cluster_def q)
      ultimately show ?thesis by (intro exI [of _ "Suc (Suc 3 + 3)"]) (simp add: numeral_3_eq_3)
    qed
  qed
qed

section \<open>Where two threads meet\<close>

text \<open>
  Two threads that connect at once insert into the maps side by side: the guard they hold is
  the shared one.
\<close>

theorem shared_guard_admits_race:
  assumes "\<And>cl w. fst (drv_connect drv cl w) = CASS_OK"
  shows "session_schedule drv (concat (replicate 6 [(0, Want_session k1), (1, Want_session k2)])) (fresh_sys port host w)
     = Some (Inl Undefined)"
proof -
  let ?a = "(0::nat, Want_session k1)" and ?b = "(1::nat, Want_session k2)"
  obtain s1 w1 where c1: "drv_connect drv (LctCreateCluster\<lparr>cl_contact_points := c_str host, cl_port := port\<rparr>) w = (CASS_OK, s1, w1)"
    using assms [of "LctCreateCluster\<lparr>cl_contact_points := c_str host, cl_port := port\<rparr>" w] by (metis prod.collapse)
  obtain s2 w2 where c2: "drv_connect drv (LctCreateCluster\<lparr>cl_contact_points := c_str host, cl_port := port\<rparr>) w1 = (CASS_OK, s2, w2)"
    using assms [of "LctCreateCluster\<lparr>cl_contact_points := c_str host, cl_port := port\<rparr>" w1] by (metis prod.collapse)
  have "concat (replicate 6 [?a, ?b]) = [?a, ?b, ?a, ?b, ?a, ?b, ?a, ?b, ?a, ?b, ?a, ?b]" by (simp add: numeral_eq_Suc)
  then show ?thesis
    using c1 c2 by (simp add: pool_eval pool_cluster_def)
qed

text \<open>
  \<open>session\<close> does not look again before it puts what it connected: two threads that ask for the
  same keyspace open two sessions, and each is answered with its own while the pool keeps one.
\<close>

theorem same_keyspace_connected_twice:
  "\<exists>ts S. session_schedule numbering_driver ts (fresh_sys 9042 ''h'' ([], [])) = Some (Inr S)
     \<and> np_pc S 0 = N_got ''ks'' LCT_SUCCESS (Some 0) \<and> np_pc S 1 = N_got ''ks'' LCT_SUCCESS (Some 1)
     \<and> length (snd (np_world S)) = 2 \<and> m_sessionMap (np_pool S) = [''ks'' \<mapsto> 1]"
proof -
  let ?a = "(0, Want_session ''ks'')" and ?b = "(1, Want_session ''ks'')"
  let ?ts = "[?a, ?a, ?a, ?a, ?b, ?b, ?b, ?b, ?a, ?a, ?a, ?a, ?b, ?b, ?b, ?b]"
  have "\<exists>S. session_schedule numbering_driver ?ts (fresh_sys 9042 ''h'' ([], [])) = Some (Inr S)
     \<and> np_pc S 0 = N_got ''ks'' LCT_SUCCESS (Some 0) \<and> np_pc S 1 = N_got ''ks'' LCT_SUCCESS (Some 1)
     \<and> length (snd (np_world S)) = 2 \<and> m_sessionMap (np_pool S) = [''ks'' \<mapsto> 1]"
    by (simp add: pool_eval)
  then show ?thesis by blast
qed

end
