(* ===== verification/Cass_Objects.thy ===== *)
theory Cass_Objects
  imports Cass_Conn_Pool "HOL-Library.Multiset"
begin

text \<open>
  The driver objects behind the wrapper's smart pointers, with their addresses and counts of owners:
  the release functions of \<open>lct_cass_common_define.h\<close>, and the connection pool again
  (\<open>lct_cass_conn_pool.h/.inl/.cpp\<close>) as it takes, shares and drops sessions and clusters.  It refines
  the pool of \<open>Cass_Conn_Pool\<close>, where sessions are values.  Freeing or closing what is not alive is
  \<open>Undefined\<close>, and so is copying or dropping a shared pointer that has no owner.
\<close>

section \<open>The heap of the driver\<close>

datatype cass_object = Obj_session | Obj_cluster | Obj_future | Obj_statement | Obj_result | Obj_iterator | Obj_batch

record 's object_heap =
  oh_live :: "nat \<Rightarrow> cass_object option"
  oh_next :: nat
  oh_closed :: "nat list"
  oh_owners :: "nat \<Rightarrow> nat"
  oh_session :: "nat \<Rightarrow> 's option"
  oh_settings :: "nat \<Rightarrow> cass_cluster option"

definition new_object_heap :: "'s object_heap" where
  "new_object_heap = \<lparr>oh_live = Map.empty, oh_next = 0, oh_closed = [], oh_owners = (\<lambda>p. 0),
     oh_session = Map.empty, oh_settings = Map.empty\<rparr>"

definition obj_new :: "cass_object \<Rightarrow> 's object_heap \<Rightarrow> nat \<times> 's object_heap" where
  "obj_new k h = (oh_next h, h\<lparr>oh_live := (oh_live h)(oh_next h \<mapsto> k), oh_next := Suc (oh_next h)\<rparr>)"

definition obj_free :: "cass_object \<Rightarrow> nat \<Rightarrow> 's object_heap \<Rightarrow> 's object_heap res" where
  "obj_free k p h = (if oh_live h p = Some k then Inr (h\<lparr>oh_live := (oh_live h)(p := None)\<rparr>) else Inl Undefined)"

text \<open>
  \<open>cass_session_close\<close> gives a future for the end of the close.  The session stays allocated until
  \<open>cass_session_free\<close>.
\<close>

definition cass_session_close :: "nat \<Rightarrow> 's object_heap \<Rightarrow> (nat \<times> 's object_heap) res" where
  "cass_session_close p h =
     (if oh_live h p = Some Obj_session then Inr (obj_new Obj_future (h\<lparr>oh_closed := p # oh_closed h\<rparr>)) else Inl Undefined)"

section \<open>The release functions\<close>

text \<open>A pointer is \<open>None\<close> when it is null.\<close>

definition LctCassSessionRelease :: "nat option \<Rightarrow> 's object_heap \<Rightarrow> 's object_heap res" where
  "LctCassSessionRelease session h = (case session of None \<Rightarrow> Inr h
     | Some p \<Rightarrow> res_bind (cass_session_close p h) (\<lambda>(_, h1). Inr h1))"

definition LctCassClusterRelease :: "nat option \<Rightarrow> 's object_heap \<Rightarrow> 's object_heap res" where
  "LctCassClusterRelease cluster h = (case cluster of None \<Rightarrow> Inr h | Some p \<Rightarrow> obj_free Obj_cluster p h)"

definition LctCassFutureRelease :: "nat option \<Rightarrow> 's object_heap \<Rightarrow> 's object_heap res" where
  "LctCassFutureRelease future h = (case future of None \<Rightarrow> Inr h | Some p \<Rightarrow> obj_free Obj_future p h)"

definition LctCassStatementRelease :: "nat option \<Rightarrow> 's object_heap \<Rightarrow> 's object_heap res" where
  "LctCassStatementRelease statement h = (case statement of None \<Rightarrow> Inr h | Some p \<Rightarrow> obj_free Obj_statement p h)"

definition LctCassResultRelease :: "nat option \<Rightarrow> 's object_heap \<Rightarrow> 's object_heap res" where
  "LctCassResultRelease result h = (case result of None \<Rightarrow> Inr h | Some p \<Rightarrow> obj_free Obj_result p h)"

definition LctCassBatchRelease :: "nat option \<Rightarrow> 's object_heap \<Rightarrow> 's object_heap res" where
  "LctCassBatchRelease batch h = (case batch of None \<Rightarrow> Inr h | Some p \<Rightarrow> obj_free Obj_batch p h)"

text \<open>The deleters of the unique pointers.\<close>

definition CLctCassFutureRelease :: "nat option \<Rightarrow> 's object_heap \<Rightarrow> 's object_heap res" where
  "CLctCassFutureRelease future h = (case future of None \<Rightarrow> Inr h | Some p \<Rightarrow> obj_free Obj_future p h)"

definition CLctCassStatementRelease :: "nat option \<Rightarrow> 's object_heap \<Rightarrow> 's object_heap res" where
  "CLctCassStatementRelease statement h = (case statement of None \<Rightarrow> Inr h | Some p \<Rightarrow> obj_free Obj_statement p h)"

definition CLctCassResultRelease :: "nat option \<Rightarrow> 's object_heap \<Rightarrow> 's object_heap res" where
  "CLctCassResultRelease result h = (case result of None \<Rightarrow> Inr h | Some p \<Rightarrow> obj_free Obj_result p h)"

definition CLctCassIteratorRelease :: "nat option \<Rightarrow> 's object_heap \<Rightarrow> 's object_heap res" where
  "CLctCassIteratorRelease rows h = (case rows of None \<Rightarrow> Inr h | Some p \<Rightarrow> obj_free Obj_iterator p h)"

definition CLctCassBatchRelease :: "nat option \<Rightarrow> 's object_heap \<Rightarrow> 's object_heap res" where
  "CLctCassBatchRelease batch h = (case batch of None \<Rightarrow> Inr h | Some p \<Rightarrow> obj_free Obj_batch p h)"

section \<open>Shared pointers\<close>

definition sp_take :: "nat \<Rightarrow> 's object_heap \<Rightarrow> 's object_heap" where
  "sp_take p h = h\<lparr>oh_owners := (oh_owners h)(p := 1)\<rparr>"

definition sp_copy :: "nat \<Rightarrow> 's object_heap \<Rightarrow> 's object_heap res" where
  "sp_copy p h = (if oh_owners h p = 0 then Inl Undefined
     else Inr (h\<lparr>oh_owners := (oh_owners h)(p := Suc (oh_owners h p))\<rparr>))"

text \<open>The end of an owner: the last one releases the object.\<close>

definition sp_drop :: "(nat option \<Rightarrow> 's object_heap \<Rightarrow> 's object_heap res) \<Rightarrow> nat \<Rightarrow> 's object_heap \<Rightarrow> 's object_heap res" where
  "sp_drop release p h =
     (if oh_owners h p = 0 then Inl Undefined
      else let h1 = h\<lparr>oh_owners := (oh_owners h)(p := oh_owners h p - 1)\<rparr>
           in if oh_owners h p = 1 then release (Some p) h1 else Inr h1)"

fun sp_drop_all :: "(nat option \<Rightarrow> 's object_heap \<Rightarrow> 's object_heap res) \<Rightarrow> nat list \<Rightarrow> 's object_heap \<Rightarrow> 's object_heap res" where
  "sp_drop_all release [] h = Inr h"
| "sp_drop_all release (p # ps) h = res_bind (sp_drop release p h) (sp_drop_all release ps)"

section \<open>The pool\<close>

text \<open>
  The unordered maps from keyspaces to shared pointers are lists without a second entry for a key;
  in which order a map destroys its elements is not specified, and here it is the list's.
\<close>

record object_pool =
  op_dbPort :: int
  op_dbHost :: string
  op_sessionMap :: "(string \<times> nat) list"
  op_clusterMap :: "(string \<times> nat) list"

definition um_erase :: "string \<Rightarrow> (string \<times> nat) list \<Rightarrow> (string \<times> nat) list" where
  "um_erase k m = filter (\<lambda>e. fst e \<noteq> k) m"

definition um_put :: "string \<Rightarrow> nat \<Rightarrow> (string \<times> nat) list \<Rightarrow> (string \<times> nat) list" where
  "um_put k p m = (k, p) # um_erase k m"

text \<open>The owners that an entry's change or removal ends.\<close>

definition um_old :: "string \<Rightarrow> (string \<times> nat) list \<Rightarrow> nat list" where
  "um_old k m = map snd (filter (\<lambda>e. fst e = k) m)"

definition new_object_pool :: "int \<Rightarrow> string \<Rightarrow> object_pool" where
  "new_object_pool dbPort dbHost = \<lparr>op_dbPort = dbPort, op_dbHost = dbHost, op_sessionMap = [], op_clusterMap = []\<rparr>"

text \<open>Every caller passes an empty pointer, so taking a copy ends no owner.\<close>

definition op_retrieveSession :: "string \<Rightarrow> object_pool \<Rightarrow> 's object_heap \<Rightarrow> (lct_err \<times> nat option \<times> 's object_heap) res" where
  "op_retrieveSession keyspace P h = (case map_of (op_sessionMap P) keyspace of
     None \<Rightarrow> Inr (LCT_NOT_SUCH_RECORD, None, h)
   | Some p \<Rightarrow> res_bind (sp_copy p h) (\<lambda>h1. Inr (LCT_SUCCESS, Some p, h1)))"

definition op_release :: "string \<Rightarrow> object_pool \<Rightarrow> 's object_heap \<Rightarrow> (lct_err \<times> object_pool \<times> 's object_heap) res" where
  "op_release keyspace P h =
     res_bind (sp_drop_all LctCassSessionRelease (um_old keyspace (op_sessionMap P)) h) (\<lambda>h1.
     res_bind (sp_drop_all LctCassClusterRelease (um_old keyspace (op_clusterMap P)) h1) (\<lambda>h2.
       Inr (LCT_SUCCESS, P\<lparr>op_sessionMap := um_erase keyspace (op_sessionMap P),
                           op_clusterMap := um_erase keyspace (op_clusterMap P)\<rparr>, h2)))"

definition op_appendSession :: "string \<Rightarrow> nat \<Rightarrow> object_pool \<Rightarrow> 's object_heap \<Rightarrow> (lct_err \<times> object_pool \<times> 's object_heap) res" where
  "op_appendSession keyspace cassSession P h =
     res_bind (sp_copy cassSession h) (\<lambda>h1.
     res_bind (sp_drop_all LctCassSessionRelease (um_old keyspace (op_sessionMap P)) h1) (\<lambda>h2.
       Inr (LCT_SUCCESS, P\<lparr>op_sessionMap := um_put keyspace cassSession (op_sessionMap P)\<rparr>, h2)))"

definition op_appendCluster :: "string \<Rightarrow> nat \<Rightarrow> object_pool \<Rightarrow> 's object_heap \<Rightarrow> (lct_err \<times> object_pool \<times> 's object_heap) res" where
  "op_appendCluster keyspace cluster P h =
     res_bind (sp_copy cluster h) (\<lambda>h1.
     res_bind (sp_drop_all LctCassClusterRelease (um_old keyspace (op_clusterMap P)) h1) (\<lambda>h2.
       Inr (LCT_SUCCESS, P\<lparr>op_clusterMap := um_put keyspace cluster (op_clusterMap P)\<rparr>, h2)))"

text \<open>The end of the scope of \<open>connect\<close>: future, session and cluster, last first.\<close>

definition op_end_connect :: "nat \<Rightarrow> nat \<Rightarrow> nat \<Rightarrow> 's object_heap \<Rightarrow> 's object_heap res" where
  "op_end_connect cluster session connFuture h =
     res_bind (CLctCassFutureRelease (Some connFuture) h) (\<lambda>h1.
     res_bind (sp_drop LctCassSessionRelease session h1) (\<lambda>h2.
     sp_drop LctCassClusterRelease cluster h2))"

definition op_connect ::
    "('s, 'f, 'r, 'p, 'w) cass_driver \<Rightarrow> string \<Rightarrow> object_pool \<Rightarrow> 's object_heap \<Rightarrow> 'w
       \<Rightarrow> (lct_err \<times> object_pool \<times> 's object_heap \<times> 'w) res" where
  "op_connect drv keyspace P h w =
     (case obj_new Obj_cluster h of (cluster, h1) \<Rightarrow>
      case obj_new Obj_session (sp_take cluster h1) of (session, h2) \<Rightarrow>
        let settings = LctCreateCluster\<lparr>cl_contact_points := c_str (op_dbHost P), cl_port := op_dbPort P\<rparr>;
            h3 = (sp_take session h2)\<lparr>oh_settings := (oh_settings h2)(cluster \<mapsto> settings)\<rparr>
        in case obj_new Obj_future h3 of (connFuture, h4) \<Rightarrow>
           case drv_connect drv settings w of (csErr, s, w1) \<Rightarrow>
             if CASS_OK \<noteq> csErr then
               res_bind (op_end_connect cluster session connFuture h4) (\<lambda>h5. Inr (LCT_FAIL, P, h5, w1))
             else res_bind (op_appendSession keyspace session P (h4\<lparr>oh_session := (oh_session h4)(session \<mapsto> s)\<rparr>))
               (\<lambda>(errCode, P1, h5).
                  if LCT_SUCCESS \<noteq> errCode then
                    res_bind (op_end_connect cluster session connFuture h5) (\<lambda>h6. Inr (errCode, P1, h6, w1))
                  else res_bind (op_appendCluster keyspace cluster P1 h5) (\<lambda>(errCode2, P2, h6).
                    res_bind (op_end_connect cluster session connFuture h6) (\<lambda>h7. Inr (errCode2, P2, h7, w1)))))"

definition op_session ::
    "('s, 'f, 'r, 'p, 'w) cass_driver \<Rightarrow> string \<Rightarrow> object_pool \<Rightarrow> 's object_heap \<Rightarrow> 'w
       \<Rightarrow> (lct_err \<times> nat option \<times> object_pool \<times> 's object_heap \<times> 'w) res" where
  "op_session drv keyspace P h w =
     res_bind (op_retrieveSession keyspace P h) (\<lambda>(errCode, s, h1).
       if LCT_SUCCESS \<noteq> errCode then
         res_bind (op_connect drv keyspace P h1 w) (\<lambda>(errCode2, P1, h2, w1).
           if LCT_SUCCESS \<noteq> errCode2 then Inr (errCode2, None, P1, h2, w1)
           else res_bind (op_retrieveSession keyspace P1 h2) (\<lambda>(errCode3, s1, h3). Inr (errCode3, s1, P1, h3, w1)))
       else Inr (errCode, s, P, h1, w))"

definition op_close :: "object_pool \<Rightarrow> 's object_heap \<Rightarrow> (lct_err \<times> object_pool \<times> 's object_heap) res" where
  "op_close P h =
     res_bind (sp_drop_all LctCassSessionRelease (map snd (op_sessionMap P)) h) (\<lambda>h1.
     res_bind (sp_drop_all LctCassClusterRelease (map snd (op_clusterMap P)) h1) (\<lambda>h2.
       Inr (LCT_SUCCESS, P\<lparr>op_sessionMap := [], op_clusterMap := []\<rparr>, h2)))"

text \<open>The destructor: the members end in the reverse of their order.\<close>

definition op_destroy :: "object_pool \<Rightarrow> 's object_heap \<Rightarrow> 's object_heap res" where
  "op_destroy P h =
     res_bind (sp_drop_all LctCassClusterRelease (map snd (op_clusterMap P)) h)
       (sp_drop_all LctCassSessionRelease (map snd (op_sessionMap P)))"

section \<open>What a release function promises\<close>

text \<open>A null pointer is left alone; an object of the kind is freed and nothing else changes.\<close>

locale frees_object =
  fixes release :: "nat option \<Rightarrow> 's object_heap \<Rightarrow> 's object_heap res" and kind :: cass_object
  assumes release_null: "release None h = Inr h"
    and release_frees: "oh_live h p = Some kind \<Longrightarrow> release (Some p) h = Inr (h\<lparr>oh_live := (oh_live h)(p := None)\<rparr>)"
begin

lemma take_and_release:
  "case obj_new kind h of (p, h1) \<Rightarrow> \<exists>h2. release (Some p) h1 = Inr h2 \<and> oh_live h2 = (oh_live h)(oh_next h := None)"
  by (auto simp: obj_new_def release_frees)

lemma last_owner_frees:
  assumes "oh_owners h p = 1" "oh_live h p = Some kind"
  shows "sp_drop release p h = Inr (h\<lparr>oh_owners := (oh_owners h)(p := 0), oh_live := (oh_live h)(p := None)\<rparr>)"
  using assms by (simp add: sp_drop_def release_frees)

end

interpretation cluster_release: frees_object LctCassClusterRelease Obj_cluster
  by unfold_locales (simp_all add: LctCassClusterRelease_def obj_free_def)
interpretation future_release: frees_object LctCassFutureRelease Obj_future
  by unfold_locales (simp_all add: LctCassFutureRelease_def obj_free_def)
interpretation statement_release: frees_object LctCassStatementRelease Obj_statement
  by unfold_locales (simp_all add: LctCassStatementRelease_def obj_free_def)
interpretation result_release: frees_object LctCassResultRelease Obj_result
  by unfold_locales (simp_all add: LctCassResultRelease_def obj_free_def)
interpretation batch_release: frees_object LctCassBatchRelease Obj_batch
  by unfold_locales (simp_all add: LctCassBatchRelease_def obj_free_def)
interpretation future_deleter: frees_object CLctCassFutureRelease Obj_future
  by unfold_locales (simp_all add: CLctCassFutureRelease_def obj_free_def)
interpretation statement_deleter: frees_object CLctCassStatementRelease Obj_statement
  by unfold_locales (simp_all add: CLctCassStatementRelease_def obj_free_def)
interpretation result_deleter: frees_object CLctCassResultRelease Obj_result
  by unfold_locales (simp_all add: CLctCassResultRelease_def obj_free_def)
interpretation iterator_deleter: frees_object CLctCassIteratorRelease Obj_iterator
  by unfold_locales (simp_all add: CLctCassIteratorRelease_def obj_free_def)
interpretation batch_deleter: frees_object CLctCassBatchRelease Obj_batch
  by unfold_locales (simp_all add: CLctCassBatchRelease_def obj_free_def)

text \<open>The session's is not one of them: the session stays, and a future is added.\<close>

lemma session_release_leaks:
  assumes "oh_live h p = Some Obj_session" "oh_live h (oh_next h) = None"
  shows "\<exists>h1. LctCassSessionRelease (Some p) h = Inr h1 \<and> oh_live h1 = (oh_live h)(oh_next h \<mapsto> Obj_future)
           \<and> oh_live h1 p = Some Obj_session \<and> oh_closed h1 = p # oh_closed h"
  using assms by (auto simp: LctCassSessionRelease_def cass_session_close_def obj_new_def)

end
