(* ===== verification/Cass_Objects_Correct.thy ===== *)
theory Cass_Objects_Correct
  imports Cass_Objects
begin

text \<open>
  The pool of sessions never frees or closes an object twice nor one that is still owned, under every
  run of calls and with any number of session pointers held by callers; clusters are freed with their
  last owner, sessions are closed with theirs and stay allocated with the future of the close.  The
  pool of pointers refines the pool of values.
\<close>

section \<open>Heaps that agree with their owners\<close>

text \<open>
  \<open>SO\<close> and \<open>CO\<close> are the owners of sessions and of clusters that exist, in the maps, with callers or in
  local variables; \<open>FO\<close> are the futures of unique pointers.
\<close>

definition heap_ok :: "nat multiset \<Rightarrow> nat multiset \<Rightarrow> nat set \<Rightarrow> 's object_heap \<Rightarrow> bool" where
  "heap_ok SO CO FO h \<longleftrightarrow>
     (\<forall>p. oh_owners h p = count (SO + CO) p)
   \<and> (\<forall>p. oh_live h p = Some Obj_cluster \<longleftrightarrow> p \<in># CO)
   \<and> (\<forall>p. oh_live h p = Some Obj_session \<longleftrightarrow> p \<in># SO \<or> p \<in> set (oh_closed h))
   \<and> set_mset SO \<inter> set (oh_closed h) = {} \<and> distinct (oh_closed h)
   \<and> (\<forall>p. oh_live h p \<noteq> None \<longrightarrow> p < oh_next h)
   \<and> FO \<subseteq> {p. oh_live h p = Some Obj_future} \<and> finite FO
   \<and> card {p. oh_live h p = Some Obj_future} = length (oh_closed h) + card FO"

lemma heap_okD:
  assumes "heap_ok SO CO FO h"
  shows "oh_owners h p = count (SO + CO) p"
    and "oh_live h p = Some Obj_cluster \<longleftrightarrow> p \<in># CO"
    and "oh_live h p = Some Obj_session \<longleftrightarrow> p \<in># SO \<or> p \<in> set (oh_closed h)"
    and "set_mset SO \<inter> set (oh_closed h) = {}" "distinct (oh_closed h)"
    and "oh_live h p \<noteq> None \<Longrightarrow> p < oh_next h"
    and "FO \<subseteq> {p. oh_live h p = Some Obj_future}" "finite FO"
    and "card {p. oh_live h p = Some Obj_future} = length (oh_closed h) + card FO"
  using assms unfolding heap_ok_def by blast+

lemma heap_ok_futures_finite: "heap_ok SO CO FO h \<Longrightarrow> finite {p. oh_live h p = Some Obj_future}"
  by (rule finite_subset [of _ "{..< oh_next h}"]) (auto dest: heap_okD(6))

lemma heap_ok_fresh:
  assumes "heap_ok SO CO FO h"
  shows "oh_live h (oh_next h) = None" "oh_next h \<notin># SO" "oh_next h \<notin># CO" "oh_next h \<notin> set (oh_closed h)" "oh_next h \<notin> FO"
proof -
  show n: "oh_live h (oh_next h) = None"
    using heap_okD(6) [OF assms, of "oh_next h"] by (cases "oh_live h (oh_next h)") auto
  then show "oh_next h \<notin># SO" "oh_next h \<notin># CO" "oh_next h \<notin> set (oh_closed h)" "oh_next h \<notin> FO"
    using heap_okD(2,3) [OF assms, of "oh_next h"] heap_okD(7) [OF assms] by auto
qed

lemma heap_ok_new: "heap_ok {#} {#} {} new_object_heap"
  by (simp add: heap_ok_def new_object_heap_def)

lemma heap_ok_cluster:
  assumes "heap_ok SO CO FO h" "obj_new Obj_cluster h = (p, h1)"
  shows "heap_ok SO (add_mset p CO) FO (sp_take p h1)"
proof -
  note f = heap_ok_fresh [OF assms(1)]
  have p: "p = oh_next h" "h1 = h\<lparr>oh_live := (oh_live h)(p \<mapsto> Obj_cluster), oh_next := Suc p\<rparr>"
    using assms(2) by (auto simp: obj_new_def)
  have "{q. oh_live (sp_take p h1) q = Some Obj_future} = {q. oh_live h q = Some Obj_future}"
    using f p by (auto simp: sp_take_def)
  with assms(1) f p show ?thesis
    unfolding heap_ok_def by (auto simp: sp_take_def not_in_iff)
qed

lemma heap_ok_session:
  assumes "heap_ok SO CO FO h" "obj_new Obj_session h = (p, h1)"
  shows "heap_ok (add_mset p SO) CO FO (sp_take p h1)"
proof -
  note f = heap_ok_fresh [OF assms(1)]
  have p: "p = oh_next h" "h1 = h\<lparr>oh_live := (oh_live h)(p \<mapsto> Obj_session), oh_next := Suc p\<rparr>"
    using assms(2) by (auto simp: obj_new_def)
  have "{q. oh_live (sp_take p h1) q = Some Obj_future} = {q. oh_live h q = Some Obj_future}"
    using f p by (auto simp: sp_take_def)
  with assms(1) f p show ?thesis
    unfolding heap_ok_def by (auto simp: sp_take_def not_in_iff)
qed

lemma heap_ok_future:
  assumes "heap_ok SO CO FO h" "obj_new Obj_future h = (p, h1)"
  shows "heap_ok SO CO (insert p FO) h1"
proof -
  note f = heap_ok_fresh [OF assms(1)]
  have p: "p = oh_next h" "h1 = h\<lparr>oh_live := (oh_live h)(p \<mapsto> Obj_future), oh_next := Suc p\<rparr>"
    using assms(2) by (auto simp: obj_new_def)
  have "{q. oh_live h1 q = Some Obj_future} = insert p {q. oh_live h q = Some Obj_future}"
    using f p by auto
  then have "card {q. oh_live h1 q = Some Obj_future} = length (oh_closed h1) + card (insert p FO)"
    using f p heap_okD(8,9) [OF assms(1)] heap_ok_futures_finite [OF assms(1)] by simp
  with assms(1) f p show ?thesis
    unfolding heap_ok_def by (auto simp: not_in_iff)
qed

lemma heap_ok_values: "heap_ok SO CO FO (h\<lparr>oh_session := v, oh_settings := c\<rparr>) = heap_ok SO CO FO h"
  by (simp add: heap_ok_def)

lemma heap_ok_session_value [simp]: "heap_ok SO CO FO (h\<lparr>oh_session := v\<rparr>) = heap_ok SO CO FO h"
  by (simp add: heap_ok_def)

lemma heap_ok_settings [simp]: "heap_ok SO CO FO (h\<lparr>oh_settings := c\<rparr>) = heap_ok SO CO FO h"
  by (simp add: heap_ok_def)

section \<open>Owners that come and go\<close>

lemma heap_ok_copy_session:
  assumes "heap_ok SO CO FO h" "p \<in># SO"
  shows "\<exists>h1. sp_copy p h = Inr h1 \<and> heap_ok (add_mset p SO) CO FO h1"
  using assms unfolding heap_ok_def sp_copy_def by auto

lemma heap_ok_copy_cluster:
  assumes "heap_ok SO CO FO h" "p \<in># CO"
  shows "\<exists>h1. sp_copy p h = Inr h1 \<and> heap_ok SO (add_mset p CO) FO h1"
  using assms unfolding heap_ok_def sp_copy_def by auto

lemma heap_ok_apart:
  assumes "heap_ok SO CO FO h"
  shows "p \<in># SO \<Longrightarrow> count CO p = 0" "p \<in># CO \<Longrightarrow> count SO p = 0"
  using heap_okD(2,3) [OF assms, of p] by (auto simp: not_in_iff)

text \<open>What no operation on owners touches.\<close>

definition same_values :: "'s object_heap \<Rightarrow> 's object_heap \<Rightarrow> bool" where
  "same_values h h1 \<longleftrightarrow> oh_session h1 = oh_session h \<and> oh_settings h1 = oh_settings h"

lemma same_values_refl [simp]: "same_values h h"
  and same_values_trans: "same_values h h1 \<Longrightarrow> same_values h1 h2 \<Longrightarrow> same_values h h2"
  by (simp_all add: same_values_def)

lemma drop_one_of_many:
  assumes "1 < oh_owners h p"
  shows "sp_drop release p h = Inr (h\<lparr>oh_owners := (oh_owners h)(p := oh_owners h p - 1)\<rparr>)"
  using assms by (simp add: sp_drop_def)

lemma mem_minus_last: "count M p = 1 \<Longrightarrow> q \<in># M - {#p#} \<longleftrightarrow> q \<in># M \<and> q \<noteq> p"
  by (cases "q = p") (auto simp: in_diff_count not_in_iff)

lemma mem_minus_more: "1 < count M p \<Longrightarrow> q \<in># M - {#p#} \<longleftrightarrow> q \<in># M"
  by (cases "q = p") (auto simp: in_diff_count simp flip: count_greater_zero_iff)

lemma heap_ok_drop_cluster:
  assumes ok: "heap_ok SO CO FO h" and p: "p \<in># CO"
  shows "\<exists>h1. sp_drop LctCassClusterRelease p h = Inr h1 \<and> heap_ok SO (CO - {#p#}) FO h1 \<and> same_values h h1"
proof -
  have n: "oh_owners h p = count CO p" "count SO p = 0"
    using heap_okD(1) [OF ok, of p] heap_ok_apart(2) [OF ok p] by simp_all
  have live: "oh_live h p = Some Obj_cluster" using heap_okD(2) [OF ok, of p] p by simp
  have other: "p \<notin># SO" "p \<notin> set (oh_closed h)" using heap_okD(3) [OF ok, of p] live by auto
  show ?thesis
  proof (cases "count CO p = 1")
    case True
    let ?h1 = "h\<lparr>oh_owners := (oh_owners h)(p := 0), oh_live := (oh_live h)(p := None)\<rparr>"
    note m = mem_minus_last [OF True]
    have "{q. oh_live ?h1 q = Some Obj_future} = {q. oh_live h q = Some Obj_future}"
      using live by auto
    then have "heap_ok SO (CO - {#p#}) FO ?h1"
      using ok live n other True unfolding heap_ok_def by (auto simp: m)
    then show ?thesis
      using cluster_release.last_owner_frees [of h p] n True live by (simp add: same_values_def)
  next
    case False
    then have m: "1 < count CO p" using p by (simp add: Suc_lessI)
    then have "heap_ok SO (CO - {#p#}) FO (h\<lparr>oh_owners := (oh_owners h)(p := oh_owners h p - 1)\<rparr>)"
      using ok n unfolding heap_ok_def by (simp add: mem_minus_more [OF m])
    then show ?thesis using drop_one_of_many [of h p] m n by (simp add: same_values_def)
  qed
qed

lemma heap_ok_drop_session:
  assumes ok: "heap_ok SO CO FO h" and p: "p \<in># SO"
  shows "\<exists>h1. sp_drop LctCassSessionRelease p h = Inr h1 \<and> heap_ok (SO - {#p#}) CO FO h1 \<and> same_values h h1"
proof -
  have n: "oh_owners h p = count SO p" "count CO p = 0"
    using heap_okD(1) [OF ok, of p] heap_ok_apart(1) [OF ok p] by simp_all
  have live: "oh_live h p = Some Obj_session" using heap_okD(3) [OF ok, of p] p by simp
  have open_p: "p \<notin> set (oh_closed h)" using heap_okD(4) [OF ok] p by auto
  show ?thesis
  proof (cases "count SO p = 1")
    case True
    let ?h0 = "h\<lparr>oh_owners := (oh_owners h)(p := 0), oh_closed := p # oh_closed h\<rparr>"
    let ?h1 = "snd (obj_new Obj_future ?h0)"
    have d: "sp_drop LctCassSessionRelease p h = Inr ?h1"
      using live n True by (simp add: sp_drop_def LctCassSessionRelease_def cass_session_close_def obj_new_def)
    note f = heap_ok_fresh [OF ok]
    note m = mem_minus_last [OF True]
    have sm: "set_mset (SO - {#p#}) = set_mset SO - {p}" using m by blast
    have "{q. oh_live ?h1 q = Some Obj_future} = insert (oh_next h) {q. oh_live h q = Some Obj_future}"
      using f by (auto simp: obj_new_def)
    then have c: "card {q. oh_live ?h1 q = Some Obj_future} = length (oh_closed ?h1) + card FO"
      using f heap_okD(9) [OF ok] heap_ok_futures_finite [OF ok] by (simp add: obj_new_def)
    have ne: "oh_next h \<noteq> p" using f(1) live by auto
    have "heap_ok (SO - {#p#}) CO FO ?h1"
      unfolding heap_ok_def sm
    proof (intro conjI)
      show "\<forall>q. oh_owners ?h1 q = count (SO - {#p#} + CO) q"
        using heap_okD(1) [OF ok] n True by (simp add: obj_new_def)
      show "\<forall>q. (oh_live ?h1 q = Some Obj_cluster) = (q \<in># CO)"
        using heap_okD(2) [OF ok] f by (simp add: obj_new_def)
      show "\<forall>q. (oh_live ?h1 q = Some Obj_session) = (q \<in> set_mset SO - {p} \<or> q \<in> set (oh_closed ?h1))"
        using heap_okD(3) [OF ok] f ne p by (auto simp: obj_new_def)
      show "(set_mset SO - {p}) \<inter> set (oh_closed ?h1) = {}" "distinct (oh_closed ?h1)"
        using heap_okD(4,5) [OF ok] open_p by (auto simp: obj_new_def)
      show "\<forall>q. oh_live ?h1 q \<noteq> None \<longrightarrow> q < oh_next ?h1"
        using heap_okD(6) [OF ok] by (fastforce simp: obj_new_def less_Suc_eq)
      show "FO \<subseteq> {q. oh_live ?h1 q = Some Obj_future}" "finite FO"
        using heap_okD(7,8) [OF ok] by (auto simp: obj_new_def)
      show "card {q. oh_live ?h1 q = Some Obj_future} = length (oh_closed ?h1) + card FO" by (rule c)
    qed
    then show ?thesis using d by (simp add: same_values_def obj_new_def)
  next
    case False
    then have m: "1 < count SO p" using p by (simp add: Suc_lessI)
    moreover have "set_mset (SO - {#p#}) = set_mset SO" using mem_minus_more [OF m] by blast
    ultimately have "heap_ok (SO - {#p#}) CO FO (h\<lparr>oh_owners := (oh_owners h)(p := oh_owners h p - 1)\<rparr>)"
      using ok n unfolding heap_ok_def by simp
    then show ?thesis using drop_one_of_many [of h p] m n by (simp add: same_values_def)
  qed
qed

lemma heap_ok_drop_future:
  assumes ok: "heap_ok SO CO FO h" and p: "p \<in> FO"
  shows "\<exists>h1. CLctCassFutureRelease (Some p) h = Inr h1 \<and> heap_ok SO CO (FO - {p}) h1 \<and> same_values h h1"
proof -
  have live: "oh_live h p = Some Obj_future" using heap_okD(7) [OF ok] p by auto
  let ?h1 = "h\<lparr>oh_live := (oh_live h)(p := None)\<rparr>"
  have e: "{q. oh_live ?h1 q = Some Obj_future} = {q. oh_live h q = Some Obj_future} - {p}" by auto
  have np: "p \<notin># CO" "p \<notin># SO" "p \<notin> set (oh_closed h)" using heap_okD(2,3) [OF ok, of p] live by auto
  have pos: "0 < card FO" using p heap_okD(8) [OF ok] by (auto simp: card_gt_0_iff)
  have c: "card {q. oh_live ?h1 q = Some Obj_future} = length (oh_closed ?h1) + card (FO - {p})"
    unfolding e using live heap_okD(8,9) [OF ok] heap_ok_futures_finite [OF ok] p pos by simp
  have "heap_ok SO CO (FO - {p}) ?h1"
    unfolding heap_ok_def
  proof (intro conjI)
    show "\<forall>q. oh_owners ?h1 q = count (SO + CO) q" using heap_okD(1) [OF ok] by simp
    show "\<forall>q. (oh_live ?h1 q = Some Obj_cluster) = (q \<in># CO)" using heap_okD(2) [OF ok] np by auto
    show "\<forall>q. (oh_live ?h1 q = Some Obj_session) = (q \<in># SO \<or> q \<in> set (oh_closed ?h1))"
      using heap_okD(3) [OF ok] np by auto
    show "set_mset SO \<inter> set (oh_closed ?h1) = {}" "distinct (oh_closed ?h1)" using heap_okD(4,5) [OF ok] by simp_all
    show "\<forall>q. oh_live ?h1 q \<noteq> None \<longrightarrow> q < oh_next ?h1" using heap_okD(6) [OF ok] by simp
    show "FO - {p} \<subseteq> {q. oh_live ?h1 q = Some Obj_future}" "finite (FO - {p})" using heap_okD(7,8) [OF ok] by auto
  qed (rule c)
  then show ?thesis using future_deleter.release_frees [OF live] by (simp add: same_values_def)
qed

lemma heap_ok_drop_sessions:
  assumes "heap_ok SO CO FO h" "mset ps \<subseteq># SO"
  shows "\<exists>h1. sp_drop_all LctCassSessionRelease ps h = Inr h1 \<and> heap_ok (SO - mset ps) CO FO h1 \<and> same_values h h1"
  using assms
proof (induction ps arbitrary: SO h)
  case (Cons p ps)
  have p: "p \<in># SO" and sub: "mset ps \<subseteq># SO - {#p#}"
    using Cons.prems(2) by (simp_all add: insert_subset_eq_iff)
  obtain h1 where h1: "sp_drop LctCassSessionRelease p h = Inr h1" "heap_ok (SO - {#p#}) CO FO h1" "same_values h h1"
    using heap_ok_drop_session [OF Cons.prems(1) p] by blast
  obtain h2 where "sp_drop_all LctCassSessionRelease ps h1 = Inr h2" "heap_ok (SO - {#p#} - mset ps) CO FO h2" "same_values h1 h2"
    using Cons.IH [OF h1(2) sub] by blast
  with h1 show ?case by (auto intro: same_values_trans)
qed simp

lemma heap_ok_drop_clusters:
  assumes "heap_ok SO CO FO h" "mset ps \<subseteq># CO"
  shows "\<exists>h1. sp_drop_all LctCassClusterRelease ps h = Inr h1 \<and> heap_ok SO (CO - mset ps) FO h1 \<and> same_values h h1"
  using assms
proof (induction ps arbitrary: CO h)
  case (Cons p ps)
  have p: "p \<in># CO" and sub: "mset ps \<subseteq># CO - {#p#}"
    using Cons.prems(2) by (simp_all add: insert_subset_eq_iff)
  obtain h1 where h1: "sp_drop LctCassClusterRelease p h = Inr h1" "heap_ok SO (CO - {#p#}) FO h1" "same_values h h1"
    using heap_ok_drop_cluster [OF Cons.prems(1) p] by blast
  obtain h2 where "sp_drop_all LctCassClusterRelease ps h1 = Inr h2" "heap_ok SO (CO - {#p#} - mset ps) FO h2" "same_values h1 h2"
    using Cons.IH [OF h1(2) sub] by blast
  with h1 show ?case by (auto intro: same_values_trans)
qed simp

section \<open>The maps\<close>

definition pointers :: "(string \<times> nat) list \<Rightarrow> nat multiset" where
  "pointers m = mset (map snd m)"

lemma pointers_Nil [simp]: "pointers [] = {#}"
  and set_pointers [simp]: "set_mset (pointers m) = snd ` set m"
  by (simp_all add: pointers_def)

lemma pointers_split: "pointers m = pointers (um_erase k m) + mset (um_old k m)"
  by (induction m) (auto simp: um_erase_def um_old_def pointers_def)

lemma um_old_sub: "mset (um_old k m) \<subseteq># pointers m"
  using pointers_split [of m k] by simp

lemma pointers_erase: "pointers m - mset (um_old k m) = pointers (um_erase k m)"
  using pointers_split [of m k] by simp

lemma pointers_put: "add_mset p (pointers m + L) - mset (um_old k m) = pointers (um_put k p m) + L"
  using pointers_split [of m k] by (simp add: um_put_def pointers_def)

lemma map_of_erase [simp]: "map_of (um_erase k m) = (map_of m)(k := None)"
  by (induction m) (auto simp: um_erase_def fun_eq_iff)

lemma map_of_put [simp]: "map_of (um_put k p m) = (map_of m)(k \<mapsto> p)"
  by (simp add: um_put_def)

lemma distinct_erase: "distinct (map fst m) \<Longrightarrow> distinct (map fst (um_erase k m))"
  by (simp add: um_erase_def distinct_map_filter)

lemma distinct_put: "distinct (map fst m) \<Longrightarrow> distinct (map fst (um_put k p m))"
  by (simp add: um_put_def distinct_erase) (auto simp: um_erase_def)

lemma set_erase: "snd ` set (um_erase k m) \<subseteq> snd ` set m"
  by (auto simp: um_erase_def)

lemma set_put: "snd ` set (um_put k p m) \<subseteq> insert p (snd ` set m)"
  by (auto simp: um_put_def um_erase_def)

lemma pointers_mem: "map_of m k = Some p \<Longrightarrow> p \<in> snd ` set m"
  by (force dest: map_of_SomeD)

section \<open>The operations of the pool\<close>

lemma heap_ok_put_session:
  assumes "heap_ok (pointers (op_sessionMap P) + L) CO FO h" "s \<in># L"
  shows "\<exists>h1. op_appendSession k s P h = Inr (LCT_SUCCESS, P\<lparr>op_sessionMap := um_put k s (op_sessionMap P)\<rparr>, h1)
     \<and> heap_ok (pointers (um_put k s (op_sessionMap P)) + L) CO FO h1 \<and> same_values h h1"
proof -
  let ?m = "op_sessionMap P"
  obtain h0 where h0: "sp_copy s h = Inr h0" "heap_ok (add_mset s (pointers ?m + L)) CO FO h0"
    using heap_ok_copy_session [OF assms(1), of s] assms(2) by auto
  have v: "same_values h h0" using h0(1) by (auto simp: sp_copy_def same_values_def split: if_splits)
  have "mset (um_old k ?m) \<subseteq># add_mset s (pointers ?m + L)"
    using um_old_sub [of k ?m] by (simp add: subset_mset.add_increasing2 subset_mset.order_trans)
  from heap_ok_drop_sessions [OF h0(2) this] obtain h1 where h1:
    "sp_drop_all LctCassSessionRelease (um_old k ?m) h0 = Inr h1"
    "heap_ok (add_mset s (pointers ?m + L) - mset (um_old k ?m)) CO FO h1" "same_values h0 h1" by blast
  with h0 h1 v show ?thesis by (auto simp: pointers_put op_appendSession_def intro: same_values_trans)
qed

lemma heap_ok_put_cluster:
  assumes "heap_ok SO (pointers (op_clusterMap P) + L) FO h" "s \<in># L"
  shows "\<exists>h1. op_appendCluster k s P h = Inr (LCT_SUCCESS, P\<lparr>op_clusterMap := um_put k s (op_clusterMap P)\<rparr>, h1)
     \<and> heap_ok SO (pointers (um_put k s (op_clusterMap P)) + L) FO h1 \<and> same_values h h1"
proof -
  let ?m = "op_clusterMap P"
  obtain h0 where h0: "sp_copy s h = Inr h0" "heap_ok SO (add_mset s (pointers ?m + L)) FO h0"
    using heap_ok_copy_cluster [OF assms(1), of s] assms(2) by auto
  have v: "same_values h h0" using h0(1) by (auto simp: sp_copy_def same_values_def split: if_splits)
  have "mset (um_old k ?m) \<subseteq># add_mset s (pointers ?m + L)"
    using um_old_sub [of k ?m] by (simp add: subset_mset.add_increasing2 subset_mset.order_trans)
  from heap_ok_drop_clusters [OF h0(2) this] obtain h1 where h1:
    "sp_drop_all LctCassClusterRelease (um_old k ?m) h0 = Inr h1"
    "heap_ok SO (add_mset s (pointers ?m + L) - mset (um_old k ?m)) FO h1" "same_values h0 h1" by blast
  with h0 h1 v show ?thesis by (auto simp: pointers_put op_appendCluster_def intro: same_values_trans)
qed

lemma heap_ok_end_connect:
  assumes "heap_ok (add_mset s SO) (add_mset c CO) {f} h"
  shows "\<exists>h1. op_end_connect c s f h = Inr h1 \<and> heap_ok SO CO {} h1 \<and> same_values h h1"
proof -
  obtain h1 where h1: "CLctCassFutureRelease (Some f) h = Inr h1" "heap_ok (add_mset s SO) (add_mset c CO) {} h1" "same_values h h1"
    using heap_ok_drop_future [OF assms, of f] by auto
  obtain h2 where h2: "sp_drop LctCassSessionRelease s h1 = Inr h2" "heap_ok SO (add_mset c CO) {} h2" "same_values h1 h2"
    using heap_ok_drop_session [OF h1(2), of s] by auto
  obtain h3 where "sp_drop LctCassClusterRelease c h2 = Inr h3" "heap_ok SO CO {} h3" "same_values h2 h3"
    using heap_ok_drop_cluster [OF h2(2), of c] by auto
  with h1 h2 show ?thesis by (auto simp: op_end_connect_def intro: same_values_trans)
qed

text \<open>\<open>L\<close> are the sessions that callers hold.\<close>

definition pool_ok :: "object_pool \<Rightarrow> nat multiset \<Rightarrow> 's object_heap \<Rightarrow> bool" where
  "pool_ok P L h \<longleftrightarrow> heap_ok (pointers (op_sessionMap P) + L) (pointers (op_clusterMap P)) {} h
     \<and> distinct (map fst (op_sessionMap P)) \<and> distinct (map fst (op_clusterMap P))
     \<and> (\<forall>p \<in> snd ` set (op_sessionMap P). oh_session h p \<noteq> None)
     \<and> (\<forall>p \<in> snd ` set (op_clusterMap P). oh_settings h p \<noteq> None)"

definition mset_option :: "'a option \<Rightarrow> 'a multiset" where
  "mset_option r = (case r of None \<Rightarrow> {#} | Some p \<Rightarrow> {#p#})"

lemma mset_option_simps [simp]: "mset_option None = {#}" "mset_option (Some p) = {#p#}"
  by (simp_all add: mset_option_def)

text \<open>The pool of values that a pool of pointers stands for.\<close>

definition abs_pool :: "object_pool \<Rightarrow> 's object_heap \<Rightarrow> 's conn_pool" where
  "abs_pool P h = \<lparr>m_dbPort = op_dbPort P, m_dbHost = op_dbHost P,
     m_sessionMap = (\<lambda>k. Option.bind (map_of (op_sessionMap P) k) (oh_session h)),
     m_clusterMap = (\<lambda>k. Option.bind (map_of (op_clusterMap P) k) (oh_settings h))\<rparr>"

lemma pool_ok_new: "pool_ok (new_object_pool port host) {#} new_object_heap"
  by (simp add: pool_ok_def new_object_pool_def heap_ok_new)

lemma abs_pool_new: "abs_pool (new_object_pool port host) h = new_conn_pool port host"
  by (simp add: abs_pool_def new_object_pool_def new_conn_pool_def)

lemma abs_pool_same: "same_values h h1 \<Longrightarrow> abs_pool P h1 = abs_pool P h"
  by (simp add: abs_pool_def same_values_def)

lemma pool_ok_live:
  assumes "pool_ok P L h"
  shows "p \<in> snd ` set (op_sessionMap P) \<Longrightarrow> p < oh_next h" "p \<in> snd ` set (op_clusterMap P) \<Longrightarrow> p < oh_next h"
proof -
  have ok: "heap_ok (pointers (op_sessionMap P) + L) (pointers (op_clusterMap P)) {} h"
    using assms by (simp add: pool_ok_def)
  show "p \<in> snd ` set (op_sessionMap P) \<Longrightarrow> p < oh_next h" "p \<in> snd ` set (op_clusterMap P) \<Longrightarrow> p < oh_next h"
    using heap_okD(2,3,6) [OF ok, of p] by auto
qed

lemma bind_update_elsewhere:
  "p \<notin> snd ` set m \<Longrightarrow> Option.bind (map_of m k) (g(p := v)) = Option.bind (map_of m k) g"
  by (cases "map_of m k") (auto dest: pointers_mem)

lemma connect_ok:
  assumes "pool_ok P L h"
  shows "\<exists>P1 h1. op_connect drv k P h w = Inr (fst (pool_connect drv k (abs_pool P h) w), P1, h1, snd (snd (pool_connect drv k (abs_pool P h) w)))
     \<and> pool_ok P1 L h1 \<and> abs_pool P1 h1 = fst (snd (pool_connect drv k (abs_pool P h) w))
     \<and> (\<forall>q < oh_next h. oh_session h1 q = oh_session h q)"
proof -
  let ?M = "pointers (op_sessionMap P)" and ?N = "pointers (op_clusterMap P)"
  let ?set = "LctCreateCluster\<lparr>cl_contact_points := c_str (op_dbHost P), cl_port := op_dbPort P\<rparr>"
  obtain c h1 where c: "obj_new Obj_cluster h = (c, h1)" by (metis prod.exhaust)
  obtain s h2 where s: "obj_new Obj_session (sp_take c h1) = (s, h2)" by (metis prod.exhaust)
  define h3 where "h3 = (sp_take s h2)\<lparr>oh_settings := (oh_settings h2)(c \<mapsto> ?set)\<rparr>"
  obtain f h4 where f: "obj_new Obj_future h3 = (f, h4)" by (metis prod.exhaust)
  obtain e x w1 where d: "drv_connect drv ?set w = (e, x, w1)" by (metis prod_cases3)
  have ok: "heap_ok (?M + L) ?N {} h" using assms by (simp add: pool_ok_def)
  have ok3: "heap_ok (add_mset s (?M + L)) (add_mset c ?N) {} h3"
    unfolding h3_def using heap_ok_session [OF heap_ok_cluster [OF ok c] s] by simp
  have ok4: "heap_ok (add_mset s (?M + L)) (add_mset c ?N) {f} h4" by (rule heap_ok_future [OF ok3 f])
  have cs: "c = oh_next h" "s = Suc (oh_next h)"
    using c s by (auto simp: obj_new_def sp_take_def)
  have v4: "oh_session h4 = oh_session h" "oh_settings h4 = (oh_settings h)(c \<mapsto> ?set)"
    using c s f by (auto simp: obj_new_def sp_take_def h3_def)
  note old = pool_ok_live [OF assms]
  have fresh: "c \<notin> snd ` set (op_clusterMap P)" "s \<notin> snd ` set (op_sessionMap P)"
    using old cs by fastforce+
  have set_a: "?set = LctCreateCluster\<lparr>cl_contact_points := c_str (m_dbHost (abs_pool P h)), cl_port := m_dbPort (abs_pool P h)\<rparr>"
    by (simp add: abs_pool_def)
  show ?thesis
  proof (cases "e = CASS_OK")
    case False
    obtain h5 where h5: "op_end_connect c s f h4 = Inr h5" "heap_ok (?M + L) ?N {} h5" "same_values h4 h5"
      using heap_ok_end_connect [OF ok4] by blast
    have r: "op_connect drv k P h w = Inr (LCT_FAIL, P, h5, w1)"
      using False h5(1) d by (simp add: op_connect_def c s f flip: h3_def)
    have p: "pool_connect drv k (abs_pool P h) w = (LCT_FAIL, abs_pool P h, w1)"
      using False d set_a by (simp add: pool_connect_def)
    have v5: "oh_session h5 = oh_session h" "oh_settings h5 = (oh_settings h)(c \<mapsto> ?set)"
      using h5(3) v4 by (simp_all add: same_values_def)
    have "pool_ok P L h5" using assms h5(2) v5 by (auto simp: pool_ok_def)
    moreover have "abs_pool P h5 = abs_pool P h"
      using fresh by (simp add: abs_pool_def v5 bind_update_elsewhere)
    ultimately show ?thesis using r p v5 by simp
  next
    case True
    let ?h5 = "h4\<lparr>oh_session := (oh_session h4)(s \<mapsto> x)\<rparr>"
    let ?P1 = "P\<lparr>op_sessionMap := um_put k s (op_sessionMap P)\<rparr>"
    let ?P2 = "?P1\<lparr>op_clusterMap := um_put k c (op_clusterMap P)\<rparr>"
    obtain h6 where h6: "op_appendSession k s P ?h5 = Inr (LCT_SUCCESS, ?P1, h6)"
      "heap_ok (pointers (um_put k s (op_sessionMap P)) + add_mset s L) (add_mset c ?N) {f} h6" "same_values ?h5 h6"
      using heap_ok_put_session [of P "add_mset s L" "add_mset c ?N" "{f}" ?h5 s k] ok4 by auto
    obtain h7 where h7: "op_appendCluster k c ?P1 h6 = Inr (LCT_SUCCESS, ?P2, h7)"
      "heap_ok (pointers (um_put k s (op_sessionMap P)) + add_mset s L) (pointers (um_put k c (op_clusterMap P)) + {#c#}) {f} h7"
      "same_values h6 h7"
      using heap_ok_put_cluster [of _ ?P1 "{#c#}" "{f}" h6 c k] h6(2) by auto
    obtain h8 where h8: "op_end_connect c s f h7 = Inr h8"
      "heap_ok (pointers (um_put k s (op_sessionMap P)) + L) (pointers (um_put k c (op_clusterMap P))) {} h8" "same_values h7 h8"
      using heap_ok_end_connect [of s "pointers (um_put k s (op_sessionMap P)) + L" c "pointers (um_put k c (op_clusterMap P))" f h7]
        h7(2) by auto
    have r: "op_connect drv k P h w = Inr (LCT_SUCCESS, ?P2, h8, w1)"
      using True h6(1) h7(1) h8(1) d by (simp add: op_connect_def c s f flip: h3_def)
    have p: "pool_connect drv k (abs_pool P h) w = (LCT_SUCCESS, (abs_pool P h)\<lparr>m_sessionMap := (m_sessionMap (abs_pool P h))(k \<mapsto> x),
        m_clusterMap := (m_clusterMap (abs_pool P h))(k \<mapsto> ?set)\<rparr>, w1)"
      using True d set_a by (simp add: pool_connect_def appendSession_def appendCluster_def)
    have v8: "oh_session h8 = (oh_session h)(s \<mapsto> x)" "oh_settings h8 = (oh_settings h)(c \<mapsto> ?set)"
      using h6(3) h7(3) h8(3) v4 by (simp_all add: same_values_def)
    have "\<forall>q \<in> snd ` set (um_put k s (op_sessionMap P)). oh_session h8 q \<noteq> None"
      "\<forall>q \<in> snd ` set (um_put k c (op_clusterMap P)). oh_settings h8 q \<noteq> None"
      using assms by (auto simp: v8 pool_ok_def um_put_def um_erase_def)
    then have ok8: "pool_ok ?P2 L h8"
      using assms h8(2) by (simp add: pool_ok_def distinct_put)
    have "abs_pool ?P2 h8 = (abs_pool P h)\<lparr>m_sessionMap := (m_sessionMap (abs_pool P h))(k \<mapsto> x),
        m_clusterMap := (m_clusterMap (abs_pool P h))(k \<mapsto> ?set)\<rparr>"
      using fresh by (auto simp: abs_pool_def v8 bind_update_elsewhere fun_eq_iff)
    then show ?thesis using r p ok8 v8 cs by simp
  qed
qed

lemma retrieve_ok:
  assumes "pool_ok P L h"
  shows "\<exists>r h1. op_retrieveSession k P h = Inr (fst (retrieveSession k (abs_pool P h)), r, h1)
     \<and> pool_ok P (mset_option r + L) h1 \<and> same_values h h1
     \<and> snd (retrieveSession k (abs_pool P h)) = Option.bind r (oh_session h1)
     \<and> (r = None \<longleftrightarrow> snd (retrieveSession k (abs_pool P h)) = None)"
proof (cases "map_of (op_sessionMap P) k")
  case None
  then show ?thesis using assms by (simp add: op_retrieveSession_def retrieveSession_def abs_pool_def)
next
  case (Some p)
  then have p: "p \<in> snd ` set (op_sessionMap P)" by (rule pointers_mem)
  obtain x where x: "oh_session h p = Some x" using assms p by (auto simp: pool_ok_def)
  obtain h1 where h1: "sp_copy p h = Inr h1"
    "heap_ok (add_mset p (pointers (op_sessionMap P) + L)) (pointers (op_clusterMap P)) {} h1"
    using heap_ok_copy_session [of "pointers (op_sessionMap P) + L" "pointers (op_clusterMap P)" "{}" h p] assms p
    by (auto simp: pool_ok_def)
  then have v: "same_values h h1" by (auto simp: sp_copy_def same_values_def split: if_splits)
  have "pool_ok P (add_mset p L) h1" using assms h1(2) v by (simp add: pool_ok_def same_values_def)
  then show ?thesis
    using Some h1(1) v x by (auto simp: op_retrieveSession_def retrieveSession_def abs_pool_def same_values_def)
qed

lemma owned_session_ok:
  assumes "pool_ok P L h"
  shows "\<exists>e r P1 h1 w1. op_session drv k P h w = Inr (e, r, P1, h1, w1) \<and> pool_ok P1 (mset_option r + L) h1
     \<and> pool_session drv k (abs_pool P h) w = (e, Option.bind r (oh_session h1), abs_pool P1 h1, w1)
     \<and> (\<forall>q < oh_next h. oh_session h1 q = oh_session h q)"
proof -
  obtain r h1 where r: "op_retrieveSession k P h = Inr (fst (retrieveSession k (abs_pool P h)), r, h1)"
      "pool_ok P (mset_option r + L) h1" "same_values h h1"
      "snd (retrieveSession k (abs_pool P h)) = Option.bind r (oh_session h1)"
      "r = None \<longleftrightarrow> snd (retrieveSession k (abs_pool P h)) = None"
    using retrieve_ok [OF assms] by blast
  obtain e v where ev: "retrieveSession k (abs_pool P h) = (e, v)" by (metis prod.exhaust)
  show ?thesis
  proof (cases "e = LCT_SUCCESS")
    case True
    then show ?thesis using r ev by (simp add: op_session_def pool_session_def abs_pool_same) (simp add: same_values_def)
  next
    case False
    then have n: "r = None" "h1 = h"
      using r(1,5) ev by (auto simp: retrieveSession_def op_retrieveSession_def res_bind_Inr_iff split: option.splits)
    obtain e2 p2 w2 where c: "pool_connect drv k (abs_pool P h) w = (e2, p2, w2)" by (metis prod_cases3)
    obtain P2 h2 where k2: "op_connect drv k P h w = Inr (e2, P2, h2, w2)" "pool_ok P2 L h2" "abs_pool P2 h2 = p2"
        "\<forall>q < oh_next h. oh_session h2 q = oh_session h q"
      using connect_ok [OF assms, of drv k w] c by auto
    show ?thesis
    proof (cases "e2 = LCT_SUCCESS")
      case False
      then show ?thesis using \<open>e \<noteq> LCT_SUCCESS\<close> r(1) n ev c k2 by (simp add: op_session_def pool_session_def)
    next
      case True
      obtain r3 h3 where r3: "op_retrieveSession k P2 h2 = Inr (fst (retrieveSession k p2), r3, h3)"
          "pool_ok P2 (mset_option r3 + L) h3" "same_values h2 h3" "snd (retrieveSession k p2) = Option.bind r3 (oh_session h3)"
        using retrieve_ok [OF k2(2), of k] k2(3) by blast
      have "pool_session drv k (abs_pool P h) w = (fst (retrieveSession k p2), Option.bind r3 (oh_session h3), abs_pool P2 h3, w2)"
        using \<open>e \<noteq> LCT_SUCCESS\<close> True ev c r3(3,4) k2(3)
        by (cases "retrieveSession k p2") (simp add: pool_session_def abs_pool_same)
      then show ?thesis
        using \<open>e \<noteq> LCT_SUCCESS\<close> True r(1) n ev k2 r3(1,2,3) by (simp add: op_session_def same_values_def)
    qed
  qed
qed

lemma pool_ok_drop:
  assumes "pool_ok P (add_mset p L) h"
  shows "\<exists>h1. sp_drop LctCassSessionRelease p h = Inr h1 \<and> pool_ok P L h1 \<and> same_values h h1"
  using heap_ok_drop_session [of "pointers (op_sessionMap P) + add_mset p L" "pointers (op_clusterMap P)" "{}" h p] assms
  by (auto simp: pool_ok_def same_values_def)

lemma release_ok:
  assumes "pool_ok P L h"
  shows "\<exists>P1 h1. op_release k P h = Inr (LCT_SUCCESS, P1, h1) \<and> pool_ok P1 L h1 \<and> same_values h h1
     \<and> pool_release k (abs_pool P h) = (LCT_SUCCESS, abs_pool P1 h1)"
proof -
  let ?S = "op_sessionMap P" and ?C = "op_clusterMap P"
  obtain h1 where h1: "sp_drop_all LctCassSessionRelease (um_old k ?S) h = Inr h1"
      "heap_ok (pointers ?S + L - mset (um_old k ?S)) (pointers ?C) {} h1" "same_values h h1"
    using heap_ok_drop_sessions [of "pointers ?S + L" "pointers ?C" "{}" h "um_old k ?S"] assms um_old_sub [of k ?S]
    by (auto simp: pool_ok_def subset_mset.add_increasing2)
  obtain h2 where h2: "sp_drop_all LctCassClusterRelease (um_old k ?C) h1 = Inr h2"
      "heap_ok (pointers ?S + L - mset (um_old k ?S)) (pointers ?C - mset (um_old k ?C)) {} h2" "same_values h1 h2"
    using heap_ok_drop_clusters [OF h1(2) um_old_sub] by blast
  have e: "pointers ?S + L - mset (um_old k ?S) = pointers (um_erase k ?S) + L"
    using pointers_split [of ?S k] by simp
  have v: "same_values h h2" using h1(3) h2(3) by (rule same_values_trans)
  let ?P1 = "P\<lparr>op_sessionMap := um_erase k ?S, op_clusterMap := um_erase k ?C\<rparr>"
  have "pool_ok ?P1 L h2"
    using assms h2(2) v unfolding e pointers_erase pool_ok_def
    by (auto simp: same_values_def distinct_map_filter um_erase_def)
  moreover have "pool_release k (abs_pool P h) = (LCT_SUCCESS, abs_pool ?P1 h2)"
    by (simp add: pool_release_def abs_pool_def v [unfolded same_values_def]) (auto simp: fun_eq_iff)
  ultimately show ?thesis using h1(1) h2(1) v by (simp add: op_release_def)
qed

lemma close_ok:
  assumes "pool_ok P L h"
  shows "\<exists>P1 h1. op_close P h = Inr (LCT_SUCCESS, P1, h1) \<and> pool_ok P1 L h1 \<and> same_values h h1
     \<and> op_sessionMap P1 = [] \<and> op_clusterMap P1 = [] \<and> pool_close (abs_pool P h) = (LCT_SUCCESS, abs_pool P1 h1)"
proof -
  let ?S = "op_sessionMap P" and ?C = "op_clusterMap P"
  have ok: "heap_ok (pointers ?S + L) (pointers ?C) {} h" using assms by (simp add: pool_ok_def)
  obtain h1 where h1: "sp_drop_all LctCassSessionRelease (map snd ?S) h = Inr h1" "heap_ok L (pointers ?C) {} h1" "same_values h h1"
    using heap_ok_drop_sessions [OF ok, of "map snd ?S"] by (auto simp: pointers_def)
  obtain h2 where h2: "sp_drop_all LctCassClusterRelease (map snd ?C) h1 = Inr h2" "heap_ok L {#} {} h2" "same_values h1 h2"
    using heap_ok_drop_clusters [OF h1(2), of "map snd ?C"] by (auto simp: pointers_def)
  have v: "same_values h h2" using h1(3) h2(3) by (rule same_values_trans)
  show ?thesis
    using h1(1) h2(1,2) v by (simp add: op_close_def pool_ok_def pool_close_def abs_pool_def)
qed

lemma destroy_ok:
  assumes "pool_ok P L h"
  shows "\<exists>h1. op_destroy P h = Inr h1 \<and> heap_ok L {#} {} h1"
proof -
  let ?S = "op_sessionMap P" and ?C = "op_clusterMap P"
  have ok: "heap_ok (pointers ?S + L) (pointers ?C) {} h" using assms by (simp add: pool_ok_def)
  obtain h1 where h1: "sp_drop_all LctCassClusterRelease (map snd ?C) h = Inr h1" "heap_ok (pointers ?S + L) {#} {} h1"
    using heap_ok_drop_clusters [OF ok, of "map snd ?C"] by (auto simp: pointers_def)
  obtain h2 where "sp_drop_all LctCassSessionRelease (map snd ?S) h1 = Inr h2" "heap_ok L {#} {} h2"
    using heap_ok_drop_sessions [OF h1(2), of "map snd ?S"] by (auto simp: pointers_def)
  with h1 show ?thesis by (auto simp: op_destroy_def)
qed

section \<open>Runs of calls\<close>

text \<open>Calls of a pool by users that keep the session pointers they get, and drop them in any order.\<close>

datatype object_call = Obj_get string | Obj_release string | Obj_close | Obj_drop nat

record ('s, 'w) object_sys =
  bs_pool :: object_pool
  bs_heap :: "'s object_heap"
  bs_world :: 'w
  bs_held :: "nat list"

definition fresh_objects :: "int \<Rightarrow> string \<Rightarrow> 'w \<Rightarrow> ('s, 'w) object_sys" where
  "fresh_objects port host w = \<lparr>bs_pool = new_object_pool port host, bs_heap = new_object_heap, bs_world = w, bs_held = []\<rparr>"

definition do_object_call :: "('s, 'f, 'r, 'p, 'w) cass_driver \<Rightarrow> object_call \<Rightarrow> ('s, 'w) object_sys \<Rightarrow> ('s, 'w) object_sys res" where
  "do_object_call drv c S = (case c of
     Obj_get k \<Rightarrow> res_bind (op_session drv k (bs_pool S) (bs_heap S) (bs_world S)) (\<lambda>(e, r, P, h, w).
       Inr (S\<lparr>bs_pool := P, bs_heap := h, bs_world := w, bs_held := (case r of None \<Rightarrow> bs_held S | Some p \<Rightarrow> p # bs_held S)\<rparr>))
   | Obj_release k \<Rightarrow> res_bind (op_release k (bs_pool S) (bs_heap S)) (\<lambda>(e, P, h). Inr (S\<lparr>bs_pool := P, bs_heap := h\<rparr>))
   | Obj_close \<Rightarrow> res_bind (op_close (bs_pool S) (bs_heap S)) (\<lambda>(e, P, h). Inr (S\<lparr>bs_pool := P, bs_heap := h\<rparr>))
   | Obj_drop i \<Rightarrow> if i < length (bs_held S) then
       res_bind (sp_drop LctCassSessionRelease (bs_held S ! i) (bs_heap S))
         (\<lambda>h. Inr (S\<lparr>bs_heap := h, bs_held := take i (bs_held S) @ drop (Suc i) (bs_held S)\<rparr>))
       else Inr S)"

fun object_calls :: "('s, 'f, 'r, 'p, 'w) cass_driver \<Rightarrow> object_call list \<Rightarrow> ('s, 'w) object_sys \<Rightarrow> ('s, 'w) object_sys res" where
  "object_calls drv [] S = Inr S"
| "object_calls drv (c # cs) S = res_bind (do_object_call drv c S) (object_calls drv cs)"

definition sys_ok :: "('s, 'w) object_sys \<Rightarrow> bool" where
  "sys_ok S \<longleftrightarrow> pool_ok (bs_pool S) (mset (bs_held S)) (bs_heap S)"

lemma fresh_objects_ok: "sys_ok (fresh_objects port host w)"
  by (simp add: sys_ok_def fresh_objects_def pool_ok_new)

lemma mset_without:
  assumes "i < length xs"
  shows "mset xs = add_mset (xs ! i) (mset (take i xs @ drop (Suc i) xs))"
proof -
  have "mset xs = mset (take i xs @ xs ! i # drop (Suc i) xs)"
    by (rule arg_cong [OF id_take_nth_drop [OF assms]])
  then show ?thesis by simp
qed

lemma call_ok:
  assumes "sys_ok S"
  shows "\<exists>S1. do_object_call drv c S = Inr S1 \<and> sys_ok S1"
proof -
  note ok = assms [unfolded sys_ok_def]
  show ?thesis
  proof (cases c)
    case (Obj_get k)
    obtain e r P1 h1 w1 where "op_session drv k (bs_pool S) (bs_heap S) (bs_world S) = Inr (e, r, P1, h1, w1)"
        "pool_ok P1 (mset_option r + mset (bs_held S)) h1"
      using owned_session_ok [OF ok, of drv k "bs_world S"] by blast
    then show ?thesis by (auto simp: do_object_call_def Obj_get sys_ok_def split: option.split)
  next
    case (Obj_release k)
    then show ?thesis using release_ok [OF ok, of k] by (auto simp: do_object_call_def sys_ok_def)
  next
    case Obj_close
    then show ?thesis using close_ok [OF ok] by (auto simp: do_object_call_def sys_ok_def)
  next
    case (Obj_drop i)
    show ?thesis
    proof (cases "i < length (bs_held S)")
      case True
      show ?thesis using pool_ok_drop [OF ok [unfolded mset_without [OF True]]] True
        by (auto simp: do_object_call_def Obj_drop sys_ok_def)
    qed (use assms in \<open>simp add: do_object_call_def Obj_drop\<close>)
  qed
qed

lemma calls_ok:
  assumes "sys_ok S"
  shows "\<exists>S1. object_calls drv cs S = Inr S1 \<and> sys_ok S1"
  using assms
proof (induction cs arbitrary: S)
  case (Cons c cs)
  obtain S1 where "do_object_call drv c S = Inr S1" "sys_ok S1" using call_ok [OF Cons.prems] by blast
  then show ?case using Cons.IH [of S1] by simp
qed simp

text \<open>
  C39: For every driver and every run of calls, in which users keep the session pointers they get as
  long as they like, no object is freed or closed twice, used after its release or released while it is
  owned: exactly the clusters of the pool are alive; a session that the pool or a user owns is alive and
  not closed, and every other one was closed once, when its last owner went.
\<close>

theorem pool_objects_released_once:
  "\<exists>S. object_calls drv cs (fresh_objects port host w) = Inr S
     \<and> (\<forall>p. oh_live (bs_heap S) p = Some Obj_cluster \<longleftrightarrow> p \<in> snd ` set (op_clusterMap (bs_pool S)))
     \<and> (\<forall>p. oh_live (bs_heap S) p = Some Obj_session
           \<longleftrightarrow> p \<in> snd ` set (op_sessionMap (bs_pool S)) \<union> set (bs_held S) \<union> set (oh_closed (bs_heap S)))
     \<and> (snd ` set (op_sessionMap (bs_pool S)) \<union> set (bs_held S)) \<inter> set (oh_closed (bs_heap S)) = {}
     \<and> distinct (oh_closed (bs_heap S))"
proof -
  obtain S where S: "object_calls drv cs (fresh_objects port host w) = Inr S" "sys_ok S"
    using calls_ok [OF fresh_objects_ok, of drv cs port host w] by blast
  have ok: "heap_ok (pointers (op_sessionMap (bs_pool S)) + mset (bs_held S)) (pointers (op_clusterMap (bs_pool S))) {} (bs_heap S)"
    using S(2) by (simp add: sys_ok_def pool_ok_def)
  show ?thesis
    using S(1) heap_okD(2,3,4,5) [OF ok] by (intro exI [of _ S]) auto
qed

section \<open>The pool of values\<close>

fun value_calls :: "('s, 'f, 'r, 'p, 'w) cass_driver \<Rightarrow> object_call list \<Rightarrow> 's conn_pool \<times> 'w \<Rightarrow> 's conn_pool \<times> 'w" where
  "value_calls drv [] (p, w) = (p, w)"
| "value_calls drv (c # cs) (p, w) = value_calls drv cs (case c of
     Obj_get k \<Rightarrow> (case pool_session drv k p w of (e, s, p1, w1) \<Rightarrow> (p1, w1))
   | Obj_release k \<Rightarrow> (snd (pool_release k p), w)
   | Obj_close \<Rightarrow> (snd (pool_close p), w)
   | Obj_drop i \<Rightarrow> (p, w))"

lemma call_refines:
  assumes "sys_ok S" "do_object_call drv c S = Inr S1"
  shows "value_calls drv [c] (abs_pool (bs_pool S) (bs_heap S), bs_world S) = (abs_pool (bs_pool S1) (bs_heap S1), bs_world S1)"
proof -
  note ok = assms(1) [unfolded sys_ok_def]
  show ?thesis
  proof (cases c)
    case (Obj_get k)
    show ?thesis using owned_session_ok [OF ok, of drv k "bs_world S"] assms(2) by (auto simp: do_object_call_def Obj_get)
  next
    case (Obj_release k)
    show ?thesis using release_ok [OF ok, of k] assms(2) by (auto simp: do_object_call_def Obj_release)
  next
    case Obj_close
    show ?thesis using close_ok [OF ok] assms(2) by (auto simp: do_object_call_def Obj_close)
  next
    case (Obj_drop i)
    show ?thesis
    proof (cases "i < length (bs_held S)")
      case True
      show ?thesis using pool_ok_drop [OF ok [unfolded mset_without [OF True]]] assms(2) True
        by (auto simp: do_object_call_def Obj_drop abs_pool_same)
    qed (use assms(2) in \<open>simp add: do_object_call_def Obj_drop\<close>)
  qed
qed

lemma value_calls_step: "value_calls drv (c # cs) x = value_calls drv cs (value_calls drv [c] x)"
proof -
  have "value_calls drv [] y = y" for y by (cases y) simp
  then show ?thesis by (cases x) simp
qed

text \<open>
  A run on pointers and the run on values do the same to the driver and leave the same pool, and a call
  after it gives the same code and the session that the pointer stands for.
\<close>

theorem pointer_pool_refines:
  "\<exists>S. object_calls drv cs (fresh_objects port host w) = Inr S
     \<and> value_calls drv cs (new_conn_pool port host, w) = (abs_pool (bs_pool S) (bs_heap S), bs_world S)
     \<and> (\<forall>k. \<exists>e r P h w1. op_session drv k (bs_pool S) (bs_heap S) (bs_world S) = Inr (e, r, P, h, w1)
           \<and> pool_session drv k (abs_pool (bs_pool S) (bs_heap S)) (bs_world S) = (e, Option.bind r (oh_session h), abs_pool P h, w1))"
proof -
  have run: "\<exists>S1. object_calls drv cs S = Inr S1 \<and> sys_ok S1
      \<and> value_calls drv cs (abs_pool (bs_pool S) (bs_heap S), bs_world S) = (abs_pool (bs_pool S1) (bs_heap S1), bs_world S1)"
    if "sys_ok S" for S using that
  proof (induction cs arbitrary: S)
    case (Cons c cs)
    obtain S1 where S1: "do_object_call drv c S = Inr S1" "sys_ok S1" using call_ok [OF Cons.prems] by blast
    show ?case
      unfolding value_calls_step [of drv c cs] call_refines [OF Cons.prems S1(1)] using Cons.IH [OF S1(2)] S1(1) by simp
  qed simp
  obtain S where S: "object_calls drv cs (fresh_objects port host w) = Inr S" "sys_ok S"
      "value_calls drv cs (new_conn_pool port host, w) = (abs_pool (bs_pool S) (bs_heap S), bs_world S)"
    using run [OF fresh_objects_ok [of port host w]] by (auto simp: fresh_objects_def abs_pool_new)
  have "\<exists>e r P h w1. op_session drv k (bs_pool S) (bs_heap S) (bs_world S) = Inr (e, r, P, h, w1)
      \<and> pool_session drv k (abs_pool (bs_pool S) (bs_heap S)) (bs_world S) = (e, Option.bind r (oh_session h), abs_pool P h, w1)" for k
    using owned_session_ok [OF S(2) [unfolded sys_ok_def], of drv k "bs_world S"] by blast
  then show ?thesis using S(1,3) by blast
qed

text \<open>
  After the pool is destroyed and every user has dropped its sessions, no cluster is left, but every
  session that was opened is still allocated, and with it the future of its close.
\<close>

theorem destroyed_pool_keeps_sessions:
  assumes "sys_ok S" "bs_held S = []"
  shows "\<exists>h. op_destroy (bs_pool S) (bs_heap S) = Inr h \<and> (\<forall>p. oh_live h p \<noteq> Some Obj_cluster)
     \<and> {p. oh_live h p = Some Obj_session} = set (oh_closed h)
     \<and> card {p. oh_live h p = Some Obj_future} = card {p. oh_live h p = Some Obj_session}"
proof -
  obtain h where h: "op_destroy (bs_pool S) (bs_heap S) = Inr h" "heap_ok {#} {#} {} h"
    using destroy_ok [of "bs_pool S" "{#}" "bs_heap S"] assms by (auto simp: sys_ok_def)
  have s: "{p. oh_live h p = Some Obj_session} = set (oh_closed h)" using heap_okD(3) [OF h(2)] by simp
  have "card (set (oh_closed h)) = length (oh_closed h)" by (rule distinct_card [OF heap_okD(5) [OF h(2)]])
  then show ?thesis using h(1) s heap_okD(2,9) [OF h(2)] by simp
qed

lemma one_session_leaks:
  assumes "drv_connect drv (LctCreateCluster\<lparr>cl_contact_points := c_str host, cl_port := port\<rparr>) w = (CASS_OK, s, w1)"
  shows "\<exists>S h. object_calls drv [Obj_get k, Obj_drop 0] (fresh_objects port host w) = Inr S
     \<and> op_destroy (bs_pool S) (bs_heap S) = Inr h \<and> oh_live h = [1 \<mapsto> Obj_session, 3 \<mapsto> Obj_future]"
  using assms
  by (simp add: fresh_objects_def new_object_pool_def new_object_heap_def do_object_call_def op_session_def
      op_retrieveSession_def op_connect_def obj_new_def sp_take_def op_appendSession_def op_appendCluster_def
      sp_copy_def um_old_def um_put_def um_erase_def op_end_connect_def CLctCassFutureRelease_def obj_free_def
      sp_drop_def LctCassSessionRelease_def LctCassClusterRelease_def cass_session_close_def op_destroy_def numeral_3_eq_3)

end
