(* ===== verification/Circular_Buffer_Life.thy ===== *)
theory Circular_Buffer_Life
  imports Circular_Buffer_Correct
begin

text \<open>
  The life of the objects in a circular buffer (\<open>common/detail/lct_circular_buffer.hpp\<close>): which
  objects the buffer constructs in its block and which it destroys, over any program of calls and
  the buffer's own end.  A call on a full buffer breaks the balance (\<open>failed_push_overwrites_oldest\<close>,
  \<open>destroy_full_leaks\<close>); programs that leave room keep it.
\<close>

section \<open>Programs of calls\<close>

datatype 'a cb_call = Call_push 'a | Call_emplace 'a | Call_pop | Call_peek

text \<open>
  What happened to the objects is read off the block before and after a call: an object is
  constructed where a raw cell has become live, and destroyed where a live cell has become raw.
  Placement new over a live cell is neither, so that it leaves an object unaccounted for.
\<close>

fun constructed :: "'a option list \<Rightarrow> 'a option list \<Rightarrow> 'a list" where
  "constructed (None # m) (Some x # m1) = x # constructed m m1"
| "constructed (_ # m) (_ # m1) = constructed m m1"
| "constructed _ _ = []"

fun destroyed :: "'a option list \<Rightarrow> 'a option list \<Rightarrow> 'a list" where
  "destroyed (Some x # m) (None # m1) = x # destroyed m m1"
| "destroyed (_ # m) (_ # m1) = destroyed m m1"
| "destroyed _ _ = []"

fun call_on :: "'a cb_call \<Rightarrow> 'a cbuf \<Rightarrow> 'a cbuf res" where
  "call_on (Call_push x) b = res_bind (cbT_push b x) (\<lambda>(_, b1). Inr b1)"
| "call_on (Call_emplace x) b = res_bind (cbT_emplace_move b x) (\<lambda>(_, b1). Inr b1)"
| "call_on Call_pop b = res_bind (cbT_pop b) (\<lambda>(_, _, b1). Inr b1)"
| "call_on Call_peek b = res_bind (cb_peek b) (\<lambda>_. Inr b)"

text \<open>The buffer, the objects constructed in it and the objects destroyed in it, in order.\<close>

type_synonym 'a cb_life = "'a cbuf \<times> 'a list \<times> 'a list"

definition life_step :: "'a cb_call \<Rightarrow> 'a cb_life \<Rightarrow> 'a cb_life res" where
  "life_step c s = (case s of (b, born, dead) \<Rightarrow>
     res_bind (call_on c b) (\<lambda>b1. Inr (b1, born @ constructed (cb_mem b) (cb_mem b1), dead @ destroyed (cb_mem b) (cb_mem b1))))"

fun life_run :: "'a cb_call list \<Rightarrow> 'a cb_life \<Rightarrow> 'a cb_life res" where
  "life_run [] s = Inr s"
| "life_run (c # cs) s = res_bind (life_step c s) (life_run cs)"

text \<open>
  The program never puts into a full buffer and does not leave it full: with \<open>n\<close> objects held
  at its start, in a buffer of \<open>sz\<close>.
\<close>

fun leaves_room :: "nat \<Rightarrow> nat \<Rightarrow> 'a cb_call list \<Rightarrow> bool" where
  "leaves_room sz n [] \<longleftrightarrow> n < sz"
| "leaves_room sz n (Call_push x # cs) \<longleftrightarrow> n < sz \<and> leaves_room sz (Suc n) cs"
| "leaves_room sz n (Call_emplace x # cs) \<longleftrightarrow> n < sz \<and> leaves_room sz (Suc n) cs"
| "leaves_room sz n (Call_pop # cs) \<longleftrightarrow> leaves_room sz (n - 1) cs"
| "leaves_room sz n (Call_peek # cs) \<longleftrightarrow> leaves_room sz n cs"

fun put_in :: "'a cb_call list \<Rightarrow> 'a list" where
  "put_in [] = []"
| "put_in (Call_push x # cs) = x # put_in cs"
| "put_in (Call_emplace x # cs) = x # put_in cs"
| "put_in (_ # cs) = put_in cs"

section \<open>The end of the buffer\<close>

lemma destroy_from_slot:
  assumes inv: "cb_inv b" and room: "cb_count b < cb_size b" and "j \<le> cb_count b"
  shows "cbT_destroy_from b (cb_slot b j) done = Some (Inr (done @ drop j (cb_list b)))"
  using assms(3)
proof (induction "cb_count b - j" arbitrary: j "done")
  case 0
  then have "j = cb_count b" by simp
  then show ?case using cb_invD(5) [OF inv] by (simp add: cbT_destroy_from.simps)
next
  case (Suc k)
  note i = cb_invD [OF inv]
  have j: "j < cb_count b" using Suc.hyps(2) by simp
  have "cb_slot b j \<noteq> cb_vlast b" using i j room slot_inj [OF i(3), of j "cb_count b"] by simp
  moreover have "cb_increment b (cb_slot b j) = cb_slot b (Suc j)" using i(1) by (rule increment_slot)
  moreover have "drop j (cb_list b) = cb_list b ! j # drop (Suc j) (cb_list b)"
    using j by (metis Cons_nth_drop_Suc length_cb_list)
  ultimately show ?case
    using Suc.hyps(1) [of "Suc j" "done @ [cb_list b ! j]"] Suc.hyps(2) j get_slot [OF inv j]
    by (subst cbT_destroy_from.simps) simp
qed

lemma destroy_with_room: "cb_inv b \<Longrightarrow> cb_count b < cb_size b \<Longrightarrow> cbT_destroy b = Some (Inr (cb_list b))"
  using destroy_from_slot [of b 0 "[]"] cb_invD(3) [of b] by (simp add: cbT_destroy_def)

section \<open>The balance\<close>

lemma constructed_simps [simp]:
  "constructed m m = []"
  "constructed m (m[i := None]) = []"
  "i < length m \<Longrightarrow> m ! i = None \<Longrightarrow> constructed m (m[i := Some x]) = [x]"
proof -
  show 1: "constructed m m = []" for m :: "'a option list"
  proof (induction m)
    case (Cons c m)
    then show ?case by (cases c) simp_all
  qed simp
  show "constructed m (m[i := None]) = []"
  proof (induction m arbitrary: i)
    case (Cons c m)
    then show ?case using 1 [of m] by (cases i; cases c) simp_all
  qed simp
  show "i < length m \<Longrightarrow> m ! i = None \<Longrightarrow> constructed m (m[i := Some x]) = [x]"
  proof (induction m arbitrary: i)
    case (Cons c m)
    then show ?case using 1 [of m] by (cases i; cases c) simp_all
  qed simp
qed

lemma destroyed_simps [simp]:
  "destroyed m m = []"
  "destroyed m (m[i := Some y]) = []"
  "i < length m \<Longrightarrow> m ! i = Some x \<Longrightarrow> destroyed m (m[i := None]) = [x]"
proof -
  show 1: "destroyed m m = []" for m :: "'a option list"
  proof (induction m)
    case (Cons c m)
    then show ?case by (cases c) simp_all
  qed simp
  show "destroyed m (m[i := Some y]) = []"
  proof (induction m arbitrary: i)
    case (Cons c m)
    then show ?case using 1 [of m] by (cases i; cases c) simp_all
  qed simp
  show "i < length m \<Longrightarrow> m ! i = Some x \<Longrightarrow> destroyed m (m[i := None]) = [x]"
  proof (induction m arbitrary: i)
    case (Cons c m)
    then show ?case using 1 [of m] by (cases i; cases c) simp_all
  qed simp
qed

text \<open>No object lives outside the content of the buffer.\<close>

definition rest_raw :: "'a cbuf \<Rightarrow> bool" where
  "rest_raw b \<longleftrightarrow> (\<forall>p < cb_size b. (\<forall>j < cb_count b. p \<noteq> cb_slot b j) \<longrightarrow> cb_mem b ! p = None)"

definition life_inv :: "nat \<Rightarrow> 'a cb_life \<Rightarrow> bool" where
  "life_inv sz s \<longleftrightarrow> (case s of (b, born, dead) \<Rightarrow>
     cb_inv b \<and> cb_size b = sz \<and> rest_raw b \<and> born = dead @ cb_list b)"

lemma push_constructs:
  assumes i: "cb_inv b" and raw: "rest_raw b" and lt: "cb_count b < cb_size b"
  shows "\<exists>b1. cbT_push b x = Inr (LCT_SUCCESS, b1) \<and> cb_inv b1 \<and> cb_list b1 = cb_list b @ [x] \<and> cb_size b1 = cb_size b
     \<and> rest_raw b1 \<and> constructed (cb_mem b) (cb_mem b1) = [x] \<and> destroyed (cb_mem b) (cb_mem b1) = []"
proof -
  note d = cb_invD [OF i]
  define b1 where "b1 = b\<lparr>cb_mem := (cb_mem b)[cb_vlast b := Some x], cb_vlast := cb_increment b (cb_vlast b),
              cb_count := Suc (cb_count b)\<rparr>"
  have p: "cbT_push b x = Inr (LCT_SUCCESS, b1)"
    using lt d by (simp add: b1_def cbT_push_def mem_put_def cbT_append_def cb_full_def Let_def)
  have s: "cb_inv b1" "cb_list b1 = cb_list b @ [x]"
    using store_room [OF i lt, of b1 x] by (simp_all add: b1_def)
  have "cb_vlast b \<noteq> cb_slot b j" if "j < cb_count b" for j
    using that d(3,5) lt slot_inj [OF d(3), of j "cb_count b"] by simp
  then have "cb_mem b ! cb_vlast b = None" using raw d(6) unfolding rest_raw_def by blast
  then have c: "constructed (cb_mem b) (cb_mem b1) = [x]" "destroyed (cb_mem b) (cb_mem b1) = []"
    using d(2,6) by (simp_all add: b1_def)
  have "rest_raw b1" unfolding rest_raw_def
  proof (intro allI impI)
    fix q assume q: "q < cb_size b1" "\<forall>j < cb_count b1. q \<noteq> cb_slot b1 j"
    have sl: "cb_slot b1 j = cb_slot b j" for j by (simp add: b1_def cb_slot_def)
    have "q \<noteq> cb_vlast b" "\<forall>j < cb_count b. q \<noteq> cb_slot b j"
      using q(2) d(5) unfolding sl by (simp_all add: b1_def)
    then show "cb_mem b1 ! q = None" using raw q(1) by (simp add: b1_def rest_raw_def)
  qed
  then show ?thesis using p s c by (intro exI [of _ b1]) (simp add: b1_def)
qed

lemma pop_destroys:
  assumes i: "cb_inv b" and raw: "rest_raw b" and l: "cb_list b = x # xs"
  shows "\<exists>b1. cbT_pop b = Inr (LCT_SUCCESS, Some x, b1) \<and> cb_inv b1 \<and> cb_list b1 = xs \<and> cb_size b1 = cb_size b
     \<and> rest_raw b1 \<and> constructed (cb_mem b) (cb_mem b1) = [] \<and> destroyed (cb_mem b) (cb_mem b1) = [x]"
proof -
  note d = cb_invD [OF i]
  have n: "0 < cb_count b" using l length_cb_list [of b] by simp
  define b1 where "b1 = b\<lparr>cb_vfirst := cb_increment b (cb_vfirst b), cb_mem := (cb_mem b)[cb_vfirst b := None],
              cb_count := cb_count b - 1\<rparr>"
  have p: "cbT_pop b = Inr (LCT_SUCCESS, Some x, b1)"
    using n get_front [OF i n] l by (simp add: b1_def cbT_pop_def Let_def)
  have s: "cb_inv b1" "cb_list b1 = xs" using advance [OF i n, of b1 None] l by (simp_all add: b1_def)
  have "cb_mem b ! cb_vfirst b = Some x" using cb_cell [OF i n] l d(3) by simp
  then have c: "constructed (cb_mem b) (cb_mem b1) = []" "destroyed (cb_mem b) (cb_mem b1) = [x]"
    using d(2,3) by (simp_all add: b1_def)
  have "rest_raw b1" unfolding rest_raw_def
  proof (intro allI impI)
    fix q assume q: "q < cb_size b1" "\<forall>j < cb_count b1. q \<noteq> cb_slot b1 j"
    have sl: "cb_slot b1 j = cb_slot b (Suc j)" for j
      by (rule slot_shift) (simp_all add: b1_def increment_vfirst [OF d(3)])
    show "cb_mem b1 ! q = None"
    proof (cases "q = cb_vfirst b")
      case False
      have "q \<noteq> cb_slot b j" if "j < cb_count b" for j
      proof (cases j)
        case 0
        then show ?thesis using False d(3) by simp
      next
        case (Suc k)
        then show ?thesis using q(2) that unfolding sl by (simp add: b1_def)
      qed
      then show ?thesis using raw q(1) False by (simp add: b1_def rest_raw_def)
    qed (use d(2,3) in \<open>simp add: b1_def\<close>)
  qed
  then show ?thesis using p s c by (intro exI [of _ b1]) (simp add: b1_def)
qed

lemma life_inv_step:
  assumes inv: "life_inv sz (b, born, dead)" and room: "leaves_room sz (cb_count b) (c # cs)"
  shows "\<exists>b1 born1 dead1. life_step c (b, born, dead) = Inr (b1, born1, dead1) \<and> life_inv sz (b1, born1, dead1)
     \<and> leaves_room sz (cb_count b1) cs \<and> born1 = born @ put_in [c]"
proof -
  have i: "cb_inv b" "cb_size b = sz" "rest_raw b" "born = dead @ cb_list b" using inv by (auto simp: life_inv_def)
  have push: "\<exists>b1. cbT_push b x = Inr (LCT_SUCCESS, b1) \<and> life_inv sz (b1, born @ [x], dead) \<and> cb_count b1 = Suc (cb_count b)
      \<and> constructed (cb_mem b) (cb_mem b1) = [x] \<and> destroyed (cb_mem b) (cb_mem b1) = []"
    if lt: "cb_count b < sz" for x
  proof -
    obtain b1 where b1: "cbT_push b x = Inr (LCT_SUCCESS, b1)" "cb_inv b1" "cb_list b1 = cb_list b @ [x]" "cb_size b1 = cb_size b"
      "rest_raw b1" "constructed (cb_mem b) (cb_mem b1) = [x]" "destroyed (cb_mem b) (cb_mem b1) = []"
      using push_constructs [OF i(1,3), of x] i(2) lt by blast
    have "cb_count b1 = Suc (cb_count b)" using b1(3) length_cb_list [of b1] by simp
    then show ?thesis using b1 i by (simp add: life_inv_def)
  qed
  show ?thesis
  proof (cases c)
    case (Call_push x)
    then show ?thesis using push [of x] room by (auto simp: life_step_def)
  next
    case (Call_emplace x)
    then show ?thesis using push [of x] room by (auto simp: life_step_def cbT_emplace_move_def cbT_push_def)
  next
    case Call_peek
    have "\<exists>r. cb_peek b = Inr r" using get_front [OF i(1)] by (simp add: cb_peek_def)
    then show ?thesis using Call_peek inv room by (auto simp: life_step_def)
  next
    case Call_pop
    show ?thesis
    proof (cases "cb_list b")
      case Nil
      then have n: "cb_count b = 0" using length_cb_list [of b] by simp
      then show ?thesis using Call_pop inv room cbT_pop_empty [OF n] by (simp add: life_step_def)
    next
      case (Cons x xs)
      then obtain b1 where b1: "cbT_pop b = Inr (LCT_SUCCESS, Some x, b1)" "cb_inv b1" "cb_list b1 = xs" "cb_size b1 = cb_size b"
        "rest_raw b1" "constructed (cb_mem b) (cb_mem b1) = []" "destroyed (cb_mem b) (cb_mem b1) = [x]"
        using pop_destroys [OF i(1,3)] by blast
      have "cb_count b1 = cb_count b - 1" using Cons b1(3) length_cb_list [of b] length_cb_list [of b1] by simp
      then show ?thesis using Call_pop room b1 i Cons by (simp add: life_step_def life_inv_def)
    qed
  qed
qed

lemma life_inv_run:
  "life_inv sz (b, born, dead) \<Longrightarrow> leaves_room sz (cb_count b) cs \<Longrightarrow>
     \<exists>b1 born1 dead1. life_run cs (b, born, dead) = Inr (b1, born1, dead1) \<and> life_inv sz (b1, born1, dead1)
       \<and> cb_count b1 < sz \<and> born1 = born @ put_in cs"
proof (induction cs arbitrary: b born dead)
  case (Cons c cs)
  obtain b1 born1 dead1 where s: "life_step c (b, born, dead) = Inr (b1, born1, dead1)" "life_inv sz (b1, born1, dead1)"
    "leaves_room sz (cb_count b1) cs" "born1 = born @ put_in [c]"
    using life_inv_step [OF Cons.prems] by blast
  have "put_in (c # cs) = put_in [c] @ put_in cs" by (cases c) simp_all
  then show ?case using Cons.IH [OF s(2,3)] s(1,4) by auto
qed simp

text \<open>
  C24: over any program of calls that leaves room in the buffer, and the end of the buffer after
  it, nothing undefined happens and every object constructed in the block is destroyed exactly
  once, in the order of construction: those popped while the program runs, the rest by the
  destructor.  Constructions and destructions are those of the memory: raw cells that became live,
  live cells that became raw.
\<close>

theorem objects_destroyed_once_in_order:
  assumes "leaves_room (max sz 1) 0 cs"
  shows "\<exists>b dead rest. life_run cs (cbT_new sz, [], []) = Inr (b, put_in cs, dead)
     \<and> cbT_destroy b = Some (Inr rest) \<and> dead @ rest = put_in cs"
proof -
  have n: "life_inv (max sz 1) (cbT_new sz, [], [])" "cb_count (cbT_new sz :: 'a cbuf) = 0"
    using cbT_new_correct [of sz] by (auto simp: life_inv_def cbT_new_def rest_raw_def)
  obtain b born dead where r: "life_run cs (cbT_new sz, [], []) = Inr (b, born, dead)" "life_inv (max sz 1) (b, born, dead)"
    "cb_count b < max sz 1" "born = [] @ put_in cs"
    using life_inv_run [OF n(1), of cs] assms n(2) by auto
  then show ?thesis using destroy_with_room [of b] by (auto simp: life_inv_def)
qed

theorem objects_destroyed_once_in_order_witness:
  "\<exists>b dead rest. life_run [Call_push (1::nat), Call_emplace 2, Call_pop, Call_push 3, Call_pop] (cbT_new 2, [], []) = Inr (b, [1, 2, 3], dead)
     \<and> cbT_destroy b = Some (Inr rest) \<and> dead @ rest = [1, 2, 3]"
  using objects_destroyed_once_in_order [of 2 "[Call_push (1::nat), Call_emplace 2, Call_pop, Call_push 3, Call_pop]"] by simp

end
