(* ===== verification/Buffer_Demo.thy ===== *)
theory Buffer_Demo
  imports Circular_Buffer_Life
begin

text \<open>
  \<open>tutorial/circular_buffer_sanity_test/sanity_main.cpp\<close>: objects that own a block of the heap, in
  a circular buffer.  The heap is the set of blocks in use; what is printed is a list of lines,
  without the addresses and source line numbers that the program adds.
\<close>

section \<open>Tracers\<close>

datatype out_line =
  Text_line string
| Object_line string int
| Pair_line string int
| Display_line int

record tracer_host =
  th_next :: nat
  th_live :: "nat list"
  th_out :: "out_line list"

record tracer =
  tr_id :: int
  tr_ptr :: "nat option"

definition tracer_print :: "out_line \<Rightarrow> tracer_host \<Rightarrow> tracer_host" where
  "tracer_print l h = h\<lparr>th_out := th_out h @ [l]\<rparr>"

text \<open>\<open>new char[BUFFER_SIZE]\<close> and \<open>delete[]\<close>: releasing a block that is not in use is undefined.\<close>

definition new_block :: "tracer_host \<Rightarrow> nat \<times> tracer_host" where
  "new_block h = (th_next h, h\<lparr>th_next := Suc (th_next h), th_live := th_next h # th_live h\<rparr>)"

definition delete_block :: "nat \<Rightarrow> tracer_host \<Rightarrow> tracer_host res" where
  "delete_block p h = (if p \<in> set (th_live h) then Inr (h\<lparr>th_live := remove1 p (th_live h)\<rparr>) else Inl Undefined)"

definition BUFFER_SIZE :: int where "BUFFER_SIZE = 128 * 1024"

definition new_tracer :: "tracer_host \<Rightarrow> tracer \<times> tracer_host" where
  "new_tracer h = (case new_block (tracer_print (Object_line ''CTracer()'' 0) h) of (p, h1) \<Rightarrow>
     (\<lparr>tr_id = 0, tr_ptr = Some p\<rparr>, h1))"

definition new_tracer_int :: "int \<Rightarrow> tracer_host \<Rightarrow> tracer \<times> tracer_host" where
  "new_tracer_int i h = (case new_block h of (p, h1) \<Rightarrow>
     (\<lparr>tr_id = i, tr_ptr = Some p\<rparr>, tracer_print (Object_line ''CTracer(int32_t)'' i) h1))"

definition destroy_tracer :: "tracer \<Rightarrow> tracer_host \<Rightarrow> tracer_host res" where
  "destroy_tracer x h = (let h1 = tracer_print (Object_line ''~CTracer()'' (tr_id x)) h in
     case tr_ptr x of None \<Rightarrow> Inr h1 | Some p \<Rightarrow> delete_block p h1)"

definition copy_tracer :: "tracer \<Rightarrow> tracer_host \<Rightarrow> tracer \<times> tracer_host" where
  "copy_tracer that h = (case new_block h of (p, h1) \<Rightarrow>
     (\<lparr>tr_id = tr_id that, tr_ptr = Some p\<rparr>, tracer_print (Pair_line ''CTracer(const CTracer&)'' (tr_id that)) h1))"

definition assign_tracer :: "tracer \<Rightarrow> tracer \<Rightarrow> tracer_host \<Rightarrow> tracer \<times> tracer_host" where
  "assign_tracer this that h =
     (this\<lparr>tr_id := tr_id that\<rparr>, tracer_print (Pair_line ''operator=(const CTracer&)'' (tr_id that)) h)"

text \<open>The result of a move is the new or assigned object and the one moved from.\<close>

definition move_tracer :: "tracer \<Rightarrow> tracer_host \<Rightarrow> tracer \<times> tracer \<times> tracer_host" where
  "move_tracer that h = (case new_block h of (p, h1) \<Rightarrow>
     (\<lparr>tr_id = tr_id that, tr_ptr = Some p\<rparr>, \<lparr>tr_id = -1, tr_ptr = None\<rparr>,
      tracer_print (Pair_line ''CTracer(CTracer&&)'' (tr_id that)) h1))"

definition move_assign_tracer :: "tracer \<Rightarrow> tracer \<Rightarrow> tracer_host \<Rightarrow> tracer \<times> tracer \<times> tracer_host" where
  "move_assign_tracer this that h =
     (this\<lparr>tr_id := tr_id that\<rparr>, that\<lparr>tr_id := -1\<rparr>, tracer_print (Pair_line ''operator=(CTracer&&)'' (tr_id that)) h)"

definition display :: "tracer \<Rightarrow> tracer_host \<Rightarrow> tracer_host" where
  "display x h = tracer_print (Display_line (tr_id x)) h"

definition tracer_size :: int where "tracer_size = BUFFER_SIZE + 4"

section \<open>The program\<close>

fun emplace_all :: "int list \<Rightarrow> tracer cbuf \<Rightarrow> tracer_host \<Rightarrow> (tracer cbuf \<times> tracer_host) res" where
  "emplace_all [] b h = Inr (b, h)"
| "emplace_all (i # is) b h = (case new_tracer_int i h of (x, h1) \<Rightarrow>
     res_bind (cbT_emplace b (\<lambda>_. x) i) (\<lambda>(_, b1). emplace_all is b1 h1))"

definition show_buffer :: "tracer cbuf \<Rightarrow> tracer_host \<Rightarrow> tracer_host res option" where
  "show_buffer b h = map_option (\<lambda>r. res_bind r (\<lambda>(errCode, h1). Inr
       (tracer_print (Text_line (if LCT_SUCCESS \<noteq> errCode then ''Failed to iterate circular buffer'' else ''Finished iterator'')) h1)))
     (cb_iterate b display h)"

fun destroy_tracers :: "tracer list \<Rightarrow> tracer_host \<Rightarrow> tracer_host res" where
  "destroy_tracers [] h = Inr h"
| "destroy_tracers (x # xs) h = res_bind (destroy_tracer x h) (destroy_tracers xs)"

text \<open>\<open>buffer.pop(ttracer)\<close>: the assignment, then the destructor of the object in the block.\<close>

definition pop_tracer :: "tracer cbuf \<Rightarrow> tracer \<Rightarrow> tracer_host \<Rightarrow> (tracer \<times> tracer cbuf \<times> tracer_host) res" where
  "pop_tracer b obj h = res_bind (cbT_pop b) (\<lambda>(_, x, b1). case x of
       None \<Rightarrow> Inr (obj, b1, h)
     | Some y \<Rightarrow> (case assign_tracer obj y h of (obj1, h1) \<Rightarrow> res_bind (destroy_tracer y h1) (\<lambda>h2. Inr (obj1, b1, h2))))"

text \<open>\<open>main\<close>; the locals go in the reverse order of their construction.\<close>

definition sanity_main :: "tracer_host \<Rightarrow> tracer_host res option" where
  "sanity_main h =
     (case emplace_all [100, 200, 300, 400, 500] (cbT_new 20) h of
        Inl e \<Rightarrow> Some (Inl e)
      | Inr (b, h1) \<Rightarrow> (case show_buffer b (tracer_print (Text_line ''Going to iterate buffer:::::'') h1) of
          None \<Rightarrow> None
        | Some (Inl e) \<Rightarrow> Some (Inl e)
        | Some (Inr h2) \<Rightarrow> (case new_tracer h2 of (ttracer, h3) \<Rightarrow>
           (case pop_tracer b ttracer h3 of
              Inl e \<Rightarrow> Some (Inl e)
            | Inr (t1, b1, h4) \<Rightarrow> (case show_buffer b1 (display t1 h4) of
                None \<Rightarrow> None
              | Some (Inl e) \<Rightarrow> Some (Inl e)
              | Some (Inr h5) \<Rightarrow> (case destroy_tracer t1 h5 of
                  Inl e \<Rightarrow> Some (Inl e)
                | Inr h6 \<Rightarrow> map_option (\<lambda>r. res_bind r (\<lambda>xs. destroy_tracers xs h6)) (cbT_destroy b1)))))))"

section \<open>What it shows\<close>

definition displayed :: "out_line list \<Rightarrow> int list" where
  "displayed ls = concat (map (\<lambda>l. case l of Display_line i \<Rightarrow> [i] | _ \<Rightarrow> []) ls)"

lemmas demo_eval = emplace_all.simps new_tracer_int_def new_tracer_def new_block_def delete_block_def tracer_print_def
  destroy_tracer_def assign_tracer_def display_def show_buffer_def pop_tracer_def destroy_tracers.simps cbT_emplace_def
  mem_put_def mem_get_def cbT_append_def cb_full_def cb_increment_def cbT_pop_def cb_iterate_def cbT_destroy_def cbT_new_def

text \<open>
  The program reaches its end without undefined behaviour, shows the five objects, then the one
  popped, then the four that are left, and releases every block it took.
\<close>

lemma sanity_main_balanced:
  "\<exists>h. sanity_main \<lparr>th_next = 0, th_live = [], th_out = []\<rparr> = Some (Inr h) \<and> th_next h = 6 \<and> th_live h = []
     \<and> displayed (th_out h) = [100, 200, 300, 400, 500, 100, 200, 300, 400, 500]"
  by (simp add: sanity_main_def demo_eval cb_visit.simps cbT_destroy_from.simps displayed_def numeral_eq_Suc Let_def)

text \<open>Moving a tracer takes a new block and forgets the one of the object moved from.\<close>

lemma move_leaks_block:
  assumes "move_tracer that h = (x, that1, h1)" "tr_ptr that = Some p" "p \<in> set (th_live h)" "p < th_next h" "distinct (th_live h)"
    "destroy_tracer x h1 = Inr h2" "destroy_tracer that1 h2 = Inr h3"
  shows "p \<in> set (th_live h3) \<and> tr_ptr that1 = None"
  using assms by (auto simp: move_tracer_def new_block_def tracer_print_def destroy_tracer_def delete_block_def Let_def split: if_splits)

end
