(* ===== verification/Simple_Client.thy ===== *)
theory Simple_Client
  imports Cass_Conn_Pool
begin

text \<open>
  \<open>tutorial/cassandra_native_client\<close>: a client that calls the Cassandra driver without wrappers
  and releases the driver's objects by hand.  The driver is a parameter: the outcome of a
  connection and of a statement, its rows, the text of an error, and the memory a column's text
  points to (the text and the bytes that follow it; the driver does not end it with a NUL).  The
  host counts the driver objects that are alive.  A null pointer given to the driver, or a text
  read past what is known, is \<open>Undefined\<close>.  The 30 seconds that \<open>close\<close> sleeps are left out.
\<close>

section \<open>The driver and the host\<close>

record ('r, 'w) raw_driver =
  raw_connect :: "string \<Rightarrow> 'w \<Rightarrow> cass_error \<times> 'w"
  raw_execute :: "string \<Rightarrow> 'w \<Rightarrow> cass_error \<times> 'r list \<times> 'w"
  raw_error_desc :: "cass_error \<Rightarrow> string"
  raw_text :: "'r \<Rightarrow> nat \<Rightarrow> (string \<times> string) option"

record 'w raw_host =
  rh_world :: 'w
  rh_out :: string
  rh_statements :: nat
  rh_futures :: nat
  rh_results :: nat
  rh_iterators :: nat
  rh_clusters :: nat
  rh_sessions :: nat

text \<open>\<open>SimpleClient\<close>: whether its pointers are set.\<close>

record simple_client =
  sc_cluster :: bool
  sc_session :: bool

definition new_simple_client :: simple_client where
  "new_simple_client = \<lparr>sc_cluster = False, sc_session = False\<rparr>"

definition say :: "string \<Rightarrow> 'w raw_host \<Rightarrow> 'w raw_host" where
  "say t h = h\<lparr>rh_out := rh_out h @ t\<rparr>"

definition nl :: string where "nl = [CHR 0x0A]"

definition sc_printError :: "('r, 'w) raw_driver \<Rightarrow> cass_error \<Rightarrow> 'w raw_host \<Rightarrow> cass_error \<times> 'w raw_host" where
  "sc_printError drv error h = (error, say (raw_error_desc drv error @ nl) h)"

section \<open>The operations\<close>

text \<open>\<open>execute\<close>: the rows come with a result object only if the caller passes a place for it.\<close>

definition sc_execute ::
    "('r, 'w) raw_driver \<Rightarrow> simple_client \<Rightarrow> string \<Rightarrow> bool \<Rightarrow> 'w raw_host
       \<Rightarrow> (cass_error \<times> 'r list option \<times> 'w raw_host) res" where
  "sc_execute drv c cqlStatement wants h =
     (let h1 = say (''Executing '' @ cqlStatement @ nl) h;
          h2 = h1\<lparr>rh_statements := rh_statements h1 + 1\<rparr>
      in if \<not> sc_session c then Inl Undefined
         else case raw_execute drv (c_str cqlStatement) (rh_world h2) of (rc, rows, w1) \<Rightarrow>
           let h3 = h2\<lparr>rh_world := w1, rh_futures := rh_futures h2 + 1\<rparr>
           in if rc = CASS_OK then
                (let h4 = say (''Statement '' @ cqlStatement @ '' executed successully.'' @ nl) h3;
                     h5 = (if wants then h4\<lparr>rh_results := rh_results h4 + 1\<rparr> else h4)
                 in Inr (rc, if wants then Some rows else None,
                      h5\<lparr>rh_statements := rh_statements h5 - 1, rh_futures := rh_futures h5 - 1\<rparr>))
              else (case sc_printError drv rc h3 of (e, h4) \<Rightarrow> Inr (e, None, h4)))"

definition sc_connect ::
    "('r, 'w) raw_driver \<Rightarrow> string \<Rightarrow> simple_client \<Rightarrow> 'w raw_host \<Rightarrow> cass_error \<times> simple_client \<times> 'w raw_host" where
  "sc_connect drv nodes c h =
     (let h1 = say (''Connecting to '' @ nodes @ nl) h;
          c1 = c\<lparr>sc_cluster := True, sc_session := True\<rparr>
      in case raw_connect drv (c_str nodes) (rh_world h1) of (rc, w1) \<Rightarrow>
        let h2 = h1\<lparr>rh_world := w1, rh_clusters := rh_clusters h1 + 1, rh_sessions := rh_sessions h1 + 1,
                    rh_futures := rh_futures h1 + 1\<rparr>
        in if rc = CASS_OK then
             (let h3 = say (''Connected.'' @ nl) h2 in (rc, c1, h3\<lparr>rh_futures := rh_futures h3 - 1\<rparr>))
           else (case sc_printError drv rc h2 of (e, h3) \<Rightarrow> (e, c1, h3)))"

text \<open>Statement after statement, each overwriting the code of the one before.\<close>

fun sc_execute_all ::
    "('r, 'w) raw_driver \<Rightarrow> simple_client \<Rightarrow> string list \<Rightarrow> cass_error \<Rightarrow> 'w raw_host \<Rightarrow> (cass_error \<times> 'w raw_host) res" where
  "sc_execute_all drv c [] rc h = Inr (rc, h)"
| "sc_execute_all drv c (s # ss) rc h =
     res_bind (sc_execute drv c s False h) (\<lambda>(rc1, _, h1). sc_execute_all drv c ss rc1 h1)"

definition quoted :: "string \<Rightarrow> string" where
  "quoted s = [CHR 0x27] @ s @ [CHR 0x27]"

definition schema_statements :: "string list" where
  "schema_statements =
     [''CREATE KEYSPACE IF NOT EXISTS simplex '' @ ''WITH replication = {'' @ quoted ''class'' @ '':'' @ quoted ''SimpleStrategy''
        @ '', '' @ quoted ''replication_factor'' @ '':1};'',
      ''CREATE TABLE simplex.songs ('' @ ''id uuid PRIMARY KEY,'' @ ''title text,'' @ ''album text,'' @ ''artist text,''
        @ ''tags set<text>,'' @ ''data blob'' @ '');'',
      ''CREATE TABLE simplex.playlists ('' @ ''id uuid,'' @ ''title text,'' @ ''album text, '' @ ''artist text,''
        @ ''song_id uuid,'' @ ''PRIMARY KEY (id, title, album, artist)'' @ '');'']"

definition sc_createSchema ::
    "('r, 'w) raw_driver \<Rightarrow> simple_client \<Rightarrow> 'w raw_host \<Rightarrow> (cass_error \<times> 'w raw_host) res" where
  "sc_createSchema drv c h =
     sc_execute_all drv c schema_statements CASS_OK (say (''Creating simplex keyspace.'' @ nl) h)"

text \<open>The source is UTF-8: an accented letter is two characters of the statement.\<close>

definition data_statements :: "string list" where
  "data_statements =
     (let e_acute = [CHR 0xC3, CHR 0xA9];
          o_umlaut = [CHR 0xC3, CHR 0xB6];
          songs = ''INSERT INTO simplex.songs (id, title, album, artist, tags)'';
          playlists = ''INSERT INTO simplex.playlists (id, song_id, title, album, artist) ''
      in [songs @ ''VALUES ('' @ ''756716f7-2e54-4715-9f00-91dcbea6cf50,'' @ quoted ''La Petite Tonkinoise'' @ '',''
            @ quoted ''Bye Bye Blackbird'' @ '','' @ quoted (''Jos'' @ e_acute @ ''phine Baker'') @ '',''
            @ ''{'' @ quoted ''jazz'' @ '', '' @ quoted ''2013'' @ ''})'' @ '';'',
          songs @ ''VALUES ('' @ ''f6071e72-48ec-4fcb-bf3e-379c8a696488,'' @ quoted (''Die M'' @ o_umlaut @ ''sch'') @ '',''
            @ quoted ''In Gold'' @ '','' @ quoted ''Willi Ostermann'' @ '',''
            @ ''{'' @ quoted (''k'' @ o_umlaut @ ''lsch'') @ '', '' @ quoted ''1996'' @ '', '' @ quoted ''birds'' @ ''}'' @ '');'',
          songs @ ''VALUES ('' @ ''fbdf82ed-0063-4796-9c7c-a3d4f47b4b25,'' @ quoted ''Memo From Turner'' @ '',''
            @ quoted ''Performance'' @ '','' @ quoted ''Mick Jager'' @ '',''
            @ ''{'' @ quoted ''soundtrack'' @ '', '' @ quoted ''1991'' @ ''}'' @ '');'',
          playlists @ ''VALUES ('' @ ''2cc9ccb7-6221-4ccb-8387-f22b6a1b354d,'' @ ''756716f7-2e54-4715-9f00-91dcbea6cf50,''
            @ quoted ''La Petite Tonkinoise'' @ '','' @ quoted ''Bye Bye Blackbird'' @ '',''
            @ quoted (''Jos'' @ e_acute @ ''phine Baker'') @ '');'',
          playlists @ ''VALUES ('' @ ''2cc9ccb7-6221-4ccb-8387-f22b6a1b354d,'' @ ''f6071e72-48ec-4fcb-bf3e-379c8a696488,''
            @ quoted (''Die M'' @ o_umlaut @ ''sch'') @ '','' @ quoted ''In Gold'' @ '','' @ quoted ''Willi Ostermann'' @ '');'',
          playlists @ ''VALUES ('' @ ''3fd2bedf-a8c8-455a-a462-0cd3a4353c54,'' @ ''fbdf82ed-0063-4796-9c7c-a3d4f47b4b25,''
            @ quoted ''Memo From Turner'' @ '','' @ quoted ''Performance'' @ '','' @ quoted ''Mick Jager'' @ '');''])"

definition sc_loadData ::
    "('r, 'w) raw_driver \<Rightarrow> simple_client \<Rightarrow> 'w raw_host \<Rightarrow> (cass_error \<times> 'w raw_host) res" where
  "sc_loadData drv c h =
     sc_execute_all drv c data_statements CASS_OK (say (''Loading data into simplex keyspace.'' @ nl) h)"

text \<open>
  What \<open>cout << p\<close> prints of a column: the characters up to the first NUL from where the column's
  text starts.  A null column leaves \<open>p\<close> uninitialised.
\<close>

definition column_shown :: "('r, 'w) raw_driver \<Rightarrow> 'r \<Rightarrow> nat \<Rightarrow> string res" where
  "column_shown drv row i = (case raw_text drv row i of
     None \<Rightarrow> Inl Undefined
   | Some (v, following) \<Rightarrow> if CHR 0x00 \<in> set (v @ following) then Inr (c_str (v @ following)) else Inl Undefined)"

definition row_shown :: "('r, 'w) raw_driver \<Rightarrow> 'r \<Rightarrow> string res" where
  "row_shown drv row =
     res_bind (column_shown drv row 0) (\<lambda>title. res_bind (column_shown drv row 1) (\<lambda>artist.
     res_bind (column_shown drv row 2) (\<lambda>album.
       Inr (''title: '' @ title @ '', artist: '' @ artist @ '', album: '' @ album @ nl))))"

fun show_rows :: "('r, 'w) raw_driver \<Rightarrow> 'r list \<Rightarrow> 'w raw_host \<Rightarrow> 'w raw_host res" where
  "show_rows drv [] h = Inr h"
| "show_rows drv (row # rows) h = res_bind (row_shown drv row) (\<lambda>t. show_rows drv rows (say t h))"

text \<open>
  \<open>querySchema\<close>.  The iterator is made before the code is looked at, so a failed query gives the
  driver the null result.  The deleter runs at the end of the scope.
\<close>

definition select_statement :: string where
  "select_statement = ''SELECT title, artist, album FROM simplex.playlists ''
     @ ''WHERE id = 2cc9ccb7-6221-4ccb-8387-f22b6a1b354d;''"

definition sc_querySchema ::
    "('r, 'w) raw_driver \<Rightarrow> simple_client \<Rightarrow> 'w raw_host \<Rightarrow> (cass_error \<times> 'w raw_host) res" where
  "sc_querySchema drv c h =
     res_bind (sc_execute drv c select_statement True (say (''Querying the simplex.playlists table.'' @ nl) h))
       (\<lambda>(rc, results, h1).
          case results of None \<Rightarrow> Inl Undefined
          | Some rows \<Rightarrow>
              (let h2 = h1\<lparr>rh_iterators := rh_iterators h1 + 1\<rparr>
               in res_bind
                    (if rc = CASS_OK then
                       res_bind (show_rows drv rows
                           (say (nl @ ''Iterating select-results from querySchema......'' @ nl) h2))
                         (\<lambda>h3. let h4 = say nl h3 in Inr (h4\<lparr>rh_results := rh_results h4 - 1\<rparr>))
                     else Inr h2)
                    (\<lambda>h5. let h6 = say (''Going to release rows'' @ nl) h5
                          in Inr (rc, h6\<lparr>rh_iterators := rh_iterators h6 - 1\<rparr>))))"

text \<open>\<open>close\<close>: the future of the session's close and the session itself are never freed.\<close>

definition sc_close :: "simple_client \<Rightarrow> 'w raw_host \<Rightarrow> 'w raw_host res" where
  "sc_close c h =
     (let h1 = say (nl @ ''Closing down cluster connection.'' @ nl) h
      in if sc_session c \<and> sc_cluster c then
           Inr (h1\<lparr>rh_futures := rh_futures h1 + 1, rh_clusters := rh_clusters h1 - 1\<rparr>)
         else Inl Undefined)"

definition simple_main :: "('r, 'w) raw_driver \<Rightarrow> 'w raw_host \<Rightarrow> (int \<times> 'w raw_host) res" where
  "simple_main drv h =
     (case sc_connect drv ''172.20.12.202'' new_simple_client h of (_, client, h1) \<Rightarrow>
        res_bind (sc_createSchema drv client h1) (\<lambda>(err, h2).
        res_bind (sc_querySchema drv client (snd (sc_printError drv err h2))) (\<lambda>(err, h3).
        res_bind (sc_querySchema drv client (snd (sc_printError drv err h3))) (\<lambda>(err, h4).
        res_bind (sc_close client (snd (sc_printError drv err h4))) (\<lambda>h5. Inr (0, h5))))))"

section \<open>Facts\<close>

text \<open>What a host holds of the driver, apart from the world and the output.\<close>

definition alive :: "'w raw_host \<Rightarrow> nat list" where
  "alive h = [rh_statements h, rh_futures h, rh_results h, rh_iterators h, rh_clusters h, rh_sessions h]"

lemma alive_say [simp]: "alive (say t h) = alive h"
  by (simp add: alive_def say_def)

lemma say_fields [simp]:
  "rh_world (say t h) = rh_world h" "rh_statements (say t h) = rh_statements h" "rh_futures (say t h) = rh_futures h"
  "rh_results (say t h) = rh_results h" "rh_iterators (say t h) = rh_iterators h"
  "rh_clusters (say t h) = rh_clusters h" "rh_sessions (say t h) = rh_sessions h" "rh_out (say t h) = rh_out h @ t"
  by (simp_all add: say_def)

text \<open>A statement that fails leaves its statement and its future allocated; one that succeeds frees both.\<close>

lemma failed_execute_leaks:
  assumes "sc_execute drv c s wants h = Inr (rc, rs, h')"
  shows "rc = fst (raw_execute drv (c_str s) (rh_world h))"
    and "rh_statements h' = rh_statements h + (if rc = CASS_OK then 0 else 1)"
    and "rh_futures h' = rh_futures h + (if rc = CASS_OK then 0 else 1)"
    and "rh_results h' = rh_results h + (if rc = CASS_OK \<and> wants then 1 else 0)"
    and "rh_iterators h' = rh_iterators h" "rh_clusters h' = rh_clusters h" "rh_sessions h' = rh_sessions h"
    and "rs = (if rc = CASS_OK \<and> wants then Some (fst (snd (raw_execute drv (c_str s) (rh_world h)))) else None)"
  using assms
  by (auto simp: sc_execute_def Let_def sc_printError_def split: prod.splits if_splits)

lemma connected_execute: "sc_session c \<Longrightarrow> \<exists>r. sc_execute drv c s wants h = Inr r"
  by (auto simp: sc_execute_def Let_def split: prod.split)

text \<open>\<open>createSchema\<close> and \<open>loadData\<close> answer with the code of the last statement, whatever the earlier ones gave.\<close>

lemma execute_all_last:
  assumes "sc_execute_all drv c (ss @ [s]) rc h = Inr (rc', h')"
  shows "\<exists>h1. (\<exists>rc1. sc_execute_all drv c ss rc h = Inr (rc1, h1)) \<and> rc' = fst (raw_execute drv (c_str s) (rh_world h1))"
  using assms
proof (induction ss arbitrary: rc h)
  case Nil
  then show ?case by (auto simp: res_bind_Inr_iff dest: failed_execute_leaks(1))
next
  case (Cons s1 ss)
  then show ?case by (fastforce simp: res_bind_Inr_iff)
qed

lemma schema_code_is_last:
  assumes "sc_createSchema drv c h = Inr (rc, h')"
  shows "\<exists>w. rc = fst (raw_execute drv (c_str (last schema_statements)) w)"
proof -
  have s: "schema_statements = butlast schema_statements @ [last schema_statements]"
    by (simp add: schema_statements_def)
  obtain h1 where "sc_execute_all drv c schema_statements CASS_OK h1 = Inr (rc, h')"
    using assms by (auto simp only: sc_createSchema_def)
  then have run: "sc_execute_all drv c (butlast schema_statements @ [last schema_statements]) CASS_OK h1 = Inr (rc, h')"
    by (simp only: s [symmetric])
  show ?thesis
    using execute_all_last [OF run] by blast
qed

text \<open>A query that fails is undefined, since the iterator is made of the null result.\<close>

lemma failed_query_undefined:
  assumes "sc_session c" and "fst (raw_execute drv (c_str select_statement) (rh_world h)) \<noteq> CASS_OK"
  shows "sc_querySchema drv c h = Inl Undefined"
proof -
  obtain rc rs h1 where e: "sc_execute drv c select_statement True (say (''Querying the simplex.playlists table.'' @ nl) h)
      = Inr (rc, rs, h1)"
    using connected_execute [OF assms(1), of drv select_statement True "say (''Querying the simplex.playlists table.'' @ nl) h"]
    by auto
  have "rc \<noteq> CASS_OK"
    using failed_execute_leaks(1) [OF e] assms(2) by simp
  then have "rs = None"
    using failed_execute_leaks(8) [OF e] by simp
  then show ?thesis
    unfolding sc_querySchema_def e by simp
qed

text \<open>The rows are printed one by one in the order of the result.\<close>

lemma show_rows_in_order:
  assumes "\<And>row. row \<in> set rows \<Longrightarrow> row_shown drv row = Inr (f row)"
  shows "show_rows drv rows h = Inr (say (concat (map f rows)) h)"
  using assms by (induction rows arbitrary: h) (simp_all add: say_def)

lemma show_rows_alive: "show_rows drv rows h = Inr h' \<Longrightarrow> alive h' = alive h \<and> rh_world h' = rh_world h"
  by (induction rows arbitrary: h) (auto simp: res_bind_Inr_iff)

text \<open>A query that returns has freed everything it took.\<close>

lemma query_balanced:
  assumes "sc_querySchema drv c h = Inr (rc, h')"
  shows "rc = CASS_OK \<and> alive h' = alive h"
proof -
  obtain rs h1 where e: "sc_execute drv c select_statement True (say (''Querying the simplex.playlists table.'' @ nl) h)
      = Inr (rc, rs, h1)" and rs: "rs \<noteq> None"
    using assms by (auto simp: sc_querySchema_def res_bind_Inr_iff Let_def split: option.splits if_splits)
  note x = failed_execute_leaks [OF e]
  have ok: "rc = CASS_OK" using x(8) rs by (simp split: if_splits)
  show ?thesis
    using assms x ok unfolding sc_querySchema_def e
    by (auto simp: res_bind_Inr_iff Let_def dest!: show_rows_alive) (simp add: alive_def)
qed

text \<open>
  The program, when it returns from \<open>main\<close>, leaves the session and the future of its close
  allocated, and a statement and a future for every statement that failed (the connection's future
  too, when the connection failed).
\<close>

lemma execute_all_alive:
  assumes "sc_execute_all drv c ss rc h = Inr (rc', h')"
  shows "\<exists>k \<le> length ss. alive h' = (alive h)[0 := rh_statements h + k, 1 := rh_futures h + k]"
  using assms
proof (induction ss arbitrary: rc h)
  case Nil
  then show ?case by (simp add: alive_def)
next
  case (Cons s ss)
  obtain rc1 rs h1 where e: "sc_execute drv c s False h = Inr (rc1, rs, h1)"
    and r: "sc_execute_all drv c ss rc1 h1 = Inr (rc', h')"
    using Cons.prems by (auto simp: res_bind_Inr_iff)
  note x = failed_execute_leaks [OF e]
  obtain k where k: "k \<le> length ss" "alive h' = (alive h1)[0 := rh_statements h1 + k, 1 := rh_futures h1 + k]"
    using Cons.IH [OF r] by blast
  show ?case
    using k x by (intro exI [of _ "k + (if rc1 = CASS_OK then 0 else 1)"]) (auto simp: alive_def)
qed

theorem simple_main_leaves:
  assumes "simple_main drv h = Inr (r, h')"
  shows "\<exists>k \<le> 3. \<exists>d. d = (if fst (raw_connect drv ''172.20.12.202'' (rh_world h)) = CASS_OK then 0 else 1)
           \<and> r = 0 \<and> rh_sessions h' = rh_sessions h + 1 \<and> rh_clusters h' = rh_clusters h
           \<and> rh_results h' = rh_results h \<and> rh_iterators h' = rh_iterators h
           \<and> rh_statements h' = rh_statements h + k \<and> rh_futures h' = rh_futures h + k + d + 1"
proof -
  obtain rc c1 h1 where c: "sc_connect drv ''172.20.12.202'' new_simple_client h = (rc, c1, h1)"
    by (metis prod_cases3)
  from assms obtain e2 h2 e3 h3 e4 h4 where s: "sc_createSchema drv c1 h1 = Inr (e2, h2)"
    and q1: "sc_querySchema drv c1 (snd (sc_printError drv e2 h2)) = Inr (e3, h3)"
    and q2: "sc_querySchema drv c1 (snd (sc_printError drv e3 h3)) = Inr (e4, h4)"
    and cl: "sc_close c1 (snd (sc_printError drv e4 h4)) = Inr h'" and r: "r = 0"
    by (auto simp: simple_main_def c res_bind_Inr_iff)
  obtain k where k: "k \<le> 3" "alive h2 = (alive h1)[0 := rh_statements h1 + k, 1 := rh_futures h1 + k]"
    using execute_all_alive [OF s [unfolded sc_createSchema_def]] by (auto simp: schema_statements_def numeral_3_eq_3)
  have a: "alive h4 = alive h2"
    using query_balanced [OF q1] query_balanced [OF q2] by (simp add: sc_printError_def)
  have cs: "c_str ''172.20.12.202'' = ''172.20.12.202''"
    by (simp add: c_str_def)
  show ?thesis
    using cl k a c r
    by (intro exI [of _ k])
       (auto simp: alive_def sc_close_def sc_connect_def sc_printError_def Let_def cs split: prod.splits if_splits)
qed

end
