(* ===== verification/Demo_Programs.thy ===== *)
theory Demo_Programs
  imports Logger_Correct Grpc_Service
begin

text \<open>
  Small programs of \<open>tutorial\<close>: the greeter service and its client (\<open>lct_grpc_service\<close>,
  \<open>lct_grpc_client_helper\<close>), over the models of the gRPC wrappers and of the logger, and one thread
  of the benchmark of the logger (\<open>log_performance_test\<close>).  The generated greeter classes carry one
  string each way.  Sleeping changes nothing that is modelled.  How a thread's id is printed is a
  parameter.
\<close>

section \<open>The greeter service\<close>

text \<open>
  A line of \<open>SayHello\<close>: the date is read for the text, then the clock for the stream; neither when
  the level is off.
\<close>

definition greeter_log ::
    "host_env \<Rightarrow> nat \<Rightarrow> string \<Rightarrow> string \<Rightarrow> int \<Rightarrow> string \<Rightarrow> logger \<Rightarrow> host \<Rightarrow> (logger \<times> host) res" where
  "greeter_log env tid tid_text program_name line what l h =
     (if \<not> isLogged DEBUG l then Inr (l, h)
      else case clock_now env h of (now, h1) \<Rightarrow>
        log_at env tid program_name DEBUG ''service_main.cpp'' ''SayHello'' line
          (''Server: '' @ LctCurrentDateTime (he_time env) now @ '' '' @ tid_text @ what) l h1)"

definition SayHello ::
    "host_env \<Rightarrow> nat \<Rightarrow> string \<Rightarrow> string \<Rightarrow> string \<Rightarrow> logger \<Rightarrow> host \<Rightarrow> (bool \<times> string \<times> logger \<times> host) res" where
  "SayHello env tid tid_text program_name name l h =
     (let reply = ''Hello '' @ name
      in res_bind (greeter_log env tid tid_text program_name 40 '' receive a rpc request and going to take a nap '' l h)
           (\<lambda>(l1, h1). res_bind (greeter_log env tid tid_text program_name 42 '' receive a rpc request and waken up '' l1 h1)
           (\<lambda>(l2, h2). Inr (True, reply, l2, h2))))"

text \<open>
  \<open>main\<close> of the service.  The world is paired with what has been printed.  The codes of \<open>init\<close> and
  \<open>serve\<close> are dropped; the destructor shuts the service down.
\<close>

definition shown :: "string \<Rightarrow> 'w \<times> string \<Rightarrow> 'w \<times> string" where
  "shown t w = (fst w, snd w @ t @ [CHR 0x0A])"

definition greeter_main ::
    "('w \<times> string) grpc_lib \<Rightarrow> (grpc_service \<times> 'w \<times> string \<Rightarrow> (grpc_service \<times> 'w \<times> string) res)
       \<Rightarrow> (grpc_service \<times> 'w \<times> string \<Rightarrow> (grpc_service \<times> 'w \<times> string) res)
       \<Rightarrow> string list \<Rightarrow> 'w \<times> string \<Rightarrow> (int \<times> 'w \<times> string) res" where
  "greeter_main lib early during argv w =
     (let w1 = shown (to_string 65535) w
      in res_bind (if length argv > 1 then res_bind (std_stoi (argv ! 1)) (\<lambda>n. Inr (to_u16 n)) else Inr 50051)
           (\<lambda>servicePort.
              let serviceIp = ''0.0.0.0''
              in case grpc_init lib (new_grpc_service servicePort serviceIp) w1 of (_, instance1, w2) \<Rightarrow>
                   (let w3 = shown (''Server is going to listen on:'' @ serviceIp @ '':'' @ to_string servicePort) w2
                    in res_bind (grpc_serve lib early during True instance1 w3)
                         (\<lambda>(_, instance2, w4). Inr (0, grpc_destroy lib instance2 w4)))))"

section \<open>The greeter client\<close>

definition greeter_client_main ::
    "(string \<Rightarrow> string \<Rightarrow> string \<Rightarrow> 'w \<times> string \<Rightarrow> bool option \<times> string \<times> 'w \<times> string)
       \<Rightarrow> string list \<Rightarrow> 'w \<times> string \<Rightarrow> (int \<times> 'w \<times> string) res" where
  "greeter_client_main remoteCall argv w =
     res_bind (if length argv = 2 then res_bind (std_stoi (argv ! 1)) (\<lambda>n. Inr (to_u16 n, ''localhost''))
               else if length argv = 3 then res_bind (std_stoi (argv ! 2)) (\<lambda>n. Inr (to_u16 n, argv ! 1))
               else Inr (50051, ''localhost''))
       (\<lambda>(port, ip).
          case CallService remoteCall port ip ''world'' [] w of (_, reply, w1) \<Rightarrow>
            Inr (0, shown (''Greeter received: '' @ reply) w1))"

section \<open>The benchmark of the logger\<close>

text \<open>\<open>timestamp_now\<close>: the microseconds of the clock, unsigned.\<close>

definition timestamp_now :: "host_env \<Rightarrow> host \<Rightarrow> 64 word \<times> host" where
  "timestamp_now env h = (case clock_now env h of (now, h1) \<Rightarrow> (word_of_int (cdiv now 1000), h1))"

definition bench_text :: "int \<Rightarrow> string" where
  "bench_text i = ''Logging information Booting up lowcost Service Static Verify ......'' @ ''benchmark''
     @ to_string i @ to_string 0 @ ''K'' @ ''-42.42''"

definition bench_line :: "host_env \<Rightarrow> nat \<Rightarrow> string \<Rightarrow> elog_level \<Rightarrow> int \<Rightarrow> int \<Rightarrow> logger \<Rightarrow> host \<Rightarrow> (logger \<times> host) res" where
  "bench_line env tid program_name level line i l h =
     log_at env tid program_name level ''perf_main.cpp'' ''nanolog_benchmark'' line (bench_text i) l h"

fun bench_loop :: "host_env \<Rightarrow> nat \<Rightarrow> string \<Rightarrow> int list \<Rightarrow> logger \<Rightarrow> host \<Rightarrow> (logger \<times> host) res" where
  "bench_loop env tid program_name [] l h = Inr (l, h)"
| "bench_loop env tid program_name (i # is) l h =
     res_bind (bench_line env tid program_name WARNG 20 i l h) (\<lambda>(l1, h1).
     res_bind (bench_line env tid program_name INFOR 21 i l1 h1) (\<lambda>(l2, h2).
     res_bind (bench_line env tid program_name CRITC 22 i l2 h2) (\<lambda>(l3, h3).
       bench_loop env tid program_name is l3 h3)))"

definition nanolog_benchmark :: "host_env \<Rightarrow> nat \<Rightarrow> string \<Rightarrow> logger \<Rightarrow> host \<Rightarrow> (logger \<times> host) res" where
  "nanolog_benchmark env tid program_name l h =
     (case timestamp_now env h of (begin_at, h1) \<Rightarrow>
        res_bind (bench_loop env tid program_name [0..4999] l h1) (\<lambda>(l1, h2).
          case timestamp_now env h2 of (end_at, h3) \<Rightarrow>
            (let avg_latency = sint ((end_at - begin_at) div 15000)
             in Inr (l1, print_out ([CHR 0x09] @ ''Average lyLog Latency = '' @ to_string avg_latency @ '' nanoseconds'' @ [CHR 0x0A]) h3))))"

section \<open>Facts\<close>

text \<open>The reply is the greeting whatever the logger does.\<close>

lemma SayHello_reply:
  "SayHello env tid tt prog name l h = Inr (ok, reply, l', h') \<Longrightarrow> ok \<and> reply = ''Hello '' @ name"
  by (auto simp: SayHello_def Let_def res_bind_Inr_iff)

lemma SayHello_unlogged:
  assumes "\<not> isLogged DEBUG l"
  shows "SayHello env tid tt prog name l h = Inr (True, ''Hello '' @ name, l, h)"
  using assms by (simp add: SayHello_def greeter_log_def)

text \<open>
  Client and service together: a call that is answered by the handler, its status carried over, prints
  the greeting, for every way of giving the address.
\<close>

theorem greeter_round_trip:
  assumes "\<And>name w. \<exists>env tid tt prog l h ok reply l' h' w'. SayHello env tid tt prog name l h = Inr (ok, reply, l', h')
       \<and> remoteCall (service_addr port ip) name [] w = (Some ok, reply, w') \<and> snd w' = snd w"
    and "length argv = 1 \<and> port = 50051 \<and> ip = ''localhost''
       \<or> length argv = 2 \<and> std_stoi (argv ! 1) = Inr port \<and> 0 \<le> port \<and> port < 2 ^ 16 \<and> ip = ''localhost''
       \<or> length argv = 3 \<and> std_stoi (argv ! 2) = Inr port \<and> 0 \<le> port \<and> port < 2 ^ 16 \<and> ip = argv ! 1"
  shows "\<exists>w'. greeter_client_main remoteCall argv w = Inr (0, w') \<and> snd w' = snd w @ ''Greeter received: Hello world'' @ [CHR 0x0A]"
proof -
  obtain w1 where w1: "remoteCall (service_addr port ip) ''world'' [] w = (Some True, ''Hello world'', w1)" "snd w1 = snd w"
    using assms(1) [of "''world''" w] by (auto dest: SayHello_reply)
  have c: "CallService remoteCall port ip ''world'' [] w = (LCT_SUCCESS, ''Hello world'', w1)"
    using w1 by (simp add: CallService_def)
  have a: "(if length argv = 2 then res_bind (std_stoi (argv ! 1)) (\<lambda>n. Inr (to_u16 n, ''localhost''))
       else if length argv = 3 then res_bind (std_stoi (argv ! 2)) (\<lambda>n. Inr (to_u16 n, argv ! 1))
       else Inr (50051, ''localhost'')) = Inr (port, ip)"
    using assms(2) by (elim disjE conjE) (simp_all add: to_u16_id)
  show ?thesis
    unfolding greeter_client_main_def a by (simp add: c shown_def w1(2))
qed

text \<open>The port of the service is cut to 16 bits; a text that is no number ends the program.\<close>

lemma greeter_port_wraps: "to_u16 70000 = 4464"
  by (simp add: to_u16_def take_bit_eq_mod)

lemma greeter_bad_port: "greeter_main lib early during [prog, ''port''] w = Inl Invalid_argument"
proof -
  have "std_stoi ''port'' = Inl Invalid_argument" by (simp add: std_stoi_def strtol10_def is_space_def is_digit_def)
  then show ?thesis by (simp add: greeter_main_def)
qed

text \<open>A level that is off costs nothing: no clock is read and nothing is queued.\<close>

lemma bench_all_off:
  assumes "\<not> isLogged WARNG l" "\<not> isLogged INFOR l" "\<not> isLogged CRITC l"
  shows "bench_loop env tid prog is l h = Inr (l, h)"
  using assms by (induction "is") (simp_all add: bench_line_def log_at_def)

text \<open>
  What is printed is the mean of the microseconds, under the name of nanoseconds: with a clock that
  goes on by 30 milliseconds during the run, 2 is printed (2000 nanoseconds for each line).
\<close>

lemma latency_is_in_microseconds:
  assumes "\<not> isLogged WARNG l" "\<not> isLogged INFOR l" "\<not> isLogged CRITC l"
    and "he_now env (h_step h) = 0" "he_now env (Suc (h_step h)) = 30000000"
  shows "\<exists>h'. nanolog_benchmark env tid prog l h = Inr (l, h')
           \<and> h_out h' = h_out h @ [CHR 0x09] @ ''Average lyLog Latency = 2 nanoseconds'' @ [CHR 0x0A]"
proof -
  have "to_string 2 = ''2''" by code_simp
  moreover have "(30000 - 0) div (15000 :: 64 word) = 2" by simp
  moreover have "cdiv 30000000 1000 = (30000 :: int)" "cdiv 0 1000 = (0 :: int)" by (simp_all add: cdiv_def)
  ultimately show ?thesis
    using assms(4,5)
    by (simp add: nanolog_benchmark_def timestamp_now_def clock_now_def bench_all_off [OF assms(1-3)] print_out_def)
qed

end
