(* ===== verification/Spec2Isabelle.thy ===== *)
theory Spec2Isabelle
  imports Error_Code String_Util Circular_Buffer_Char Id_Requests_Correct Id_Main_Correct Version_Correct
    Cass_Restrain Common_Objects Id_Prep_Service Mongo_Ops_Correct Cass_Multi_Correct Cass_Programs
    Cass_Pool_Threads Cass_Objects_Correct Buffer_Demo Simple_Client Demo_Programs
begin

text \<open>
  A verification development for the \<open>lct\<close> frame, a C++11 framework of a common library, a logging
  library, wrappers around Cassandra, MongoDB and gRPC, and a service that hands out unique ids.
  Paths below are relative to \<open>src/src\<close>.

  \<^bold>\<open>The program and its parts.\<close>  The id service (\<open>service/lct_id_service\<close>) reads a properties file,
  starts the logger, opens the Cassandra helper, reads a row per id engine and serves requests over
  gRPC.  An engine hands out numbers below a valve that is saved in the database before it is passed;
  a new day starts the numbers again under a new date.  The service manager owns the RPC server and
  is stopped by a signal.  The id table tool prepares the database rows.  The version tool edits the
  version header of a branch.  Everything logs through the logger, whose lines go through a blocking
  queue to a writer thread and from there to rotating files.

  \<^bold>\<open>Conventions.\<close>  A result code is a 32-bit word (\<open>lct_err\<close>); a C++ expression that throws, blocks for
  ever or is undefined ends in a \<open>fault\<close>, so a fallible operation returns \<open>'a res\<close>.  Integers are
  \<open>int\<close> with the conversion to their width written out (\<open>to_i64\<close>, \<open>to_u16\<close>); strings are lists of
  characters, and \<open>c_str\<close> cuts at the first NUL.  An object is a record, a member function a definition
  from the record to the new record.  Libraries that are not in the repository are arguments: the
  Cassandra driver (\<open>cass_driver\<close>), the gRPC library (\<open>grpc_lib\<close>), the MongoDB driver
  (\<open>mongo_driver\<close>), \<open>localtime_r\<close> and \<open>mktime\<close> (\<open>lct_time\<close>), the file system and its failures
  (\<open>host\<close>, \<open>host_env\<close>).  What a theorem assumes of them is a locale or a named hypothesis, and every
  locale is interpreted on a definition of the development.  Code that runs under a mutex is one step;
  what runs outside is a step per shared access.

  \<^bold>\<open>The common library\<close> (\<open>common\<close>).  \<open>Prelude\<close>: codes, faults, widths, generic lemmas.
  \<open>Std_String\<close>: the members of \<open>std::string\<close> and the conversions used.  \<open>Error_Code\<close>: the codes and
  \<open>ErrCodeFormat\<close>.  \<open>String_Util\<close>: \<open>Split\<close>, \<open>Trim\<close>, \<open>Replace\<close> against their meaning on sequences.
  \<open>Fifo_Interface\<close>: the contract of a bounded queue, interpreted by \<open>Circular_Buffer\<close>,
  \<open>Circular_Buffer_Correct\<close>, \<open>Circular_Buffer_Char\<close> (the ring buffers and their block transfers, refined
  to the sequence held) and \<open>Block_Queue\<close> (the blocking queue, under any number of threads).
  \<open>Circular_Buffer_Life\<close>: the objects a buffer constructs are destroyed once and in order.
  \<open>Thread_Pool\<close>: the workers, each task run once and in order, and shutdown that ends.
  \<open>Common_Util\<close>: hex coding and the calendar.  \<open>Lct_Time\<close>: the time singleton, with \<open>strftime\<close>,
  \<open>gmtime_r\<close> and \<open>strptime\<close> as far as used.  \<open>File_Helper\<close>: files over a host that may fail.
  \<open>Properties_File\<close>: the configuration reader and what a written file reads back as.
  \<open>Common_Objects\<close>: the singleton, the reader-writer lock, the in-process id generator, tuple access.

  \<^bold>\<open>Logging\<close> (\<open>log\<close>).  \<open>Log_Format\<close>: stream and formatters.  \<open>Log_Sink\<close>, \<open>Log_Sink_Correct\<close>: the sinks;
  the files of the daily rotating sink hold the newest messages in order and refine an abstract list
  of files.  \<open>Logger\<close>, \<open>Logger_Correct\<close>: levels, pool, logger and macros; lines reach the files in the
  order in which they were logged.

  \<^bold>\<open>Wrappers\<close> (\<open>wrapper\<close>).  \<open>Cass_Conn_Pool\<close>, \<open>Cass_Helper\<close>, \<open>Cass_Query\<close>: sessions by keyspace, paging
  states, statements, batches, pages and parallel queries; \<open>Cass_Batch_Correct\<close>: a batch executes a
  prefix of its statements in order; \<open>Cass_Page_Correct\<close>: pages deliver all rows once;
  \<open>Cass_Multi_Correct\<close>: parallel queries end and deliver the rows of every future once;
  \<open>Cass_Programs\<close>: programs of calls of the helper never reach undefined behaviour and keep it well
  formed, under two rules for batches that are shown to be needed;
  \<open>Cass_Pool_Threads\<close>: the pool under threads with the shared guard it takes, what holds of every
  interleaving without a race, and the race; \<open>Cass_Objects\<close>, \<open>Cass_Objects_Correct\<close>: the release
  functions, and the pool with the owners of its sessions and clusters, which frees nothing twice and
  nothing that is in use, refines the pool of values, and never frees a session;
  \<open>Cass_Reference\<close>: two reference servers that interpret the driver locales; \<open>Cass_Restrain\<close>: the bound
  on the requests under way.  \<open>Grpc_Service\<close>: settings, server, serve and shutdown.  \<open>Mongo_Helper\<close>,
  \<open>Mongo_Correct\<close>, \<open>Mongo_Ops_Correct\<close>: connection pools by server, made once under any interleaving;
  operations that give back what they borrow; updates that execute a prefix.

  \<^bold>\<open>The id service\<close> (\<open>service/lct_id_service\<close>).  \<open>Id_Engine\<close>: \<open>spawnId\<close>, \<open>daySwitch\<close>, \<open>reallocValve\<close>,
  \<open>readPersistance\<close>, \<open>persist\<close> over an environment of a clock and a data source.  \<open>Id_Engine_Correct\<close>:
  the laws of that environment (\<open>day_clock\<close>, \<open>id_table\<close>), uniqueness within a life and across a
  restart.  \<open>Id_Data_Source\<close>: the CQL sent, and a table that interprets the laws.  \<open>Id_Unique\<close>: the
  properties, and how a failed save or query loses them.  \<open>Id_Engine_Threads\<close>, \<open>Id_Threads_Correct\<close>: one
  step per shared access, exclusion, uniqueness within a day, agreement with the sequential code.
  \<open>Id_Requests\<close>, \<open>Id_Requests_Correct\<close>: the server's threads, each with its request, over all engines
  and one data source: no id twice within a day, no request shut out, and one request at a time the
  replies are those of the sequential model.
  \<open>Id_Manager\<close>: engines by seed and the remote procedures.  \<open>Id_Service\<close>, \<open>Id_Service_Correct\<close>,
  \<open>Id_Main_Correct\<close>: configuration, service manager and \<open>main\<close>; replies that never repeat, and a program
  that serves until it is signalled.

  \<^bold>\<open>Tools\<close>.  \<open>Version_Manager\<close>, \<open>Version_Correct\<close> (\<open>version\<close>): a forced version is what the next start
  reads.  \<open>Id_Table_Prep\<close> (\<open>tool/lct_id_table_prep\<close>): the statements sent, in order.  \<open>Id_Prep_Service\<close>:
  the tool and the service together over a database that does what CQL says (the locale
  \<open>id_database\<close>): the service answers as one counter per seed, from 0 after the tool, and after a
  restart from the numbers reserved.

  \<^bold>\<open>Tutorials\<close> (\<open>tutorial\<close>).  \<open>Buffer_Demo\<close>: the circular buffer's sanity test, with the blocks its
  objects own.  \<open>Simple_Client\<close>: the client of the bare Cassandra driver, with the driver objects it
  leaves allocated.  \<open>Demo_Programs\<close>: the greeter service and client, which meet in a round trip, and a
  thread of the logger's benchmark.

  \<^bold>\<open>Bounds and fuel.\<close>  Loops are structural recursion or have a measure; those that may run for ever
  (\<open>cb_visit\<close>, \<open>cbT_destroy_from\<close>, \<open>poll_all\<close>) are partial functions, where \<open>None\<close> is no end, and the
  theorems about them give the result.  No definition takes fuel.  Hypotheses on sizes keep counters
  within their width: ids and message lengths below \<open>2 ^ 62\<close> or \<open>2 ^ 63\<close>, dates within 32 bits.  A
  blocking call is a step that is not enabled.

  \<^bold>\<open>What is not modelled.\<close>  Third-party code (parameters where it is called), generated protobuf
  classes (the fields the service sets are records), build files, the
  start of the benchmark on twenty threads, and the file
  \<open>id_day_switch_engine.inl\<close>, which no file includes.  Members of templates that cannot be
  instantiated have no behaviour: \<open>popN\<close> and \<open>reallocate\<close> of the generic ring buffer,
  \<open>add2Collection\<close> and \<open>removeFromCollection\<close> of the MongoDB helper, the general \<open>write\<close> of the file
  helper with its \<open>writeTextValue\<close>.  Log lines of the service, the
  wrappers and the tools are left out of their models.  Allocation never fails.  The statements,
  futures, results and batches of the Cassandra helper are values: only the pool's objects and those of
  the tutorial's client are tracked to their release.
\<close>

end
